(* ===== verification/Prelude.thy ===== *)
theory Prelude
  imports "HOL-Library.Word"
begin

text \<open>
  What every component of the model shares: the C types (bytes, machine integers and their
  limits, strings), the allocator, and the generic lemmas on lists and words that the
  component proofs use.

  A \<open>const char *\<close> together with a length, and a NUL-terminated string without its
  terminator, are both a list of bytes. A pointer that may be NULL is an \<open>option\<close>.
  A \<open>size_t\<close> is a \<open>nat\<close> with the limit \<open>SIZE_MAX\<close> written out where the code checks it;
  \<open>uint32_t\<close> and \<open>uint64_t\<close> values are words where the code computes with them.
\<close>

unbundle bit_operations_syntax

text \<open>
  The collections of the development: \<open>builds_intros\<close> are the introduction rules for the
  steps of building a request body.
\<close>

named_theorems builds_intros

section \<open>Machine types\<close>

type_synonym byte = "8 word"
type_synonym bytes = "8 word list"
type_synonym u32 = "32 word"
type_synonym u64 = "64 word"

definition SIZE_MAX :: nat where
  "SIZE_MAX = 18446744073709551615"

definition UINT32_MAX :: u32 where
  "UINT32_MAX = 0xFFFFFFFF"

definition UINT64_MAX :: u64 where
  "UINT64_MAX = 0xFFFFFFFFFFFFFFFF"

text \<open>A string literal of the source, as bytes.\<close>

definition lit :: "string \<Rightarrow> bytes" where
  "lit s = map of_char s"

lemma lit_simps [simp]:
  "lit [] = []"
  "lit (c # s) = of_char c # lit s"
  by (simp_all add: lit_def)

lemma length_lit [simp]: "length (lit s) = length s"
  by (simp add: lit_def)

text \<open>\<open>strlen\<close> and the string itself: a region of memory is read up to its first NUL.\<close>

definition cstr :: "bytes \<Rightarrow> bytes" where
  "cstr s = takeWhile (\<lambda>b. b \<noteq> 0) s"

definition strlen :: "bytes \<Rightarrow> nat" where
  "strlen s = length (cstr s)"

lemma cstr_no_nul [simp]: "0 \<notin> set (cstr s)"
  by (auto simp: cstr_def dest: set_takeWhileD)

lemma cstr_id: "0 \<notin> set s \<Longrightarrow> cstr s = s"
  by (auto simp: cstr_def takeWhile_eq_all_conv)

lemma cstr_cstr [simp]: "cstr (cstr s) = cstr s"
  by (simp add: cstr_id)

lemma strlen_le: "strlen s \<le> length s"
  by (simp add: strlen_def cstr_def length_takeWhile_le)

lemma take_strlen: "take (strlen s) s = cstr s"
  by (simp add: strlen_def cstr_def takeWhile_eq_take [symmetric])

text \<open>A string or, for NULL, the empty one.\<close>

definition opt_bytes :: "bytes option \<Rightarrow> bytes" where
  "opt_bytes s = (case s of None \<Rightarrow> [] | Some s \<Rightarrow> s)"

section \<open>The allocator\<close>

text \<open>
  Whether a call to \<open>malloc\<close>, \<open>calloc\<close> or \<open>realloc\<close> succeeds is decided by the
  environment. \<open>mem\<close> is the list of the outcomes of the coming calls, in the order in which
  the code makes them; when the list is used up every further call succeeds. So the empty
  list is an environment with enough memory, and a finite list describes any execution in
  which allocations fail at any points.
\<close>

type_synonym mem = "bool list"

fun alloc :: "mem \<Rightarrow> bool \<times> mem" where
  "alloc [] = (True, [])"
| "alloc (ok # m) = (ok, m)"

definition all_ok :: "mem \<Rightarrow> bool" where
  "all_ok m \<longleftrightarrow> (\<forall>ok \<in> set m. ok)"

lemma all_ok_Nil [simp]: "all_ok []"
  by (simp add: all_ok_def)

lemma alloc_ok [simp]: "all_ok m \<Longrightarrow> fst (alloc m)"
  by (cases m) (auto simp: all_ok_def)

lemma all_ok_alloc: "all_ok m \<Longrightarrow> alloc m = (ok, m') \<Longrightarrow> ok \<and> all_ok m'"
  by (cases m) (auto simp: all_ok_def)

section \<open>Writing into a block of memory\<close>

text \<open>
  \<open>poke xs i bs\<close> is the initialised prefix \<open>xs\<close> of a block after \<open>memcpy\<close> of \<open>bs\<close>
  to offset \<open>i\<close> (the bytes of the block after the prefix are not initialised yet).
\<close>

definition poke :: "bytes \<Rightarrow> nat \<Rightarrow> bytes \<Rightarrow> bytes" where
  "poke xs i bs = take i xs @ bs @ drop (i + length bs) xs"

lemma take_poke [simp]: "n \<le> i \<Longrightarrow> i \<le> length xs \<Longrightarrow> take n (poke xs i bs) = take n xs"
  by (simp add: poke_def min_def)

lemma take_poke_all: "i \<le> length xs \<Longrightarrow> take (i + length bs) (poke xs i bs) = take i xs @ bs"
  by (simp add: poke_def)

lemma length_poke: "i \<le> length xs \<Longrightarrow> length (poke xs i bs) = max (length xs) (i + length bs)"
  by (simp add: poke_def)

lemma poke_not_Nil [simp]: "bs \<noteq> [] \<Longrightarrow> poke xs i bs \<noteq> []"
  by (simp add: poke_def)

lemma nth_poke_single: "i \<le> length xs \<Longrightarrow> poke xs i [b] ! i = b"
  by (simp add: poke_def nth_append)

section \<open>Lists\<close>

lemma map_le_set_take: "set (take n xs) \<subseteq> set xs"
  by (rule set_take_subset)

text \<open>Joining a list of lists with a separator.\<close>

fun join_with :: "'a \<Rightarrow> 'a list list \<Rightarrow> 'a list" where
  "join_with c [] = []"
| "join_with c [x] = x"
| "join_with c (x # y # xs) = x @ c # join_with c (y # xs)"

lemma join_with_snoc: "xs \<noteq> [] \<Longrightarrow> join_with c (xs @ [y]) = join_with c xs @ c # y"
  by (induction c xs rule: join_with.induct) auto

end
