(* ===== verification/Status.thy ===== *)
theory Status
  imports Prelude
begin

text \<open>
  The status codes, error classes, finish reasons and transport statuses of
  \<open>include/sicha.h\<close> and their strings (\<open>src/status.c\<close>). In C all of them are \<open>int32_t\<close>, so a
  value that is none of the named ones can arrive (from a transport or from the
  caller): the last constructor of each datatype stands for such a value.
\<close>

section \<open>Codes\<close>

datatype sicha_status =
    SICHA_OK
  | SICHA_E_INVALID_ARG
  | SICHA_E_NOMEM
  | SICHA_E_ABORTED
  | SICHA_E_EXHAUSTED
  | SICHA_E_CANCELLED
  | SICHA_E_STREAM_LOST
  | SICHA_INT_E_TOOBIG
  | SICHA_STATUS_OTHER int

datatype sicha_error_class =
    SICHA_CLASS_NONE
  | SICHA_CLASS_ABORT
  | SICHA_CLASS_RETRY_SAME
  | SICHA_CLASS_ADVANCE
  | SICHA_CLASS_CANCELLED
  | SICHA_CLASS_VALIDATION
  | SICHA_CLASS_OTHER int

datatype sicha_finish_reason =
    SICHA_FINISH_UNKNOWN
  | SICHA_FINISH_STOP
  | SICHA_FINISH_LENGTH
  | SICHA_FINISH_TOOL_CALLS
  | SICHA_FINISH_CONTENT_FILTER
  | SICHA_FINISH_OTHER int

datatype sicha_transport_status =
    SICHA_T_OK
  | SICHA_T_E_CONNECT
  | SICHA_T_E_TLS
  | SICHA_T_E_TIMEOUT_CONNECT
  | SICHA_T_E_TIMEOUT_FIRST_BYTE
  | SICHA_T_E_TIMEOUT_IDLE
  | SICHA_T_E_TIMEOUT_TOTAL
  | SICHA_T_E_RESET
  | SICHA_T_E_ABORTED_BY_SINK
  | SICHA_T_E_CANCELLED
  | SICHA_T_E_PROTOCOL
  | SICHA_T_E_NOMEM
  | SICHA_T_E_OTHER
  | SICHA_T_UNKNOWN int

text \<open>Policy and request flags, and the sentinels of the 32-bit policy fields.\<close>

definition SICHA_INFINITE :: u32 where
  "SICHA_INFINITE = 0xFFFFFFFF"

definition SICHA_DISABLED :: u32 where
  "SICHA_DISABLED = 0xFFFFFFFF"

definition SICHA_LEN_CSTR :: nat where
  "SICHA_LEN_CSTR = SIZE_MAX"

definition SICHA_EXCERPT_MAX :: nat where
  "SICHA_EXCERPT_MAX = 2048"

section \<open>Strings\<close>

definition sicha_version :: u32 where
  "sicha_version = (push_bit 16 0 OR push_bit 8 1) OR 0"

definition sicha_version_str :: bytes where
  "sicha_version_str = lit ''0'' @ lit ''.'' @ lit ''1'' @ lit ''.'' @ lit ''0''"

fun sicha_status_str :: "sicha_status \<Rightarrow> bytes" where
  "sicha_status_str SICHA_OK = lit ''ok''"
| "sicha_status_str SICHA_E_INVALID_ARG = lit ''invalid argument''"
| "sicha_status_str SICHA_E_NOMEM = lit ''out of memory''"
| "sicha_status_str SICHA_E_ABORTED = lit ''aborted (non-retryable upstream error)''"
| "sicha_status_str SICHA_E_EXHAUSTED = lit ''all backends exhausted''"
| "sicha_status_str SICHA_E_CANCELLED = lit ''cancelled''"
| "sicha_status_str SICHA_E_STREAM_LOST = lit ''stream lost after partial delivery''"
| "sicha_status_str _ = lit ''unknown status''"

fun sicha_error_class_str :: "sicha_error_class \<Rightarrow> bytes" where
  "sicha_error_class_str SICHA_CLASS_NONE = lit ''none''"
| "sicha_error_class_str SICHA_CLASS_ABORT = lit ''abort''"
| "sicha_error_class_str SICHA_CLASS_RETRY_SAME = lit ''retry-same''"
| "sicha_error_class_str SICHA_CLASS_ADVANCE = lit ''advance''"
| "sicha_error_class_str SICHA_CLASS_CANCELLED = lit ''cancelled''"
| "sicha_error_class_str SICHA_CLASS_VALIDATION = lit ''validation''"
| "sicha_error_class_str _ = lit ''unknown class''"

fun sicha_finish_reason_str :: "sicha_finish_reason \<Rightarrow> bytes" where
  "sicha_finish_reason_str SICHA_FINISH_UNKNOWN = lit ''unknown''"
| "sicha_finish_reason_str SICHA_FINISH_STOP = lit ''stop''"
| "sicha_finish_reason_str SICHA_FINISH_LENGTH = lit ''length''"
| "sicha_finish_reason_str SICHA_FINISH_TOOL_CALLS = lit ''tool_calls''"
| "sicha_finish_reason_str SICHA_FINISH_CONTENT_FILTER = lit ''content_filter''"
| "sicha_finish_reason_str _ = lit ''unknown''"

fun sicha_transport_status_str :: "sicha_transport_status \<Rightarrow> bytes" where
  "sicha_transport_status_str SICHA_T_OK = lit ''ok''"
| "sicha_transport_status_str SICHA_T_E_CONNECT = lit ''connection failed''"
| "sicha_transport_status_str SICHA_T_E_TLS = lit ''TLS failure''"
| "sicha_transport_status_str SICHA_T_E_TIMEOUT_CONNECT = lit ''connect timeout''"
| "sicha_transport_status_str SICHA_T_E_TIMEOUT_FIRST_BYTE = lit ''first-byte timeout''"
| "sicha_transport_status_str SICHA_T_E_TIMEOUT_IDLE = lit ''idle timeout''"
| "sicha_transport_status_str SICHA_T_E_TIMEOUT_TOTAL = lit ''total timeout''"
| "sicha_transport_status_str SICHA_T_E_RESET = lit ''connection reset''"
| "sicha_transport_status_str SICHA_T_E_ABORTED_BY_SINK = lit ''aborted by sink''"
| "sicha_transport_status_str SICHA_T_E_CANCELLED = lit ''cancelled''"
| "sicha_transport_status_str SICHA_T_E_PROTOCOL = lit ''protocol error''"
| "sicha_transport_status_str SICHA_T_E_NOMEM = lit ''out of memory''"
| "sicha_transport_status_str SICHA_T_E_OTHER = lit ''transport error''"
| "sicha_transport_status_str (SICHA_T_UNKNOWN _) = lit ''unknown transport status''"

lemma sicha_version_value: "sicha_version = 0x000100"
  by (simp add: sicha_version_def)

end
