(* ===== verification/Buf.thy ===== *)
theory Buf
  imports Status
begin

text \<open>
  The growable byte buffer of \<open>src/buf.c\<close>: checked growth, an optional length cap, sticky
  errors and a NUL after the content. The block a buffer owns is its initialised prefix,
  so that the NUL is a byte of the model and not an assumption.
\<close>

section \<open>The buffer and its operations\<close>

record sicha_buf =
  buf_data :: "bytes option"
  buf_len :: nat
  buf_cap :: nat
  buf_max_len :: nat
  buf_err :: sicha_status

definition sicha_buf_init :: "nat \<Rightarrow> sicha_buf" where
  "sicha_buf_init max_len =
     \<lparr>buf_data = None, buf_len = 0, buf_cap = 0, buf_max_len = max_len, buf_err = SICHA_OK\<rparr>"

definition sicha_buf_free :: "sicha_buf \<Rightarrow> sicha_buf" where
  "sicha_buf_free b = sicha_buf_init (buf_max_len b)"

definition sicha_buf_status :: "sicha_buf \<Rightarrow> sicha_status" where
  "sicha_buf_status b = buf_err b"

text \<open>
  The doubling loop of \<open>buf_reserve\<close>. It starts at 64 or at a capacity that is not 0, so
  the first conjunct of the guard always holds; it makes the function total.
\<close>

function grow_cap :: "nat \<Rightarrow> nat \<Rightarrow> nat" where
  "grow_cap cap want =
     (if 0 < cap \<and> cap < want
      then if SIZE_MAX div 2 < cap then want else grow_cap (cap * 2) want
      else cap)"
  by pat_completeness auto
termination
  by (relation "measure (\<lambda>(cap, want). want - cap)") auto

declare grow_cap.simps [simp del]

definition block :: "sicha_buf \<Rightarrow> bytes" where
  "block b = (case buf_data b of None \<Rightarrow> [] | Some d \<Rightarrow> d)"

definition buf_reserve :: "sicha_buf \<Rightarrow> nat \<Rightarrow> mem \<Rightarrow> bool \<times> sicha_buf \<times> mem" where
  "buf_reserve b need m =
     (if buf_err b \<noteq> SICHA_OK then (False, b, m)
      else if SIZE_MAX - buf_len b < need then (False, b\<lparr>buf_err := SICHA_E_NOMEM\<rparr>, m)
      else
        let want = buf_len b + need in
        if buf_max_len b \<noteq> 0 \<and> buf_max_len b < want
        then (False, b\<lparr>buf_err := SICHA_INT_E_TOOBIG\<rparr>, m)
        else if buf_data b \<noteq> None \<and> want \<le> buf_cap b then (True, b, m)
        else
          let cap = grow_cap (if buf_cap b = 0 then 64 else buf_cap b) want in
          if cap = SIZE_MAX then (False, b\<lparr>buf_err := SICHA_E_NOMEM\<rparr>, m)
          else
            let (ok, m') = alloc m in
            if \<not> ok then (False, b\<lparr>buf_err := SICHA_E_NOMEM\<rparr>, m')
            else (True, b\<lparr>buf_data := Some (poke (block b) (buf_len b) [0]), buf_cap := cap\<rparr>, m'))"

definition sicha_buf_append :: "sicha_buf \<Rightarrow> bytes \<Rightarrow> mem \<Rightarrow> sicha_buf \<times> mem" where
  "sicha_buf_append b bs m =
     (if bs = [] then (let (_, b', m') = buf_reserve b 0 m in (b', m'))
      else
        let (ok, b', m') = buf_reserve b (length bs) m in
        if \<not> ok then (b', m')
        else
          let d = poke (block b') (buf_len b') bs; n = buf_len b' + length bs in
          (b'\<lparr>buf_data := Some (poke d n [0]), buf_len := n\<rparr>, m'))"

definition sicha_buf_append_cstr :: "sicha_buf \<Rightarrow> bytes \<Rightarrow> mem \<Rightarrow> sicha_buf \<times> mem" where
  "sicha_buf_append_cstr b s m = sicha_buf_append b (take (strlen s) s) m"

definition sicha_buf_append_ch :: "sicha_buf \<Rightarrow> byte \<Rightarrow> mem \<Rightarrow> sicha_buf \<times> mem" where
  "sicha_buf_append_ch b ch m = sicha_buf_append b [ch] m"

definition sicha_buf_reset :: "sicha_buf \<Rightarrow> sicha_buf" where
  "sicha_buf_reset b =
     b\<lparr>buf_len := 0,
       buf_data := (case buf_data b of None \<Rightarrow> None | Some d \<Rightarrow> Some (poke d 0 [0]))\<rparr>"

text \<open>
  \<open>sicha_buf_take\<close> returns the detached block and the length, or NULL; the buffer is
  re-initialised, except after a failed \<open>buf_reserve\<close>, which leaves its sticky error.
\<close>

definition sicha_buf_take :: "sicha_buf \<Rightarrow> mem \<Rightarrow> bytes option \<times> nat \<times> sicha_buf \<times> mem" where
  "sicha_buf_take b m =
     (if buf_err b \<noteq> SICHA_OK then (None, 0, sicha_buf_free b, m)
      else
        let (ok, b', m') = (if buf_data b = None then buf_reserve b 0 m else (True, b, m)) in
        if \<not> ok then (None, 0, b', m')
        else (buf_data b', buf_len b', sicha_buf_init (buf_max_len b'), m'))"

section \<open>The content, and the invariant\<close>

text \<open>The content is what the block holds below \<open>len\<close>.\<close>

definition buf_bytes :: "sicha_buf \<Rightarrow> bytes" where
  "buf_bytes b = take (buf_len b) (block b)"

definition buf_wf :: "sicha_buf \<Rightarrow> bool" where
  "buf_wf b \<longleftrightarrow>
     (case buf_data b of
        None \<Rightarrow> buf_len b = 0 \<and> buf_cap b = 0
      | Some d \<Rightarrow> buf_len b < length d \<and> length d \<le> buf_cap b + 1 \<and> d ! buf_len b = 0
          \<and> 0 < buf_cap b \<and> buf_cap b < SIZE_MAX)
     \<and> (buf_max_len b \<noteq> 0 \<longrightarrow> buf_len b \<le> buf_max_len b)"

lemma buf_wf_init [simp]: "buf_wf (sicha_buf_init k)"
  by (simp add: buf_wf_def sicha_buf_init_def)

lemma buf_init_simps [simp]:
  "buf_bytes (sicha_buf_init k) = []"
  "buf_err (sicha_buf_init k) = SICHA_OK"
  "buf_max_len (sicha_buf_init k) = k"
  "buf_len (sicha_buf_init k) = 0"
  by (simp_all add: buf_bytes_def sicha_buf_init_def)

lemma buf_wf_len: "buf_wf b \<Longrightarrow> buf_len b < SIZE_MAX"
  by (auto simp: buf_wf_def SIZE_MAX_def split: option.splits)

lemma buf_len_bytes: "buf_wf b \<Longrightarrow> length (buf_bytes b) = buf_len b"
  by (auto simp: buf_wf_def buf_bytes_def block_def split: option.splits)

lemma grow_cap_bounds:
  assumes "0 < cap" "cap < SIZE_MAX" "want < SIZE_MAX"
  shows "want \<le> grow_cap cap want \<and> cap \<le> grow_cap cap want \<and> grow_cap cap want < SIZE_MAX"
  using assms
proof (induction cap want rule: grow_cap.induct)
  case (1 cap want)
  show ?case
  proof (cases "cap < want \<and> cap \<le> SIZE_MAX div 2")
    case True
    then have "cap * 2 < SIZE_MAX" by (auto simp: SIZE_MAX_def)
    with 1 True show ?thesis by (simp add: grow_cap.simps [of cap want])
  next
    case False
    with 1 show ?thesis by (auto simp: grow_cap.simps [of cap want])
  qed
qed

text \<open>A request for all of \<open>SIZE_MAX\<close> is answered with \<open>SIZE_MAX\<close>, which the caller refuses.\<close>

lemma grow_cap_SIZE_MAX: "0 < cap \<Longrightarrow> cap < SIZE_MAX \<Longrightarrow> grow_cap cap SIZE_MAX = SIZE_MAX"
proof (induction "SIZE_MAX - cap" arbitrary: cap rule: less_induct)
  case less
  show ?case
  proof (cases "cap \<le> SIZE_MAX div 2")
    case True
    then have "cap * 2 < SIZE_MAX" by (auto simp: SIZE_MAX_def)
    with less True show ?thesis by (simp add: grow_cap.simps [of cap])
  next
    case False
    with less show ?thesis by (simp add: grow_cap.simps [of cap])
  qed
qed

text \<open>At most one byte less than twice what is wanted, or the 64 bytes of a first block.\<close>

lemma grow_cap_tight:
  assumes "0 < cap" "cap < want" "want < SIZE_MAX"
  shows "grow_cap cap want < 2 * want"
  using assms
proof (induction cap want rule: grow_cap.induct)
  case (1 cap want)
  show ?case
  proof (cases "cap \<le> SIZE_MAX div 2 \<and> cap * 2 < want")
    case True
    with 1 show ?thesis by (simp add: grow_cap.simps [of cap want])
  next
    case False
    with 1 show ?thesis
      by (auto simp: grow_cap.simps [of cap want] grow_cap.simps [of "cap * 2" want])
  qed
qed

section \<open>What the operations do\<close>

lemma buf_reserve_True:
  assumes "buf_wf b" and r: "buf_reserve b need m = (True, b', m')"
  shows "buf_err b = SICHA_OK" "buf_err b' = SICHA_OK" "buf_wf b'" "buf_bytes b' = buf_bytes b"
    "buf_len b' = buf_len b" "buf_max_len b' = buf_max_len b" "buf_data b' \<noteq> None"
    "buf_len b + need \<le> buf_cap b'"
    "buf_max_len b \<noteq> 0 \<Longrightarrow> buf_len b + need \<le> buf_max_len b"
    "all_ok m \<Longrightarrow> all_ok m'"
proof -
  let ?c = "if buf_cap b = 0 then 64 else buf_cap b" and ?w = "buf_len b + need"
  let ?g = "grow_cap ?c ?w"
  have c: "0 < ?c" "?c < SIZE_MAX" and l: "buf_len b \<le> length (block b)"
    "length (block b) \<le> ?c + 1"
    using assms(1) by (auto simp: buf_wf_def block_def SIZE_MAX_def split: option.splits)
  have room: "?w \<le> SIZE_MAX" if "buf_err b = SICHA_OK"
    using r that assms(1)
    by (auto simp: buf_reserve_def buf_wf_def SIZE_MAX_def split: if_splits option.splits)
  have g: "?w \<le> ?g \<and> ?c \<le> ?g \<and> ?g < SIZE_MAX" if "?w \<le> SIZE_MAX" "?g \<noteq> SIZE_MAX"
  proof -
    from that have "?w < SIZE_MAX"
      using grow_cap_SIZE_MAX [OF c] by (cases "?w = SIZE_MAX") auto
    with c show ?thesis by (rule grow_cap_bounds)
  qed
  show "buf_err b = SICHA_OK"
    using r by (auto simp: buf_reserve_def split: if_splits)
  note ok = this
  show "buf_err b' = SICHA_OK" "buf_len b' = buf_len b" "buf_max_len b' = buf_max_len b"
    "buf_data b' \<noteq> None" "buf_max_len b \<noteq> 0 \<Longrightarrow> buf_len b + need \<le> buf_max_len b"
    "all_ok m \<Longrightarrow> all_ok m'"
    using r ok by (auto simp: buf_reserve_def Let_def split: if_splits prod.splits dest: all_ok_alloc)
  show "buf_bytes b' = buf_bytes b"
    using r l by (auto simp: buf_reserve_def Let_def buf_bytes_def block_def
        split: if_splits prod.splits option.splits)
  show "buf_wf b'" "buf_len b + need \<le> buf_cap b'"
    using r l g c room [OF ok] assms(1)
    by (auto simp: buf_reserve_def Let_def buf_wf_def block_def length_poke nth_poke_single
        split: if_splits prod.splits option.splits)
qed

text \<open>A failed reservation changes nothing but the sticky error.\<close>

lemma buf_reserve_False:
  assumes "buf_reserve b need m = (False, b', m')"
  shows "b' = b\<lparr>buf_err := buf_err b'\<rparr>" "buf_err b' \<noteq> SICHA_OK"
    "buf_err b \<noteq> SICHA_OK \<Longrightarrow> buf_err b' = buf_err b \<and> m' = m"
    "buf_err b = SICHA_OK \<Longrightarrow> buf_err b' =
       (if \<not> SIZE_MAX - buf_len b < need \<and> buf_max_len b \<noteq> 0
             \<and> buf_max_len b < buf_len b + need
        then SICHA_INT_E_TOOBIG else SICHA_E_NOMEM)"
    "all_ok m \<Longrightarrow> all_ok m'"
  using assms
  by (auto simp: buf_reserve_def Let_def split: if_splits prod.splits dest: all_ok_alloc)

text \<open>With enough memory the only failures are the cap and the end of the address space.\<close>

lemma buf_reserve_succeeds:
  assumes "buf_wf b" "all_ok m" "buf_err b = SICHA_OK" "buf_len b + need < SIZE_MAX"
    "buf_max_len b \<noteq> 0 \<Longrightarrow> buf_len b + need \<le> buf_max_len b"
  shows "fst (buf_reserve b need m)"
proof -
  let ?c = "if buf_cap b = 0 then 64 else buf_cap b"
  have "0 < ?c" "?c < SIZE_MAX"
    using assms(1) by (auto simp: buf_wf_def SIZE_MAX_def split: option.splits)
  then have "grow_cap ?c (buf_len b + need) < SIZE_MAX"
    using assms(4) grow_cap_bounds by blast
  then show ?thesis
    using assms by (auto simp: buf_reserve_def Let_def split: prod.splits dest: all_ok_alloc)
qed

text \<open>The promise of the buffer, in terms of the bytes it holds, its limit and its error.\<close>

record abs_buf =
  ab_bytes :: bytes
  ab_limit :: nat
  ab_err :: sicha_status

definition buf_abs :: "sicha_buf \<Rightarrow> abs_buf" where
  "buf_abs b = \<lparr>ab_bytes = buf_bytes b, ab_limit = buf_max_len b, ab_err = buf_err b\<rparr>"

text \<open>
  Appending to a sequence of bytes with a limit; \<open>mem\<close> tells whether memory was to be had.
\<close>

definition abs_append :: "bool \<Rightarrow> abs_buf \<Rightarrow> bytes \<Rightarrow> abs_buf" where
  "abs_append mem a bs =
     (if ab_err a \<noteq> SICHA_OK then a
      else if SIZE_MAX < length (ab_bytes a) + length bs then a\<lparr>ab_err := SICHA_E_NOMEM\<rparr>
      else if ab_limit a \<noteq> 0 \<and> ab_limit a < length (ab_bytes a) + length bs
      then a\<lparr>ab_err := SICHA_INT_E_TOOBIG\<rparr>
      else if mem then a\<lparr>ab_bytes := ab_bytes a @ bs\<rparr>
      else a\<lparr>ab_err := SICHA_E_NOMEM\<rparr>)"

text \<open>An append is a reservation and, if it succeeds, one write with the NUL after it.\<close>

definition buf_write :: "sicha_buf \<Rightarrow> bytes \<Rightarrow> sicha_buf" where
  "buf_write b bs =
     (let n = buf_len b + length bs in
      b\<lparr>buf_data := Some (poke (poke (block b) (buf_len b) bs) n [0]), buf_len := n\<rparr>)"

lemma sicha_buf_append_eq:
  "buf_reserve b (length bs) m = (ok, b1, m1) \<Longrightarrow>
     sicha_buf_append b bs m = (if ok \<and> bs \<noteq> [] then buf_write b1 bs else b1, m1)"
  by (cases "bs = []") (auto simp: sicha_buf_append_def buf_write_def Let_def)

lemma buf_write_wf:
  assumes "buf_wf b" "buf_data b \<noteq> None" "buf_len b + length bs \<le> buf_cap b"
    "buf_max_len b \<noteq> 0 \<Longrightarrow> buf_len b + length bs \<le> buf_max_len b"
  shows "buf_wf (buf_write b bs)" "buf_bytes (buf_write b bs) = buf_bytes b @ bs"
proof -
  let ?n = "buf_len b + length bs" and ?d = "poke (block b) (buf_len b) bs"
  have l: "buf_len b \<le> length (block b)" "length (block b) \<le> buf_cap b + 1"
    "0 < buf_cap b" "buf_cap b < SIZE_MAX"
    using assms(1,2) by (auto simp: buf_wf_def block_def split: option.splits)
  then have n: "?n \<le> length ?d" "length ?d \<le> buf_cap b + 1"
    using assms(3) by (simp_all add: length_poke)
  have b: "block (buf_write b bs) = poke ?d ?n [0]"
    by (simp add: buf_write_def block_def Let_def)
  have "take ?n (poke ?d ?n [0]) = buf_bytes b @ bs"
    using n l by (simp add: take_poke_all buf_bytes_def)
  then show "buf_bytes (buf_write b bs) = buf_bytes b @ bs"
    by (simp add: b buf_bytes_def [of "buf_write b bs"]) (simp add: buf_write_def Let_def)
  have "?n < length (poke ?d ?n [0])" "length (poke ?d ?n [0]) \<le> buf_cap b + 1"
    "poke ?d ?n [0] ! ?n = 0"
    using n assms(3) by (simp_all add: length_poke nth_poke_single)
  then show "buf_wf (buf_write b bs)"
    using l assms(4) by (simp add: buf_wf_def buf_write_def Let_def)
qed

lemma buf_write_simps [simp]:
  "buf_err (buf_write b bs) = buf_err b"
  "buf_max_len (buf_write b bs) = buf_max_len b"
  by (simp_all add: buf_write_def Let_def)

lemma sicha_buf_append_ok:
  assumes "buf_wf b" and r: "buf_reserve b (length bs) m = (True, b1, m1)"
    and a: "sicha_buf_append b bs m = (b', m')"
  shows "buf_wf b'" "buf_bytes b' = buf_bytes b @ bs" "buf_err b' = SICHA_OK"
    "buf_max_len b' = buf_max_len b" "m' = m1"
proof -
  note R = buf_reserve_True [OF assms(1) r]
  have W: "buf_wf (buf_write b1 bs)" "buf_bytes (buf_write b1 bs) = buf_bytes b1 @ bs"
    using R(5-9) buf_write_wf [OF R(3)] by (auto simp del: not_None_eq)
  show "buf_wf b'" "buf_bytes b' = buf_bytes b @ bs" "buf_err b' = SICHA_OK"
    "buf_max_len b' = buf_max_len b" "m' = m1"
    using a W R by (auto simp: sicha_buf_append_eq [OF r] split: if_splits)
qed

lemma buf_wf_err [simp]: "buf_wf (b\<lparr>buf_err := e\<rparr>) = buf_wf b"
  by (simp add: buf_wf_def split: option.split)

lemma buf_bytes_err [simp]: "buf_bytes (b\<lparr>buf_err := e\<rparr>) = buf_bytes b"
  by (simp add: buf_bytes_def block_def)

lemma sicha_buf_append_failed:
  assumes "buf_reserve b (length bs) m = (False, b1, m1)"
    and "sicha_buf_append b bs m = (b', m')"
  shows "b' = b1" "m' = m1"
  using assms(2) by (simp_all add: sicha_buf_append_eq [OF assms(1)])

lemma sicha_buf_append_wf:
  assumes "buf_wf b" and a: "sicha_buf_append b bs m = (b', m')"
  shows "buf_wf b'"
proof -
  obtain ok b1 m1 where r: "buf_reserve b (length bs) m = (ok, b1, m1)"
    by (cases "buf_reserve b (length bs) m")
  show ?thesis
  proof (cases ok)
    case True
    with r have "buf_reserve b (length bs) m = (True, b1, m1)" by simp
    then show ?thesis by (rule sicha_buf_append_ok(1) [OF assms(1) _ a])
  next
    case False
    with r a have "b' = b1" and r': "buf_reserve b (length bs) m = (False, b1, m1)"
      by (auto dest: sicha_buf_append_failed)
    with assms(1) show ?thesis by (metis buf_reserve_False(1) [OF r'] buf_wf_err)
  qed
qed

text \<open>The refinement: on the abstraction, an append is \<open>abs_append\<close>.\<close>

lemma sicha_buf_append_refines:
  assumes "buf_wf b" and a: "sicha_buf_append b bs m = (b', m')"
  shows "\<exists>mem. buf_abs b' = abs_append mem (buf_abs b) bs
     \<and> (all_ok m \<and> buf_len b + length bs < SIZE_MAX \<longrightarrow> mem)"
proof -
  obtain ok b1 m1 where r: "buf_reserve b (length bs) m = (ok, b1, m1)"
    by (cases "buf_reserve b (length bs) m")
  have l: "length (buf_bytes b) = buf_len b" by (rule buf_len_bytes [OF assms(1)])
  show ?thesis
  proof (cases ok)
    case True
    with r have r': "buf_reserve b (length bs) m = (True, b1, m1)" by simp
    note R = buf_reserve_True [OF assms(1) r']
    have "buf_len b + length bs \<le> SIZE_MAX"
      using R(1) r' buf_wf_len [OF assms(1)] by (auto simp: buf_reserve_def split: if_splits)
    with R l show ?thesis
      using sicha_buf_append_ok [OF assms(1) r' a]
      by (intro exI [of _ True]) (auto simp: abs_append_def buf_abs_def)
  next
    case False
    with r have r': "buf_reserve b (length bs) m = (False, b1, m1)" by simp
    have b': "b' = b1" by (rule sicha_buf_append_failed(1) [OF r' a])
    note F = buf_reserve_False [OF r']
    have abs: "buf_abs b' = (buf_abs b)\<lparr>ab_err := buf_err b'\<rparr>"
      unfolding b' by (subst F(1)) (simp add: buf_abs_def)
    have "\<not> (all_ok m \<and> buf_len b + length bs < SIZE_MAX \<and> buf_err b = SICHA_OK
        \<and> (buf_max_len b = 0 \<or> buf_len b + length bs \<le> buf_max_len b))"
      using buf_reserve_succeeds [OF assms(1), of m "length bs"] r' by auto
    moreover have "SIZE_MAX - buf_len b < length bs \<longleftrightarrow> SIZE_MAX < buf_len b + length bs"
      using buf_wf_len [OF assms(1)] by linarith
    ultimately show ?thesis
      unfolding abs using F(3,4) l b'
      by (intro exI [of _ "all_ok m \<and> buf_len b + length bs < SIZE_MAX"])
        (cases "buf_err b = SICHA_OK"; auto simp: abs_append_def buf_abs_def)
  qed
qed


text \<open>The outcomes of an append, and what it leaves alone.\<close>

lemma append_outcomes:
  assumes "buf_wf b" "buf_err b = SICHA_OK" "sicha_buf_append b s m = (b', m')"
  obtains
    (appended) "buf_err b' = SICHA_OK" "buf_bytes b' = buf_bytes b @ s" "buf_wf b'"
      "buf_max_len b' = buf_max_len b"
  | (toobig) "buf_err b' = SICHA_INT_E_TOOBIG" "buf_bytes b' = buf_bytes b" "buf_wf b'"
      "buf_max_len b' = buf_max_len b"
      "buf_max_len b \<noteq> 0" "buf_max_len b < length (buf_bytes b) + length s"
  | (nomem) "buf_err b' = SICHA_E_NOMEM" "buf_bytes b' = buf_bytes b" "buf_wf b'"
      "buf_max_len b' = buf_max_len b"
      "\<not> (all_ok m \<and> length (buf_bytes b) + length s < SIZE_MAX)"
proof -
  obtain mem where r: "buf_abs b' = abs_append mem (buf_abs b) s"
    "all_ok m \<and> buf_len b + length s < SIZE_MAX \<longrightarrow> mem"
    using sicha_buf_append_refines [OF assms(1,3)] by blast
  note w = sicha_buf_append_wf [OF assms(1,3)] and l = buf_len_bytes [OF assms(1)]
  consider "SIZE_MAX < length (buf_bytes b) + length s"
    | "\<not> SIZE_MAX < length (buf_bytes b) + length s" "buf_max_len b \<noteq> 0"
      "buf_max_len b < length (buf_bytes b) + length s"
    | "\<not> SIZE_MAX < length (buf_bytes b) + length s"
      "\<not> (buf_max_len b \<noteq> 0 \<and> buf_max_len b < length (buf_bytes b) + length s)" by blast
  then show ?thesis
  proof cases
    case 1
    with r assms(2) w show ?thesis by (intro nomem) (auto simp: buf_abs_def abs_append_def)
  next
    case 2
    with r assms(2) w show ?thesis by (intro toobig) (auto simp: buf_abs_def abs_append_def)
  next
    case 3
    with r assms(2) w l show ?thesis
      by (cases mem) (auto simp: buf_abs_def abs_append_def intro: that)
  qed
qed

lemma append_err_or_done:
  assumes "buf_wf b" "sicha_buf_append b s m = (b', m')"
  shows "buf_wf b'" "buf_err b' = SICHA_OK \<Longrightarrow> buf_err b = SICHA_OK \<and> buf_bytes b' = buf_bytes b @ s"
  using sicha_buf_append_wf [OF assms] sicha_buf_append_refines [OF assms]
  by (auto simp: buf_abs_def abs_append_def split: if_splits)

lemma append_failed_bytes:
  assumes "buf_wf b" "sicha_buf_append b s m = (b', m')" "buf_err b' \<noteq> SICHA_OK"
  shows "buf_bytes b' = buf_bytes b"
proof -
  obtain mem where "buf_abs b' = abs_append mem (buf_abs b) s"
    using sicha_buf_append_refines [OF assms(1,2)] by blast
  with assms(3) show ?thesis by (simp add: buf_abs_def abs_append_def split: if_splits)
qed

lemma append_sticky: "buf_err b \<noteq> SICHA_OK \<Longrightarrow> sicha_buf_append b s m = (b, m)"
  by (simp add: sicha_buf_append_def buf_reserve_def)

lemma append_mem: "sicha_buf_append b s m = (b', m') \<Longrightarrow> all_ok m \<Longrightarrow> all_ok m'"
  by (auto simp: sicha_buf_append_def buf_reserve_def Let_def split: if_splits prod.splits
      dest: all_ok_alloc)

section \<open>The other operations\<close>

lemma sicha_buf_append_ch_eq: "sicha_buf_append_ch b ch = sicha_buf_append b [ch]"
  by (simp add: sicha_buf_append_ch_def fun_eq_iff)

lemma sicha_buf_append_cstr_eq: "sicha_buf_append_cstr b s = sicha_buf_append b (cstr s)"
  by (simp add: sicha_buf_append_cstr_def fun_eq_iff take_strlen)

lemma sicha_buf_reset_wf: "buf_wf b \<Longrightarrow> buf_wf (sicha_buf_reset b)"
  by (auto simp: buf_wf_def sicha_buf_reset_def length_poke nth_poke_single split: option.splits)

lemma sicha_buf_reset_simps [simp]:
  "buf_bytes (sicha_buf_reset b) = []"
  "buf_err (sicha_buf_reset b) = buf_err b"
  "buf_max_len (sicha_buf_reset b) = buf_max_len b"
  by (simp_all add: sicha_buf_reset_def buf_bytes_def)

lemma sicha_buf_free_wf [simp]: "buf_wf (sicha_buf_free b)"
  by (simp add: sicha_buf_free_def)

lemma sicha_buf_take_wf:
  assumes "buf_wf b" and t: "sicha_buf_take b m = (p, n, b', m')"
  shows "buf_wf b'"
proof (cases "buf_err b = SICHA_OK \<and> buf_data b = None")
  case True
  obtain ok b1 m1 where r: "buf_reserve b 0 m = (ok, b1, m1)"
    by (cases "buf_reserve b 0 m")
  show ?thesis
  proof (cases ok)
    case True
    with t r \<open>buf_err b = SICHA_OK \<and> buf_data b = None\<close> show ?thesis
      by (auto simp: sicha_buf_take_def)
  next
    case False
    with r have r': "buf_reserve b 0 m = (False, b1, m1)" by simp
    have "buf_wf b1" using assms(1) by (metis buf_reserve_False(1) [OF r'] buf_wf_err)
    with t r' True show ?thesis by (auto simp: sicha_buf_take_def)
  qed
next
  case False
  with t show ?thesis by (auto simp: sicha_buf_take_def split: if_splits)
qed

text \<open>
  What the caller of \<open>sicha_buf_take\<close> gets is the content followed by a NUL, also for an
  empty buffer; NULL comes back only after an error or without memory.
\<close>

lemma sicha_buf_take_Some:
  assumes "buf_wf b" and t: "sicha_buf_take b m = (Some d, n, b', m')"
  shows "take n d = buf_bytes b" "d ! n = 0" "n < length d"
    "b' = sicha_buf_init (buf_max_len b)" "buf_err b = SICHA_OK"
proof -
  obtain ok b1 m1 where r: "(if buf_data b = None then buf_reserve b 0 m else (True, b, m))
      = (ok, b1, m1)"
    by (metis prod_cases3)
  from t have e: "buf_err b = SICHA_OK" by (auto simp: sicha_buf_take_def split: if_splits)
  with t r have o: ok "buf_data b1 = Some d" "buf_len b1 = n"
    "b' = sicha_buf_init (buf_max_len b1)"
    by (auto simp: sicha_buf_take_def split: if_splits)
  have "buf_wf b1 \<and> buf_bytes b1 = buf_bytes b \<and> buf_max_len b1 = buf_max_len b"
    using r o(1) assms(1) buf_reserve_True(3,4,6) [OF assms(1), of 0 m b1 m1]
    by (cases "buf_data b") auto
  with o e show "take n d = buf_bytes b" "d ! n = 0" "n < length d"
    "b' = sicha_buf_init (buf_max_len b)" "buf_err b = SICHA_OK"
    by (auto simp: buf_wf_def buf_bytes_def block_def)
qed

lemma sicha_buf_take_None:
  assumes "buf_wf b" "buf_err b = SICHA_OK" "all_ok m"
  shows "fst (sicha_buf_take b m) \<noteq> None"
proof (cases "buf_data b")
  case None
  have "fst (buf_reserve b 0 m)"
    using assms buf_wf_len [OF assms(1)] None
    by (intro buf_reserve_succeeds) (auto simp: buf_wf_def)
  then obtain b1 m1 where r: "buf_reserve b 0 m = (True, b1, m1)"
    by (cases "buf_reserve b 0 m") auto
  with None assms show ?thesis
    using buf_reserve_True(7) [OF assms(1) r] by (auto simp: sicha_buf_take_def)
next
  case (Some d)
  with assms show ?thesis by (simp add: sicha_buf_take_def)
qed

section \<open>The contract of a byte accumulator\<close>

text \<open>
  What the parser and the result assembly need from the buffer: appends go to the end, an
  error is sticky, and the state stays well formed. From that alone it follows that
  appending a stream in pieces and in one piece leave the same content.
\<close>

primrec append_all :: "('b \<Rightarrow> bytes \<Rightarrow> 'm \<Rightarrow> 'b \<times> 'm) \<Rightarrow> 'b \<Rightarrow> bytes list \<Rightarrow> 'm \<Rightarrow> 'b \<times> 'm" where
  "append_all app b [] m = (b, m)"
| "append_all app b (c # cs) m = (let (b', m') = app b c m in append_all app b' cs m')"

locale accumulator =
  fixes app :: "'b \<Rightarrow> bytes \<Rightarrow> 'm \<Rightarrow> 'b \<times> 'm"
    and content :: "'b \<Rightarrow> bytes"
    and failed :: "'b \<Rightarrow> bool"
    and wf :: "'b \<Rightarrow> bool"
  assumes app_wf: "wf b \<Longrightarrow> app b bs m = (b', m') \<Longrightarrow> wf b'"
    and app_content: "wf b \<Longrightarrow> app b bs m = (b', m') \<Longrightarrow> \<not> failed b' \<Longrightarrow>
      content b' = content b @ bs"
    and app_keeps: "wf b \<Longrightarrow> app b bs m = (b', m') \<Longrightarrow> failed b' \<Longrightarrow> content b' = content b"
    and app_sticky: "wf b \<Longrightarrow> failed b \<Longrightarrow> app b bs m = (b, m)"
begin

lemma app_all_sticky: "wf b \<Longrightarrow> failed b \<Longrightarrow> append_all app b cs m = (b, m)"
  by (induction cs) (auto simp: app_sticky)

lemma app_all_wf: "wf b \<Longrightarrow> append_all app b cs m = (b', m') \<Longrightarrow> wf b'"
  by (induction cs arbitrary: b m) (auto split: prod.splits dest: app_wf)

text \<open>Whatever happened, the content is the old one and a prefix of what was appended.\<close>

lemma app_all_content:
  "wf b \<Longrightarrow> append_all app b cs m = (b', m') \<Longrightarrow> \<not> failed b' \<Longrightarrow> content b' = content b @ concat cs"
proof (induction cs arbitrary: b m)
  case Nil
  then show ?case by simp
next
  case (Cons c cs)
  obtain b1 m1 where a: "app b c m = (b1, m1)" by (cases "app b c m")
  with Cons.prems have r: "append_all app b1 cs m1 = (b', m')" and w: "wf b1"
    by (auto dest: app_wf)
  have "\<not> failed b1" using app_all_sticky [OF w] r Cons.prems(3) by fastforce
  with Cons.IH [OF w r Cons.prems(3)] app_content [OF Cons.prems(1) a] show ?case by simp
qed

lemma app_all_prefix:
  "wf b \<Longrightarrow> append_all app b cs m = (b', m') \<Longrightarrow> \<exists>n. content b' = content b @ concat (take n cs)"
proof (induction cs arbitrary: b m)
  case Nil
  then show ?case by simp
next
  case (Cons c cs)
  obtain b1 m1 where a: "app b c m = (b1, m1)" by (cases "app b c m")
  with Cons.prems have r: "append_all app b1 cs m1 = (b', m')" and w: "wf b1"
    by (auto dest: app_wf)
  show ?case
  proof (cases "failed b1")
    case True
    with a r w Cons.prems(1) show ?thesis
      by (intro exI [of _ 0]) (auto simp: app_all_sticky app_keeps)
  next
    case False
    obtain n where "content b' = content b1 @ concat (take n cs)"
      using Cons.IH [OF w r] by blast
    with False app_content [OF Cons.prems(1) a] show ?thesis
      by (intro exI [of _ "Suc n"]) simp
  qed
qed

end

interpretation buf: accumulator sicha_buf_append buf_bytes "\<lambda>b. buf_err b \<noteq> SICHA_OK" buf_wf
proof
  fix b bs m b' m'
  assume w: "buf_wf b"
  show "buf_wf b'" if "sicha_buf_append b bs m = (b', m')"
    using w that by (rule sicha_buf_append_wf)
  show "buf_bytes b' = buf_bytes b @ bs"
    if "sicha_buf_append b bs m = (b', m')" "\<not> buf_err b' \<noteq> SICHA_OK"
    using sicha_buf_append_refines [OF w that(1)] that(2)
    by (auto simp: buf_abs_def abs_append_def split: if_splits)
  show "buf_bytes b' = buf_bytes b"
    if "sicha_buf_append b bs m = (b', m')" "buf_err b' \<noteq> SICHA_OK"
    using sicha_buf_append_refines [OF w that(1)] that(2)
    by (auto simp: buf_abs_def abs_append_def split: if_splits)
  show "sicha_buf_append b bs m = (b, m)" if "buf_err b \<noteq> SICHA_OK"
    using that by (auto simp: sicha_buf_append_def buf_reserve_def)
qed

end
