(* ===== verification/Json.thy ===== *)
theory Json
  imports Buf
begin

text \<open>
  JSON documents as \<open>src/response.c\<close> and \<open>src/request.c\<close> see them: the value tree of the
  vendored yyjson, and the accessors of \<open>src/yyjson.h\<close> that sicha calls. The text parser of
  yyjson is a parameter of the model (\<open>json_reader\<close>): nothing is assumed of it.

  A number is one of yyjson's three subtypes with its 64 bits: an unsigned integer, a
  negative integer in two's complement, or a double by its bit pattern.
\<close>

datatype json =
    JNull
  | JBool bool
  | JUint u64
  | JSint u64
  | JReal u64
  | JStr bytes
  | JArr "json list"
  | JObj "(bytes \<times> json) list"

type_synonym json_reader = "bytes \<Rightarrow> json option"

text \<open>
  \<open>yyjson_read\<close> with no flags: NULL for a text that does not parse, and also when the
  document cannot be allocated. One outcome of \<open>mem\<close> stands for all its allocations.
\<close>

definition yyjson_read :: "json_reader \<Rightarrow> bytes \<Rightarrow> mem \<Rightarrow> json option \<times> mem" where
  "yyjson_read rd bs m = (let (ok, m) = alloc m in (if ok then rd bs else None, m))"

fun yyjson_is_obj :: "json \<Rightarrow> bool" where
  "yyjson_is_obj (JObj _) = True"
| "yyjson_is_obj _ = False"

fun yyjson_is_arr :: "json \<Rightarrow> bool" where
  "yyjson_is_arr (JArr _) = True"
| "yyjson_is_arr _ = False"

fun yyjson_is_str :: "json \<Rightarrow> bool" where
  "yyjson_is_str (JStr _) = True"
| "yyjson_is_str _ = False"

fun yyjson_is_int :: "json \<Rightarrow> bool" where
  "yyjson_is_int (JUint _) = True"
| "yyjson_is_int (JSint _) = True"
| "yyjson_is_int _ = False"

fun yyjson_is_num :: "json \<Rightarrow> bool" where
  "yyjson_is_num (JReal _) = True"
| "yyjson_is_num v = yyjson_is_int v"

text \<open>The 64 bits of an integer read as \<open>int64_t\<close>; 0 for anything that is not an integer.\<close>

fun yyjson_get_sint :: "json \<Rightarrow> int" where
  "yyjson_get_sint (JUint w) = sint w"
| "yyjson_get_sint (JSint w) = sint w"
| "yyjson_get_sint _ = 0"

fun yyjson_get_str :: "json \<Rightarrow> bytes" where
  "yyjson_get_str (JStr s) = s"
| "yyjson_get_str _ = []"

text \<open>The first member with the key, by a linear search.\<close>

fun obj_lookup :: "(bytes \<times> json) list \<Rightarrow> bytes \<Rightarrow> json option" where
  "obj_lookup [] key = None"
| "obj_lookup ((k, v) # ms) key = (if k = key then Some v else obj_lookup ms key)"

fun yyjson_obj_get :: "json \<Rightarrow> bytes \<Rightarrow> json option" where
  "yyjson_obj_get (JObj ms) key = obj_lookup ms key"
| "yyjson_obj_get _ key = None"

fun yyjson_arr_size :: "json \<Rightarrow> nat" where
  "yyjson_arr_size (JArr vs) = length vs"
| "yyjson_arr_size _ = 0"

fun yyjson_arr_get_first :: "json \<Rightarrow> json option" where
  "yyjson_arr_get_first (JArr (v # vs)) = Some v"
| "yyjson_arr_get_first _ = None"

text \<open>A string member of an object that may be absent, as the code tests for it everywhere.\<close>

definition str_member :: "json \<Rightarrow> string \<Rightarrow> bytes option" where
  "str_member obj key =
     (case yyjson_obj_get obj (lit key) of
        Some v \<Rightarrow> if yyjson_is_str v then Some (yyjson_get_str v) else None
      | None \<Rightarrow> None)"

lemma obj_lookup_map_of: "obj_lookup ms key = map_of ms key"
  by (induction ms) auto

lemma str_member_Some: "str_member obj key = Some s \<longleftrightarrow> yyjson_obj_get obj (lit key) = Some (JStr s)"
  by (auto simp: str_member_def split: option.splits elim: yyjson_is_str.elims)

lemma arr_first_Some: "0 < yyjson_arr_size v \<Longrightarrow> \<exists>v0. yyjson_arr_get_first v = Some v0"
  by (cases v rule: yyjson_arr_get_first.cases) auto

lemma yyjson_read_Some: "yyjson_read rd bs m = (Some v, m') \<Longrightarrow> rd bs = Some v"
  by (auto simp: yyjson_read_def split: prod.splits if_splits)

lemma yyjson_read_ok:
  "all_ok m \<Longrightarrow> \<exists>m'. yyjson_read rd bs m = (rd bs, m') \<and> all_ok m'"
  by (cases "alloc m") (auto simp: yyjson_read_def dest: all_ok_alloc)

lemma yyjson_read_fails: "yyjson_read rd bs m = (None, m') \<Longrightarrow> rd bs = None \<or> \<not> all_ok m"
  using yyjson_read_ok [of m rd bs] by auto

end
