(* ===== verification/Classify.thy ===== *)
theory Classify
  imports Status
begin

text \<open>
  Retry-policy resolution, classification of one HTTP round trip, the Retry-After header and
  the backoff arithmetic (\<open>src/classify.c\<close>). The 32-bit fields of the policy and the 64-bit
  times are words, so that the overflow checks of the code are the checks of the model.
\<close>

section \<open>The policy\<close>

datatype body_state = SICHA_BODY_OK | SICHA_BODY_EMPTY | SICHA_BODY_MALFORMED | SICHA_BODY_TOOBIG

record sicha_status_override =
  ov_http_status :: int
  ov_cls :: sicha_error_class

record sicha_retry_policy =
  max_tries :: u32
  validation_retries :: u32
  backoff_base_ms :: u32
  backoff_cap_ms :: u32
  backoff_jitter_ms :: u32
  retry_after_cap_ms :: u32
  pol_flags :: u32
  overrides :: "sicha_status_override list option"
  n_overrides :: nat

definition SICHA_POLICY_LENGTH_IS_ADVANCE :: u32 where
  "SICHA_POLICY_LENGTH_IS_ADVANCE = push_bit 0 1"

definition SICHA_POLICY_CONTENT_FILTER_IS_ADVANCE :: u32 where
  "SICHA_POLICY_CONTENT_FILTER_IS_ADVANCE = push_bit 1 1"

definition SICHA_POLICY_RETRY_AFTER_DELTAS :: u32 where
  "SICHA_POLICY_RETRY_AFTER_DELTAS = push_bit 2 1"

definition SICHA_DEFAULT_MAX_TRIES :: u32 where
  "SICHA_DEFAULT_MAX_TRIES = 3"

definition SICHA_DEFAULT_BACKOFF_BASE_MS :: u32 where
  "SICHA_DEFAULT_BACKOFF_BASE_MS = 1000"

definition SICHA_DEFAULT_BACKOFF_CAP_MS :: u32 where
  "SICHA_DEFAULT_BACKOFF_CAP_MS = 30000"

definition SICHA_DEFAULT_BACKOFF_JITTER_MS :: u32 where
  "SICHA_DEFAULT_BACKOFF_JITTER_MS = 500"

definition SICHA_DEFAULT_RETRY_AFTER_CAP_MS :: u32 where
  "SICHA_DEFAULT_RETRY_AFTER_CAP_MS = 120000"

definition sicha_policy_resolve :: "sicha_retry_policy \<Rightarrow> sicha_retry_policy" where
  "sicha_policy_resolve p =
     (let p = (if max_tries p = 0 then p\<lparr>max_tries := SICHA_DEFAULT_MAX_TRIES\<rparr> else p);
          p = (if backoff_base_ms p = 0
               then p\<lparr>backoff_base_ms := SICHA_DEFAULT_BACKOFF_BASE_MS\<rparr> else p);
          p = (if backoff_cap_ms p = 0
               then p\<lparr>backoff_cap_ms := SICHA_DEFAULT_BACKOFF_CAP_MS\<rparr> else p);
          p = (if backoff_jitter_ms p = 0
               then p\<lparr>backoff_jitter_ms := SICHA_DEFAULT_BACKOFF_JITTER_MS\<rparr> else p);
          p = (if retry_after_cap_ms p = 0
               then p\<lparr>retry_after_cap_ms := SICHA_DEFAULT_RETRY_AFTER_CAP_MS\<rparr> else p)
      in p)"

text \<open>The overrides a policy carries: the first \<open>n_overrides\<close> entries of its array.\<close>

definition override_list :: "sicha_retry_policy \<Rightarrow> sicha_status_override list" where
  "override_list p = (case overrides p of None \<Rightarrow> [] | Some os \<Rightarrow> take (n_overrides p) os)"

fun validate_overrides :: "sicha_status_override list \<Rightarrow> sicha_status" where
  "validate_overrides [] = SICHA_OK"
| "validate_overrides (ov # os) =
     (if ov_http_status ov \<le> 0 then SICHA_E_INVALID_ARG
      else if ov_cls ov \<noteq> SICHA_CLASS_ABORT \<and> ov_cls ov \<noteq> SICHA_CLASS_RETRY_SAME
        \<and> ov_cls ov \<noteq> SICHA_CLASS_ADVANCE
      then SICHA_E_INVALID_ARG
      else validate_overrides os)"

definition sicha_policy_validate :: "sicha_retry_policy \<Rightarrow> sicha_status" where
  "sicha_policy_validate p =
     (let known = (SICHA_POLICY_LENGTH_IS_ADVANCE OR SICHA_POLICY_CONTENT_FILTER_IS_ADVANCE)
            OR SICHA_POLICY_RETRY_AFTER_DELTAS in
      if pol_flags p AND NOT known \<noteq> 0 then SICHA_E_INVALID_ARG
      else if 0 < n_overrides p \<and> overrides p = None then SICHA_E_INVALID_ARG
      else validate_overrides (override_list p))"

section \<open>Classification\<close>

text \<open>First matching override wins.\<close>

fun lookup_override :: "sicha_status_override list \<Rightarrow> int \<Rightarrow> sicha_error_class option" where
  "lookup_override [] http_status = None"
| "lookup_override (ov # os) http_status =
     (if ov_http_status ov = http_status then Some (ov_cls ov)
      else lookup_override os http_status)"

definition classify_http :: "sicha_retry_policy \<Rightarrow> int \<Rightarrow> body_state \<Rightarrow> sicha_finish_reason \<Rightarrow>
    sicha_error_class" where
  "classify_http resolved http_status body_state finish =
     (if 200 \<le> http_status \<and> http_status \<le> 299 then
        if body_state \<in> {SICHA_BODY_EMPTY, SICHA_BODY_MALFORMED, SICHA_BODY_TOOBIG}
        then SICHA_CLASS_ADVANCE
        else if finish = SICHA_FINISH_LENGTH
          \<and> pol_flags resolved AND SICHA_POLICY_LENGTH_IS_ADVANCE \<noteq> 0
        then SICHA_CLASS_ADVANCE
        else if finish = SICHA_FINISH_CONTENT_FILTER
          \<and> pol_flags resolved AND SICHA_POLICY_CONTENT_FILTER_IS_ADVANCE \<noteq> 0
        then SICHA_CLASS_ADVANCE
        else SICHA_CLASS_NONE
      else
        case lookup_override (override_list resolved) http_status of
          Some cls \<Rightarrow> cls
        | None \<Rightarrow>
            if http_status \<in> {400, 401, 402, 403, 404} then SICHA_CLASS_ABORT
            else if http_status = 429 then SICHA_CLASS_ADVANCE
            else if 500 \<le> http_status \<and> http_status \<le> 599 then SICHA_CLASS_RETRY_SAME
            else SICHA_CLASS_RETRY_SAME)"

definition sicha_classify :: "sicha_retry_policy \<Rightarrow> sicha_transport_status \<Rightarrow> int \<Rightarrow> body_state \<Rightarrow>
    sicha_finish_reason \<Rightarrow> sicha_error_class" where
  "sicha_classify resolved ts http_status body_state finish =
     (case ts of
        SICHA_T_E_CANCELLED \<Rightarrow> SICHA_CLASS_CANCELLED
      | SICHA_T_E_ABORTED_BY_SINK \<Rightarrow> SICHA_CLASS_CANCELLED
      | SICHA_T_E_TIMEOUT_CONNECT \<Rightarrow> SICHA_CLASS_ADVANCE
      | SICHA_T_E_TIMEOUT_FIRST_BYTE \<Rightarrow> SICHA_CLASS_ADVANCE
      | SICHA_T_E_TIMEOUT_IDLE \<Rightarrow> SICHA_CLASS_ADVANCE
      | SICHA_T_E_TIMEOUT_TOTAL \<Rightarrow> SICHA_CLASS_ADVANCE
      | SICHA_T_E_CONNECT \<Rightarrow> SICHA_CLASS_RETRY_SAME
      | SICHA_T_E_TLS \<Rightarrow> SICHA_CLASS_RETRY_SAME
      | SICHA_T_E_RESET \<Rightarrow> SICHA_CLASS_RETRY_SAME
      | SICHA_T_E_OTHER \<Rightarrow> SICHA_CLASS_RETRY_SAME
      | SICHA_T_E_PROTOCOL \<Rightarrow> SICHA_CLASS_ADVANCE
      | SICHA_T_E_NOMEM \<Rightarrow> SICHA_CLASS_ADVANCE
      | SICHA_T_OK \<Rightarrow> classify_http resolved http_status body_state finish
      | SICHA_T_UNKNOWN _ \<Rightarrow> SICHA_CLASS_RETRY_SAME)"

section \<open>Retry-After\<close>

definition RETRY_AFTER_SAT_MS :: u64 where
  "RETRY_AFTER_SAT_MS = 1000 * 1000 * 1000 * 1000 * 1000"

fun skip_ows :: "bytes \<Rightarrow> bytes" where
  "skip_ows [] = []"
| "skip_ows (b # bs) = (if b = 0x20 \<or> b = 0x09 then skip_ows bs else b # bs)"

text \<open>
  The digit loop: how many digits, the (saturating) value, and what is left. The counter
  \<open>digits\<close> is only compared with 0.
\<close>

fun read_digits :: "bytes \<Rightarrow> nat \<Rightarrow> u64 \<Rightarrow> nat \<times> u64 \<times> bytes" where
  "read_digits [] digits seconds = (digits, seconds, [])"
| "read_digits (b # bs) digits seconds =
     (if 0x30 \<le> b \<and> b \<le> 0x39 then
        read_digits bs (digits + 1)
          (if RETRY_AFTER_SAT_MS < seconds then RETRY_AFTER_SAT_MS
           else seconds * 10 + ucast (b - 0x30))
      else (digits, seconds, b # bs))"

definition sicha_retry_after_ms :: "bytes option \<Rightarrow> nat \<Rightarrow> u64" where
  "sicha_retry_after_ms value len =
     (case value of
        None \<Rightarrow> UINT64_MAX
      | Some v \<Rightarrow>
          let v = (if len = SICHA_LEN_CSTR then cstr v else take len v);
              (digits, seconds, rest) = read_digits (skip_ows v) 0 0
          in if digits = 0 \<or> skip_ows rest \<noteq> [] then UINT64_MAX
             else if RETRY_AFTER_SAT_MS div 1000 < seconds then RETRY_AFTER_SAT_MS
             else seconds * 1000)"

section \<open>Backoff\<close>

definition sicha_backoff_ms :: "sicha_retry_policy \<Rightarrow> u32 \<Rightarrow> u64 \<Rightarrow> u64" where
  "sicha_backoff_ms resolved k jitter_rand =
     (let base = ucast (backoff_base_ms resolved) :: u64;
          cap = ucast (backoff_cap_ms resolved) :: u64;
          k = (if k = 0 then 1 else k);
          wait = (if 63 \<le> k - 1 \<or> drop_bit (unat (k - 1)) UINT64_MAX < base then cap
                  else push_bit (unat (k - 1)) base);
          wait = (if backoff_jitter_ms resolved \<noteq> SICHA_DISABLED \<and> 0 < backoff_jitter_ms resolved
                  then let j = jitter_rand mod ucast (backoff_jitter_ms resolved)
                       in if UINT64_MAX - j < wait then UINT64_MAX else wait + j
                  else wait)
      in if wait < cap then wait else cap)"

section \<open>The policy after resolution\<close>

definition policy_resolved :: "sicha_retry_policy \<Rightarrow> bool" where
  "policy_resolved p \<longleftrightarrow> max_tries p \<noteq> 0 \<and> backoff_base_ms p \<noteq> 0 \<and> backoff_cap_ms p \<noteq> 0
     \<and> backoff_jitter_ms p \<noteq> 0 \<and> retry_after_cap_ms p \<noteq> 0"

lemmas policy_defaults =
  SICHA_DEFAULT_MAX_TRIES_def SICHA_DEFAULT_BACKOFF_BASE_MS_def SICHA_DEFAULT_BACKOFF_CAP_MS_def
  SICHA_DEFAULT_BACKOFF_JITTER_MS_def SICHA_DEFAULT_RETRY_AFTER_CAP_MS_def

lemma sicha_policy_resolve_resolved: "policy_resolved (sicha_policy_resolve p)"
  by (simp add: sicha_policy_resolve_def policy_resolved_def policy_defaults Let_def)

lemma sicha_policy_resolve_id: "policy_resolved p \<Longrightarrow> sicha_policy_resolve p = p"
  by (simp add: sicha_policy_resolve_def policy_resolved_def)

lemma sicha_policy_resolve_simps [simp]:
  "validation_retries (sicha_policy_resolve p) = validation_retries p"
  "pol_flags (sicha_policy_resolve p) = pol_flags p"
  "overrides (sicha_policy_resolve p) = overrides p"
  "n_overrides (sicha_policy_resolve p) = n_overrides p"
  by (simp_all add: sicha_policy_resolve_def Let_def)

lemma override_list_resolve [simp]: "override_list (sicha_policy_resolve p) = override_list p"
  by (simp add: override_list_def split: option.split)

lemma validate_overrides_iff:
  "validate_overrides os = SICHA_OK \<longleftrightarrow>
     (\<forall>ov \<in> set os. 0 < ov_http_status ov
        \<and> ov_cls ov \<in> {SICHA_CLASS_ABORT, SICHA_CLASS_RETRY_SAME, SICHA_CLASS_ADVANCE})"
  by (induction os) auto

lemma lookup_override_Some: "lookup_override os h = Some c \<Longrightarrow> \<exists>ov \<in> set os. ov_cls ov = c"
  by (induction os) (auto split: if_splits)

section \<open>What the classifier answers\<close>

definition http_success :: "int \<Rightarrow> bool" where
  "http_success http \<longleftrightarrow> 200 \<le> http \<and> http \<le> 299"

text \<open>A finish reason that the policy turns into a failure of the backend.\<close>

definition finish_policed :: "sicha_retry_policy \<Rightarrow> sicha_finish_reason \<Rightarrow> bool" where
  "finish_policed p fin \<longleftrightarrow>
     fin = SICHA_FINISH_LENGTH \<and> pol_flags p AND SICHA_POLICY_LENGTH_IS_ADVANCE \<noteq> 0
     \<or> fin = SICHA_FINISH_CONTENT_FILTER
       \<and> pol_flags p AND SICHA_POLICY_CONTENT_FILTER_IS_ADVANCE \<noteq> 0"

text \<open>The classes of the statuses that no override mentions.\<close>

definition status_class :: "int \<Rightarrow> sicha_error_class" where
  "status_class http =
     (if 400 \<le> http \<and> http \<le> 404 then SICHA_CLASS_ABORT
      else if http = 429 then SICHA_CLASS_ADVANCE else SICHA_CLASS_RETRY_SAME)"

lemma abort_range: "http \<in> {400, 401, 402, 403, 404} \<longleftrightarrow> 400 \<le> http \<and> http \<le> (404::int)"
  by auto

lemma classify_http_eq:
  "classify_http p http bs fin =
     (if http_success http
      then if bs \<noteq> SICHA_BODY_OK \<or> finish_policed p fin then SICHA_CLASS_ADVANCE
           else SICHA_CLASS_NONE
      else case lookup_override (override_list p) http of
             Some c \<Rightarrow> c | None \<Rightarrow> status_class http)"
proof (cases "http_success http")
  case True
  then show ?thesis
    by (cases bs) (auto simp: classify_http_def http_success_def finish_policed_def)
next
  case False
  then have "classify_http p http bs fin =
      (case lookup_override (override_list p) http of Some c \<Rightarrow> c | None \<Rightarrow>
         if 400 \<le> http \<and> http \<le> 404 then SICHA_CLASS_ABORT
         else if http = 429 then SICHA_CLASS_ADVANCE else SICHA_CLASS_RETRY_SAME)"
    unfolding classify_http_def abort_range by (simp only: http_success_def if_cancel if_False)
  with False show ?thesis by (simp add: status_class_def split: option.split)
qed

lemma classify_override_class:
  assumes "validate_overrides os = SICHA_OK"
  shows "(case lookup_override os http of Some c \<Rightarrow> c | None \<Rightarrow> status_class http)
     \<in> {SICHA_CLASS_ABORT, SICHA_CLASS_RETRY_SAME, SICHA_CLASS_ADVANCE}"
  using assms lookup_override_Some [of os http]
  by (auto simp: validate_overrides_iff status_class_def split: option.split)

lemma classify_http_None_iff:
  assumes "validate_overrides (override_list p) = SICHA_OK"
  shows "classify_http p http bs fin = SICHA_CLASS_NONE \<longleftrightarrow>
     http_success http \<and> bs = SICHA_BODY_OK \<and> \<not> finish_policed p fin"
  using classify_override_class [OF assms, of http] by (auto simp: classify_http_eq)

lemma classify_http_range:
  assumes "validate_overrides (override_list p) = SICHA_OK"
  shows "classify_http p http bs fin \<in> {SICHA_CLASS_NONE, SICHA_CLASS_ABORT,
     SICHA_CLASS_RETRY_SAME, SICHA_CLASS_ADVANCE}"
  using classify_override_class [OF assms, of http] by (auto simp: classify_http_eq)

lemma classify_None_iff:
  assumes "validate_overrides (override_list p) = SICHA_OK"
  shows "sicha_classify p ts http bs fin = SICHA_CLASS_NONE \<longleftrightarrow>
     ts = SICHA_T_OK \<and> http_success http \<and> bs = SICHA_BODY_OK \<and> \<not> finish_policed p fin"
  using classify_http_None_iff [OF assms] by (cases ts) (simp_all add: sicha_classify_def)

lemma classify_range:
  assumes "validate_overrides (override_list p) = SICHA_OK"
  shows "sicha_classify p ts http bs fin \<in> {SICHA_CLASS_NONE, SICHA_CLASS_ABORT,
     SICHA_CLASS_RETRY_SAME, SICHA_CLASS_ADVANCE, SICHA_CLASS_CANCELLED}"
  using classify_http_range [OF assms, of http bs fin]
  by (cases ts) (auto simp: sicha_classify_def)

lemma classify_cancelled_iff:
  assumes "validate_overrides (override_list p) = SICHA_OK"
  shows "sicha_classify p ts http bs fin = SICHA_CLASS_CANCELLED \<longleftrightarrow>
     ts = SICHA_T_E_CANCELLED \<or> ts = SICHA_T_E_ABORTED_BY_SINK"
  using classify_http_range [OF assms, of http bs fin]
  by (cases ts) (auto simp: sicha_classify_def)

lemma classify_abort_iff:
  "sicha_classify p ts http bs fin = SICHA_CLASS_ABORT \<longleftrightarrow>
     ts = SICHA_T_OK \<and> \<not> http_success http
     \<and> (case lookup_override (override_list p) http of
          Some c \<Rightarrow> c = SICHA_CLASS_ABORT | None \<Rightarrow> 400 \<le> http \<and> http \<le> 404)"
  by (cases ts) (auto simp: sicha_classify_def classify_http_eq status_class_def split: option.split)

section \<open>The backoff formula\<close>

text \<open>The formula of the documentation, over the natural numbers.\<close>

definition backoff_spec :: "nat \<Rightarrow> nat \<Rightarrow> nat \<Rightarrow> nat \<Rightarrow> nat" where
  "backoff_spec base cap k jitter = min (base * 2 ^ (k - 1) + jitter) cap"

definition jitter_of :: "sicha_retry_policy \<Rightarrow> u64 \<Rightarrow> nat" where
  "jitter_of p r =
     (if backoff_jitter_ms p = SICHA_DISABLED \<or> backoff_jitter_ms p = 0 then 0
      else unat r mod unat (backoff_jitter_ms p))"

lemma unat_ucast_32_64 [simp]: "unat (ucast (w :: u32) :: u64) = unat w"
proof -
  have "unat w < 2 ^ 32" using unsigned_less [of w] by simp
  then show ?thesis by (simp add: unsigned_ucast_eq take_bit_nat_eq_self_iff)
qed

lemma u8_bound: "unat (w :: byte) < 2 ^ 8"
  using unsigned_less [of w] by simp

lemma u32_bound: "unat (w :: u32) < 2 ^ 32"
  using unsigned_less [of w] by simp

lemma unat_UINT64_MAX: "unat UINT64_MAX = 2 ^ 64 - 1"
  by (simp add: UINT64_MAX_def)

lemma le_UINT64_MAX: "w \<le> UINT64_MAX"
proof -
  have "unat w < 2 ^ 64" using unsigned_less [of w] by simp
  then show ?thesis unfolding word_le_nat_alt unat_UINT64_MAX by simp
qed

text \<open>The saturating addition of the code, cut at the cap.\<close>

lemma saturating_add:
  fixes w j c :: u64
  assumes "unat j < 2 ^ 32" "unat c < 2 ^ 32"
  shows "unat (min (if UINT64_MAX - j < w then UINT64_MAX else w + j) c) = min (unat w + unat j) (unat c)"
proof -
  have m: "unat (UINT64_MAX - j) = 2 ^ 64 - 1 - unat j"
    using unat_sub [OF le_UINT64_MAX [of j]] by (simp only: unat_UINT64_MAX)
  show ?thesis
  proof (cases "UINT64_MAX - j < w")
    case True
    then have "2 ^ 64 - 1 - unat j < unat w"
      by (simp only: word_less_nat_alt m)
    moreover have "min UINT64_MAX c = c" by (simp add: min_absorb2 le_UINT64_MAX)
    ultimately show ?thesis using assms True by simp
  next
    case False
    then have "unat w + unat j < 2 ^ 64"
      using assms(1) by (simp add: word_less_nat_alt m)
    then have "unat (w + j) = unat w + unat j"
      by (simp add: unat_add_lem [THEN iffD1])
    with False show ?thesis by (simp add: min_def word_le_nat_alt)
  qed
qed

lemma drop_bit_less_iff:
  fixes b :: u64
  shows "drop_bit n UINT64_MAX < b \<longleftrightarrow> 2 ^ 64 \<le> unat b * 2 ^ n"
proof -
  have "unat (drop_bit n UINT64_MAX) = (2 ^ 64 - 1) div 2 ^ n"
    unfolding unat_drop_bit_eq unat_UINT64_MAX by (rule drop_bit_eq_div)
  then have "drop_bit n UINT64_MAX < b \<longleftrightarrow> (2 ^ 64 - 1) div 2 ^ n < unat b"
    by (simp only: word_less_nat_alt)
  also have "\<dots> \<longleftrightarrow> 2 ^ 64 - 1 < unat b * (2 :: nat) ^ n"
    by (rule div_less_iff_less_mult) simp
  finally show ?thesis by auto
qed

lemma unat_push_bit_64:
  fixes b :: u64
  assumes "unat b * 2 ^ n < 2 ^ 64"
  shows "unat (push_bit n b) = unat b * 2 ^ n"
proof -
  have "unat (push_bit n b) = take_bit 64 (push_bit n (unat b))"
    by (simp add: unsigned_push_bit_eq)
  with assms show ?thesis by (simp add: push_bit_eq_mult take_bit_nat_eq_self_iff)
qed

text \<open>The exponential part: the shift is exact, or the code has taken the cap instead.\<close>

definition backoff_wait :: "u64 \<Rightarrow> u64 \<Rightarrow> u32 \<Rightarrow> u64" where
  "backoff_wait base cap k =
     (if 63 \<le> k - 1 \<or> drop_bit (unat (k - 1)) UINT64_MAX < base then cap
      else push_bit (unat (k - 1)) base)"

lemma backoff_wait_exact:
  assumes "base \<noteq> 0" "unat cap < 2 ^ 32" "k \<noteq> 0"
  shows "unat (backoff_wait base cap k) = unat base * 2 ^ (unat k - 1)
    \<or> unat cap \<le> unat base * 2 ^ (unat k - 1) \<and> backoff_wait base cap k = cap"
proof -
  have k: "unat (k - 1) = unat k - 1"
    using assms(3) by (simp add: unat_minus_one)
  have b: "0 < unat base" using assms(1) by (simp add: unat_gt_0)
  show ?thesis
  proof (cases "63 \<le> k - 1 \<or> drop_bit (unat (k - 1)) UINT64_MAX < base")
    case True
    then have "2 ^ 63 \<le> unat base * 2 ^ (unat k - 1)"
    proof
      assume "63 \<le> k - 1"
      then have "63 \<le> unat k - 1" by (simp add: word_le_nat_alt k)
      then have "(2 :: nat) ^ 63 \<le> 2 ^ (unat k - 1)" by (rule power_increasing) simp
      also have "\<dots> \<le> unat base * 2 ^ (unat k - 1)" using b by simp
      finally show ?thesis .
    next
      assume "drop_bit (unat (k - 1)) UINT64_MAX < base"
      then show ?thesis by (simp add: drop_bit_less_iff k)
    qed
    with True assms(2) show ?thesis by (simp add: backoff_wait_def)
  next
    case False
    then have "unat base * 2 ^ (unat k - 1) < 2 ^ 64"
      by (simp add: drop_bit_less_iff k not_le)
    with False show ?thesis by (simp add: backoff_wait_def k unat_push_bit_64)
  qed
qed

lemma sicha_backoff_ms_eq:
  "sicha_backoff_ms p k r =
     (let wait = backoff_wait (ucast (backoff_base_ms p)) (ucast (backoff_cap_ms p))
                   (if k = 0 then 1 else k);
          j = of_nat (jitter_of p r);
          wait = (if UINT64_MAX - j < wait then UINT64_MAX else wait + j)
      in min wait (ucast (backoff_cap_ms p)))"
proof -
  have j: "of_nat (jitter_of p r) = r mod ucast (backoff_jitter_ms p)"
    if "backoff_jitter_ms p \<noteq> SICHA_DISABLED" "0 < backoff_jitter_ms p"
  proof -
    have "unat (r mod ucast (backoff_jitter_ms p)) = jitter_of p r"
      using that by (simp add: jitter_of_def unat_mod_distrib word_gt_0)
    then have "of_nat (jitter_of p r) = (of_nat (unat (r mod ucast (backoff_jitter_ms p))) :: u64)"
      by (simp only:)
    then show ?thesis by simp
  qed
  have z: "jitter_of p r = 0"
    if "\<not> (backoff_jitter_ms p \<noteq> SICHA_DISABLED \<and> 0 < backoff_jitter_ms p)"
    using that by (auto simp: jitter_of_def word_gt_0)
  have m: "\<not> UINT64_MAX < w" for w :: u64
    using le_UINT64_MAX [of w] by (simp add: not_less)
  have if_min: "(if a < b then a else b) = min a b" for a b :: u64
    by (auto simp: min_def)
  show ?thesis
  proof (cases "backoff_jitter_ms p \<noteq> SICHA_DISABLED \<and> 0 < backoff_jitter_ms p")
    case True
    then show ?thesis
      unfolding sicha_backoff_ms_def Let_def if_min backoff_wait_def [symmetric]
      by (simp only: j simp_thms if_True)
  next
    case False
    then have n: "(backoff_jitter_ms p \<noteq> SICHA_DISABLED \<and> 0 < backoff_jitter_ms p) = False"
      by (simp only:)
    show ?thesis
      unfolding sicha_backoff_ms_def Let_def if_min backoff_wait_def [symmetric] n z [OF False]
      by (simp add: m)
  qed
qed

lemma jitter_bound: "jitter_of p r < 2 ^ 32"
proof (cases "backoff_jitter_ms p = SICHA_DISABLED \<or> backoff_jitter_ms p = 0")
  case True
  then show ?thesis by (simp add: jitter_of_def)
next
  case False
  then have "unat r mod unat (backoff_jitter_ms p) < unat (backoff_jitter_ms p)"
    by (simp add: unat_gt_0)
  with False show ?thesis
    using u32_bound [of "backoff_jitter_ms p"] by (simp add: jitter_of_def)
qed

lemma sicha_backoff_ms_spec:
  assumes "backoff_base_ms p \<noteq> 0"
  shows "unat (sicha_backoff_ms p k r) =
     backoff_spec (unat (backoff_base_ms p)) (unat (backoff_cap_ms p)) (max 1 (unat k))
       (jitter_of p r)"
proof -
  let ?b = "ucast (backoff_base_ms p) :: u64" and ?c = "ucast (backoff_cap_ms p) :: u64"
  let ?k = "if k = 0 then 1 else k"
  let ?w = "backoff_wait ?b ?c ?k" and ?j = "of_nat (jitter_of p r) :: u64"
  have cap: "unat ?c < 2 ^ 32" using u32_bound [of "backoff_cap_ms p"] by simp
  have jit: "jitter_of p r < 2 ^ 32" by (rule jitter_bound)
  then have j: "unat ?j = jitter_of p r" by (simp add: unat_of_nat)
  have b: "?b \<noteq> 0" using assms by (metis unat_0_iff unat_ucast_32_64)
  have k: "unat ?k = max 1 (unat k)" by (auto simp: unat_gt_0 Suc_le_eq max_def)
  have w: "unat ?w = unat ?b * 2 ^ (max 1 (unat k) - 1)
      \<or> unat ?c \<le> unat ?b * 2 ^ (max 1 (unat k) - 1) \<and> ?w = ?c"
    using backoff_wait_exact [OF b cap, of ?k] k by auto
  have s: "unat (min (if UINT64_MAX - ?j < ?w then UINT64_MAX else ?w + ?j) ?c)
      = min (unat ?w + jitter_of p r) (unat ?c)"
    using saturating_add [of ?j ?c ?w] j jit cap by simp
  show ?thesis
    unfolding sicha_backoff_ms_eq Let_def s using w by (auto simp: backoff_spec_def)
qed

text \<open>
  Also for a base of 0, which a resolved policy does not have: the code then waits for the cap
  from the 64th retry on.
\<close>

lemma sicha_backoff_ms_exact:
  "unat (sicha_backoff_ms p k r) =
     (if backoff_base_ms p = 0 \<and> 64 \<le> unat k then unat (backoff_cap_ms p)
      else min (unat (backoff_base_ms p) * 2 ^ (max 1 (unat k) - 1) + jitter_of p r) (unat (backoff_cap_ms p)))"
proof (cases "backoff_base_ms p = 0")
  case False
  with sicha_backoff_ms_spec [OF False] show ?thesis by (simp add: backoff_spec_def)
next
  case True
  let ?k = "if k = 0 then 1 else k" and ?c = "ucast (backoff_cap_ms p) :: u64" and ?j = "of_nat (jitter_of p r) :: u64"
  have jit: "jitter_of p r < 2 ^ 32" by (rule jitter_bound)
  have cap: "unat ?c < 2 ^ 32" using u32_bound [of "backoff_cap_ms p"] by simp
  have j: "unat ?j = jitter_of p r" using jit by (simp add: unat_of_nat)
  have k: "63 \<le> ?k - 1 \<longleftrightarrow> 64 \<le> unat k"
    by (auto simp: word_le_nat_alt unat_sub_if_size unat_gt_0 Suc_le_eq)
  have w: "backoff_wait 0 ?c ?k = (if 64 \<le> unat k then ?c else 0)" by (simp add: backoff_wait_def k)
  have "unat (min (if UINT64_MAX - ?j < w then UINT64_MAX else w + ?j) ?c) = min (unat w + jitter_of p r) (unat ?c)" for w
    using saturating_add [of ?j ?c w] j jit cap by simp
  then show ?thesis
    using True by (simp add: sicha_backoff_ms_eq Let_def w)
qed

section \<open>The Retry-After header\<close>

text \<open>The value of a digit string, and the header's grammar: OWS, digits, OWS.\<close>

definition is_digit :: "byte \<Rightarrow> bool" where
  "is_digit b \<longleftrightarrow> 0x30 \<le> b \<and> b \<le> 0x39"

definition is_ows :: "byte \<Rightarrow> bool" where
  "is_ows b \<longleftrightarrow> b = 0x20 \<or> b = 0x09"

definition digits_value :: "nat \<Rightarrow> bytes \<Rightarrow> nat" where
  "digits_value n ds = foldl (\<lambda>n d. n * 10 + (unat d - 48)) n ds"

lemma skip_ows_eq: "skip_ows bs = dropWhile is_ows bs"
  by (induction bs) (auto simp: is_ows_def)

text \<open>The counter reaches the value, or both are past the saturation point for good.\<close>

definition sat_rel :: "u64 \<Rightarrow> nat \<Rightarrow> bool" where
  "sat_rel w n \<longleftrightarrow> unat w = n \<and> n \<le> 10 ^ 16 + 9
     \<or> 10 ^ 15 \<le> unat w \<and> unat w \<le> 10 ^ 16 + 9 \<and> 10 ^ 15 \<le> n"

lemma unat_SAT: "unat RETRY_AFTER_SAT_MS = 10 ^ 15"
  by (simp add: RETRY_AFTER_SAT_MS_def)

definition digit_step :: "u64 \<Rightarrow> byte \<Rightarrow> u64" where
  "digit_step seconds b =
     (if RETRY_AFTER_SAT_MS < seconds then RETRY_AFTER_SAT_MS
      else seconds * 10 + ucast (b - 0x30))"

lemma read_digits_eq:
  "read_digits bs k w =
     (k + length (takeWhile is_digit bs), foldl digit_step w (takeWhile is_digit bs),
      dropWhile is_digit bs)"
  by (induction bs k w rule: read_digits.induct) (auto simp: is_digit_def digit_step_def)

lemma unat_digit:
  assumes "is_digit b"
  shows "unat (ucast (b - 0x30) :: u64) = unat b - 48" "unat b - 48 \<le> 9"
proof -
  have b: "48 \<le> unat b" "unat b \<le> 57"
    using assms by (simp_all add: is_digit_def word_le_nat_alt)
  have "unat (b - 0x30) = unat b - 48"
    using unat_sub [of "0x30" b] b by (simp add: word_le_nat_alt)
  moreover have "unat (ucast (b - 0x30) :: u64) = unat (b - 0x30)"
    using u8_bound [of "b - 0x30"] by (simp add: unsigned_ucast_eq take_bit_nat_eq_self_iff)
  ultimately show "unat (ucast (b - 0x30) :: u64) = unat b - 48" by simp
  show "unat b - 48 \<le> 9" using b by simp
qed

lemma sat_rel_step:
  assumes "sat_rel w n" "is_digit b"
  shows "sat_rel (digit_step w b) (n * 10 + (unat b - 48))"
proof (cases "RETRY_AFTER_SAT_MS < w")
  case True
  then have "10 ^ 15 \<le> n"
    using assms(1) by (auto simp: sat_rel_def word_less_nat_alt unat_SAT)
  with True show ?thesis by (simp add: digit_step_def sat_rel_def unat_SAT)
next
  case False
  then have w: "unat w \<le> 10 ^ 15" by (simp add: word_less_nat_alt unat_SAT not_less)
  note d = unat_digit [OF assms(2)]
  have "unat (w * 10) = unat w * 10"
    using w by (simp add: unat_mult_lem [THEN iffD1])
  then have "unat (w * 10 + ucast (b - 0x30)) = unat w * 10 + (unat b - 48)"
    using w d by (simp add: unat_add_lem [THEN iffD1])
  with False w d(2) assms(1) show ?thesis by (auto simp: digit_step_def sat_rel_def)
qed

lemma sat_rel_digits:
  "sat_rel w n \<Longrightarrow> \<forall>d \<in> set ds. is_digit d \<Longrightarrow>
     sat_rel (foldl digit_step w ds) (digits_value n ds)"
  by (induction ds arbitrary: w n) (auto simp: digits_value_def sat_rel_step)

definition retry_after_spec :: "bytes \<Rightarrow> nat option" where
  "retry_after_spec v =
     (let v = dropWhile is_ows v; ds = takeWhile is_digit v; rest = dropWhile is_digit v in
      if ds = [] \<or> dropWhile is_ows rest \<noteq> [] then None
      else Some (min (1000 * digits_value 0 ds) (10 ^ 15)))"

lemma sicha_retry_after_ms_spec:
  "sicha_retry_after_ms (Some v) len =
     (case retry_after_spec (if len = SICHA_LEN_CSTR then cstr v else take len v) of
        None \<Rightarrow> UINT64_MAX | Some n \<Rightarrow> of_nat n)"
proof -
  let ?v = "dropWhile is_ows (if len = SICHA_LEN_CSTR then cstr v else take len v)"
  let ?ds = "takeWhile is_digit ?v"
  let ?w = "foldl digit_step 0 ?ds" and ?n = "digits_value 0 ?ds"
  have r: "sat_rel ?w ?n"
    by (rule sat_rel_digits) (auto simp: sat_rel_def dest: set_takeWhileD)
  have k: "unat (RETRY_AFTER_SAT_MS div 1000) = 10 ^ 12"
    by (simp add: RETRY_AFTER_SAT_MS_def)
  have "(if RETRY_AFTER_SAT_MS div 1000 < ?w then RETRY_AFTER_SAT_MS else ?w * 1000)
      = of_nat (min (1000 * ?n) (10 ^ 15))"
  proof (cases "RETRY_AFTER_SAT_MS div 1000 < ?w")
    case True
    then have "10 ^ 15 \<le> 1000 * ?n"
      using r by (auto simp: sat_rel_def word_less_nat_alt k)
    with True show ?thesis by (simp add: min_def RETRY_AFTER_SAT_MS_def)
  next
    case False
    then have w: "unat ?w \<le> 10 ^ 12" by (simp add: word_less_nat_alt k not_less)
    then have n: "?n = unat ?w" using r by (auto simp: sat_rel_def)
    with False w show ?thesis by (simp add: mult.commute)
  qed
  then show ?thesis
    by (simp add: sicha_retry_after_ms_def retry_after_spec_def read_digits_eq skip_ows_eq Let_def)
qed

end
