(* ===== verification/Sse.thy ===== *)
theory Sse
  imports Buf
begin

text \<open>
  The incremental Server-Sent-Events parser of \<open>src/sse.c\<close>. The event callback is a
  parameter: it takes the payload of an event and the state of its owner, and returns its
  code and the new state (and the allocator, since the callback of the client allocates).
\<close>

section \<open>The parser state\<close>

record sicha_sse =
  sse_line_buf :: sicha_buf
  sse_data_buf :: sicha_buf
  sse_have_data :: bool
  sse_last_was_cr :: bool
  sse_bom_seen :: nat
  sse_bom_decided :: bool
  sse_max_event_bytes :: nat
  sse_err :: sicha_status

type_synonym 's on_event = "bytes \<Rightarrow> 's \<Rightarrow> mem \<Rightarrow> int \<times> 's \<times> mem"

definition bom :: bytes where
  "bom = [0xEF, 0xBB, 0xBF]"

definition sicha_sse_init :: "nat \<Rightarrow> sicha_sse" where
  "sicha_sse_init max_event_bytes =
     \<lparr>sse_line_buf = sicha_buf_init max_event_bytes,
      sse_data_buf = sicha_buf_init max_event_bytes,
      sse_have_data = False, sse_last_was_cr = False, sse_bom_seen = 0,
      sse_bom_decided = False, sse_max_event_bytes = max_event_bytes, sse_err = SICHA_OK\<rparr>"

definition sicha_sse_free :: "sicha_sse \<Rightarrow> sicha_sse" where
  "sicha_sse_free p =
     p\<lparr>sse_line_buf := sicha_buf_free (sse_line_buf p),
       sse_data_buf := sicha_buf_free (sse_data_buf p)\<rparr>"

definition sicha_sse_status :: "sicha_sse \<Rightarrow> sicha_status" where
  "sicha_sse_status p = sse_err p"

text \<open>Sticky-error promotion from the internal buffers; true if there is no error.\<close>

definition sse_check_bufs :: "sicha_sse \<Rightarrow> bool \<times> sicha_sse" where
  "sse_check_bufs p =
     (if sse_err p \<noteq> SICHA_OK then (False, p)
      else if sicha_buf_status (sse_line_buf p) \<noteq> SICHA_OK
      then (False, p\<lparr>sse_err := sicha_buf_status (sse_line_buf p)\<rparr>)
      else if sicha_buf_status (sse_data_buf p) \<noteq> SICHA_OK
      then (False, p\<lparr>sse_err := sicha_buf_status (sse_data_buf p)\<rparr>)
      else (True, p))"

section \<open>One line\<close>

text \<open>The name and the value of a field line, one leading space of the value stripped.\<close>

definition field_name :: "bytes \<Rightarrow> bytes" where
  "field_name line = takeWhile (\<lambda>b. b \<noteq> 0x3A) line"

definition field_value :: "bytes \<Rightarrow> bytes" where
  "field_value line =
     (case dropWhile (\<lambda>b. b \<noteq> 0x3A) line of
        [] \<Rightarrow> []
      | colon # value \<Rightarrow>
          (case value of [] \<Rightarrow> [] | b # v \<Rightarrow> if b = 0x20 then v else value))"

text \<open>A blank line dispatches the pending event, if any.\<close>

definition sse_dispatch :: "'s on_event option \<Rightarrow> sicha_sse \<Rightarrow> 's \<Rightarrow> mem \<Rightarrow>
    int \<times> sicha_sse \<times> 's \<times> mem" where
  "sse_dispatch on_event p s m =
     (if sse_have_data p then
        let (rc, s, m) = (case on_event of None \<Rightarrow> (0, s, m)
                          | Some f \<Rightarrow> f (buf_bytes (sse_data_buf p)) s m)
        in (rc, p\<lparr>sse_data_buf := sicha_buf_reset (sse_data_buf p), sse_have_data := False\<rparr>, s, m)
      else (0, p, s, m))"

text \<open>A \<open>data\<close> field adds a line to the pending event.\<close>

definition sse_data_field :: "sicha_sse \<Rightarrow> bytes \<Rightarrow> mem \<Rightarrow> int \<times> sicha_sse \<times> mem" where
  "sse_data_field p value m =
     (let (d, m) = (if sse_have_data p then sicha_buf_append_ch (sse_data_buf p) 0x0A m
                    else (sse_data_buf p, m));
          (d, m) = sicha_buf_append d value m;
          (ok, p) = sse_check_bufs (p\<lparr>sse_data_buf := d, sse_have_data := True\<rparr>)
      in (if ok then 0 else -1, p, m))"

definition sse_line :: "'s on_event option \<Rightarrow> sicha_sse \<Rightarrow> bytes \<Rightarrow> 's \<Rightarrow> mem \<Rightarrow>
    int \<times> sicha_sse \<times> 's \<times> mem" where
  "sse_line on_event p line s m =
     (if line = [] then sse_dispatch on_event p s m
      else if hd line = 0x3A then (0, p, s, m)
      else if field_name line = lit ''data'' then
        let (rc, p, m) = sse_data_field p (field_value line) m in (rc, p, s, m)
      else (0, p, s, m))"

section \<open>Feeding bytes\<close>

text \<open>
  The BOM loop: matched bytes are held back, on a mismatch they go into the line. The result
  tells whether an error stopped it, and what is left of the input.
\<close>

fun sse_bom_loop :: "sicha_sse \<Rightarrow> bytes \<Rightarrow> mem \<Rightarrow> bool \<times> sicha_sse \<times> bytes \<times> mem" where
  "sse_bom_loop p [] m = (True, p, [], m)"
| "sse_bom_loop p (b # bs) m =
     (if sse_bom_decided p then (True, p, b # bs, m)
      else if b = bom ! sse_bom_seen p then
        let p = p\<lparr>sse_bom_seen := sse_bom_seen p + 1\<rparr>;
            p = (if sse_bom_seen p = 3 then p\<lparr>sse_bom_decided := True\<rparr> else p)
        in sse_bom_loop p bs m
      else
        let (l, m) = sicha_buf_append (sse_line_buf p) (take (sse_bom_seen p) bom) m;
            p = p\<lparr>sse_line_buf := l, sse_bom_seen := 0, sse_bom_decided := True\<rparr>;
            (ok, p) = sse_check_bufs p
        in (ok, p, b # bs, m))"

text \<open>A line terminator hands the line over; any other byte extends it.\<close>

definition sse_eol :: "'s on_event option \<Rightarrow> sicha_sse \<Rightarrow> byte \<Rightarrow> 's \<Rightarrow> mem \<Rightarrow>
    int \<times> sicha_sse \<times> 's \<times> mem" where
  "sse_eol on_event p ch s m =
     (let (rc, p, s, m) = sse_line on_event p (buf_bytes (sse_line_buf p)) s m;
          p = p\<lparr>sse_line_buf := sicha_buf_reset (sse_line_buf p), sse_last_was_cr := ch = 0x0D\<rparr>
      in if rc \<noteq> 0 then (rc, p, s, m)
         else if sse_err p \<noteq> SICHA_OK then (-1, p, s, m)
         else (0, p, s, m))"

definition sse_char :: "sicha_sse \<Rightarrow> byte \<Rightarrow> mem \<Rightarrow> int \<times> sicha_sse \<times> mem" where
  "sse_char p ch m =
     (let (l, m) = sicha_buf_append_ch (sse_line_buf p) ch m;
          (ok, p) = sse_check_bufs (p\<lparr>sse_line_buf := l\<rparr>)
      in (if ok then 0 else -1, p, m))"

text \<open>One byte of the main loop: the code that stops the loop, or 0.\<close>

definition sse_byte :: "'s on_event option \<Rightarrow> sicha_sse \<Rightarrow> byte \<Rightarrow> 's \<Rightarrow> mem \<Rightarrow>
    int \<times> sicha_sse \<times> 's \<times> mem" where
  "sse_byte on_event p ch s m =
     (let was_cr = sse_last_was_cr p; p = p\<lparr>sse_last_was_cr := False\<rparr> in
      if was_cr \<and> ch = 0x0A then (0, p, s, m)
      else if ch = 0x0D \<or> ch = 0x0A then sse_eol on_event p ch s m
      else let (rc, p, m) = sse_char p ch m in (rc, p, s, m))"

fun sse_bytes :: "'s on_event option \<Rightarrow> sicha_sse \<Rightarrow> bytes \<Rightarrow> 's \<Rightarrow> mem \<Rightarrow>
    int \<times> sicha_sse \<times> 's \<times> mem" where
  "sse_bytes on_event p [] s m = (0, p, s, m)"
| "sse_bytes on_event p (ch # bs) s m =
     (let (rc, p, s, m) = sse_byte on_event p ch s m in
      if rc \<noteq> 0 then (rc, p, s, m) else sse_bytes on_event p bs s m)"

definition sicha_sse_feed :: "'s on_event option \<Rightarrow> sicha_sse \<Rightarrow> bytes \<Rightarrow> 's \<Rightarrow> mem \<Rightarrow>
    int \<times> sicha_sse \<times> 's \<times> mem" where
  "sicha_sse_feed on_event p bs s m =
     (if sse_err p \<noteq> SICHA_OK then (-1, p, s, m)
      else
        let (ok, p, bs, m) = sse_bom_loop p bs m in
        if \<not> ok then (-1, p, s, m) else sse_bytes on_event p bs s m)"

definition sicha_sse_finish :: "'s on_event option \<Rightarrow> sicha_sse \<Rightarrow> 's \<Rightarrow> mem \<Rightarrow>
    int \<times> sicha_sse \<times> 's \<times> mem" where
  "sicha_sse_finish on_event p s m =
     (if sse_err p \<noteq> SICHA_OK then (-1, p, s, m)
      else
        let (p, m) =
              (if \<not> sse_bom_decided p \<and> 0 < sse_bom_seen p then
                 let (l, m) = sicha_buf_append (sse_line_buf p) (take (sse_bom_seen p) bom) m
                 in (p\<lparr>sse_line_buf := l, sse_bom_seen := 0\<rparr>, m)
               else (p, m));
            p = p\<lparr>sse_bom_decided := True\<rparr>;
            (rc, p, s, m) =
              (if 0 < buf_len (sse_line_buf p) then
                 let (rc, p, s, m) = sse_line on_event p (buf_bytes (sse_line_buf p)) s m;
                     p = p\<lparr>sse_line_buf := sicha_buf_reset (sse_line_buf p)\<rparr>
                 in if rc \<noteq> 0 then (rc, p, s, m)
                    else if sse_err p \<noteq> SICHA_OK then (-1, p, s, m)
                    else (0, p, s, m)
               else (0, p, s, m))
        in if rc \<noteq> 0 then (rc, p, s, m)
           else
             let (rc, p, s, m) = sse_line on_event p [] s m in
             if rc \<noteq> 0 then (rc, p, s, m)
             else (if sse_err p = SICHA_OK then 0 else -1, p, s, m))"

section \<open>Feeding in pieces\<close>

lemma sse_bytes_append:
  "sse_bytes f p (a @ b) s m =
     (let (rc, p, s, m) = sse_bytes f p a s m in
      if rc \<noteq> 0 then (rc, p, s, m) else sse_bytes f p b s m)"
  by (induction a arbitrary: p s m) (auto simp: Let_def split: prod.split)

lemma sse_bom_loop_decided: "sse_bom_decided p \<Longrightarrow> sse_bom_loop p bs m = (True, p, bs, m)"
  by (cases bs) simp_all

lemma sse_bom_loop_append:
  "sse_bom_loop p (a @ b) m =
     (let (ok, p, r, m) = sse_bom_loop p a m in
      if \<not> ok then (ok, p, r @ b, m)
      else if r = [] then sse_bom_loop p b m else (True, p, r @ b, m))"
  by (induction p a m rule: sse_bom_loop.induct)
    (auto simp: Let_def sse_bom_loop_decided split: prod.split)

lemma sse_bom_loop_rest:
  "sse_bom_loop p bs m = (True, p', r, m') \<Longrightarrow> r \<noteq> [] \<Longrightarrow> sse_bom_decided p'"
  by (induction p bs m rule: sse_bom_loop.induct)
    (auto simp: Let_def sse_check_bufs_def split: prod.splits if_splits)

lemma sse_check_bufs_True:
  "sse_check_bufs p = (True, p') \<Longrightarrow> p' = p \<and> sse_err p' = SICHA_OK"
  by (auto simp: sse_check_bufs_def split: if_splits)

lemma sse_check_bufs_frame:
  "sse_check_bufs p = (ok, p') \<Longrightarrow> sse_bom_decided p' = sse_bom_decided p"
  by (auto simp: sse_check_bufs_def split: if_splits)

lemma sse_dispatch_bom:
  "sse_dispatch f p s m = (rc, p', s', m') \<Longrightarrow> sse_bom_decided p' = sse_bom_decided p"
  by (auto simp: sse_dispatch_def Let_def split: if_splits prod.splits)

lemma sse_data_field_bom:
  "sse_data_field p v m = (rc, p', m') \<Longrightarrow> sse_bom_decided p' = sse_bom_decided p"
  by (auto simp: sse_data_field_def Let_def split: prod.splits dest: sse_check_bufs_frame)

lemma sse_line_bom:
  "sse_line f p line s m = (rc, p', s', m') \<Longrightarrow> sse_bom_decided p' = sse_bom_decided p"
  by (auto simp: sse_line_def Let_def split: if_splits prod.splits
      dest: sse_dispatch_bom sse_data_field_bom)

lemma sse_eol_bom:
  "sse_eol f p ch s m = (rc, p', s', m') \<Longrightarrow> sse_bom_decided p' = sse_bom_decided p"
  by (auto simp: sse_eol_def Let_def split: if_splits prod.splits dest: sse_line_bom)

lemma sse_char_bom:
  "sse_char p ch m = (rc, p', m') \<Longrightarrow> sse_bom_decided p' = sse_bom_decided p"
  by (auto simp: sse_char_def Let_def split: prod.splits dest: sse_check_bufs_frame)

lemma sse_byte_bom:
  "sse_byte f p ch s m = (rc, p', s', m') \<Longrightarrow> sse_bom_decided p' = sse_bom_decided p"
  by (auto simp: sse_byte_def Let_def split: if_splits prod.splits dest: sse_eol_bom sse_char_bom)

lemma sse_char_ready: "sse_char p ch m = (0, p', m') \<Longrightarrow> sse_err p' = SICHA_OK"
  by (auto simp: sse_char_def Let_def split: prod.splits if_splits dest: sse_check_bufs_True)

lemma sse_eol_ready: "sse_eol f p ch s m = (0, p', s', m') \<Longrightarrow> sse_err p' = SICHA_OK"
  by (auto simp: sse_eol_def Let_def split: prod.splits if_splits)

lemma sse_byte_ready:
  "sse_byte f p ch s m = (0, p', s', m') \<Longrightarrow> sse_err p = SICHA_OK \<Longrightarrow> sse_err p' = SICHA_OK"
  by (auto simp: sse_byte_def Let_def split: if_splits prod.splits dest: sse_char_ready sse_eol_ready)

lemma sse_bytes_ready:
  "sse_bytes f p bs s m = (0, p', s', m') \<Longrightarrow> sse_err p = SICHA_OK \<Longrightarrow> sse_err p' = SICHA_OK"
  by (induction bs arbitrary: p s m)
    (auto simp: Let_def split: prod.splits if_splits dest: sse_byte_ready)

lemma sse_bytes_bom:
  "sse_bytes f p bs s m = (rc, p', s', m') \<Longrightarrow> sse_bom_decided p' = sse_bom_decided p"
  by (induction bs arbitrary: p s m)
    (auto simp: Let_def split: prod.splits if_splits dest: sse_byte_bom)

lemma sse_bom_loop_ready:
  "sse_bom_loop p bs m = (True, p', r, m') \<Longrightarrow> sse_err p = SICHA_OK \<Longrightarrow> sse_err p' = SICHA_OK"
  by (induction p bs m rule: sse_bom_loop.induct)
    (auto simp: Let_def split: prod.splits if_splits dest: sse_check_bufs_True)

lemma sicha_sse_feed_ready:
  "sicha_sse_feed f p bs s m = (0, p', s', m') \<Longrightarrow> sse_err p' = SICHA_OK"
  by (auto simp: sicha_sse_feed_def Let_def split: prod.splits if_splits
      dest: sse_bom_loop_ready sse_bytes_ready)

lemma sicha_sse_feed_append:
  "sicha_sse_feed f p (a @ b) s m =
     (let (rc, p, s, m) = sicha_sse_feed f p a s m in
      if rc \<noteq> 0 then (rc, p, s, m) else sicha_sse_feed f p b s m)"
proof (cases "sse_err p = SICHA_OK")
  case False
  then show ?thesis by (simp add: sicha_sse_feed_def)
next
  case True
  obtain ok p1 r m1 where l: "sse_bom_loop p a m = (ok, p1, r, m1)"
    by (cases "sse_bom_loop p a m")
  show ?thesis
  proof (cases "ok \<and> r \<noteq> []")
    case False
    with True l show ?thesis
      by (auto simp: sicha_sse_feed_def sse_bom_loop_append dest: sse_bom_loop_ready)
  next
    case r: True
    obtain rc p2 s2 m2 where b: "sse_bytes f p1 r s m1 = (rc, p2, s2, m2)"
      by (cases "sse_bytes f p1 r s m1")
    have l': "sse_bom_loop p a m = (True, p1, r, m1)" using l r by simp
    then have d: "sse_bom_decided p1" using r by (auto dest: sse_bom_loop_rest)
    have "sse_err p1 = SICHA_OK" using l' True by (rule sse_bom_loop_ready)
    with b have e: "rc = 0 \<Longrightarrow> sse_err p2 = SICHA_OK" by (auto dest: sse_bytes_ready)
    have "sse_bom_decided p2" using d sse_bytes_bom [OF b] by simp
    with True l r b d e show ?thesis
      by (auto simp: sicha_sse_feed_def sse_bom_loop_append sse_bytes_append sse_bom_loop_decided)
  qed
qed

section \<open>The contract of an incremental consumer\<close>

text \<open>
  What a transport relies on when it delivers a body in pieces: a nonzero code stops the
  transfer, and after a piece was accepted the next one continues where it ended.
\<close>

primrec feed_chunks :: "('p \<Rightarrow> bytes \<Rightarrow> int \<times> 'p) \<Rightarrow> 'p \<Rightarrow> bytes list \<Rightarrow> int \<times> 'p" where
  "feed_chunks feed p [] = (0, p)"
| "feed_chunks feed p (c # cs) =
     (let (rc, p) = feed p c in if rc \<noteq> 0 then (rc, p) else feed_chunks feed p cs)"

locale incremental =
  fixes feed :: "'p \<Rightarrow> bytes \<Rightarrow> int \<times> 'p"
    and ready :: "'p \<Rightarrow> bool"
  assumes feed_Nil: "ready p \<Longrightarrow> feed p [] = (0, p)"
    and feed_append: "feed p (a @ b) =
      (let (rc, p) = feed p a in if rc \<noteq> 0 then (rc, p) else feed p b)"
    and feed_ready: "feed p a = (0, p') \<Longrightarrow> ready p'"
begin

lemma feed_chunks_concat: "ready p \<Longrightarrow> feed_chunks feed p cs = feed p (concat cs)"
proof (induction cs arbitrary: p)
  case Nil
  then show ?case by (simp add: feed_Nil)
next
  case (Cons c cs)
  obtain rc p' where f: "feed p c = (rc, p')" by (cases "feed p c")
  with Cons.IH [of p'] show ?case by (auto simp: feed_append dest: feed_ready)
qed

text \<open>Two ways of cutting the same bytes cannot be told apart.\<close>

lemma feed_chunks_partition:
  "ready p \<Longrightarrow> concat cs = concat ds \<Longrightarrow> feed_chunks feed p cs = feed_chunks feed p ds"
  by (simp add: feed_chunks_concat)

end

definition sse_feed_state :: "'s on_event option \<Rightarrow> sicha_sse \<times> 's \<times> mem \<Rightarrow> bytes \<Rightarrow>
    int \<times> sicha_sse \<times> 's \<times> mem" where
  "sse_feed_state f st bs = (case st of (p, s, m) \<Rightarrow> sicha_sse_feed f p bs s m)"

definition sse_ready :: "sicha_sse \<times> 's \<times> mem \<Rightarrow> bool" where
  "sse_ready st \<longleftrightarrow> sse_err (fst st) = SICHA_OK"

interpretation sse: incremental "sse_feed_state (f :: 's on_event option)" sse_ready
  for f
proof
  fix p p' :: "sicha_sse \<times> 's \<times> mem" and a b
  show "sse_feed_state f p [] = (0, p)" if "sse_ready p"
    using that by (auto simp: sse_feed_state_def sse_ready_def sicha_sse_feed_def split: prod.splits)
  show "sse_feed_state f p (a @ b) =
      (let (rc, p) = sse_feed_state f p a in if rc \<noteq> 0 then (rc, p) else sse_feed_state f p b)"
    by (auto simp: sse_feed_state_def sicha_sse_feed_append Let_def split: prod.splits)
  show "sse_ready p'" if "sse_feed_state f p a = (0, p')"
    using that by (cases p'; auto simp: sse_feed_state_def sse_ready_def
        dest: sicha_sse_feed_ready split: prod.splits)
qed


section \<open>The reference semantics\<close>

text \<open>
  What a stream means, without buffers or state: drop a BOM, turn every line end into LF,
  split at LF, and group the values of the \<open>data\<close> fields between blank lines.
\<close>

definition strip_bom :: "bytes \<Rightarrow> bytes" where
  "strip_bom bs = (if take 3 bs = bom then drop 3 bs else bs)"

fun unify_eol :: "bool \<Rightarrow> bytes \<Rightarrow> bytes" where
  "unify_eol cr [] = []"
| "unify_eol cr (b # bs) =
     (if cr \<and> b = 0x0A then unify_eol False bs
      else if b = 0x0D then 0x0A # unify_eol True bs
      else b # unify_eol False bs)"

fun split_lf :: "bytes \<Rightarrow> bytes \<Rightarrow> bytes list" where
  "split_lf line [] = [line]"
| "split_lf line (b # bs) = (if b = 0x0A then line # split_lf [] bs else split_lf (line @ [b]) bs)"

definition is_data_line :: "bytes \<Rightarrow> bool" where
  "is_data_line line \<longleftrightarrow> line \<noteq> [] \<and> hd line \<noteq> 0x3A \<and> field_name line = lit ''data''"

definition flush_event :: "bytes list \<Rightarrow> bytes list" where
  "flush_event vs = (if vs = [] then [] else [join_with 0x0A vs])"

fun group_events :: "bytes list \<Rightarrow> bytes list \<Rightarrow> bytes list" where
  "group_events vs [] = flush_event vs"
| "group_events vs (line # lines) =
     (if line = [] then flush_event vs @ group_events [] lines
      else if is_data_line line then group_events (vs @ [field_value line]) lines
      else group_events vs lines)"

definition sse_events :: "bytes \<Rightarrow> bytes list" where
  "sse_events bs = group_events [] (split_lf [] (unify_eol False (strip_bom bs)))"

text \<open>The callback that keeps every event and never stops the parser.\<close>

definition collect :: "bytes list on_event" where
  "collect d evs m = (0, evs @ [d], m)"

text \<open>
  A whole stream, in one feed and the final flush. \<open>sse_run\<close> is what the tests of the
  repository call \<open>parse_all\<close>.
\<close>

definition sse_run :: "'s on_event option \<Rightarrow> sicha_sse \<Rightarrow> bytes \<Rightarrow> 's \<Rightarrow> mem \<Rightarrow>
    int \<times> sicha_sse \<times> 's \<times> mem" where
  "sse_run f p bs s m =
     (let (rc, p, s, m) = sicha_sse_feed f p bs s m in
      if rc \<noteq> 0 then (rc, p, s, m) else sicha_sse_finish f p s m)"

section \<open>The parser implements the reference semantics\<close>

lemma sicha_buf_append_fits:
  assumes "buf_wf b" "buf_err b = SICHA_OK" "all_ok m" "length (buf_bytes b) + length bs < SIZE_MAX"
    "buf_max_len b \<noteq> 0 \<Longrightarrow> length (buf_bytes b) + length bs \<le> buf_max_len b"
  obtains b' m' where "sicha_buf_append b bs m = (b', m')" "buf_wf b'"
    "buf_bytes b' = buf_bytes b @ bs" "buf_err b' = SICHA_OK" "buf_max_len b' = buf_max_len b"
    "all_ok m'"
proof -
  have "fst (buf_reserve b (length bs) m)"
    using assms by (intro buf_reserve_succeeds) (auto simp: buf_len_bytes)
  then obtain b1 m1 where r: "buf_reserve b (length bs) m = (True, b1, m1)"
    by (cases "buf_reserve b (length bs) m") auto
  obtain b' m' where a: "sicha_buf_append b bs m = (b', m')"
    by (cases "sicha_buf_append b bs m")
  show ?thesis
    using that [OF a] sicha_buf_append_ok [OF assms(1) r a] buf_reserve_True(10) [OF assms(1) r]
      assms(3) by simp
qed

text \<open>
  The simulation relation: the line buffer holds the line read so far, the data buffer the
  joined values, and the \<open>rem\<close> bytes still to come fit under \<open>N\<close>, the length of the whole
  stream, which is below the cap.
\<close>

definition sse_sim :: "nat \<Rightarrow> sicha_sse \<Rightarrow> mem \<Rightarrow> bytes \<Rightarrow> bytes list \<Rightarrow> bool \<Rightarrow> nat \<Rightarrow> bool" where
  "sse_sim N p m line vs cr rem \<longleftrightarrow>
     sse_err p = SICHA_OK \<and> all_ok m
     \<and> buf_wf (sse_line_buf p) \<and> buf_err (sse_line_buf p) = SICHA_OK
     \<and> buf_wf (sse_data_buf p) \<and> buf_err (sse_data_buf p) = SICHA_OK
     \<and> buf_bytes (sse_line_buf p) = line \<and> buf_bytes (sse_data_buf p) = join_with 0x0A vs
     \<and> sse_have_data p = (vs \<noteq> []) \<and> sse_last_was_cr p = cr
     \<and> length line + length (join_with 0x0A vs) + rem \<le> N \<and> N < SIZE_MAX
     \<and> (buf_max_len (sse_line_buf p) = 0 \<or> N \<le> buf_max_len (sse_line_buf p))
     \<and> (buf_max_len (sse_data_buf p) = 0 \<or> N \<le> buf_max_len (sse_data_buf p))"

lemma field_value_length:
  assumes "is_data_line line"
  shows "length (field_value line) + 4 \<le> length line"
proof -
  have "length (takeWhile (\<lambda>b. b \<noteq> 0x3A) line) = 4"
    using assms by (simp add: is_data_line_def field_name_def)
  moreover have "length line =
      length (takeWhile (\<lambda>b. b \<noteq> 0x3A) line) + length (dropWhile (\<lambda>b. b \<noteq> 0x3A) line)"
    by (metis length_append takeWhile_dropWhile_id)
  moreover have "length (field_value line) \<le> length (dropWhile (\<lambda>b. b \<noteq> 0x3A) line)"
    by (auto simp: field_value_def split: list.split)
  ultimately show ?thesis by simp
qed

lemma length_join_snoc:
  "length (join_with c (vs @ [v])) \<le> length (join_with c vs) + length v + 1"
  by (cases "vs = []") (auto simp: join_with_snoc)

lemma sse_data_field_sim:
  assumes "sse_sim N p m line vs cr rem" "is_data_line line"
  obtains p' m' where "sse_data_field p (field_value line) m = (0, p', m')"
    "sse_sim N (p'\<lparr>sse_line_buf := sicha_buf_reset (sse_line_buf p'), sse_last_was_cr := c\<rparr>) m'
       [] (vs @ [field_value line]) c rem"
    "sse_err p' = SICHA_OK" "sse_bom_decided p' = sse_bom_decided p"
    "sse_last_was_cr p' = cr" "sse_line_buf p' = sse_line_buf p"
proof -
  let ?v = "field_value line" and ?d = "sse_data_buf p"
  note l = field_value_length [OF assms(2)]
  have S: "buf_wf ?d" "buf_err ?d = SICHA_OK" "all_ok m" "buf_bytes ?d = join_with 0x0A vs"
    "length line + length (join_with 0x0A vs) + rem \<le> N" "N < SIZE_MAX"
    "buf_max_len ?d = 0 \<or> N \<le> buf_max_len ?d" "sse_have_data p = (vs \<noteq> [])"
    using assms(1) by (simp_all add: sse_sim_def)
  obtain d1 m1 where d1: "(if sse_have_data p then sicha_buf_append_ch ?d 0x0A m else (?d, m)) = (d1, m1)"
    "buf_wf d1" "buf_err d1 = SICHA_OK" "all_ok m1" "buf_max_len d1 = buf_max_len ?d"
    "buf_bytes d1 = (if vs = [] then [] else join_with 0x0A vs @ [0x0A])"
  proof (cases "vs = []")
    case True
    with S that show ?thesis by simp
  next
    case False
    obtain d1 m1 where "sicha_buf_append ?d [0x0A] m = (d1, m1)" "buf_wf d1"
      "buf_bytes d1 = buf_bytes ?d @ [0x0A]" "buf_err d1 = SICHA_OK"
      "buf_max_len d1 = buf_max_len ?d" "all_ok m1"
      using S l by (rule_tac sicha_buf_append_fits [of ?d m "[0x0A]"]) auto
    with False S that show ?thesis by (simp add: sicha_buf_append_ch_def)
  qed
  obtain d2 m2 where d2: "sicha_buf_append d1 ?v m1 = (d2, m2)" "buf_wf d2"
    "buf_bytes d2 = buf_bytes d1 @ ?v" "buf_err d2 = SICHA_OK"
    "buf_max_len d2 = buf_max_len ?d" "all_ok m2"
    using S l d1 by (rule_tac sicha_buf_append_fits [of d1 m1 ?v]) auto
  have j: "buf_bytes d2 = join_with 0x0A (vs @ [?v])"
    using d1(6) d2(3) by (auto simp: join_with_snoc)
  let ?p = "p\<lparr>sse_data_buf := d2, sse_have_data := True\<rparr>"
  have "sse_data_field p ?v m = (0, ?p, m2)"
    using d1(1) d2 assms(1)
    by (simp add: sse_data_field_def sse_check_bufs_def sicha_buf_status_def sse_sim_def)
  then show ?thesis
    using that [of ?p m2] assms(1) d2 j l length_join_snoc [of "0x0A" vs ?v]
    by (simp add: sse_sim_def sicha_buf_reset_wf)
qed

text \<open>A line adds to the pending event, ends it, or does neither.\<close>

definition next_pending :: "bytes \<Rightarrow> bytes list \<Rightarrow> bytes list" where
  "next_pending line vs =
     (if line = [] then [] else if is_data_line line then vs @ [field_value line] else vs)"

definition line_output :: "bytes \<Rightarrow> bytes list \<Rightarrow> bytes list" where
  "line_output line vs = (if line = [] then flush_event vs else [])"

lemma group_events_Cons:
  "group_events vs (line # lines) = line_output line vs @ group_events (next_pending line vs) lines"
  by (simp add: line_output_def next_pending_def)

lemma group_events_single:
  "group_events vs [line] = line_output line vs @ flush_event (next_pending line vs)"
  by (simp add: line_output_def next_pending_def)

text \<open>
  Within the bounds nothing but the callback stops the parser: a code other than 0 is the one
  its last call returned.
\<close>

definition mem_keeps :: "'s on_event \<Rightarrow> bool" where
  "mem_keeps f \<longleftrightarrow> (\<forall>d s m. all_ok m \<longrightarrow> all_ok (snd (snd (f d s m))))"

definition stopped_by :: "'s on_event \<Rightarrow> int \<Rightarrow> 's \<Rightarrow> bool" where
  "stopped_by f rc s' \<longleftrightarrow> rc \<noteq> 0 \<and> (\<exists>d s m m'. all_ok m \<and> f d s m = (rc, s', m'))"

lemma stopped_by_0 [simp]: "\<not> stopped_by f 0 s'"
  by (simp add: stopped_by_def)

text \<open>A line, and the reset of the line buffer that follows it in the code.\<close>

lemma sse_line_sim:
  assumes S: "sse_sim N p m line vs cr rem" and M: "mem_keeps f"
    and L: "sse_line (Some f) p line s m = (rc, p', s', m')"
  shows "stopped_by f rc s' \<or> rc = 0 \<and> sse_err p' = SICHA_OK \<and> sse_bom_decided p' = sse_bom_decided p
    \<and> sse_last_was_cr p' = cr
    \<and> sse_sim N (p'\<lparr>sse_line_buf := sicha_buf_reset (sse_line_buf p'), sse_last_was_cr := c\<rparr>) m'
        [] (next_pending line vs) c rem"
proof (cases "is_data_line line")
  case True
  from S True obtain p1 m1 where D: "sse_data_field p (field_value line) m = (0, p1, m1)"
    "sse_sim N (p1\<lparr>sse_line_buf := sicha_buf_reset (sse_line_buf p1), sse_last_was_cr := c\<rparr>) m1
       [] (vs @ [field_value line]) c rem"
    "sse_err p1 = SICHA_OK" "sse_bom_decided p1 = sse_bom_decided p" "sse_last_was_cr p1 = cr"
    by (rule sse_data_field_sim)
  have l: "line \<noteq> []" "hd line \<noteq> 0x3A" "field_name line = lit ''data''"
    using True by (simp_all add: is_data_line_def)
  then have "rc = 0 \<and> p' = p1 \<and> m' = m1"
    using L D(1) by (simp add: sse_line_def del: lit_simps)
  moreover have "next_pending line vs = vs @ [field_value line]"
    using True l by (simp add: next_pending_def)
  ultimately show ?thesis using D by simp
next
  case False
  show ?thesis
  proof (cases "line = []")
    case True
    have h: "sse_have_data p = (vs \<noteq> [])" "all_ok m" using S by (simp_all add: sse_sim_def)
    obtain rc1 s1 m1 where f: "f (buf_bytes (sse_data_buf p)) s m = (rc1, s1, m1)" by (metis prod_cases3)
    then have m1: "all_ok m1" using M h(2) unfolding mem_keeps_def by (metis snd_conv)
    show ?thesis
    proof (cases "vs = []")
      case vs: True
      with L h True have "rc = 0 \<and> p' = p \<and> m' = m" by (simp add: sse_line_def sse_dispatch_def)
      with S True vs show ?thesis by (simp add: sse_sim_def next_pending_def sicha_buf_reset_wf)
    next
      case vs: False
      with L h True f have R: "rc = rc1" "s' = s1" "m' = m1"
        "p' = p\<lparr>sse_data_buf := sicha_buf_reset (sse_data_buf p), sse_have_data := False\<rparr>"
        by (simp_all add: sse_line_def sse_dispatch_def)
      show ?thesis
      proof (cases "rc1 = 0")
        case False
        with R f h(2) show ?thesis unfolding stopped_by_def by blast
      next
        case ok: True
        with R S True m1 show ?thesis by (simp add: sse_sim_def next_pending_def sicha_buf_reset_wf)
      qed
    qed
  next
    case l: False
    with False L have "rc = 0 \<and> p' = p \<and> m' = m"
      by (auto simp: sse_line_def is_data_line_def simp del: lit_simps split: if_splits)
    then show ?thesis
      using l False S by (simp add: sse_sim_def next_pending_def sicha_buf_reset_wf)
  qed
qed

lemma sse_char_sim:
  assumes S: "sse_sim N p m line vs cr (Suc rem)"
  obtains p' m' where "sse_char (p\<lparr>sse_last_was_cr := False\<rparr>) b m = (0, p', m')"
    "sse_sim N p' m' (line @ [b]) vs False rem" "sse_bom_decided p' = sse_bom_decided p"
proof -
  obtain l m' where l: "sicha_buf_append (sse_line_buf p) [b] m = (l, m')" "buf_wf l"
    "buf_bytes l = buf_bytes (sse_line_buf p) @ [b]" "buf_err l = SICHA_OK"
    "buf_max_len l = buf_max_len (sse_line_buf p)" "all_ok m'"
    using S by (rule_tac sicha_buf_append_fits [of "sse_line_buf p" m "[b]"]) (auto simp: sse_sim_def)
  let ?p = "p\<lparr>sse_last_was_cr := False, sse_line_buf := l\<rparr>"
  have "sse_char (p\<lparr>sse_last_was_cr := False\<rparr>) b m = (0, ?p, m')"
    using l S by (simp add: sse_char_def sicha_buf_append_ch_def sse_check_bufs_def
        sicha_buf_status_def sse_sim_def)
  then show ?thesis
    using that [of ?p m'] l S by (simp add: sse_sim_def)
qed

text \<open>From any state of the simulation, the rest of the stream and the final flush.\<close>

lemma sse_finish_decided:
  assumes "sse_bom_decided p"
  shows "sicha_sse_finish f p s m =
     (if sse_err p \<noteq> SICHA_OK then (-1, p, s, m)
      else
        let (rc, p, s, m) =
              (if 0 < buf_len (sse_line_buf p) then
                 let (rc, p, s, m) = sse_line f p (buf_bytes (sse_line_buf p)) s m;
                     p = p\<lparr>sse_line_buf := sicha_buf_reset (sse_line_buf p)\<rparr>
                 in if rc \<noteq> 0 then (rc, p, s, m)
                    else if sse_err p \<noteq> SICHA_OK then (-1, p, s, m)
                    else (0, p, s, m)
               else (0, p, s, m))
        in if rc \<noteq> 0 then (rc, p, s, m)
           else
             let (rc, p, s, m) = sse_line f p [] s m in
             if rc \<noteq> 0 then (rc, p, s, m)
             else (if sse_err p = SICHA_OK then 0 else -1, p, s, m))"
  using assms by (cases p) (simp add: sicha_sse_finish_def)

lemma sse_finish_sim:
  assumes S: "sse_sim N p m line vs cr 0" and d: "sse_bom_decided p" and M: "mem_keeps f"
    and F: "sicha_sse_finish (Some f) p s m = (rc, p', s', m')"
  shows "stopped_by f rc s' \<or> rc = 0"
proof -
  have len: "buf_len (sse_line_buf p) = length line" and b: "buf_bytes (sse_line_buf p) = line"
    and e: "sse_err p = SICHA_OK"
    using S by (auto simp: sse_sim_def buf_len_bytes [symmetric])
  obtain rc1 p1 s1 m1 where L: "sse_line (Some f) p line s m = (rc1, p1, s1, m1)" by (metis prod_cases4)
  note L1 = sse_line_sim [OF S M L, of cr]
  show ?thesis
  proof (cases "line = []")
    case True
    with F L L1 len e show ?thesis by (auto simp: sse_finish_decided [OF d] split: if_splits)
  next
    case False
    let ?q = "p1\<lparr>sse_line_buf := sicha_buf_reset (sse_line_buf p1)\<rparr>"
    obtain rc2 p2 s2 m2 where D: "sse_line (Some f) ?q [] s1 m1 = (rc2, p2, s2, m2)" by (metis prod_cases4)
    from L1 show ?thesis
    proof
      assume st: "stopped_by f rc1 s1"
      with F False len b e L have "rc = rc1 \<and> s' = s1"
        by (simp add: sse_finish_decided [OF d] stopped_by_def)
      with st show ?thesis by simp
    next
      assume ok: "rc1 = 0 \<and> sse_err p1 = SICHA_OK \<and> sse_bom_decided p1 = sse_bom_decided p
        \<and> sse_last_was_cr p1 = cr
        \<and> sse_sim N (p1\<lparr>sse_line_buf := sicha_buf_reset (sse_line_buf p1), sse_last_was_cr := cr\<rparr>) m1
            [] (next_pending line vs) cr 0"
      then have "p1\<lparr>sse_line_buf := sicha_buf_reset (sse_line_buf p1), sse_last_was_cr := cr\<rparr> = ?q" by simp
      with ok have "sse_sim N ?q m1 [] (next_pending line vs) cr 0" by simp
      from sse_line_sim [OF this M D, of cr] F False len b e L D ok show ?thesis
        by (auto simp: sse_finish_decided [OF d] split: if_splits)
    qed
  qed
qed

lemma sse_bytes_sim:
  assumes "sse_sim N p m line vs cr (length bs)" "sse_bom_decided p" "mem_keeps f"
    and "(let (rc, p, s, m) = sse_bytes (Some f) p bs s m in
       if rc \<noteq> 0 then (rc, p, s, m) else sicha_sse_finish (Some f) p s m) = (rc, p', s', m')"
  shows "stopped_by f rc s' \<or> rc = 0"
  using assms
proof (induction bs arbitrary: p m line vs cr s)
  case Nil
  then show ?case using sse_finish_sim [of N p m line vs cr f s] by simp
next
  case (Cons b bs)
  let ?p = "p\<lparr>sse_last_was_cr := False\<rparr>"
  have cr: "sse_last_was_cr p = cr" using Cons.prems(1) by (simp add: sse_sim_def)
  have sim: "sse_sim N ?p m line vs False (length bs)" using Cons.prems(1) by (simp add: sse_sim_def)
  consider "cr \<and> b = 0x0A" | "\<not> (cr \<and> b = 0x0A)" "b = 0x0D \<or> b = 0x0A" | "b \<noteq> 0x0D" "b \<noteq> 0x0A"
    by blast
  then show ?case
  proof cases
    case 1
    with cr Cons.IH [OF sim] Cons.prems(2-4) show ?thesis by (simp add: sse_byte_def)
  next
    case 2
    obtain rc1 p1 s1 m1 where L: "sse_line (Some f) ?p line s m = (rc1, p1, s1, m1)" by (metis prod_cases4)
    let ?q = "p1\<lparr>sse_line_buf := sicha_buf_reset (sse_line_buf p1), sse_last_was_cr := b = 0x0D\<rparr>"
    have g: "(cr \<and> b = 0x0A) = False" "(b = 0x0D \<or> b = 0x0A) = True" using 2 by auto
    have B: "sse_byte (Some f) p b s m = (if rc1 \<noteq> 0 then (rc1, ?q, s1, m1)
        else if sse_err p1 \<noteq> SICHA_OK then (-1, ?q, s1, m1) else (0, ?q, s1, m1))"
    proof -
      have "buf_bytes (sse_line_buf ?p) = line" using Cons.prems(1) by (simp add: sse_sim_def)
      with L show ?thesis unfolding sse_byte_def Let_def cr g by (simp add: sse_eol_def)
    qed
    from sse_line_sim [OF sim Cons.prems(3) L, of "b = 0x0D"] show ?thesis
    proof
      assume st: "stopped_by f rc1 s1"
      with B Cons.prems(4) show ?thesis by (auto simp: stopped_by_def)
    next
      assume ok: "rc1 = 0 \<and> sse_err p1 = SICHA_OK \<and> sse_bom_decided p1 = sse_bom_decided ?p
        \<and> sse_last_was_cr p1 = False
        \<and> sse_sim N ?q m1 [] (next_pending line vs) (b = 0x0D) (length bs)"
      with B Cons.prems(2-4) Cons.IH [of ?q m1 "[]" "next_pending line vs" "b = 0x0D" s1] show ?thesis by simp
    qed
  next
    case 3
    obtain p' m' where C: "sse_char ?p b m = (0, p', m')"
      "sse_sim N p' m' (line @ [b]) vs False (length bs)" "sse_bom_decided p' = sse_bom_decided p"
      using sse_char_sim Cons.prems(1) by (metis length_Cons)
    then have "sse_byte (Some f) p b s m = (0, p', s, m')"
      using 3 by (simp add: sse_byte_def)
    with 3 C Cons.IH [OF C(2)] Cons.prems(2-4) show ?thesis by simp
  qed
qed

lemma bom_simps:
  "bom ! 0 = 0xEF" "bom ! Suc 0 = 0xBB" "bom ! 2 = 0xBF" "take 0 bom = []"
  "take (Suc 0) bom = [0xEF]" "take 2 bom = [0xEF, 0xBB]"
  by (simp_all add: bom_def)

lemma sse_sim_init:
  assumes "length bs \<le> N" "N < SIZE_MAX" "max_ev = 0 \<or> N \<le> max_ev" "all_ok m"
  shows "sse_sim N ((sicha_sse_init max_ev)\<lparr>sse_bom_seen := k, sse_bom_decided := d\<rparr>) m [] [] False
    (length bs)"
  using assms by (simp add: sse_sim_def sicha_sse_init_def)

text \<open>A false BOM: the bytes held back become the start of the line.\<close>

definition false_bom :: "nat \<Rightarrow> nat \<Rightarrow> sicha_buf \<Rightarrow> sicha_sse" where
  "false_bom max_ev k l =
     (sicha_sse_init max_ev)\<lparr>sse_line_buf := l, sse_bom_seen := 0, sse_bom_decided := True\<rparr>"

lemma false_bom_sim:
  assumes "k \<le> 2" "length bs + k \<le> N" "N < SIZE_MAX" "max_ev = 0 \<or> N \<le> max_ev" "all_ok m"
  obtains l m' where "sicha_buf_append (sicha_buf_init max_ev) (take k bom) m = (l, m')"
    "buf_err l = SICHA_OK" "buf_len l = k"
    "sse_sim N (false_bom max_ev k l) m' (take k bom) [] False (length bs)"
proof -
  have k: "length (take k bom) = k" using assms(1) by (simp add: bom_def)
  obtain l m' where l: "sicha_buf_append (sicha_buf_init max_ev) (take k bom) m = (l, m')" "buf_wf l"
    "buf_bytes l = buf_bytes (sicha_buf_init max_ev) @ take k bom" "buf_err l = SICHA_OK"
    "buf_max_len l = buf_max_len (sicha_buf_init max_ev)" "all_ok m'"
    using assms k by (rule_tac sicha_buf_append_fits [of "sicha_buf_init max_ev" m "take k bom"]) auto
  have "sse_sim N (false_bom max_ev k l) m' (take k bom) [] False (length bs)"
    using l assms k by (simp add: sse_sim_def false_bom_def sicha_sse_init_def)
  moreover have "buf_len l = k" using l(2,3) k by (simp flip: buf_len_bytes)
  ultimately show ?thesis using that l by blast
qed

lemma sse_run_decided:
  assumes "sse_bom_loop (sicha_sse_init max_ev) bs m = (True, p, r, m1)" "sse_bom_decided p"
    "sse_sim (length bs) p m1 line [] False (length r)" "mem_keeps f"
    "sse_run (Some f) (sicha_sse_init max_ev) bs s m = (rc, p', s', m')"
  shows "stopped_by f rc s' \<or> rc = 0"
  by (rule sse_bytes_sim [OF assms(3,2,4), of s rc p' s' m'])
    (use assms(1,5) in \<open>simp add: sse_run_def sicha_sse_feed_def sicha_sse_init_def\<close>)

text \<open>The stream ends inside a BOM: what was held back is the last line.\<close>

lemma sse_run_undecided:
  assumes "bs = take k bom" "k \<le> 2" "length bs < SIZE_MAX" "max_ev = 0 \<or> length bs \<le> max_ev" "all_ok m"
    and M: "mem_keeps f" and R: "sse_run (Some f) (sicha_sse_init max_ev) bs s m = (rc, p', s', m')"
  shows "stopped_by f rc s' \<or> rc = 0"
proof -
  let ?p = "(sicha_sse_init max_ev)\<lparr>sse_bom_seen := k\<rparr>"
  have "k = 0 \<or> k = 1 \<or> k = 2" using assms(2) by auto
  then have f: "sicha_sse_feed (Some f) (sicha_sse_init max_ev) bs s m = (0, ?p, s, m)" and "length bs = k"
    using assms(1)
    by (elim disjE; simp add: sicha_sse_feed_def sicha_sse_init_def bom_simps; simp add: bom_def)+
  then obtain l m1 where l: "sicha_buf_append (sicha_buf_init max_ev) (take k bom) m = (l, m1)"
    "buf_err l = SICHA_OK" "buf_len l = k"
    "sse_sim (length bs) (false_bom max_ev k l) m1 (take k bom) [] False (length ([] :: bytes))"
    using assms by (rule_tac false_bom_sim [of k "[]" "length bs" max_ev m]) auto
  have F: "sicha_sse_finish (Some f) (if k = 0 then ?p\<lparr>sse_bom_decided := True\<rparr> else false_bom max_ev k l)
      s (if k = 0 then m else m1) = (rc, p', s', m')"
  proof -
    have "sicha_sse_finish (Some f) ?p s m
        = sicha_sse_finish (Some f) (if k = 0 then ?p\<lparr>sse_bom_decided := True\<rparr> else false_bom max_ev k l)
            s (if k = 0 then m else m1)"
      using l by (simp add: sicha_sse_finish_def false_bom_def sicha_sse_init_def)
    with R f show ?thesis by (simp add: sse_run_def)
  qed
  show ?thesis
  proof (cases "k = 0")
    case True
    have "sse_sim (length bs) ((sicha_sse_init max_ev)\<lparr>sse_bom_seen := k, sse_bom_decided := True\<rparr>) m
        [] [] False (length ([] :: bytes))"
      using assms by (intro sse_sim_init) auto
    with True F M show ?thesis
      using sse_finish_sim [of "length bs" _ m "[]" "[]" False f s] by simp
  next
    case False
    have d: "sse_bom_decided (false_bom max_ev k l)" by (simp add: false_bom_def)
    with False l(4) F M show ?thesis
      using sse_finish_sim [of "length bs" "false_bom max_ev k l" m1 "take k bom" "[]" False f s] by simp
  qed
qed

lemma sse_bom_loop_mismatch:
  assumes "k \<le> 2" "b \<noteq> bom ! k"
    "sicha_buf_append (sicha_buf_init max_ev) (take k bom) m = (l, m')" "buf_err l = SICHA_OK"
  shows "sse_bom_loop ((sicha_sse_init max_ev)\<lparr>sse_bom_seen := k\<rparr>) (b # bs) m
    = (True, false_bom max_ev k l, b # bs, m')"
  using assms by (simp add: false_bom_def sicha_sse_init_def sse_check_bufs_def sicha_buf_status_def)

text \<open>The four ways a stream can start.\<close>

lemma bom_cases:
  obtains (full) r where "bs = bom @ r"
  | (short) k where "k \<le> 2" "bs = take k bom"
  | (mismatch) k b r where "k \<le> 2" "bs = take k bom @ b # r" "b \<noteq> bom ! k"
proof (cases bs)
  case Nil
  then show ?thesis using short [of 0] by simp
next
  case b1: (Cons b1 r1)
  show ?thesis
  proof (cases "b1 = 0xEF")
    case False
    then show ?thesis using mismatch [of 0 b1 r1] b1 by (simp add: bom_simps)
  next
    case e1: True
    show ?thesis
    proof (cases r1)
      case Nil
      then show ?thesis using short [of 1] b1 e1 by (simp add: bom_simps)
    next
      case b2: (Cons b2 r2)
      show ?thesis
      proof (cases "b2 = 0xBB")
        case False
        then show ?thesis using mismatch [of 1 b2 r2] b1 b2 e1 by (simp add: bom_simps)
      next
        case e2: True
        show ?thesis
        proof (cases r2)
          case Nil
          then show ?thesis using short [of 2] b1 b2 e1 e2 by (simp add: bom_simps)
        next
          case b3: (Cons b3 r3)
          show ?thesis
            using full [of r3] mismatch [of 2 b3 r3] b1 b2 b3 e1 e2
            by (cases "b3 = 0xBF") (simp_all add: bom_simps bom_def)
        qed
      qed
    qed
  qed
qed

lemma take_bom_eol:
  assumes "k \<le> 2"
  shows "split_lf [] (unify_eol False (take k bom @ r)) = split_lf (take k bom) (unify_eol False r)"
proof -
  have "k = 0 \<or> k = 1 \<or> k = 2" using assms by auto
  then show ?thesis by (elim disjE) (simp_all add: bom_simps)
qed

lemma sse_bom_loop_prefix:
  assumes "k \<le> 2"
  shows "sse_bom_loop (sicha_sse_init max_ev) (take k bom @ r) m
    = sse_bom_loop ((sicha_sse_init max_ev)\<lparr>sse_bom_seen := k\<rparr>) r m"
proof -
  have "k = 0 \<or> k = 1 \<or> k = 2" using assms by auto
  then show ?thesis
    by (elim disjE) (simp_all add: bom_simps sicha_sse_init_def flip: numeral_2_eq_2)
qed

theorem sse_run_alive:
  assumes "length bs < SIZE_MAX" "max_ev = 0 \<or> length bs \<le> max_ev" "all_ok m"
    and M: "mem_keeps f" and R: "sse_run (Some f) (sicha_sse_init max_ev) bs s m = (rc, p', s', m')"
  shows "stopped_by f rc s' \<or> rc = 0"
proof (cases bs rule: bom_cases)
  case (full r)
  let ?p = "(sicha_sse_init max_ev)\<lparr>sse_bom_seen := 3, sse_bom_decided := True\<rparr>"
  have "sse_bom_loop (sicha_sse_init max_ev) bs m = (True, ?p, r, m)"
    using full by (cases r) (simp_all add: bom_def sicha_sse_init_def)
  moreover have "sse_sim (length bs) ?p m [] [] False (length r)"
    using assms(1-3) full by (intro sse_sim_init) auto
  ultimately show ?thesis by (intro sse_run_decided [OF _ _ _ M R]) auto
next
  case (short k)
  with assms show ?thesis by (intro sse_run_undecided)
next
  case (mismatch k b r)
  have len: "length bs = k + length (b # r)" using mismatch by (simp add: bom_def)
  obtain l m1 where l: "sicha_buf_append (sicha_buf_init max_ev) (take k bom) m = (l, m1)"
    "buf_err l = SICHA_OK"
    "sse_sim (length bs) (false_bom max_ev k l) m1 (take k bom) [] False (length (b # r))"
    using assms(1-3) mismatch(1) len
    by (rule_tac false_bom_sim [of k "b # r" "length bs" max_ev m]) auto
  have "sse_bom_loop (sicha_sse_init max_ev) bs m = (True, false_bom max_ev k l, b # r, m1)"
    using sse_bom_loop_prefix [OF mismatch(1), of max_ev "b # r" m] mismatch
      sse_bom_loop_mismatch [OF mismatch(1,3) l(1,2), of r] by simp
  then show ?thesis by (rule sse_run_decided [OF _ _ l(3) M R]) (simp add: false_bom_def)
qed

section \<open>Well-formedness and the event cap, with any callback\<close>

text \<open>
  Both buffers stay well formed and under the cap, whatever the callback does and whenever
  allocations fail; so an event is never longer than the cap, and what the callback keeps of
  its own state for events under the cap holds after any feed.
\<close>

definition sse_wf :: "nat \<Rightarrow> sicha_sse \<Rightarrow> bool" where
  "sse_wf max_ev p \<longleftrightarrow> buf_wf (sse_line_buf p) \<and> buf_max_len (sse_line_buf p) = max_ev
     \<and> buf_wf (sse_data_buf p) \<and> buf_max_len (sse_data_buf p) = max_ev"

definition keeps :: "nat \<Rightarrow> 's on_event option \<Rightarrow> ('s \<Rightarrow> bool) \<Rightarrow> bool" where
  "keeps max_ev f P \<longleftrightarrow> (case f of None \<Rightarrow> True | Some g \<Rightarrow>
     \<forall>d s m. (max_ev = 0 \<or> length d \<le> max_ev) \<longrightarrow> P s \<longrightarrow> P (fst (snd (g d s m))))"

lemma sse_wf_init: "sse_wf max_ev (sicha_sse_init max_ev)"
  by (simp add: sse_wf_def sicha_sse_init_def)

lemma sse_wf_simps [simp]:
  "sse_wf k (p\<lparr>sse_have_data := h\<rparr>) = sse_wf k p"
  "sse_wf k (p\<lparr>sse_last_was_cr := c\<rparr>) = sse_wf k p"
  "sse_wf k (p\<lparr>sse_bom_seen := n\<rparr>) = sse_wf k p"
  "sse_wf k (p\<lparr>sse_bom_decided := d\<rparr>) = sse_wf k p"
  "sse_wf k (p\<lparr>sse_err := e\<rparr>) = sse_wf k p"
  by (simp_all add: sse_wf_def)

lemma sicha_buf_append_max_len:
  assumes "buf_wf b" "sicha_buf_append b bs m = (b', m')"
  shows "buf_max_len b' = buf_max_len b"
  using sicha_buf_append_refines [OF assms]
  by (auto simp: buf_abs_def abs_append_def split: if_splits)

lemma sse_check_bufs_wf: "sse_check_bufs p = (ok, p') \<Longrightarrow> sse_wf k p' = sse_wf k p"
  by (auto simp: sse_check_bufs_def split: if_splits)

lemma sse_wf_line_append:
  assumes "sse_wf k p" "sicha_buf_append (sse_line_buf p) bs m = (l, m')"
  shows "sse_wf k (p\<lparr>sse_line_buf := l\<rparr>)"
  using assms by (auto simp: sse_wf_def dest: sicha_buf_append_wf sicha_buf_append_max_len)

lemma sse_wf_line_reset: "sse_wf k p \<Longrightarrow> sse_wf k (p\<lparr>sse_line_buf := sicha_buf_reset (sse_line_buf p)\<rparr>)"
  by (simp add: sse_wf_def sicha_buf_reset_wf)

lemma sse_wf_data_reset: "sse_wf k p \<Longrightarrow> sse_wf k (p\<lparr>sse_data_buf := sicha_buf_reset (sse_data_buf p)\<rparr>)"
  by (simp add: sse_wf_def sicha_buf_reset_wf)

lemma sse_data_field_wf:
  assumes "sse_wf k p" "sse_data_field p v m = (rc, p', m')"
  shows "sse_wf k p'"
proof -
  obtain d1 m1 where d1: "(if sse_have_data p then sicha_buf_append_ch (sse_data_buf p) 0x0A m
      else (sse_data_buf p, m)) = (d1, m1)" by fastforce
  obtain d2 m2 where d2: "sicha_buf_append d1 v m1 = (d2, m2)" by fastforce
  let ?p = "p\<lparr>sse_data_buf := d2, sse_have_data := True\<rparr>"
  obtain ok p2 where c: "sse_check_bufs ?p = (ok, p2)" by fastforce
  have "buf_wf d1 \<and> buf_max_len d1 = k"
    using d1 assms(1)
    by (cases "sse_have_data p") (auto simp: sse_wf_def sicha_buf_append_ch_def
        dest: sicha_buf_append_wf sicha_buf_append_max_len)
  then have "sse_wf k ?p"
    using d2 assms(1) by (auto simp: sse_wf_def dest: sicha_buf_append_wf sicha_buf_append_max_len)
  then have "sse_wf k p2" using sse_check_bufs_wf [OF c] by simp
  with d1 d2 c assms(2) show ?thesis by (auto simp: sse_data_field_def)
qed

lemma sse_dispatch_keeps:
  assumes "sse_wf k p" "keeps k f P" "P s" "sse_dispatch f p s m = (rc, p', s', m')"
  shows "sse_wf k p' \<and> P s'"
proof (cases "sse_have_data p")
  case False
  with assms show ?thesis by (simp add: sse_dispatch_def)
next
  case True
  let ?d = "buf_bytes (sse_data_buf p)"
  obtain rc1 s1 m1 where c: "(case f of None \<Rightarrow> (0, s, m) | Some f \<Rightarrow> f ?d s m) = (rc1, s1, m1)"
    by (metis prod_cases3)
  have "k = 0 \<or> length ?d \<le> k"
    using assms(1) by (auto simp: sse_wf_def buf_wf_def buf_len_bytes)
  then have "P (fst (snd (case f of None \<Rightarrow> (0, s, m) | Some f \<Rightarrow> f ?d s m)))"
    using assms(2,3) by (cases f) (auto simp: keeps_def)
  with c True assms(4) show ?thesis
    using sse_wf_data_reset [OF assms(1)] by (auto simp: sse_dispatch_def)
qed

lemma sse_line_keeps:
  assumes "sse_wf k p" "keeps k f P" "P s" "sse_line f p line s m = (rc, p', s', m')"
  shows "sse_wf k p' \<and> P s'"
proof (cases "line = [] \<or> hd line = 0x3A \<or> field_name line \<noteq> lit ''data''")
  case True
  with assms show ?thesis
    using sse_dispatch_keeps [OF assms(1-3)] by (auto simp: sse_line_def split: if_splits)
next
  case False
  obtain rc1 p1 m1 where d: "sse_data_field p (field_value line) m = (rc1, p1, m1)"
    by (metis prod_cases3)
  with False assms sse_data_field_wf [OF assms(1) d] show ?thesis
    by (simp add: sse_line_def del: lit_simps)
qed

lemma sse_char_wf:
  assumes "sse_wf k p" "sse_char p ch m = (rc, p', m')"
  shows "sse_wf k p'"
proof -
  obtain l m1 where l: "sicha_buf_append (sse_line_buf p) [ch] m = (l, m1)" by fastforce
  obtain ok p2 where c: "sse_check_bufs (p\<lparr>sse_line_buf := l\<rparr>) = (ok, p2)" by fastforce
  show ?thesis
    using assms(2) l c sse_check_bufs_wf [OF c] sse_wf_line_append [OF assms(1) l]
    by (simp add: sse_char_def sicha_buf_append_ch_def)
qed

lemma sse_eol_keeps:
  assumes "sse_wf k p" "keeps k f P" "P s" "sse_eol f p ch s m = (rc, p', s', m')"
  shows "sse_wf k p' \<and> P s'"
proof -
  obtain rc1 p1 s1 m1 where l:
    "sse_line f p (buf_bytes (sse_line_buf p)) s m = (rc1, p1, s1, m1)"
    by (metis prod_cases4)
  let ?p = "p1\<lparr>sse_line_buf := sicha_buf_reset (sse_line_buf p1), sse_last_was_cr := ch = 0x0D\<rparr>"
  have k: "sse_wf k p1" "P s1" using sse_line_keeps [OF assms(1-3) l] by auto
  then have "sse_wf k ?p" using sse_wf_line_reset [OF k(1)] by (simp add: sse_wf_def)
  moreover have "p' = ?p \<and> s' = s1" using assms(4) l
    by (auto simp: sse_eol_def Let_def split: if_splits)
  ultimately show ?thesis using k(2) by simp
qed

lemma sse_byte_keeps:
  assumes "sse_wf k p" "keeps k f P" "P s" "sse_byte f p ch s m = (rc, p', s', m')"
  shows "sse_wf k p' \<and> P s'"
proof -
  let ?p = "p\<lparr>sse_last_was_cr := False\<rparr>"
  have w: "sse_wf k ?p" using assms(1) by simp
  obtain rc1 p1 m1 where c: "sse_char ?p ch m = (rc1, p1, m1)" by (metis prod_cases3)
  show ?thesis
    using assms(3,4) w sse_eol_keeps [OF w assms(2,3)] sse_char_wf [OF w c] c
    by (auto simp: sse_byte_def Let_def split: if_splits)
qed

lemma sse_bytes_keeps:
  assumes "keeps k f P"
  shows "sse_wf k p \<Longrightarrow> P s \<Longrightarrow> sse_bytes f p bs s m = (rc, p', s', m') \<Longrightarrow> sse_wf k p' \<and> P s'"
proof (induction bs arbitrary: p s m)
  case Nil
  then show ?case by simp
next
  case (Cons b bs)
  obtain rc1 p1 s1 m1 where b: "sse_byte f p b s m = (rc1, p1, s1, m1)"
    by (cases "sse_byte f p b s m")
  with Cons sse_byte_keeps [OF Cons.prems(1) assms Cons.prems(2) b] show ?case
    by (auto split: if_splits)
qed

lemma sse_bom_loop_wf: "sse_wf k p \<Longrightarrow> sse_bom_loop p bs m = (ok, p', r, m') \<Longrightarrow> sse_wf k p'"
proof (induction p bs m rule: sse_bom_loop.induct)
  case (2 p b bs m)
  obtain l m1 where a: "sicha_buf_append (sse_line_buf p) (take (sse_bom_seen p) bom) m = (l, m1)"
    by fastforce
  show ?case
  proof (cases "sse_bom_decided p \<or> b = bom ! sse_bom_seen p")
    case True
    with 2 show ?thesis by (auto simp: Let_def split: if_splits)
  next
    case False
    let ?p = "p\<lparr>sse_line_buf := l, sse_bom_seen := 0, sse_bom_decided := True\<rparr>"
    obtain ok1 p2 where c: "sse_check_bufs ?p = (ok1, p2)" by fastforce
    have "sse_wf k ?p" using sse_wf_line_append [OF 2(2) a] by (simp add: sse_wf_def)
    with False 2(3) a c sse_check_bufs_wf [OF c] show ?thesis by (auto simp: Let_def)
  qed
qed simp

theorem sicha_sse_feed_keeps:
  assumes "sse_wf k p" "keeps k f P" "P s" "sicha_sse_feed f p bs s m = (rc, p', s', m')"
  shows "sse_wf k p' \<and> P s'"
proof -
  obtain ok p1 r m1 where l: "sse_bom_loop p bs m = (ok, p1, r, m1)" by (metis prod_cases4)
  note w = sse_bom_loop_wf [OF assms(1) l]
  show ?thesis
    using assms l w sse_bytes_keeps [OF assms(2) w assms(3)]
    by (auto simp: sicha_sse_feed_def split: if_splits)
qed

theorem sicha_sse_finish_keeps:
  assumes "sse_wf k p" "keeps k f P" "P s" "sicha_sse_finish f p s m = (rc, p', s', m')"
  shows "sse_wf k p' \<and> P s'"
proof (cases "sse_err p = SICHA_OK")
  case False
  with assms show ?thesis by (simp add: sicha_sse_finish_def)
next
  case True
  obtain l ml where l: "sicha_buf_append (sse_line_buf p) (take (sse_bom_seen p) bom) m = (l, ml)"
    by fastforce
  define q where "q = (if \<not> sse_bom_decided p \<and> 0 < sse_bom_seen p
    then p\<lparr>sse_line_buf := l, sse_bom_seen := 0\<rparr> else p)\<lparr>sse_bom_decided := True\<rparr>"
  define mq where "mq = (if \<not> sse_bom_decided p \<and> 0 < sse_bom_seen p then ml else m)"
  have w: "sse_wf k q" using assms(1) sse_wf_line_append [OF assms(1) l] by (simp add: q_def sse_wf_def)
  have fin: "sicha_sse_finish f p s m = sicha_sse_finish f q s mq"
    using True l by (simp add: sicha_sse_finish_def [of f p] sse_finish_decided q_def mq_def)
  obtain rc1 p1 s1 m1 where a: "sse_line f q (buf_bytes (sse_line_buf q)) s mq = (rc1, p1, s1, m1)"
    by (metis prod_cases4)
  note k1 = sse_line_keeps [OF w assms(2,3) a]
  let ?p1 = "p1\<lparr>sse_line_buf := sicha_buf_reset (sse_line_buf p1)\<rparr>"
  have w1: "sse_wf k ?p1" using k1 by (simp add: sse_wf_line_reset)
  obtain rc2 p2 s2 m2 where b: "sse_line f ?p1 [] s1 m1 = (rc2, p2, s2, m2)"
    by (metis prod_cases4)
  obtain rc3 p3 s3 m3 where c: "sse_line f q [] s mq = (rc3, p3, s3, m3)"
    by (metis prod_cases4)
  have d: "sse_bom_decided q" by (simp add: q_def)
  show ?thesis
    using assms(3,4) fin a b c k1 w w1 sse_line_keeps [OF w1 assms(2) _ b]
      sse_line_keeps [OF w assms(2,3) c]
    by (auto simp: sse_finish_decided [OF d] Let_def split: if_splits)
qed

section \<open>With any callback and any memory\<close>

text \<open>
  \<open>processed ok f s evs s' rc\<close>: the callback has been called on the events \<open>evs\<close> in turn,
  from state \<open>s\<close> to \<open>s'\<close>; every call but the last returned 0, the last one \<open>rc\<close>. What the
  allocator does between the calls is left open, but if \<open>ok\<close> then no call of the allocator
  fails.
\<close>

inductive processed :: "bool \<Rightarrow> 's on_event \<Rightarrow> 's \<Rightarrow> bytes list \<Rightarrow> 's \<Rightarrow> int \<Rightarrow> bool"
  for ok :: bool and f :: "'s on_event" where
  stop: "processed ok f s [] s 0"
| last: "f d s m = (rc, s', m') \<Longrightarrow> ok \<longrightarrow> all_ok m \<Longrightarrow> rc \<noteq> 0 \<Longrightarrow> processed ok f s [d] s' rc"
| step: "f d s m = (0, s1, m') \<Longrightarrow> ok \<longrightarrow> all_ok m \<Longrightarrow> processed ok f s1 ds s' rc \<Longrightarrow>
    processed ok f s (d # ds) s' rc"

lemma processed_append:
  "processed ok f s e1 s1 rc1 \<Longrightarrow> rc1 = 0 \<Longrightarrow> processed ok f s1 e2 s2 rc \<Longrightarrow>
     processed ok f s (e1 @ e2) s2 rc"
  by (induction rule: processed.induct) (auto intro: processed.step)

text \<open>Of the events \<open>out\<close> a prefix has been processed, and all of them if the code is 0.\<close>

definition part_of :: "bool \<Rightarrow> 's on_event \<Rightarrow> int \<Rightarrow> 's \<Rightarrow> 's \<Rightarrow> bytes list \<Rightarrow> bool" where
  "part_of ok f rc s s' out \<longleftrightarrow>
     (\<exists>evs rest rc'. out = evs @ rest \<and> processed ok f s evs s' rc'
        \<and> (rc = 0 \<longrightarrow> rest = [] \<and> rc' = 0) \<and> (rc' = 0 \<longrightarrow> rc = 0 \<or> rc = -1)
        \<and> (rc' \<noteq> 0 \<longrightarrow> rc = rc'))"

lemma part_of_none: "part_of ok f 0 s s []" "rc = -1 \<Longrightarrow> part_of ok f rc s s out"
  by (auto simp: part_of_def intro: processed.stop)

lemma part_of_zero: "part_of ok f 0 s s' out \<longleftrightarrow> processed ok f s out s' 0"
  by (auto simp: part_of_def)

lemma part_of_more: "part_of ok f rc s s' out \<Longrightarrow> rc \<noteq> 0 \<Longrightarrow> part_of ok f rc s s' (out @ out2)"
  unfolding part_of_def by (metis append.assoc)

lemma part_of_append:
  assumes "part_of ok f 0 s s1 out1" "part_of ok f rc s1 s2 out2"
  shows "part_of ok f rc s s2 (out1 @ out2)"
proof -
  obtain evs rest rc' where "out2 = evs @ rest" "processed ok f s1 evs s2 rc'"
    "rc = 0 \<longrightarrow> rest = [] \<and> rc' = 0" "rc' = 0 \<longrightarrow> rc = 0 \<or> rc = -1" "rc' \<noteq> 0 \<longrightarrow> rc = rc'"
    using assms(2) by (auto simp: part_of_def)
  moreover from this assms(1) have "processed ok f s (out1 @ evs) s2 rc'"
    by (auto simp: part_of_zero intro: processed_append)
  ultimately show ?thesis unfolding part_of_def by (metis append.assoc)
qed

lemma part_of_single:
  assumes "f d s m = (rc, s', m')" "ok \<longrightarrow> all_ok m"
  shows "part_of ok f rc s s' [d]"
proof (cases "rc = 0")
  case True
  with assms show ?thesis by (auto simp: part_of_zero intro: processed.step processed.stop)
next
  case False
  with assms have "processed ok f s [d] s' rc" by (auto intro: processed.last)
  with False show ?thesis unfolding part_of_def by (metis append_Nil2)
qed

text \<open>No part of the parser makes the allocator fail.\<close>

lemma sse_dispatch_mem:
  assumes "mem_keeps f" "sse_dispatch (Some f) p s m = (rc, p', s', m')" "all_ok m"
  shows "all_ok m'"
proof -
  obtain rc1 s1 m1 where f: "f (buf_bytes (sse_data_buf p)) s m = (rc1, s1, m1)" by (metis prod_cases3)
  then have "all_ok m1" using assms(1,3) unfolding mem_keeps_def by (metis snd_conv)
  with f assms(2,3) show ?thesis by (auto simp: sse_dispatch_def split: if_splits)
qed

lemma sse_data_field_mem:
  assumes "sse_data_field p v m = (rc, p', m')" "all_ok m"
  shows "all_ok m'"
  using assms by (auto simp: sse_data_field_def Let_def sicha_buf_append_ch_def
      split: prod.splits if_splits dest!: append_mem)

lemma sse_line_mem:
  assumes "mem_keeps f" "sse_line (Some f) p line s m = (rc, p', s', m')" "all_ok m"
  shows "all_ok m'"
  using assms sse_dispatch_mem [OF assms(1)]
  by (auto simp: sse_line_def dest: sse_data_field_mem split: if_splits prod.splits)

lemma sse_char_mem: "sse_char p ch m = (rc, p', m') \<Longrightarrow> all_ok m \<Longrightarrow> all_ok m'"
  by (auto simp: sse_char_def Let_def sicha_buf_append_ch_def split: prod.splits dest: append_mem)

lemma sse_eol_mem:
  assumes "mem_keeps f" "sse_eol (Some f) p ch s m = (rc, p', s', m')" "all_ok m"
  shows "all_ok m'"
  using assms by (auto simp: sse_eol_def Let_def split: prod.splits if_splits dest: sse_line_mem)

lemma sse_bytes_mem:
  "mem_keeps f \<Longrightarrow> sse_bytes (Some f) p bs s m = (rc, p', s', m') \<Longrightarrow> all_ok m \<Longrightarrow> all_ok m'"
proof (induction bs arbitrary: p s m)
  case Nil
  then show ?case by simp
next
  case (Cons b bs)
  obtain rc1 p1 s1 m1 where b: "sse_byte (Some f) p b s m = (rc1, p1, s1, m1)" by (metis prod_cases4)
  then have "all_ok m1"
    using Cons.prems by (auto simp: sse_byte_def Let_def split: if_splits prod.splits
        dest: sse_eol_mem sse_char_mem)
  with Cons b show ?case by (auto split: if_splits)
qed

text \<open>The simulation relation of the reference semantics, without its bounds.\<close>

definition sse_rel :: "sicha_sse \<Rightarrow> bytes \<Rightarrow> bytes list \<Rightarrow> bool \<Rightarrow> bool" where
  "sse_rel p line vs cr \<longleftrightarrow>
     sse_err p = SICHA_OK
     \<and> buf_wf (sse_line_buf p) \<and> buf_err (sse_line_buf p) = SICHA_OK
     \<and> buf_wf (sse_data_buf p) \<and> buf_err (sse_data_buf p) = SICHA_OK
     \<and> buf_bytes (sse_line_buf p) = line \<and> buf_bytes (sse_data_buf p) = join_with 0x0A vs
     \<and> sse_have_data p = (vs \<noteq> []) \<and> sse_last_was_cr p = cr"

lemma sse_data_field_rel:
  assumes "sse_rel p line vs cr" "sse_data_field p v m = (rc, p', m')"
  shows "rc = -1 \<or> rc = 0 \<and> sse_err p' = SICHA_OK \<and> sse_bom_decided p' = sse_bom_decided p \<and>
    sse_rel (p'\<lparr>sse_line_buf := sicha_buf_reset (sse_line_buf p'), sse_last_was_cr := c\<rparr>) [] (vs @ [v]) c"
proof -
  let ?d = "sse_data_buf p"
  have S: "buf_wf ?d" "buf_err ?d = SICHA_OK" "buf_bytes ?d = join_with 0x0A vs"
    "sse_have_data p = (vs \<noteq> [])" using assms(1) by (simp_all add: sse_rel_def)
  obtain d1 m1 where d1: "(if sse_have_data p then sicha_buf_append_ch ?d 0x0A m else (?d, m)) = (d1, m1)"
    by fastforce
  obtain d2 m2 where d2: "sicha_buf_append d1 v m1 = (d2, m2)" by fastforce
  have w1: "buf_wf d1" "buf_err d1 = SICHA_OK \<Longrightarrow>
      buf_bytes d1 = (if vs = [] then [] else join_with 0x0A vs @ [0x0A])"
    using d1 S append_err_or_done [OF S(1), of "[0x0A]" m]
    by (auto simp: sicha_buf_append_ch_def split: if_splits)
  note w2 = append_err_or_done [OF w1(1) d2]
  have j: "buf_bytes d2 = join_with 0x0A (vs @ [v])" if "buf_err d2 = SICHA_OK"
    using w2(2) [OF that] w1(2) by (auto simp: join_with_snoc)
  show ?thesis
    using assms d1 d2 w2(1) j
    by (auto simp: sse_data_field_def sse_check_bufs_def sicha_buf_status_def sse_rel_def
        sicha_buf_reset_wf split: if_splits)
qed

lemma sse_line_rel:
  assumes "sse_rel p line vs cr" "sse_line (Some f) p line s m = (rc, p', s', m')"
    "ok \<longrightarrow> all_ok m"
  shows "part_of ok f rc s s' (line_output line vs)"
    and "rc = 0 \<Longrightarrow> sse_err p' = SICHA_OK \<and> sse_bom_decided p' = sse_bom_decided p \<and>
      sse_rel (p'\<lparr>sse_line_buf := sicha_buf_reset (sse_line_buf p'), sse_last_was_cr := c\<rparr>)
        [] (next_pending line vs) c"
proof -
  have "part_of ok f rc s s' (line_output line vs) \<and>
    (rc = 0 \<longrightarrow> sse_err p' = SICHA_OK \<and> sse_bom_decided p' = sse_bom_decided p \<and>
      sse_rel (p'\<lparr>sse_line_buf := sicha_buf_reset (sse_line_buf p'), sse_last_was_cr := c\<rparr>)
        [] (next_pending line vs) c)"
  proof (cases "line = []")
    case line: True
    show ?thesis
    proof (cases "vs = []")
      case True
      with line assms show ?thesis
        by (auto simp: sse_line_def sse_dispatch_def sse_rel_def line_output_def flush_event_def
            next_pending_def sicha_buf_reset_wf part_of_none)
    next
      case False
      obtain rc1 s1 m1 where f: "f (join_with 0x0A vs) s m = (rc1, s1, m1)" by (metis prod_cases3)
      have "rc = rc1 \<and> s' = s1 \<and> m' = m1 \<and>
          p' = p\<lparr>sse_data_buf := sicha_buf_reset (sse_data_buf p), sse_have_data := False\<rparr>"
        using False line assms f by (simp add: sse_line_def sse_dispatch_def sse_rel_def)
      with part_of_single [of f "join_with 0x0A vs" s m, OF f assms(3)] False line assms(1) show ?thesis
        by (simp add: line_output_def flush_event_def next_pending_def sse_rel_def sicha_buf_reset_wf)
    qed
  next
    case line: False
    show ?thesis
    proof (cases "is_data_line line")
      case True
      then have l: "hd line \<noteq> 0x3A" "field_name line = lit ''data''"
        by (simp_all add: is_data_line_def)
      then have "sse_data_field p (field_value line) m = (rc, p', m')" "s' = s"
        using line assms(2) by (auto simp: sse_line_def split: prod.splits simp del: lit_simps)
      from sse_data_field_rel [OF assms(1) this(1), of c] this(2) True line show ?thesis
        by (auto simp: line_output_def next_pending_def part_of_none)
    next
      case False
      with line assms have "rc = 0" "p' = p" "s' = s"
        by (auto simp: sse_line_def is_data_line_def simp del: lit_simps split: if_splits)
      with False line assms(1) show ?thesis
        by (simp add: line_output_def next_pending_def part_of_none sse_rel_def sicha_buf_reset_wf)
    qed
  qed
  then show "part_of ok f rc s s' (line_output line vs)"
    "rc = 0 \<Longrightarrow> sse_err p' = SICHA_OK \<and> sse_bom_decided p' = sse_bom_decided p \<and>
      sse_rel (p'\<lparr>sse_line_buf := sicha_buf_reset (sse_line_buf p'), sse_last_was_cr := c\<rparr>)
        [] (next_pending line vs) c" by auto
qed

lemma sse_finish_rel:
  assumes S: "sse_rel p line vs cr" and d: "sse_bom_decided p"
    and F: "sicha_sse_finish (Some f) p s m = (rc, p', s', m')"
    and M: "mem_keeps f" "ok \<longrightarrow> all_ok m"
  shows "part_of ok f rc s s' (group_events vs [line])"
proof -
  have len: "buf_len (sse_line_buf p) = length line" and b: "buf_bytes (sse_line_buf p) = line"
    and e: "sse_err p = SICHA_OK"
    using S by (auto simp: sse_rel_def buf_len_bytes [symmetric])
  show ?thesis
  proof (cases "line = []")
    case True
    obtain rc2 p2 s2 m2 where L: "sse_line (Some f) p [] s m = (rc2, p2, s2, m2)" by (metis prod_cases4)
    have "sse_rel p [] vs cr" using S True by simp
    note R = sse_line_rel [OF this L M(2)]
    have "rc = rc2 \<and> s' = s2"
      using F True len e L R(2) by (auto simp: sse_finish_decided [OF d] split: if_splits)
    with R(1) True show ?thesis by (simp add: line_output_def flush_event_def)
  next
    case False
    obtain rc2 p2 s2 m2 where L: "sse_line (Some f) p line s m = (rc2, p2, s2, m2)" by (metis prod_cases4)
    let ?q = "p2\<lparr>sse_line_buf := sicha_buf_reset (sse_line_buf p2)\<rparr>"
    obtain rc3 p3 s3 m3 where D: "sse_line (Some f) ?q [] s2 m2 = (rc3, p3, s3, m3)"
      by (metis prod_cases4)
    note R = sse_line_rel(1) [OF S L M(2)] sse_line_rel(2) [OF S L M(2), of "sse_last_was_cr p2"]
    have M2: "ok \<longrightarrow> all_ok m2" using sse_line_mem [OF M(1) L] M(2) by blast
    show ?thesis
    proof (cases "rc2 = 0")
      case ok: True
      with R(2) have Q: "sse_rel ?q [] (next_pending line vs) (sse_last_was_cr p2)" "sse_err p2 = SICHA_OK"
        by simp_all
      note R3 = sse_line_rel [OF Q(1) D M2]
      have "rc = rc3 \<and> s' = s3"
        using F False len b e L D ok Q(2) R3(2) by (auto simp: sse_finish_decided [OF d] split: if_splits)
      with R(1) R3(1) ok show ?thesis
        by (auto simp: group_events_single line_output_def [of "[]"] simp del: group_events.simps
            intro: part_of_append)
    next
      case err: False
      have "rc = rc2 \<and> s' = s2"
        using F False len b e L err by (auto simp: sse_finish_decided [OF d] split: if_splits)
      with R(1) err show ?thesis
        by (auto simp: group_events_single simp del: group_events.simps intro: part_of_more)
    qed
  qed
qed

lemma sse_char_rel:
  assumes "sse_rel p line vs cr" "sse_char (p\<lparr>sse_last_was_cr := False\<rparr>) b m = (rc, p', m')"
  shows "rc = -1 \<or> rc = 0 \<and> sse_rel p' (line @ [b]) vs False \<and> sse_bom_decided p' = sse_bom_decided p"
proof -
  obtain l m1 where l: "sicha_buf_append (sse_line_buf p) [b] m = (l, m1)" by fastforce
  have "buf_wf (sse_line_buf p)" using assms(1) by (simp add: sse_rel_def)
  note L = append_err_or_done [OF this l]
  show ?thesis
    using assms l L by (auto simp: sse_char_def sicha_buf_append_ch_def sse_check_bufs_def
        sicha_buf_status_def sse_rel_def split: if_splits)
qed

lemma sse_eol_rel:
  assumes "sse_rel p line vs cr" "sse_eol (Some f) p b s m = (rc, p', s', m')" "ok \<longrightarrow> all_ok m"
  shows "part_of ok f rc s s' (line_output line vs)"
    and "rc = 0 \<Longrightarrow> sse_bom_decided p' = sse_bom_decided p \<and>
      sse_rel p' [] (next_pending line vs) (b = 0x0D)"
proof -
  obtain rc1 p1 s1 m1 where l: "sse_line (Some f) p (buf_bytes (sse_line_buf p)) s m = (rc1, p1, s1, m1)"
    by (metis prod_cases4)
  then have L: "sse_line (Some f) p line s m = (rc1, p1, s1, m1)" using assms(1) by (simp add: sse_rel_def)
  note R = sse_line_rel(1) [OF assms(1) L assms(3)] sse_line_rel(2) [OF assms(1) L assms(3), of "b = 0x0D"]
  have E: "rc = rc1 \<and> s' = s1 \<and>
      p' = p1\<lparr>sse_line_buf := sicha_buf_reset (sse_line_buf p1), sse_last_was_cr := b = 0x0D\<rparr>"
    using assms(2) R(2) by (auto simp: sse_eol_def l Let_def split: if_splits)
  with R show "part_of ok f rc s s' (line_output line vs)"
    "rc = 0 \<Longrightarrow> sse_bom_decided p' = sse_bom_decided p \<and>
      sse_rel p' [] (next_pending line vs) (b = 0x0D)" by auto
qed

lemma split_unify_eol:
  assumes "\<not> (cr \<and> b = 0x0A)" "b = 0x0D \<or> b = 0x0A"
  shows "split_lf line (unify_eol cr (b # bs)) = line # split_lf [] (unify_eol (b = 0x0D) bs)"
  using assms by auto

lemma sse_bytes_rel:
  assumes "sse_rel p line vs cr" "sse_bom_decided p" "sse_bytes (Some f) p bs s m = (rc, p', s', m')"
    "ok \<longrightarrow> all_ok m" "mem_keeps f"
  shows "if rc = 0 then \<exists>out line' vs' cr'. processed ok f s out s' 0 \<and> sse_rel p' line' vs' cr'
      \<and> sse_bom_decided p'
      \<and> group_events vs (split_lf line (unify_eol cr bs)) = out @ group_events vs' [line']
    else part_of ok f rc s s' (group_events vs (split_lf line (unify_eol cr bs)))"
  using assms
proof (induction bs arbitrary: p m line vs cr s)
  case Nil
  then have "processed ok f s [] s' 0" by (auto intro: processed.stop)
  with Nil show ?case by (fastforce simp del: group_events.simps)
next
  case (Cons b bs)
  let ?p = "p\<lparr>sse_last_was_cr := False\<rparr>"
  have cr: "sse_last_was_cr p = cr" using Cons.prems(1) by (simp add: sse_rel_def)
  have S: "sse_rel ?p line vs False" using Cons.prems(1) by (simp add: sse_rel_def)
  consider (skip) "cr \<and> b = 0x0A" | (eol) "\<not> (cr \<and> b = 0x0A)" "b = 0x0D \<or> b = 0x0A"
    | (char) "b \<noteq> 0x0D" "b \<noteq> 0x0A" by blast
  then show ?case
  proof cases
    case skip
    then have B: "sse_bytes (Some f) ?p bs s m = (rc, p', s', m')"
      using Cons.prems(3) cr by (simp add: sse_byte_def)
    have e: "unify_eol cr (b # bs) = unify_eol False bs" using skip by simp
    show ?thesis unfolding e by (rule Cons.IH [OF S _ B Cons.prems(4,5)]) (simp add: Cons.prems(2))
  next
    case eol
    obtain rc1 p1 s1 m1 where e: "sse_eol (Some f) ?p b s m = (rc1, p1, s1, m1)" by (metis prod_cases4)
    note R = sse_eol_rel [OF S e Cons.prems(4)]
    have M1: "ok \<longrightarrow> all_ok m1" using sse_eol_mem [OF Cons.prems(5) e] Cons.prems(4) by blast
    have "sse_byte (Some f) p b s m = (rc1, p1, s1, m1)"
      using eol cr e unfolding sse_byte_def Let_def by (metis (full_types))
    then have B: "(if rc1 \<noteq> 0 then (rc1, p1, s1, m1) else sse_bytes (Some f) p1 bs s1 m1) = (rc, p', s', m')"
      using Cons.prems(3) by simp
    note G = split_unify_eol [OF eol, of line bs] group_events_Cons [of vs line]
    show ?thesis
    proof (cases "rc1 = 0")
      case False
      with B R(1) show ?thesis
        unfolding G by (auto intro: part_of_more)
    next
      case True
      with R B have I: "sse_rel p1 [] (next_pending line vs) (b = 0x0D)" "sse_bom_decided p1"
        "sse_bytes (Some f) p1 bs s1 m1 = (rc, p', s', m')" "part_of ok f 0 s s1 (line_output line vs)"
        using Cons.prems(2) by simp_all
      note H = Cons.IH [OF I(1-3) M1 Cons.prems(5)]
      show ?thesis
      proof (cases "rc = 0")
        case False
        with H I(4) show ?thesis unfolding G by (auto intro: part_of_append)
      next
        case z: True
        then obtain out line' vs' cr' where O: "processed ok f s1 out s' 0" "sse_rel p' line' vs' cr'"
          "sse_bom_decided p'"
          "group_events (next_pending line vs) (split_lf [] (unify_eol (b = 0x0D) bs))
             = out @ group_events vs' [line']"
          using H by auto
        have "processed ok f s (line_output line vs @ out) s' 0"
          using processed_append [OF _ refl O(1)] I(4) by (simp add: part_of_zero)
        with z O show ?thesis unfolding G by (metis append.assoc)
      qed
    qed
  next
    case char
    obtain rc1 p1 m1 where c: "sse_char ?p b m = (rc1, p1, m1)" by (metis prod_cases3)
    have B: "(if rc1 \<noteq> 0 then (rc1, p1, s, m1) else sse_bytes (Some f) p1 bs s m1) = (rc, p', s', m')"
      using Cons.prems(3) char c by (simp add: sse_byte_def)
    from sse_char_rel [OF Cons.prems(1) c] show ?thesis
    proof
      assume "rc1 = -1"
      with B show ?thesis by (auto simp: part_of_none)
    next
      assume "rc1 = 0 \<and> sse_rel p1 (line @ [b]) vs False \<and> sse_bom_decided p1 = sse_bom_decided p"
      then have I: "sse_rel p1 (line @ [b]) vs False" "sse_bom_decided p1"
        "sse_bytes (Some f) p1 bs s m1 = (rc, p', s', m')"
        using B Cons.prems(2) by simp_all
      have e: "split_lf line (unify_eol cr (b # bs)) = split_lf (line @ [b]) (unify_eol False bs)"
        using char by simp
      have "ok \<longrightarrow> all_ok m1" using sse_char_mem [OF c] Cons.prems(4) by blast
      then show ?thesis unfolding e by (rule Cons.IH [OF I _ Cons.prems(5)])
    qed
  qed
qed

lemma sse_run_decided_part:
  assumes "sse_rel p line vs cr" "sse_bom_decided p"
    "(let (rc, p, s, m) = sse_bytes (Some f) p bs s m in
       if rc \<noteq> 0 then (rc, p, s, m) else sicha_sse_finish (Some f) p s m) = (rc, p', s', m')"
    "ok \<longrightarrow> all_ok m" "mem_keeps f"
  shows "part_of ok f rc s s' (group_events vs (split_lf line (unify_eol cr bs)))"
proof -
  obtain rc1 p1 s1 m1 where b: "sse_bytes (Some f) p bs s m = (rc1, p1, s1, m1)" by (metis prod_cases4)
  note B = sse_bytes_rel [OF assms(1,2) b assms(4,5)]
  have M1: "ok \<longrightarrow> all_ok m1" using sse_bytes_mem [OF assms(5) b] assms(4) by blast
  show ?thesis
  proof (cases "rc1 = 0")
    case False
    with B b assms(3) show ?thesis by simp
  next
    case True
    then obtain out line' vs' cr' where O: "processed ok f s out s1 0" "sse_rel p1 line' vs' cr'"
      "sse_bom_decided p1" "group_events vs (split_lf line (unify_eol cr bs)) = out @ group_events vs' [line']"
      using B by auto
    have "sicha_sse_finish (Some f) p1 s1 m1 = (rc, p', s', m')" using assms(3) b True by simp
    from part_of_append [OF _ sse_finish_rel [OF O(2,3) this assms(5) M1], of s out] O(1)
    show ?thesis unfolding O(4) by (simp add: part_of_zero)
  qed
qed

text \<open>What is left of the start of the stream after the byte order mark.\<close>

lemma sse_rel_init:
  "sse_rel ((sicha_sse_init max_ev)\<lparr>sse_bom_seen := k, sse_bom_decided := d\<rparr>) [] [] False"
  by (simp add: sse_rel_def sicha_sse_init_def)

lemma false_bom_rel:
  assumes "sicha_buf_append (sicha_buf_init max_ev) (take k bom) m = (l, m')" "buf_err l = SICHA_OK"
  shows "sse_rel (false_bom max_ev k l) (take k bom) [] False"
  using append_err_or_done [OF buf_wf_init assms(1)] assms(2)
  by (simp add: sse_rel_def false_bom_def sicha_sse_init_def)

lemma bom_step_failed:
  assumes "k \<le> 2" "b \<noteq> bom ! k"
    "sicha_buf_append (sicha_buf_init max_ev) (take k bom) m = (l, m')" "buf_err l \<noteq> SICHA_OK"
  shows "\<exists>p. sse_bom_loop ((sicha_sse_init max_ev)\<lparr>sse_bom_seen := k\<rparr>) (b # bs) m = (False, p, b # bs, m')"
  using assms by (simp add: sicha_sse_init_def sse_check_bufs_def sicha_buf_status_def)

lemma sse_run_short_part:
  assumes "bs = take k bom" "k \<le> 2"
    "sse_run (Some f) (sicha_sse_init max_ev) bs s m = (rc, p', s', m')"
    "ok \<longrightarrow> all_ok m" "mem_keeps f"
  shows "part_of ok f rc s s' (sse_events bs)"
proof -
  let ?p = "(sicha_sse_init max_ev)\<lparr>sse_bom_seen := k\<rparr>"
  have k: "k = 0 \<or> k = 1 \<or> k = 2" using assms(2) by auto
  then have f: "sicha_sse_feed (Some f) (sicha_sse_init max_ev) bs s m = (0, ?p, s, m)"
    and ev: "sse_events bs = group_events [] [bs]"
    using assms(1)
    by (elim disjE; simp add: sicha_sse_feed_def sicha_sse_init_def bom_simps sse_events_def
        strip_bom_def; simp add: bom_def)+
  have F: "sicha_sse_finish (Some f) ?p s m = (rc, p', s', m')"
    using assms(3) by (simp add: sse_run_def f)
  show ?thesis
  proof (cases "k = 0")
    case True
    let ?q = "?p\<lparr>sse_bom_decided := True\<rparr>"
    have "sicha_sse_finish (Some f) ?q s m = (rc, p', s', m')"
      using F True by (simp add: sicha_sse_finish_def sicha_sse_init_def)
    from sse_finish_rel [OF sse_rel_init _ this assms(5,4)] True assms(1) ev show ?thesis by simp
  next
    case False
    obtain l m1 where l: "sicha_buf_append (sicha_buf_init max_ev) (take k bom) m = (l, m1)" by fastforce
    have M1: "ok \<longrightarrow> all_ok m1" using append_mem [OF l] assms(4) by blast
    have E: "sicha_sse_finish (Some f) (false_bom max_ev k l) s m1 = (rc, p', s', m')"
      using F False l by (simp add: sicha_sse_finish_def sicha_sse_init_def false_bom_def)
    have "\<not> is_data_line bs" "bs \<noteq> []"
      using False k assms(1) by (auto simp: bom_simps is_data_line_def field_name_def bom_def)
    then have nil: "sse_events bs = []" unfolding ev by (simp add: flush_event_def)
    show ?thesis
    proof (cases "buf_err l = SICHA_OK")
      case True
      have "part_of ok f rc s s' (group_events [] [take k bom])"
        by (rule sse_finish_rel [OF false_bom_rel [OF l True] _ E assms(5) M1]) (simp add: false_bom_def)
      then show ?thesis unfolding ev unfolding assms(1) .
    next
      case err: False
      have "buf_bytes l = []" using append_failed_bytes [OF buf_wf_init l err] by simp
      then have "buf_len l = 0" using sicha_buf_append_wf [OF buf_wf_init l] by (simp flip: buf_len_bytes)
      with E have "rc = 0 \<and> s' = s"
        by (auto simp: sicha_sse_finish_def false_bom_def sicha_sse_init_def sse_line_def
            sse_dispatch_def split: if_splits)
      then show ?thesis by (simp add: nil part_of_none)
    qed
  qed
qed

theorem sse_run_part:
  assumes R: "sse_run (Some f) (sicha_sse_init max_ev) bs s m = (rc, p', s', m')"
    and M: "ok \<longrightarrow> all_ok m" "mem_keeps f"
  shows "part_of ok f rc s s' (sse_events bs)"
proof (cases bs rule: bom_cases)
  case (full r)
  let ?p = "(sicha_sse_init max_ev)\<lparr>sse_bom_seen := 3, sse_bom_decided := True\<rparr>"
  have "sse_bom_loop (sicha_sse_init max_ev) bs m = (True, ?p, r, m)"
    using full by (cases r) (simp_all add: bom_def sicha_sse_init_def)
  with R have "(let (rc, p, s, m) = sse_bytes (Some f) ?p r s m in
      if rc \<noteq> 0 then (rc, p, s, m) else sicha_sse_finish (Some f) p s m) = (rc, p', s', m')"
    by (simp add: sse_run_def sicha_sse_feed_def sicha_sse_init_def)
  from sse_run_decided_part [OF sse_rel_init _ this M] full show ?thesis
    by (simp add: sse_events_def strip_bom_def bom_def)
next
  case (short k)
  with R M show ?thesis by (intro sse_run_short_part)
next
  case (mismatch k b r)
  obtain l m1 where l: "sicha_buf_append (sicha_buf_init max_ev) (take k bom) m = (l, m1)" by fastforce
  have M1: "ok \<longrightarrow> all_ok m1" using append_mem [OF l] M(1) by blast
  have st: "strip_bom bs = bs"
  proof -
    have "k = 0 \<or> k = 1 \<or> k = 2" using mismatch(1) by auto
    with mismatch(2,3) show ?thesis by (auto simp: strip_bom_def bom_def)
  qed
  note pre = sse_bom_loop_prefix [OF mismatch(1), of max_ev "b # r" m]
  show ?thesis
  proof (cases "buf_err l = SICHA_OK")
    case True
    have "sse_bom_loop (sicha_sse_init max_ev) bs m = (True, false_bom max_ev k l, b # r, m1)"
      using pre mismatch sse_bom_loop_mismatch [OF mismatch(1,3) l True, of r] by simp
    with R have "(let (rc, p, s, m) = sse_bytes (Some f) (false_bom max_ev k l) (b # r) s m1 in
        if rc \<noteq> 0 then (rc, p, s, m) else sicha_sse_finish (Some f) p s m) = (rc, p', s', m')"
      by (simp add: sse_run_def sicha_sse_feed_def sicha_sse_init_def)
    from sse_run_decided_part [OF false_bom_rel [OF l True] _ this M1 M(2)]
      take_bom_eol [OF mismatch(1), of "b # r"] mismatch(2) st
    show ?thesis by (simp add: sse_events_def false_bom_def)
  next
    case False
    from bom_step_failed [OF mismatch(1,3) l False, of r] pre mismatch(2)
    have "\<exists>p. sse_bom_loop (sicha_sse_init max_ev) bs m = (False, p, b # r, m1)" by simp
    with R have "rc = -1 \<and> s' = s"
      by (auto simp: sse_run_def sicha_sse_feed_def sicha_sse_init_def)
    then show ?thesis by (simp add: part_of_none)
  qed
qed

text \<open>The events of a stream, all of them, with the callback that only collects.\<close>

lemma processed_collect: "processed ok collect s evs s' rc \<Longrightarrow> s' = s @ evs \<and> rc = 0"
  by (induction rule: processed.induct) (auto simp: collect_def)

theorem sse_run_events:
  assumes "length bs < SIZE_MAX" "max_ev = 0 \<or> length bs \<le> max_ev" "all_ok m"
  shows "\<exists>p' m'. sse_run (Some collect) (sicha_sse_init max_ev) bs [] m = (0, p', sse_events bs, m')"
proof -
  obtain rc p' s' m' where R: "sse_run (Some collect) (sicha_sse_init max_ev) bs [] m = (rc, p', s', m')"
    by (metis prod_cases4)
  have k: "mem_keeps collect" by (simp add: mem_keeps_def collect_def)
  have "rc = 0" using sse_run_alive [OF assms k R] by (auto simp: stopped_by_def collect_def)
  with sse_run_part [OF R _ k, of True] assms(3) have "processed True collect [] (sse_events bs) s' 0"
    by (simp add: part_of_zero)
  from processed_collect [OF this] R \<open>rc = 0\<close> show ?thesis by simp
qed

end
