(* ===== verification/Response.thy ===== *)
theory Response
  imports Json Classify Sse
begin

text \<open>
  The result object and the two ways of filling it (\<open>src/response.c\<close>): a non-streaming
  JSON body, and the JSON chunks of a stream. The callbacks of the caller are functions on
  the state \<open>'w\<close> of the world outside the library.
\<close>

section \<open>The result\<close>

record sicha_attempt =
  at_attempt :: u32
  at_backend :: u32
  at_try_of_backend :: u32
  at_model :: "bytes option"
  at_error_class :: sicha_error_class
  at_http_status :: int
  at_transport_status :: sicha_transport_status
  at_latency_ms :: u64
  at_prompt_tokens :: int
  at_completion_tokens :: int
  at_total_tokens :: int
  at_message :: "bytes option"
  at_raw_body_excerpt :: "bytes option"
  at_raw_body_excerpt_len :: nat

text \<open>\<open>n_attempts\<close> is the length of \<open>r_attempts\<close>; \<open>r_cap_attempts\<close> is what is allocated.\<close>

record sicha_result =
  r_status :: sicha_status
  r_text :: sicha_buf
  r_reasoning :: sicha_buf
  r_finish_raw :: "bytes option"
  r_finish :: sicha_finish_reason
  r_prompt_tokens :: int
  r_completion_tokens :: int
  r_total_tokens :: int
  r_model :: "bytes option"
  r_backend :: int
  r_raw_body :: "bytes option"
  r_raw_body_len :: nat
  r_attempts :: "sicha_attempt list"
  r_cap_attempts :: u32

definition fresh_result :: "nat \<Rightarrow> sicha_result" where
  "fresh_result max_response_bytes =
     \<lparr>r_status = SICHA_OK, r_text = sicha_buf_init max_response_bytes,
      r_reasoning = sicha_buf_init max_response_bytes,
      r_finish_raw = None, r_finish = SICHA_FINISH_UNKNOWN,
      r_prompt_tokens = -1, r_completion_tokens = -1, r_total_tokens = -1,
      r_model = None, r_backend = -1, r_raw_body = None, r_raw_body_len = 0,
      r_attempts = [], r_cap_attempts = 0\<rparr>"

definition sicha_result_create :: "nat \<Rightarrow> mem \<Rightarrow> sicha_result option \<times> mem" where
  "sicha_result_create max_response_bytes m =
     (let (ok, m) = alloc m in (if ok then Some (fresh_result max_response_bytes) else None, m))"

definition dup_bytes :: "bytes \<Rightarrow> mem \<Rightarrow> bytes option \<times> mem" where
  "dup_bytes s m = (let (ok, m) = alloc m in (if ok then Some s else None, m))"

text \<open>The three strings of a record are copied first, then tested together.\<close>

definition sicha_result_add_attempt :: "sicha_result \<Rightarrow> sicha_attempt \<Rightarrow> mem \<Rightarrow>
    sicha_status \<times> sicha_result \<times> mem" where
  "sicha_result_add_attempt r a m =
     (let full = of_nat (length (r_attempts r)) = r_cap_attempts r;
          (ok, m) = (if full then alloc m else (True, m)) in
      if \<not> ok then (SICHA_E_NOMEM, r, m)
      else
        let r = (if full
                 then r\<lparr>r_cap_attempts := if r_cap_attempts r = 0 then 4 else r_cap_attempts r * 2\<rparr>
                 else r);
            (model, m) = dup_bytes (cstr (opt_bytes (at_model a))) m;
            (message, m) = dup_bytes (cstr (opt_bytes (at_message a))) m;
            elen = (if at_raw_body_excerpt a \<noteq> None then at_raw_body_excerpt_len a else 0);
            elen = (if SICHA_EXCERPT_MAX < elen then SICHA_EXCERPT_MAX else elen);
            (excerpt, m) = dup_bytes (take elen (opt_bytes (at_raw_body_excerpt a))) m
        in if model = None \<or> message = None \<or> excerpt = None then (SICHA_E_NOMEM, r, m)
           else
             (SICHA_OK,
              r\<lparr>r_attempts := r_attempts r @
                 [a\<lparr>at_model := model, at_message := message, at_raw_body_excerpt := excerpt,
                    at_raw_body_excerpt_len := elen\<rparr>]\<rparr>, m))"

definition sicha_result_reset_content :: "sicha_result \<Rightarrow> sicha_result" where
  "sicha_result_reset_content r =
     r\<lparr>r_text := sicha_buf_reset (r_text r),
       r_reasoning := sicha_buf_reset (r_reasoning r),
       r_finish_raw := None,
       r_finish := SICHA_FINISH_UNKNOWN,
       r_model := None,
       r_raw_body := None,
       r_raw_body_len := 0,
       r_prompt_tokens := -1,
       r_completion_tokens := -1,
       r_total_tokens := -1\<rparr>"

definition sicha_result_set_model :: "sicha_result \<Rightarrow> bytes \<Rightarrow> mem \<Rightarrow> sicha_status \<times> sicha_result \<times> mem" where
  "sicha_result_set_model r s m =
     (let (p, m) = dup_bytes s m in
      if p = None then (SICHA_E_NOMEM, r, m) else (SICHA_OK, r\<lparr>r_model := p\<rparr>, m))"

definition map_finish :: "bytes \<Rightarrow> sicha_finish_reason" where
  "map_finish s =
     (if s = lit ''stop'' then SICHA_FINISH_STOP
      else if s = lit ''length'' then SICHA_FINISH_LENGTH
      else if s = lit ''tool_calls'' then SICHA_FINISH_TOOL_CALLS
      else if s = lit ''content_filter'' then SICHA_FINISH_CONTENT_FILTER
      else SICHA_FINISH_UNKNOWN)"

definition sicha_result_set_finish :: "sicha_result \<Rightarrow> bytes \<Rightarrow> mem \<Rightarrow> sicha_status \<times> sicha_result \<times> mem" where
  "sicha_result_set_finish r raw m =
     (let (p, m) = dup_bytes raw m in
      if p = None then (SICHA_E_NOMEM, r, m)
      else (SICHA_OK, r\<lparr>r_finish_raw := p, r_finish := map_finish raw\<rparr>, m))"

section \<open>Getters\<close>

text \<open>The public getters: inert on NULL, and never a NULL string.\<close>

definition sicha_result_status :: "sicha_result option \<Rightarrow> sicha_status" where
  "sicha_result_status r = (case r of None \<Rightarrow> SICHA_E_INVALID_ARG | Some r \<Rightarrow> r_status r)"

definition sicha_result_text :: "sicha_result option \<Rightarrow> bytes \<times> nat" where
  "sicha_result_text r =
     (case r of None \<Rightarrow> ([], 0) | Some r \<Rightarrow> (buf_bytes (r_text r), buf_len (r_text r)))"

definition sicha_result_reasoning :: "sicha_result option \<Rightarrow> bytes \<times> nat" where
  "sicha_result_reasoning r =
     (case r of None \<Rightarrow> ([], 0) | Some r \<Rightarrow> (buf_bytes (r_reasoning r), buf_len (r_reasoning r)))"

definition sicha_result_finish_reason :: "sicha_result option \<Rightarrow> sicha_finish_reason" where
  "sicha_result_finish_reason r = (case r of None \<Rightarrow> SICHA_FINISH_UNKNOWN | Some r \<Rightarrow> r_finish r)"

definition sicha_result_finish_reason_raw :: "sicha_result option \<Rightarrow> bytes" where
  "sicha_result_finish_reason_raw r = (case r of None \<Rightarrow> [] | Some r \<Rightarrow> opt_bytes (r_finish_raw r))"

definition sicha_result_prompt_tokens :: "sicha_result option \<Rightarrow> int" where
  "sicha_result_prompt_tokens r = (case r of None \<Rightarrow> -1 | Some r \<Rightarrow> r_prompt_tokens r)"

definition sicha_result_completion_tokens :: "sicha_result option \<Rightarrow> int" where
  "sicha_result_completion_tokens r = (case r of None \<Rightarrow> -1 | Some r \<Rightarrow> r_completion_tokens r)"

definition sicha_result_total_tokens :: "sicha_result option \<Rightarrow> int" where
  "sicha_result_total_tokens r = (case r of None \<Rightarrow> -1 | Some r \<Rightarrow> r_total_tokens r)"

definition sicha_result_model :: "sicha_result option \<Rightarrow> bytes" where
  "sicha_result_model r = (case r of None \<Rightarrow> [] | Some r \<Rightarrow> opt_bytes (r_model r))"

definition sicha_result_backend :: "sicha_result option \<Rightarrow> int" where
  "sicha_result_backend r = (case r of None \<Rightarrow> -1 | Some r \<Rightarrow> r_backend r)"

definition sicha_result_raw_body :: "sicha_result option \<Rightarrow> bytes \<times> nat" where
  "sicha_result_raw_body r =
     (case r of None \<Rightarrow> ([], 0) | Some r \<Rightarrow> (opt_bytes (r_raw_body r), r_raw_body_len r))"

definition sicha_result_attempt_count :: "sicha_result option \<Rightarrow> nat" where
  "sicha_result_attempt_count r = (case r of None \<Rightarrow> 0 | Some r \<Rightarrow> length (r_attempts r))"

definition sicha_result_attempt :: "sicha_result option \<Rightarrow> nat \<Rightarrow> sicha_attempt option" where
  "sicha_result_attempt r i =
     (case r of None \<Rightarrow> None
      | Some r \<Rightarrow> if length (r_attempts r) \<le> i then None else Some (r_attempts r ! i))"

section \<open>Lifting usage, model and reasoning\<close>

definition lift_i64 :: "json \<Rightarrow> string \<Rightarrow> int" where
  "lift_i64 obj key =
     (case yyjson_obj_get obj (lit key) of
        None \<Rightarrow> -1
      | Some v \<Rightarrow> if \<not> yyjson_is_num v then -1 else yyjson_get_sint v)"

definition lift_usage :: "sicha_result \<Rightarrow> json \<Rightarrow> sicha_result" where
  "lift_usage r root =
     (case yyjson_obj_get root (lit ''usage'') of
        None \<Rightarrow> r
      | Some usage \<Rightarrow>
          if \<not> yyjson_is_obj usage then r
          else
            let p = lift_i64 usage ''prompt_tokens'';
                c = lift_i64 usage ''completion_tokens'';
                t = lift_i64 usage ''total_tokens'';
                r = (if 0 \<le> p then r\<lparr>r_prompt_tokens := p\<rparr> else r);
                r = (if 0 \<le> c then r\<lparr>r_completion_tokens := c\<rparr> else r);
                r = (if 0 \<le> t then r\<lparr>r_total_tokens := t\<rparr> else r)
            in r)"

definition lift_model :: "sicha_result \<Rightarrow> json \<Rightarrow> mem \<Rightarrow> sicha_status \<times> sicha_result \<times> mem" where
  "lift_model r root m =
     (case str_member root ''model'' of
        Some s \<Rightarrow> if r_model r = None then sicha_result_set_model r s m else (SICHA_OK, r, m)
      | None \<Rightarrow> (SICHA_OK, r, m))"

text \<open>First hit wins, over the message and then the choice.\<close>

definition find_reasoning :: "json \<Rightarrow> json option \<Rightarrow> bytes option" where
  "find_reasoning choice0 msg =
     (case (case msg of None \<Rightarrow> None | Some msg \<Rightarrow>
              (case str_member msg ''reasoning'' of
                 Some s \<Rightarrow> Some s
               | None \<Rightarrow> str_member msg ''reasoning_content'')) of
        Some s \<Rightarrow> Some s
      | None \<Rightarrow> str_member choice0 ''reasoning'')"

section \<open>A non-streaming body\<close>

text \<open>
  A stage of the parse either leaves for the label \<open>out\<close> with a status and a body state, or
  goes on.
\<close>

datatype parse_step = Out sicha_status body_state | Go

definition append_stage :: "sicha_buf \<Rightarrow> bytes \<Rightarrow> mem \<Rightarrow> parse_step \<times> sicha_buf \<times> mem" where
  "append_stage b s m =
     (let (b, m) = sicha_buf_append b s m; st = sicha_buf_status b in
      if st = SICHA_INT_E_TOOBIG then (Out SICHA_OK SICHA_BODY_TOOBIG, b, m)
      else if st \<noteq> SICHA_OK then (Out st SICHA_BODY_MALFORMED, b, m)
      else (Go, b, m))"

definition text_stage :: "sicha_result \<Rightarrow> json option \<Rightarrow> mem \<Rightarrow> parse_step \<times> sicha_result \<times> mem" where
  "text_stage r msg m =
     (case (case msg of None \<Rightarrow> None | Some msg \<Rightarrow> str_member msg ''content'') of
        Some content \<Rightarrow>
          let (step, b, m) = append_stage (r_text r) content m in (step, r\<lparr>r_text := b\<rparr>, m)
      | None \<Rightarrow>
          (case (case msg of None \<Rightarrow> None | Some msg \<Rightarrow> yyjson_obj_get msg (lit ''tool_calls'')) of
             None \<Rightarrow> (Out SICHA_OK SICHA_BODY_MALFORMED, r, m)
           | Some tc \<Rightarrow>
               if \<not> yyjson_is_arr tc \<or> yyjson_arr_size tc = 0
               then (Out SICHA_OK SICHA_BODY_MALFORMED, r, m)
               else (Go, r, m)))"

definition reasoning_stage :: "sicha_result \<Rightarrow> json \<Rightarrow> json option \<Rightarrow> mem \<Rightarrow>
    parse_step \<times> sicha_result \<times> mem" where
  "reasoning_stage r choice0 msg m =
     (case find_reasoning choice0 msg of
        None \<Rightarrow> (Go, r, m)
      | Some reas \<Rightarrow>
          let (step, b, m) = append_stage (r_reasoning r) reas m in (step, r\<lparr>r_reasoning := b\<rparr>, m))"

definition finish_stage :: "sicha_result \<Rightarrow> json \<Rightarrow> mem \<Rightarrow> parse_step \<times> sicha_result \<times> mem" where
  "finish_stage r choice0 m =
     (case str_member choice0 ''finish_reason'' of
        None \<Rightarrow> (Go, r, m)
      | Some fin \<Rightarrow>
          let (st, r, m) = sicha_result_set_finish r fin m in
          (if st \<noteq> SICHA_OK then Out st SICHA_BODY_MALFORMED else Go, r, m))"

definition parse_choice :: "sicha_result \<Rightarrow> json \<Rightarrow> json \<Rightarrow> mem \<Rightarrow>
    sicha_status \<times> body_state \<times> sicha_result \<times> mem" where
  "parse_choice r root choice0 m =
     (let msg = (case yyjson_obj_get choice0 (lit ''message'') of
                   Some v \<Rightarrow> if yyjson_is_obj v then Some v else None | None \<Rightarrow> None) in
      case text_stage r msg m of
        (Out st bs, r, m) \<Rightarrow> (st, bs, r, m)
      | (Go, r, m) \<Rightarrow>
          (case reasoning_stage r choice0 msg m of
             (Out st bs, r, m) \<Rightarrow> (st, bs, r, m)
           | (Go, r, m) \<Rightarrow>
               (case finish_stage r choice0 m of
                  (Out st bs, r, m) \<Rightarrow> (st, bs, r, m)
                | (Go, r, m) \<Rightarrow>
                    let (st, r, m) = lift_model (lift_usage r root) root m in
                    (st, if st = SICHA_OK then SICHA_BODY_OK else SICHA_BODY_MALFORMED, r, m))))"

definition sicha_response_parse :: "json_reader \<Rightarrow> sicha_result \<Rightarrow> bytes \<Rightarrow> mem \<Rightarrow>
    sicha_status \<times> body_state \<times> sicha_result \<times> mem" where
  "sicha_response_parse rd r body m =
     (if body = [] then (SICHA_OK, SICHA_BODY_EMPTY, r, m)
      else
        case yyjson_read rd body m of
          (None, m) \<Rightarrow> (SICHA_OK, SICHA_BODY_MALFORMED, r, m)
        | (Some root, m) \<Rightarrow>
            if \<not> yyjson_is_obj root then (SICHA_OK, SICHA_BODY_MALFORMED, r, m)
            else
              case yyjson_obj_get root (lit ''choices'') of
                None \<Rightarrow> (SICHA_OK, SICHA_BODY_MALFORMED, r, m)
              | Some choices \<Rightarrow>
                  if \<not> yyjson_is_arr choices \<or> yyjson_arr_size choices = 0
                  then (SICHA_OK, SICHA_BODY_MALFORMED, r, m)
                  else
                    case yyjson_arr_get_first choices of
                      None \<Rightarrow> (SICHA_OK, SICHA_BODY_MALFORMED, r, m)
                    | Some choice0 \<Rightarrow>
                        if \<not> yyjson_is_obj choice0 then (SICHA_OK, SICHA_BODY_MALFORMED, r, m)
                        else parse_choice r root choice0 m)"


section \<open>A stream of chunks\<close>

text \<open>
  The callbacks of the caller. Each is a function on the state of the world; \<open>None\<close> is a
  NULL function pointer.
\<close>

record 'w sicha_callbacks =
  cb_struct_size_ok :: bool
  cb_on_delta :: "(bytes \<Rightarrow> 'w \<Rightarrow> int \<times> 'w) option"
  cb_on_reasoning :: "(bytes \<Rightarrow> 'w \<Rightarrow> int \<times> 'w) option"
  cb_on_raw_chunk :: "(bytes \<Rightarrow> 'w \<Rightarrow> int \<times> 'w) option"
  cb_on_attempt :: "(sicha_attempt \<Rightarrow> 'w \<Rightarrow> 'w) option"
  cb_validate :: "(sicha_result \<Rightarrow> 'w \<Rightarrow> int \<times> 'w) option"

text \<open>The stream context. The result it points to is a field here.\<close>

record sicha_stream_ctx =
  sc_r :: sicha_result
  sc_accumulate :: bool
  sc_done :: bool
  sc_delivered :: bool
  sc_saw_event :: bool
  sc_err :: sicha_status
  sc_last_raw :: sicha_buf

definition SICHA_STREAM_STOP :: int where "SICHA_STREAM_STOP = 1"
definition SICHA_STREAM_CANCEL :: int where "SICHA_STREAM_CANCEL = 2"

definition sicha_stream_ctx_init :: "sicha_result \<Rightarrow> bool \<Rightarrow> sicha_stream_ctx" where
  "sicha_stream_ctx_init r accumulate =
     \<lparr>sc_r = r, sc_accumulate = accumulate, sc_done = False, sc_delivered = False,
      sc_saw_event = False, sc_err = SICHA_OK, sc_last_raw = sicha_buf_init SICHA_EXCERPT_MAX\<rparr>"

definition sicha_stream_ctx_free :: "sicha_stream_ctx \<Rightarrow> sicha_stream_ctx" where
  "sicha_stream_ctx_free ctx = ctx\<lparr>sc_last_raw := sicha_buf_free (sc_last_raw ctx)\<rparr>"

text \<open>One callback: NULL lets the stream go on.\<close>

definition call_cb :: "(bytes \<Rightarrow> 'w \<Rightarrow> int \<times> 'w) option \<Rightarrow> bytes \<Rightarrow> 'w \<Rightarrow> int \<times> 'w" where
  "call_cb cb bs w =
     (case cb of None \<Rightarrow> (0, w)
      | Some f \<Rightarrow> let (rc, w) = f bs w in (if rc \<noteq> 0 then SICHA_STREAM_CANCEL else 0, w))"

definition cb_of :: "'w sicha_callbacks option \<Rightarrow> ('w sicha_callbacks \<Rightarrow> 'a option) \<Rightarrow> 'a option" where
  "cb_of cbs sel = (case cbs of None \<Rightarrow> None | Some c \<Rightarrow> sel c)"

definition raw_chunk :: "'w sicha_callbacks option \<Rightarrow> sicha_stream_ctx \<Rightarrow> bytes \<Rightarrow> 'w \<Rightarrow> mem \<Rightarrow>
    int \<times> sicha_stream_ctx \<times> 'w \<times> mem" where
  "raw_chunk cbs ctx data w m =
     (let (lr, m) = sicha_buf_append (sicha_buf_reset (sc_last_raw ctx))
                      (take SICHA_EXCERPT_MAX data) m;
          ctx = ctx\<lparr>sc_last_raw := lr\<rparr>
      in if sicha_buf_status lr = SICHA_E_NOMEM
         then (-1, ctx\<lparr>sc_err := SICHA_E_NOMEM\<rparr>, w, m)
         else let (rc, w) = call_cb (cb_of cbs cb_on_raw_chunk) data w in (rc, ctx, w, m))"

text \<open>
  \<open>deliver\<close> gets the accumulating buffer (\<open>text\<close> or \<open>reasoning\<close> of the result) and
  returns it.
\<close>

definition deliver :: "sicha_stream_ctx \<Rightarrow> sicha_buf \<Rightarrow> (bytes \<Rightarrow> 'w \<Rightarrow> int \<times> 'w) option \<Rightarrow>
    bytes \<Rightarrow> 'w \<Rightarrow> mem \<Rightarrow> int \<times> sicha_stream_ctx \<times> sicha_buf \<times> 'w \<times> mem" where
  "deliver ctx accum cb bs w m =
     (if bs = [] then (0, ctx, accum, w, m)
      else
        let (accum, m) = (if sc_accumulate ctx then sicha_buf_append accum bs m else (accum, m)) in
        if sc_accumulate ctx \<and> sicha_buf_status accum = SICHA_E_NOMEM
        then (-1, ctx\<lparr>sc_err := SICHA_E_NOMEM\<rparr>, accum, w, m)
        else if sc_accumulate ctx \<and> sicha_buf_status accum = SICHA_INT_E_TOOBIG
        then (-1, ctx\<lparr>sc_err := SICHA_INT_E_TOOBIG\<rparr>, accum, w, m)
        else
          let ctx = (if cb = None then ctx else ctx\<lparr>sc_delivered := True\<rparr>);
              (rc, w) = call_cb cb bs w
          in (rc, ctx, accum, w, m))"

definition deliver_text :: "'w sicha_callbacks option \<Rightarrow> sicha_stream_ctx \<Rightarrow> bytes option \<Rightarrow>
    'w \<Rightarrow> mem \<Rightarrow> int \<times> sicha_stream_ctx \<times> 'w \<times> mem" where
  "deliver_text cbs ctx content w m =
     (case content of None \<Rightarrow> (0, ctx, w, m)
      | Some bs \<Rightarrow>
          let (rc, ctx, b, w, m) =
                deliver ctx (r_text (sc_r ctx)) (cb_of cbs cb_on_delta) bs w m
          in (rc, ctx\<lparr>sc_r := (sc_r ctx)\<lparr>r_text := b\<rparr>\<rparr>, w, m))"

definition deliver_reasoning :: "'w sicha_callbacks option \<Rightarrow> sicha_stream_ctx \<Rightarrow> bytes option \<Rightarrow>
    'w \<Rightarrow> mem \<Rightarrow> int \<times> sicha_stream_ctx \<times> 'w \<times> mem" where
  "deliver_reasoning cbs ctx reas w m =
     (case reas of None \<Rightarrow> (0, ctx, w, m)
      | Some bs \<Rightarrow>
          let (rc, ctx, b, w, m) =
                deliver ctx (r_reasoning (sc_r ctx)) (cb_of cbs cb_on_reasoning) bs w m
          in (rc, ctx\<lparr>sc_r := (sc_r ctx)\<lparr>r_reasoning := b\<rparr>\<rparr>, w, m))"

text \<open>The delta object of a choice: content, then reasoning, then tool calls.\<close>

definition delta_stage :: "'w sicha_callbacks option \<Rightarrow> sicha_stream_ctx \<Rightarrow> bytes \<Rightarrow> json \<Rightarrow>
    'w \<Rightarrow> mem \<Rightarrow> int \<times> sicha_stream_ctx \<times> 'w \<times> mem" where
  "delta_stage cbs ctx data delta w m =
     (let content = str_member delta ''content'';
          reas = (case str_member delta ''reasoning'' of
                    Some s \<Rightarrow> Some s | None \<Rightarrow> str_member delta ''reasoning_content'');
          tc = yyjson_obj_get delta (lit ''tool_calls'')
      in case deliver_text cbs ctx content w m of (rc, ctx, w, m) \<Rightarrow>
         if rc \<noteq> 0 then (rc, ctx, w, m)
         else case deliver_reasoning cbs ctx reas w m of (rc, ctx, w, m) \<Rightarrow>
         if rc \<noteq> 0 then (rc, ctx, w, m)
         else if tc \<noteq> None then raw_chunk cbs ctx data w m
         else (0, ctx, w, m))"

definition stream_finish_stage :: "sicha_stream_ctx \<Rightarrow> json \<Rightarrow> mem \<Rightarrow>
    int \<times> sicha_stream_ctx \<times> mem" where
  "stream_finish_stage ctx choice0 m =
     (case str_member choice0 ''finish_reason'' of
        None \<Rightarrow> (0, ctx, m)
      | Some fin \<Rightarrow>
          let (st, r, m) = sicha_result_set_finish (sc_r ctx) fin m; ctx = ctx\<lparr>sc_r := r\<rparr> in
          if st \<noteq> SICHA_OK then (-1, ctx\<lparr>sc_err := SICHA_E_NOMEM\<rparr>, m) else (0, ctx, m))"

text \<open>The first choice, if there is one; \<open>False\<close> when the code leaves for \<open>out\<close>.\<close>

definition choices_stage :: "'w sicha_callbacks option \<Rightarrow> sicha_stream_ctx \<Rightarrow> bytes \<Rightarrow> json \<Rightarrow>
    'w \<Rightarrow> mem \<Rightarrow> bool \<times> int \<times> sicha_stream_ctx \<times> 'w \<times> mem" where
  "choices_stage cbs ctx data root w m =
     (case (case yyjson_obj_get root (lit ''choices'') of
              None \<Rightarrow> None
            | Some choices \<Rightarrow>
                if yyjson_is_arr choices \<and> 0 < yyjson_arr_size choices
                then yyjson_arr_get_first choices else None) of
        None \<Rightarrow> (True, 0, ctx, w, m)
      | Some choice0 \<Rightarrow>
          if \<not> yyjson_is_obj choice0
          then let (rc, ctx, w, m) = raw_chunk cbs ctx data w m in (False, rc, ctx, w, m)
          else
            case (case yyjson_obj_get choice0 (lit ''delta'') of
                    None \<Rightarrow> (0, ctx, w, m)
                  | Some delta \<Rightarrow> if yyjson_is_obj delta then delta_stage cbs ctx data delta w m
                                 else (0, ctx, w, m)) of
              (rc, ctx, w, m) \<Rightarrow>
            if rc \<noteq> 0 then (False, rc, ctx, w, m)
            else
              case stream_finish_stage ctx choice0 m of (rc, ctx, m) \<Rightarrow>
              (rc = 0, rc, ctx, w, m))"

definition meta_stage :: "sicha_stream_ctx \<Rightarrow> json \<Rightarrow> mem \<Rightarrow> int \<times> sicha_stream_ctx \<times> mem" where
  "meta_stage ctx root m =
     (let (st, r, m) = lift_model (lift_usage (sc_r ctx) root) root m; ctx = ctx\<lparr>sc_r := r\<rparr> in
      if st \<noteq> SICHA_OK then (-1, ctx\<lparr>sc_err := SICHA_E_NOMEM\<rparr>, m) else (0, ctx, m))"

definition sicha_stream_on_event :: "json_reader \<Rightarrow> 'w sicha_callbacks option \<Rightarrow> bytes \<Rightarrow>
    sicha_stream_ctx \<times> 'w \<Rightarrow> mem \<Rightarrow> int \<times> (sicha_stream_ctx \<times> 'w) \<times> mem" where
  "sicha_stream_on_event rd cbs data s m =
     (case s of (ctx, w) \<Rightarrow>
      if data = lit ''[DONE]'' then (SICHA_STREAM_STOP, (ctx\<lparr>sc_done := True\<rparr>, w), m)
      else
        case yyjson_read rd data m of
          (None, m) \<Rightarrow> let (rc, ctx, w, m) = raw_chunk cbs ctx data w m in (rc, (ctx, w), m)
        | (Some root, m) \<Rightarrow>
            if \<not> yyjson_is_obj root \<or> yyjson_obj_get root (lit ''error'') \<noteq> None
            then let (rc, ctx, w, m) = raw_chunk cbs ctx data w m in (rc, (ctx, w), m)
            else
              case choices_stage cbs (ctx\<lparr>sc_saw_event := True\<rparr>) data root w m of
                (go, rc, ctx, w, m) \<Rightarrow>
              if \<not> go then (rc, (ctx, w), m)
              else let (rc, ctx, m) = meta_stage ctx root m in (rc, (ctx, w), m))"

end
