(* ===== verification/Request.thy ===== *)
theory Request
  imports Json Classify
begin

text \<open>
  Validation, URLs, headers, backends and the body of a chat request (\<open>src/request.c\<close>). The
  text parser and the text writer of yyjson are parameters; everything between them, the
  building of the document member by member, is here. A NUL-terminated string is a list of
  bytes that is read up to its first NUL (\<open>cstr\<close>).
\<close>

section \<open>UTF-8\<close>

fun utf8_scan :: "bytes \<Rightarrow> bool" where
  "utf8_scan [] = True"
| "utf8_scan (b # p) =
     (if b < 0x80 then utf8_scan p
      else if b < 0xC2 then False
      else if b < 0xE0 then
        (case p of
           c1 # q \<Rightarrow> if c1 AND 0xC0 \<noteq> 0x80 then False else utf8_scan q
         | _ \<Rightarrow> False)
      else if b < 0xF0 then
        (case p of
           c1 # c2 # q \<Rightarrow>
             let lo = (if b = 0xE0 then 0xA0 else 0x80);
                 hi = (if b = 0xED then 0x9F else 0xBF)
             in if c1 < lo \<or> hi < c1 \<or> c2 AND 0xC0 \<noteq> 0x80 then False else utf8_scan q
         | _ \<Rightarrow> False)
      else if b < 0xF5 then
        (case p of
           c1 # c2 # c3 # q \<Rightarrow>
             let lo = (if b = 0xF0 then 0x90 else 0x80);
                 hi = (if b = 0xF4 then 0x8F else 0xBF)
             in if c1 < lo \<or> hi < c1 \<or> c2 AND 0xC0 \<noteq> 0x80 \<or> c3 AND 0xC0 \<noteq> 0x80 then False
                else utf8_scan q
         | _ \<Rightarrow> False)
      else False)"

definition sicha_utf8_valid :: "bytes option \<Rightarrow> nat \<Rightarrow> bool" where
  "sicha_utf8_valid p len = (case p of None \<Rightarrow> len = 0 | Some bs \<Rightarrow> utf8_scan (take len bs))"

section \<open>Small string helpers\<close>

definition dup_cstr :: "bytes \<Rightarrow> mem \<Rightarrow> bytes option \<times> mem" where
  "dup_cstr s m = (let (ok, m) = alloc m in (if ok then Some (cstr s) else None, m))"

definition lower :: "byte \<Rightarrow> byte" where
  "lower a = (if 0x41 \<le> a \<and> a \<le> 0x5A then a - 0x41 + 0x61 else a)"

fun prefix_ci :: "bytes \<Rightarrow> bytes \<Rightarrow> bool" where
  "prefix_ci s [] = True"
| "prefix_ci [] (b # prefix) = False"
| "prefix_ci (a # s) (b # prefix) = (if lower a \<noteq> b then False else prefix_ci s prefix)"

section \<open>URLs\<close>

definition scheme_len :: "bytes \<Rightarrow> nat" where
  "scheme_len url =
     (if prefix_ci url (lit ''https://'') then 8
      else if prefix_ci url (lit ''http://'') then 7 else 0)"

definition url_byte_bad :: "byte \<Rightarrow> bool" where
  "url_byte_bad b \<longleftrightarrow> b \<le> 0x20 \<or> b = 0x7F \<or> b = 0x23 \<or> b = 0x3F \<or> b = 0x5C"

definition sicha_url_validate :: "bytes option \<Rightarrow> sicha_status" where
  "sicha_url_validate base_url =
     (case base_url of
        None \<Rightarrow> SICHA_E_INVALID_ARG
      | Some region \<Rightarrow>
          let url = cstr region; s = scheme_len url in
          if s = 0 then SICHA_E_INVALID_ARG
          else if drop s url = [] \<or> hd (drop s url) = 0x2F then SICHA_E_INVALID_ARG
          else if \<exists>b \<in> set url. url_byte_bad b then SICHA_E_INVALID_ARG
          else SICHA_OK)"

definition trim_slashes :: "bytes \<Rightarrow> bytes" where
  "trim_slashes s = rev (dropWhile (\<lambda>b. b = 0x2F) (rev s))"

definition sicha_url_join :: "bytes \<Rightarrow> bytes \<Rightarrow> mem \<Rightarrow> bytes option \<times> mem" where
  "sicha_url_join base_url path m =
     (let (ok, m) = alloc m in
      (if ok then Some (trim_slashes (cstr base_url) @ cstr path) else None, m))"

definition sicha_url_origin :: "bytes \<Rightarrow> mem \<Rightarrow> bytes option \<times> mem" where
  "sicha_url_origin base_url m =
     (let url = cstr base_url; s = scheme_len url; (ok, m) = alloc m in
      (if ok then Some (take s url @ takeWhile (\<lambda>b. b \<noteq> 0x2F) (drop s url)) else None, m))"

section \<open>Headers\<close>

record sicha_header =
  hd_name :: "bytes option"
  hd_value :: "bytes option"

fun sicha_header_name_eq :: "bytes \<Rightarrow> bytes \<Rightarrow> bool" where
  "sicha_header_name_eq (a # s) (b # t) = (if lower a \<noteq> lower b then False else sicha_header_name_eq s t)"
| "sicha_header_name_eq s t = (s = [] \<and> t = [])"

definition is_token_char :: "byte \<Rightarrow> bool" where
  "is_token_char b \<longleftrightarrow>
     0x61 \<le> b \<and> b \<le> 0x7A \<or> 0x41 \<le> b \<and> b \<le> 0x5A \<or> 0x30 \<le> b \<and> b \<le> 0x39
     \<or> b \<in> set [0x21, 0x23, 0x24, 0x25, 0x26, 0x27, 0x2A, 0x2B, 0x2D, 0x2E, 0x5E, 0x5F, 0x60, 0x7C, 0x7E]"

definition value_bytes_ok :: "bytes \<Rightarrow> bool" where
  "value_bytes_ok v \<longleftrightarrow> (\<forall>b \<in> set v. \<not> ((b < 0x20 \<and> b \<noteq> 0x09) \<or> b = 0x7F))"

definition sicha_header_validate :: "bytes option \<Rightarrow> bytes option \<Rightarrow> sicha_status" where
  "sicha_header_validate name value =
     (case (name, value) of
        (Some name, Some value) \<Rightarrow>
          if cstr name = [] then SICHA_E_INVALID_ARG
          else if \<exists>b \<in> set (cstr name). \<not> is_token_char b then SICHA_E_INVALID_ARG
          else if \<not> value_bytes_ok (cstr value) then SICHA_E_INVALID_ARG
          else SICHA_OK
      | _ \<Rightarrow> SICHA_E_INVALID_ARG)"

section \<open>Backends\<close>

record sicha_timeouts =
  connect_ms :: u32
  first_byte_ms :: u32
  idle_ms :: u32
  total_ms :: u32

record sicha_backend =
  b_base_url :: "bytes option"
  b_url_chat :: "bytes option"
  b_url_abort :: "bytes option"
  b_api_key :: "bytes option"
  b_model :: "bytes option"
  b_extra_headers :: "sicha_header list"
  b_extra_body_json :: "bytes option"
  b_timeouts :: sicha_timeouts
  b_flags :: u32

record sicha_backend_desc =
  d_struct_size_ok :: bool
  d_base_url :: "bytes option"
  d_api_key :: "bytes option"
  d_model :: "bytes option"
  d_extra_headers :: "sicha_header list option"
  d_n_extra_headers :: nat
  d_extra_body_json :: "bytes option"
  d_timeouts :: sicha_timeouts
  d_flags :: u32

definition SICHA_BACKEND_KOBOLD_CANCEL_ASSIST :: u32 where "SICHA_BACKEND_KOBOLD_CANCEL_ASSIST = 1"
definition SICHA_BACKEND_STREAM_USAGE :: u32 where "SICHA_BACKEND_STREAM_USAGE = 2"

definition zero_timeouts :: sicha_timeouts where
  "zero_timeouts = \<lparr>connect_ms = 0, first_byte_ms = 0, idle_ms = 0, total_ms = 0\<rparr>"

definition zero_backend :: sicha_backend where
  "zero_backend =
     \<lparr>b_base_url = None, b_url_chat = None, b_url_abort = None, b_api_key = None, b_model = None,
      b_extra_headers = [], b_extra_body_json = None, b_timeouts = zero_timeouts, b_flags = 0\<rparr>"

definition sicha_backend_free :: "sicha_backend \<Rightarrow> sicha_backend" where
  "sicha_backend_free b = zero_backend"

text \<open>
  The header array of a request: both strings of every pair are copied, and only then is any
  of them tested. \<open>dup_header\<close> copies one pair.
\<close>

definition dup_header :: "bytes \<Rightarrow> bytes \<Rightarrow> mem \<Rightarrow> sicha_header \<times> mem" where
  "dup_header name value m =
     (let (n, m) = dup_cstr name m; (v, m) = dup_cstr value m in
      (\<lparr>hd_name = n, hd_value = v\<rparr>, m))"

fun dup_headers :: "sicha_header list \<Rightarrow> mem \<Rightarrow> sicha_header list \<times> mem" where
  "dup_headers [] m = ([], m)"
| "dup_headers (h # hs) m =
     (let (h', m) = dup_header (opt_bytes (hd_name h)) (opt_bytes (hd_value h)) m;
          (hs', m) = dup_headers hs m in (h' # hs', m))"

text \<open>The Authorization value is allocated before the name of its header.\<close>

definition auth_header :: "bytes \<Rightarrow> mem \<Rightarrow> sicha_header \<times> mem" where
  "auth_header api_key m =
     (let (ok, m) = alloc m; (n, m) = dup_cstr (lit ''Authorization'') m in
      (\<lparr>hd_name = n, hd_value = (if ok then Some (lit ''Bearer '' @ cstr api_key) else None)\<rparr>, m))"

definition header_complete :: "sicha_header \<Rightarrow> bool" where
  "header_complete h \<longleftrightarrow> hd_name h \<noteq> None \<and> hd_value h \<noteq> None"

definition sicha_build_headers :: "sicha_backend \<Rightarrow> bool \<Rightarrow> bytes \<Rightarrow> mem \<Rightarrow>
    sicha_status \<times> sicha_header list option \<times> mem" where
  "sicha_build_headers b stream user_agent m =
     (let (ok, m) = alloc m in
      if \<not> ok then (SICHA_E_NOMEM, None, m)
      else
        let (h1, m) = dup_header (lit ''Content-Type'') (lit ''application/json'') m;
            (h2, m) = dup_header (lit ''Accept'')
                        (if stream then lit ''text/event-stream'' else lit ''application/json'') m;
            (h3, m) = dup_header (lit ''User-Agent'') user_agent m;
            (auth, m) = (case b_api_key b of None \<Rightarrow> ([], m)
                         | Some key \<Rightarrow> let (h, m) = auth_header key m in ([h], m));
            (extra, m) = dup_headers (b_extra_headers b) m;
            hs = [h1, h2, h3] @ auth @ extra
        in if \<forall>h \<in> set hs. header_complete h then (SICHA_OK, Some hs, m)
           else (SICHA_E_NOMEM, None, m))"

definition SICHA_DEFAULT_CONNECT_MS :: u32 where "SICHA_DEFAULT_CONNECT_MS = 30000"
definition SICHA_DEFAULT_FIRST_BYTE_MS :: u32 where "SICHA_DEFAULT_FIRST_BYTE_MS = 60000"
definition SICHA_DEFAULT_IDLE_MS :: u32 where "SICHA_DEFAULT_IDLE_MS = 300000"
definition SICHA_DEFAULT_TOTAL_MS :: u32 where "SICHA_DEFAULT_TOTAL_MS = 1800000"

definition timeouts_resolve :: "sicha_timeouts \<Rightarrow> sicha_timeouts" where
  "timeouts_resolve t =
     t\<lparr>connect_ms := (if connect_ms t = 0 then SICHA_DEFAULT_CONNECT_MS else connect_ms t),
       first_byte_ms := (if first_byte_ms t = 0 then SICHA_DEFAULT_FIRST_BYTE_MS else first_byte_ms t),
       idle_ms := (if idle_ms t = 0 then SICHA_DEFAULT_IDLE_MS else idle_ms t),
       total_ms := (if total_ms t = 0 then SICHA_DEFAULT_TOTAL_MS else total_ms t)\<rparr>"

definition is_reserved_header :: "bytes \<Rightarrow> bool \<Rightarrow> bool" where
  "is_reserved_header name have_api_key =
     (if sicha_header_name_eq name (lit ''Content-Type'')
         \<or> sicha_header_name_eq name (lit ''Accept'')
         \<or> sicha_header_name_eq name (lit ''User-Agent'')
         \<or> sicha_header_name_eq name (lit ''Content-Length'')
         \<or> sicha_header_name_eq name (lit ''Host'')
         \<or> sicha_header_name_eq name (lit ''Transfer-Encoding'') then True
      else if have_api_key \<and> sicha_header_name_eq name (lit ''Authorization'') then True
      else False)"

definition validate_json_object :: "json_reader \<Rightarrow> bytes \<Rightarrow> mem \<Rightarrow> sicha_status \<times> mem" where
  "validate_json_object rd json m =
     (case yyjson_read rd (cstr json) m of
        (None, m) \<Rightarrow> (SICHA_E_INVALID_ARG, m)
      | (Some root, m) \<Rightarrow> (if yyjson_is_obj root then SICHA_OK else SICHA_E_INVALID_ARG, m))"

text \<open>The checks of \<open>sicha_backend_init\<close> before anything is copied.\<close>

fun extra_headers_validate :: "sicha_header list \<Rightarrow> bool \<Rightarrow> sicha_status" where
  "extra_headers_validate [] have_key = SICHA_OK"
| "extra_headers_validate (h # hs) have_key =
     (let st = sicha_header_validate (hd_name h) (hd_value h) in
      if st \<noteq> SICHA_OK then st
      else if is_reserved_header (cstr (opt_bytes (hd_name h))) have_key then SICHA_E_INVALID_ARG
      else extra_headers_validate hs have_key)"

definition extra_headers_of :: "sicha_backend_desc \<Rightarrow> sicha_header list" where
  "extra_headers_of desc =
     (case d_extra_headers desc of None \<Rightarrow> [] | Some hs \<Rightarrow> take (d_n_extra_headers desc) hs)"

definition backend_validate :: "json_reader \<Rightarrow> sicha_backend_desc \<Rightarrow> mem \<Rightarrow> sicha_status \<times> mem" where
  "backend_validate rd desc m =
     (if \<not> d_struct_size_ok desc then (SICHA_E_INVALID_ARG, m)
      else if d_flags desc AND NOT (SICHA_BACKEND_KOBOLD_CANCEL_ASSIST OR SICHA_BACKEND_STREAM_USAGE) \<noteq> 0
      then (SICHA_E_INVALID_ARG, m)
      else if sicha_url_validate (d_base_url desc) \<noteq> SICHA_OK
      then (sicha_url_validate (d_base_url desc), m)
      else if (case d_model desc of None \<Rightarrow> True
               | Some s \<Rightarrow> cstr s = [] \<or> \<not> sicha_utf8_valid (Some s) (strlen s))
      then (SICHA_E_INVALID_ARG, m)
      else if (case d_api_key desc of None \<Rightarrow> False
               | Some key \<Rightarrow> cstr key = [] \<or> \<not> value_bytes_ok (cstr key))
      then (SICHA_E_INVALID_ARG, m)
      else if 0 < d_n_extra_headers desc \<and> d_extra_headers desc = None
      then (SICHA_E_INVALID_ARG, m)
      else
        let st = extra_headers_validate (extra_headers_of desc) (d_api_key desc \<noteq> None) in
        if st \<noteq> SICHA_OK then (st, m)
        else
          case d_extra_body_json desc of None \<Rightarrow> (SICHA_OK, m)
          | Some json \<Rightarrow> validate_json_object rd json m)"


text \<open>
  The copies, in the order of the code. Some are tested at once, the rest at the end; after
  any failure everything is freed and the backend is zeroed.
\<close>

definition abort_url :: "sicha_backend_desc \<Rightarrow> mem \<Rightarrow> bytes option \<times> mem" where
  "abort_url desc m =
     (let (origin, m) = sicha_url_origin (opt_bytes (d_base_url desc)) m in
      case origin of None \<Rightarrow> (None, m) | Some o' \<Rightarrow> sicha_url_join o' (lit ''/api/extra/abort'') m)"

text \<open>The copying loop of the extra headers stops at the first pair that is not complete.\<close>

fun copy_extra_headers :: "sicha_header list \<Rightarrow> mem \<Rightarrow> sicha_header list option \<times> mem" where
  "copy_extra_headers [] m = (Some [], m)"
| "copy_extra_headers (h # hs) m =
     (let (h', m) = dup_header (opt_bytes (hd_name h)) (opt_bytes (hd_value h)) m in
      if \<not> header_complete h' then (None, m)
      else case copy_extra_headers hs m of
             (None, m) \<Rightarrow> (None, m)
           | (Some hs', m) \<Rightarrow> (Some (h' # hs'), m))"

definition copy_opt :: "bytes option \<Rightarrow> mem \<Rightarrow> bytes option \<times> mem" where
  "copy_opt s m = (case s of None \<Rightarrow> (None, m) | Some s \<Rightarrow> dup_cstr s m)"

definition sicha_backend_init :: "json_reader \<Rightarrow> sicha_backend_desc \<Rightarrow> mem \<Rightarrow>
    sicha_status \<times> sicha_backend \<times> mem" where
  "sicha_backend_init rd desc m =
     (let (st, m) = backend_validate rd desc m in
      if st \<noteq> SICHA_OK then (st, zero_backend, m)
      else
        let url = opt_bytes (d_base_url desc);
            (base, m) = dup_cstr url m;
            (chat, m) = (if base = None then (None, m) else sicha_url_join url (lit ''/chat/completions'') m);
            (model, m) = dup_cstr (opt_bytes (d_model desc)) m;
            (key, m) = copy_opt (d_api_key desc) m;
            (extra_body, m) = copy_opt (d_extra_body_json desc) m;
            assist = d_flags desc AND SICHA_BACKEND_KOBOLD_CANCEL_ASSIST \<noteq> 0;
            (abort, m) = (if assist then abort_url desc m else (None, m))
        in if assist \<and> abort = None then (SICHA_E_NOMEM, zero_backend, m)
           else
             let hs = extra_headers_of desc;
                 (ok, m) = (if 0 < d_n_extra_headers desc then alloc m else (True, m));
                 (extra, m) = (if ok then copy_extra_headers hs m else (None, m))
             in case extra of
                  None \<Rightarrow> (SICHA_E_NOMEM, zero_backend, m)
                | Some extra \<Rightarrow>
                    if base = None \<or> chat = None \<or> model = None
                       \<or> (d_api_key desc \<noteq> None \<and> key = None)
                       \<or> (d_extra_body_json desc \<noteq> None \<and> extra_body = None)
                    then (SICHA_E_NOMEM, zero_backend, m)
                    else (SICHA_OK,
                          \<lparr>b_base_url = base, b_url_chat = chat, b_url_abort = abort, b_api_key = key,
                           b_model = model, b_extra_headers = extra, b_extra_body_json = extra_body,
                           b_timeouts = timeouts_resolve (d_timeouts desc), b_flags = d_flags desc\<rparr>, m))"

section \<open>Requests\<close>

record sicha_message =
  msg_role :: int
  msg_content :: "bytes option"
  msg_content_len :: nat
  msg_tool_call_id :: "bytes option"

text \<open>A double is its 64 bits.\<close>

record sicha_request =
  rq_struct_size_ok :: bool
  rq_messages :: "sicha_message list option"
  rq_n_messages :: nat
  rq_messages_json :: "bytes option"
  rq_set_mask :: u32
  rq_max_tokens :: int
  rq_temperature :: u64
  rq_top_p :: u64
  rq_top_k :: int
  rq_presence_penalty :: u64
  rq_frequency_penalty :: u64
  rq_stop :: "bytes option list option"
  rq_n_stop :: nat
  rq_response_format_json :: "bytes option"
  rq_flags :: u32

definition SICHA_SET_MAX_TOKENS :: u32 where "SICHA_SET_MAX_TOKENS = 1"
definition SICHA_SET_TEMPERATURE :: u32 where "SICHA_SET_TEMPERATURE = 2"
definition SICHA_SET_TOP_P :: u32 where "SICHA_SET_TOP_P = 4"
definition SICHA_SET_TOP_K :: u32 where "SICHA_SET_TOP_K = 8"
definition SICHA_SET_PRESENCE_PENALTY :: u32 where "SICHA_SET_PRESENCE_PENALTY = 16"
definition SICHA_SET_FREQUENCY_PENALTY :: u32 where "SICHA_SET_FREQUENCY_PENALTY = 32"
definition SICHA_REQ_NO_ACCUMULATE :: u32 where "SICHA_REQ_NO_ACCUMULATE = 1"

definition role_str :: "int \<Rightarrow> bytes option" where
  "role_str role =
     (if role = 0 then Some (lit ''system'')
      else if role = 1 then Some (lit ''user'')
      else if role = 2 then Some (lit ''assistant'')
      else if role = 3 then Some (lit ''tool'')
      else None)"

definition SICHA_ROLE_TOOL :: int where "SICHA_ROLE_TOOL = 3"

text \<open>\<open>isfinite\<close> and the comparison with 0.0, on the bits of an IEEE double.\<close>

definition isfinite :: "u64 \<Rightarrow> bool" where
  "isfinite d \<longleftrightarrow> drop_bit 52 d AND 0x7FF \<noteq> 0x7FF"

definition ge_zero :: "u64 \<Rightarrow> bool" where
  "ge_zero d \<longleftrightarrow> \<not> bit d 63 \<or> d = 0x8000000000000000"

definition content_bytes :: "sicha_message \<Rightarrow> bytes" where
  "content_bytes msg =
     (let c = opt_bytes (msg_content msg) in
      take (if msg_content_len msg = SICHA_LEN_CSTR then strlen c else msg_content_len msg) c)"

definition message_ok :: "sicha_message \<Rightarrow> bool" where
  "message_ok msg \<longleftrightarrow>
     (if role_str (msg_role msg) = None \<or> msg_content msg = None then False
      else if \<not> utf8_scan (content_bytes msg) then False
      else case msg_tool_call_id msg of None \<Rightarrow> True
           | Some tid \<Rightarrow> msg_role msg = SICHA_ROLE_TOOL \<and> cstr tid \<noteq> [] \<and> utf8_scan (cstr tid))"

definition messages_of :: "sicha_request \<Rightarrow> sicha_message list" where
  "messages_of req = (case rq_messages req of None \<Rightarrow> [] | Some ms \<Rightarrow> take (rq_n_messages req) ms)"

definition stop_of :: "sicha_request \<Rightarrow> bytes option list" where
  "stop_of req = (case rq_stop req of None \<Rightarrow> [] | Some ss \<Rightarrow> take (rq_n_stop req) ss)"

definition stop_ok :: "bytes option \<Rightarrow> bool" where
  "stop_ok s \<longleftrightarrow> (case s of None \<Rightarrow> False | Some s \<Rightarrow> cstr s \<noteq> [] \<and> utf8_scan (cstr s))"

definition is_set :: "sicha_request \<Rightarrow> u32 \<Rightarrow> bool" where
  "is_set req flag \<longleftrightarrow> rq_set_mask req AND flag \<noteq> 0"

definition known_set :: u32 where
  "known_set = SICHA_SET_MAX_TOKENS OR SICHA_SET_TEMPERATURE OR SICHA_SET_TOP_P OR SICHA_SET_TOP_K
     OR SICHA_SET_PRESENCE_PENALTY OR SICHA_SET_FREQUENCY_PENALTY"

text \<open>The checks that need no parser, in the order of the code.\<close>

definition request_shape_ok :: "sicha_request \<Rightarrow> bool" where
  "request_shape_ok req \<longleftrightarrow>
     (let have_array = (rq_messages req \<noteq> None \<or> 0 < rq_n_messages req) in
      if \<not> rq_struct_size_ok req then False
      else if rq_set_mask req AND NOT known_set \<noteq> 0 \<or> rq_flags req AND NOT SICHA_REQ_NO_ACCUMULATE \<noteq> 0
      then False
      else if have_array = (rq_messages_json req \<noteq> None) then False
      else if have_array \<and> (rq_messages req = None \<or> rq_n_messages req = 0) then False
      else if \<exists>msg \<in> set (messages_of req). \<not> message_ok msg then False
      else if is_set req SICHA_SET_MAX_TOKENS \<and> rq_max_tokens req < 1 then False
      else if is_set req SICHA_SET_TOP_K \<and> rq_top_k req < 0 then False
      else if (is_set req SICHA_SET_TEMPERATURE
                 \<and> \<not> (isfinite (rq_temperature req) \<and> ge_zero (rq_temperature req)))
              \<or> (is_set req SICHA_SET_TOP_P \<and> \<not> isfinite (rq_top_p req))
              \<or> (is_set req SICHA_SET_PRESENCE_PENALTY \<and> \<not> isfinite (rq_presence_penalty req))
              \<or> (is_set req SICHA_SET_FREQUENCY_PENALTY \<and> \<not> isfinite (rq_frequency_penalty req))
      then False
      else if 0 < rq_n_stop req \<and> rq_stop req = None then False
      else if \<exists>s \<in> set (stop_of req). \<not> stop_ok s then False
      else True)"

definition sicha_request_validate :: "json_reader \<Rightarrow> sicha_request \<Rightarrow> mem \<Rightarrow> sicha_status \<times> mem" where
  "sicha_request_validate rd req m =
     (if \<not> request_shape_ok req then (SICHA_E_INVALID_ARG, m)
      else
        let (ok, m) =
              (case rq_messages_json req of None \<Rightarrow> (True, m)
               | Some json \<Rightarrow>
                   (case yyjson_read rd (cstr json) m of
                      (None, m) \<Rightarrow> (False, m)
                    | (Some root, m) \<Rightarrow> (yyjson_is_arr root, m)))
        in if \<not> ok then (SICHA_E_INVALID_ARG, m)
           else
             case rq_response_format_json req of None \<Rightarrow> (SICHA_OK, m)
             | Some json \<Rightarrow> validate_json_object rd json m)"

section \<open>Building the body\<close>

text \<open>
  A step of the build either fails with a status or gives a value. Every call of yyjson that
  makes or adds a value takes one outcome of the allocator. An object under construction is
  the list of its members.
\<close>

type_synonym 'a build = "mem \<Rightarrow> (sicha_status + 'a) \<times> mem"
type_synonym members = "(bytes \<times> json) list"
type_synonym json_writer = "json \<Rightarrow> bytes option"

definition ret :: "'a \<Rightarrow> 'a build" where
  "ret a m = (Inr a, m)"

definition and_then :: "'a build \<Rightarrow> ('a \<Rightarrow> 'b build) \<Rightarrow> 'b build" where
  "and_then f g m = (case f m of (Inl e, m) \<Rightarrow> (Inl e, m) | (Inr a, m) \<Rightarrow> g a m)"

definition mut_new :: "'a \<Rightarrow> 'a build" where
  "mut_new v m = (let (ok, m) = alloc m in (if ok then Inr v else Inl SICHA_E_NOMEM, m))"

definition yyjson_mut_obj_add :: "members \<Rightarrow> bytes \<Rightarrow> json \<Rightarrow> members build" where
  "yyjson_mut_obj_add ms key v = mut_new (ms @ [(key, v)])"

definition yyjson_mut_obj_remove_keyn :: "members \<Rightarrow> bytes \<Rightarrow> members" where
  "yyjson_mut_obj_remove_keyn ms key = filter (\<lambda>(k, v). k \<noteq> key) ms"

definition add_if :: "bool \<Rightarrow> string \<Rightarrow> json \<Rightarrow> members \<Rightarrow> members build" where
  "add_if c key v ms = (if c then yyjson_mut_obj_add ms (lit key) v else ret ms)"

definition import_json :: "json_reader \<Rightarrow> bytes \<Rightarrow> bool \<Rightarrow> json build" where
  "import_json rd json expect_obj m =
     (case yyjson_read rd (cstr json) m of
        (None, m) \<Rightarrow> (Inl SICHA_E_INVALID_ARG, m)
      | (Some root, m) \<Rightarrow>
          if (if expect_obj then \<not> yyjson_is_obj root else \<not> yyjson_is_arr root)
          then (Inl SICHA_E_INVALID_ARG, m) else mut_new root m)"

definition message_obj :: "sicha_message \<Rightarrow> json build" where
  "message_obj msg =
     and_then (mut_new []) (\<lambda>ms.
     and_then (yyjson_mut_obj_add ms (lit ''role'') (JStr (opt_bytes (role_str (msg_role msg))))) (\<lambda>ms.
     and_then (yyjson_mut_obj_add ms (lit ''content'') (JStr (content_bytes msg))) (\<lambda>ms.
     and_then (add_if (msg_tool_call_id msg \<noteq> None) ''tool_call_id''
                 (JStr (cstr (opt_bytes (msg_tool_call_id msg)))) ms) (\<lambda>ms.
     ret (JObj ms)))))"

fun message_objs :: "sicha_message list \<Rightarrow> json list build" where
  "message_objs [] = ret []"
| "message_objs (msg # msgs) =
     and_then (message_obj msg) (\<lambda>v. and_then (message_objs msgs) (\<lambda>vs. ret (v # vs)))"

definition messages_stage :: "json_reader \<Rightarrow> sicha_request \<Rightarrow> members \<Rightarrow> members build" where
  "messages_stage rd req ms =
     (case rq_messages_json req of
        Some json \<Rightarrow>
          and_then (import_json rd json False) (yyjson_mut_obj_add ms (lit ''messages''))
      | None \<Rightarrow>
          and_then (mut_new ()) (\<lambda>_.
          and_then (mut_new ()) (\<lambda>_.
          and_then (message_objs (messages_of req)) (\<lambda>vs.
          ret (ms @ [(lit ''messages'', JArr vs)])))))"

definition stream_stage :: "sicha_backend \<Rightarrow> bool \<Rightarrow> members \<Rightarrow> members build" where
  "stream_stage b stream ms =
     (if \<not> stream then ret ms
      else
        and_then (yyjson_mut_obj_add ms (lit ''stream'') (JBool True)) (\<lambda>ms.
        if b_flags b AND SICHA_BACKEND_STREAM_USAGE = 0 then ret ms
        else
          and_then (mut_new []) (\<lambda>so.
          and_then (yyjson_mut_obj_add so (lit ''include_usage'') (JBool True)) (\<lambda>so.
          yyjson_mut_obj_add ms (lit ''stream_options'') (JObj so)))))"

definition sampler_stage :: "sicha_request \<Rightarrow> members \<Rightarrow> members build" where
  "sampler_stage req ms =
     and_then (add_if (is_set req SICHA_SET_MAX_TOKENS) ''max_tokens''
                 (JSint (word_of_int (rq_max_tokens req))) ms) (\<lambda>ms.
     and_then (add_if (is_set req SICHA_SET_TEMPERATURE) ''temperature'' (JReal (rq_temperature req)) ms) (\<lambda>ms.
     and_then (add_if (is_set req SICHA_SET_TOP_P) ''top_p'' (JReal (rq_top_p req)) ms) (\<lambda>ms.
     and_then (add_if (is_set req SICHA_SET_TOP_K) ''top_k'' (JSint (word_of_int (rq_top_k req))) ms) (\<lambda>ms.
     and_then (add_if (is_set req SICHA_SET_PRESENCE_PENALTY) ''presence_penalty''
                 (JReal (rq_presence_penalty req)) ms) (\<lambda>ms.
     add_if (is_set req SICHA_SET_FREQUENCY_PENALTY) ''frequency_penalty''
       (JReal (rq_frequency_penalty req)) ms)))))"

fun stop_strs :: "bytes option list \<Rightarrow> json list build" where
  "stop_strs [] = ret []"
| "stop_strs (s # ss) =
     and_then (mut_new (JStr (cstr (opt_bytes s)))) (\<lambda>v. and_then (stop_strs ss) (\<lambda>vs. ret (v # vs)))"

definition stop_stage :: "sicha_request \<Rightarrow> members \<Rightarrow> members build" where
  "stop_stage req ms =
     (if rq_n_stop req = 0 then ret ms
      else
        and_then (mut_new ()) (\<lambda>_.
        and_then (mut_new ()) (\<lambda>_.
        and_then (stop_strs (stop_of req)) (\<lambda>vs. ret (ms @ [(lit ''stop'', JArr vs)])))))"

definition format_stage :: "json_reader \<Rightarrow> sicha_request \<Rightarrow> members \<Rightarrow> members build" where
  "format_stage rd req ms =
     (case rq_response_format_json req of
        None \<Rightarrow> ret ms
      | Some json \<Rightarrow>
          and_then (import_json rd json True) (yyjson_mut_obj_add ms (lit ''response_format'')))"

text \<open>The extra body: each pair is copied, what the root has under the key is removed, and the
  pair is added at the end.\<close>

fun merge_extra :: "members \<Rightarrow> members \<Rightarrow> members build" where
  "merge_extra ms [] = ret ms"
| "merge_extra ms ((key, v) # extra) =
     (\<lambda>m. let (ok1, m) = alloc m; (ok2, m) = alloc m in
       if \<not> ok1 \<or> \<not> ok2 then (Inl SICHA_E_NOMEM, m)
       else merge_extra (yyjson_mut_obj_remove_keyn ms key @ [(key, v)]) extra m)"

fun obj_members :: "json \<Rightarrow> members" where
  "obj_members (JObj ms) = ms"
| "obj_members _ = []"

definition extra_stage :: "json_reader \<Rightarrow> sicha_backend \<Rightarrow> members \<Rightarrow> members build" where
  "extra_stage rd b ms =
     (case b_extra_body_json b of
        None \<Rightarrow> ret ms
      | Some json \<Rightarrow>
          (\<lambda>m. case yyjson_read rd (cstr json) m of
                 (None, m) \<Rightarrow> (Inl SICHA_E_NOMEM, m)
               | (Some root, m) \<Rightarrow> merge_extra ms (obj_members root) m))"

definition yyjson_mut_write :: "json_writer \<Rightarrow> json \<Rightarrow> bytes build" where
  "yyjson_mut_write wr v m =
     (let (ok, m) = alloc m in
      (case wr v of Some s \<Rightarrow> if ok then Inr s else Inl SICHA_E_NOMEM | None \<Rightarrow> Inl SICHA_E_NOMEM, m))"

definition chat_body_root :: "json_reader \<Rightarrow> sicha_backend \<Rightarrow> sicha_request \<Rightarrow> bool \<Rightarrow> members build" where
  "chat_body_root rd b req stream =
     and_then (mut_new ()) (\<lambda>_.
     and_then (mut_new []) (\<lambda>ms.
     and_then (yyjson_mut_obj_add ms (lit ''model'') (JStr (cstr (opt_bytes (b_model b))))) (\<lambda>ms.
     and_then (messages_stage rd req ms) (\<lambda>ms.
     and_then (stream_stage b stream ms) (\<lambda>ms.
     and_then (sampler_stage req ms) (\<lambda>ms.
     and_then (stop_stage req ms) (\<lambda>ms.
     and_then (format_stage rd req ms) (\<lambda>ms.
     extra_stage rd b ms))))))))"

definition sicha_build_chat_body :: "json_reader \<Rightarrow> json_writer \<Rightarrow> sicha_backend \<Rightarrow> sicha_request \<Rightarrow>
    bool \<Rightarrow> mem \<Rightarrow> sicha_status \<times> bytes option \<times> mem" where
  "sicha_build_chat_body rd wr b req stream m =
     (let (st, m) = sicha_request_validate rd req m in
      if st \<noteq> SICHA_OK then (st, None, m)
      else
        case and_then (chat_body_root rd b req stream) (\<lambda>ms. yyjson_mut_write wr (JObj ms)) m of
          (Inl e, m) \<Rightarrow> (e, None, m)
        | (Inr s, m) \<Rightarrow> (SICHA_OK, Some s, m))"

end
