(* ===== verification/Client.thy ===== *)
theory Client
  imports Response Request
begin

text \<open>
  The client and the retry and fallback engine (\<open>src/client.c\<close>).

  The state \<open>'w\<close> is the world outside the library: the clock, the network, the cancel token
  and whatever the callbacks of the caller touch. A transport is described by what it does
  to the sink: it calls \<open>on_status\<close> or \<open>on_body\<close>, gets the return code and goes on, or it
  returns. Nothing keeps it from ignoring the code, from calling \<open>on_status\<close> twice or from
  returning any status.
\<close>

section \<open>The interfaces of the caller\<close>

record sicha_http_request =
  hr_method :: bytes
  hr_url :: bytes
  hr_headers :: "sicha_header list"
  hr_body :: "bytes option"
  hr_body_len :: nat
  hr_timeouts :: sicha_timeouts
  hr_flags :: u32

datatype 'w transfer =
    T_done sicha_transport_status 'w
  | T_status int "sicha_header list" 'w "int \<times> 'w \<Rightarrow> 'w transfer"
  | T_body bytes 'w "int \<times> 'w \<Rightarrow> 'w transfer"

text \<open>
  \<open>env_perform\<close> gets the request and whether the cancel token is passed; \<open>env_cancelled\<close> is
  \<open>sicha_cancel_is_cancelled\<close> on the token of the call, or \<open>None\<close> without a token.
\<close>

record 'w client_env =
  env_now_ms :: "'w \<Rightarrow> u64 \<times> 'w"
  env_wait_ms :: "u64 \<Rightarrow> 'w \<Rightarrow> int \<times> 'w"
  env_cancelled :: "('w \<Rightarrow> bool) option"
  env_perform :: "sicha_http_request \<Rightarrow> bool \<Rightarrow> 'w \<Rightarrow> 'w transfer"
  env_log :: "bytes \<Rightarrow> 'w \<Rightarrow> 'w"

section \<open>The client\<close>

record sicha_client =
  c_backends :: "sicha_backend list"
  c_policy :: sicha_retry_policy
  c_prng_seed :: u64
  c_req_counter :: u32
  c_max_response_bytes :: nat
  c_max_event_bytes :: nat
  c_user_agent :: bytes
  c_debug :: bool

text \<open>Returns the new state of the generator and the number.\<close>

definition splitmix64 :: "u64 \<Rightarrow> u64 \<times> u64" where
  "splitmix64 s =
     (let s = s + 0x9E3779B97F4A7C15;
          z = (s XOR drop_bit 30 s) * 0xBF58476D1CE4E5B9;
          z = (z XOR drop_bit 27 z) * 0x94D049BB133111EB
      in (s, z XOR drop_bit 31 z))"

subsection \<open>The debug log\<close>

text \<open>Decimal numbers, as \<open>%u\<close> and \<open>%d\<close> write them.\<close>

fun dec_nat :: "nat \<Rightarrow> bytes" where
  "dec_nat n = (if n < 10 then [0x30 + of_nat n] else dec_nat (n div 10) @ [0x30 + of_nat (n mod 10)])"

definition dec_int :: "int \<Rightarrow> bytes" where
  "dec_int i = (if i < 0 then 0x2D # dec_nat (nat (- i)) else dec_nat (nat i))"

text \<open>\<open>%.*s\<close>: at most so many bytes, and not past a NUL; a negative precision is no limit.\<close>

definition prec_str :: "nat \<Rightarrow> bytes \<Rightarrow> bytes" where
  "prec_str n s =
     (let prec = sint (of_nat n :: u32) in if prec < 0 then cstr s else take (nat prec) (cstr s))"

definition nl :: bytes where "nl = [0x0A]"

definition debug_header :: "sicha_header \<Rightarrow> bytes" where
  "debug_header h =
     (if sicha_header_name_eq (opt_bytes (hd_name h)) (lit ''Authorization'')
      then lit ''  '' @ opt_bytes (hd_name h) @ lit '': Bearer ***'' @ nl
      else lit ''  '' @ opt_bytes (hd_name h) @ lit '': '' @ opt_bytes (hd_value h) @ nl)"

definition debug_request_text :: "sicha_http_request \<Rightarrow> bytes" where
  "debug_request_text rq =
     lit ''=== sicha request ==='' @ nl @ hr_method rq @ lit '' '' @ hr_url rq @ nl
     @ concat (map debug_header (hr_headers rq))
     @ (case hr_body rq of None \<Rightarrow> [] | Some body \<Rightarrow> prec_str (hr_body_len rq) body @ nl)"

definition debug_request :: "'w client_env \<Rightarrow> sicha_client \<Rightarrow> sicha_http_request \<Rightarrow> 'w \<Rightarrow> 'w" where
  "debug_request env c rq w = (if \<not> c_debug c then w else env_log env (debug_request_text rq) w)"

definition debug_attempt_text :: "sicha_attempt \<Rightarrow> bytes" where
  "debug_attempt_text a =
     lit ''=== sicha attempt '' @ dec_nat (unat (at_attempt a))
     @ lit '' (backend '' @ dec_nat (unat (at_backend a))
     @ lit '' try '' @ dec_nat (unat (at_try_of_backend a))
     @ lit '') class='' @ sicha_error_class_str (at_error_class a)
     @ lit '' transport='' @ sicha_transport_status_str (at_transport_status a)
     @ lit '' http='' @ dec_int (at_http_status a)
     @ lit '' latency='' @ dec_nat (unat (ucast (at_latency_ms a) :: u32))
     @ lit ''ms: '' @ opt_bytes (at_message a) @ nl
     @ (if 0 < at_raw_body_excerpt_len a
        then lit ''  body: '' @ prec_str (at_raw_body_excerpt_len a) (opt_bytes (at_raw_body_excerpt a)) @ nl
        else [])"

definition debug_attempt :: "'w client_env \<Rightarrow> sicha_client \<Rightarrow> sicha_attempt \<Rightarrow> 'w \<Rightarrow> 'w" where
  "debug_attempt env c a w = (if \<not> c_debug c then w else env_log env (debug_attempt_text a) w)"

subsection \<open>Creating a client\<close>

text \<open>
  The transport and the clock are retained by pointer; what \<open>sicha_client_create\<close> looks at is
  whether their sizes and function pointers are there.
\<close>

record transport_shape =
  ts_struct_size_ok :: bool
  ts_perform_set :: bool

record clock_shape =
  ck_now_set :: bool
  ck_wait_set :: bool

record sicha_client_opts =
  o_struct_size_ok :: bool
  o_backends :: "sicha_backend_desc list option"
  o_n_backends :: nat
  o_retry :: sicha_retry_policy
  o_transport :: "transport_shape option"
  o_clock :: "clock_shape option"
  o_prng_seed :: u64
  o_max_response_bytes :: nat
  o_max_event_bytes :: nat
  o_user_agent :: "bytes option"

text \<open>
  What the process contributes: whether the library is built with libcurl and its transport
  can be created, the real clock, the address of the client, and \<open>SICHA_DEBUG\<close> with the
  outcome of opening the file it names.
\<close>

record process_env =
  pe_with_curl :: bool
  pe_curl_created :: bool
  pe_now :: u64
  pe_address :: u64
  pe_sicha_debug :: "bytes option"
  pe_debug_opens :: bool

definition SICHA_DEFAULT_MAX_RESPONSE_BYTES :: nat where
  "SICHA_DEFAULT_MAX_RESPONSE_BYTES = 64 * 1024 * 1024"

definition SICHA_DEFAULT_MAX_EVENT_BYTES :: nat where
  "SICHA_DEFAULT_MAX_EVENT_BYTES = 1024 * 1024"

fun init_backends :: "json_reader \<Rightarrow> sicha_backend_desc list \<Rightarrow> mem \<Rightarrow>
    sicha_status \<times> sicha_backend list \<times> mem" where
  "init_backends rd [] m = (SICHA_OK, [], m)"
| "init_backends rd (d # ds) m =
     (let (st, b, m) = sicha_backend_init rd d m in
      if st \<noteq> SICHA_OK then (st, [], m)
      else let (st, bs, m) = init_backends rd ds m in (st, b # bs, m))"

definition client_opts_check :: "process_env \<Rightarrow> sicha_client_opts \<Rightarrow> sicha_status" where
  "client_opts_check pe opts =
     (if \<not> o_struct_size_ok opts \<or> o_backends opts = None \<or> o_n_backends opts = 0 then SICHA_E_INVALID_ARG
      else if sicha_policy_validate (o_retry opts) \<noteq> SICHA_OK then sicha_policy_validate (o_retry opts)
      else if (case o_transport opts of
                 Some t \<Rightarrow> \<not> ts_struct_size_ok t \<or> \<not> ts_perform_set t
               | None \<Rightarrow> \<not> pe_with_curl pe)
      then SICHA_E_INVALID_ARG
      else if (case o_clock opts of None \<Rightarrow> False | Some k \<Rightarrow> \<not> ck_now_set k \<or> \<not> ck_wait_set k)
      then SICHA_E_INVALID_ARG
      else if o_user_agent opts \<noteq> None
        \<and> sicha_header_validate (Some (lit ''User-Agent'')) (o_user_agent opts) \<noteq> SICHA_OK
      then SICHA_E_INVALID_ARG
      else SICHA_OK)"

definition seed_of :: "process_env \<Rightarrow> sicha_client_opts \<Rightarrow> u64" where
  "seed_of pe opts =
     (if o_prng_seed opts = 0 then
        let mix = pe_now pe XOR (pe_address pe * 0x9E3779B97F4A7C15);
            (_, seed) = splitmix64 mix
        in if seed = 0 then 1 else seed
      else o_prng_seed opts)"

definition debug_enabled :: "process_env \<Rightarrow> bool" where
  "debug_enabled pe =
     (case pe_sicha_debug pe of
        None \<Rightarrow> False
      | Some dbg \<Rightarrow>
          if cstr dbg = [] then False
          else if cstr dbg = lit ''-'' \<or> cstr dbg = lit ''stderr'' then True
          else pe_debug_opens pe)"

definition sicha_client_create :: "json_reader \<Rightarrow> process_env \<Rightarrow> sicha_client_opts option \<Rightarrow> mem \<Rightarrow>
    sicha_status \<times> sicha_client option \<times> mem" where
  "sicha_client_create rd pe opts m =
     (case opts of
        None \<Rightarrow> (SICHA_E_INVALID_ARG, None, m)
      | Some opts \<Rightarrow>
          if client_opts_check pe opts \<noteq> SICHA_OK then (client_opts_check pe opts, None, m)
          else
            let (ok, m) = alloc m in
            if \<not> ok then (SICHA_E_NOMEM, None, m)
            else
              let (ok, m) = alloc m in
              if \<not> ok then (SICHA_E_NOMEM, None, m)
              else
                let (st, bs, m) =
                      init_backends rd (take (o_n_backends opts) (case o_backends opts of None \<Rightarrow> [] | Some ds \<Rightarrow> ds)) m
                in if st \<noteq> SICHA_OK then (st, None, m)
                else
                  let (ok, m) = (if 0 < n_overrides (o_retry opts) then alloc m else (True, m)) in
                  if \<not> ok then (SICHA_E_NOMEM, None, m)
                  else if o_transport opts = None \<and> pe_with_curl pe \<and> \<not> pe_curl_created pe
                  then (SICHA_E_NOMEM, None, m)
                  else
                    let ua = (case o_user_agent opts of
                                None \<Rightarrow> take 63 (lit ''sicha/'' @ sicha_version_str) | Some ua \<Rightarrow> ua);
                        (ua', m) = dup_cstr ua m
                    in case ua' of
                         None \<Rightarrow> (SICHA_E_NOMEM, None, m)
                       | Some ua' \<Rightarrow>
                           (SICHA_OK,
                            Some \<lparr>c_backends = bs, c_policy = sicha_policy_resolve (o_retry opts),
                              c_prng_seed = seed_of pe opts, c_req_counter = 0,
                              c_max_response_bytes = (if o_max_response_bytes opts \<noteq> 0
                                then o_max_response_bytes opts else SICHA_DEFAULT_MAX_RESPONSE_BYTES),
                              c_max_event_bytes = (if o_max_event_bytes opts \<noteq> 0
                                then o_max_event_bytes opts else SICHA_DEFAULT_MAX_EVENT_BYTES),
                              c_user_agent = ua', c_debug = debug_enabled pe\<rparr>, m))"

section \<open>One HTTP round trip\<close>

text \<open>
  The result that \<open>attempt_io\<close> and the stream context of the code both point to is the
  field \<open>sc_r\<close> of \<open>io_sctx\<close>, for streaming and other requests.
\<close>

record attempt_io =
  io_stream :: bool
  io_sctx :: sicha_stream_ctx
  io_sse :: sicha_sse
  io_body :: sicha_buf
  io_http_status :: int
  io_retry_after :: bytes
  io_have_retry_after :: bool
  io_sse_rc :: int

definition attempt_io_init :: "sicha_client \<Rightarrow> sicha_result \<Rightarrow> bool \<Rightarrow> bool \<Rightarrow> attempt_io" where
  "attempt_io_init c r stream accumulate =
     \<lparr>io_stream = stream, io_sctx = sicha_stream_ctx_init r accumulate,
      io_sse = sicha_sse_init (c_max_event_bytes c), io_body = sicha_buf_init (c_max_response_bytes c),
      io_http_status = 0, io_retry_after = [], io_have_retry_after = False, io_sse_rc = 0\<rparr>"

text \<open>The last Retry-After header wins; 63 bytes of it are kept.\<close>

fun scan_retry_after :: "sicha_header list \<Rightarrow> attempt_io \<Rightarrow> attempt_io" where
  "scan_retry_after [] io = io"
| "scan_retry_after (h # hs) io =
     (case (hd_name h, hd_value h) of
        (Some n, Some v) \<Rightarrow>
          if sicha_header_name_eq (cstr n) (lit ''Retry-After'')
          then scan_retry_after hs (io\<lparr>io_retry_after := take 63 (cstr v), io_have_retry_after := True\<rparr>)
          else scan_retry_after hs io
      | _ \<Rightarrow> scan_retry_after hs io)"

definition attempt_on_status :: "int \<Rightarrow> sicha_header list \<Rightarrow> attempt_io \<Rightarrow> int \<times> attempt_io" where
  "attempt_on_status http_status headers io =
     (0, scan_retry_after headers (io\<lparr>io_http_status := http_status\<rparr>))"

definition attempt_on_body :: "json_reader \<Rightarrow> 'w sicha_callbacks option \<Rightarrow> bytes \<Rightarrow> attempt_io \<Rightarrow>
    'w \<Rightarrow> mem \<Rightarrow> int \<times> attempt_io \<times> 'w \<times> mem" where
  "attempt_on_body rd cbs bs io w m =
     (if io_stream io then
        case sicha_sse_feed (Some (sicha_stream_on_event rd cbs)) (io_sse io) bs (io_sctx io, w) m of
          (rc, sse, (ctx, w), m) \<Rightarrow>
            let io = io\<lparr>io_sse := sse, io_sctx := ctx\<rparr> in
            if rc \<noteq> 0 then (1, io\<lparr>io_sse_rc := rc\<rparr>, w, m) else (0, io, w, m)
      else
        let (b, m) = sicha_buf_append (io_body io) bs m; io = io\<lparr>io_body := b\<rparr> in
        (if sicha_buf_status b = SICHA_OK then 0 else 1, io, w, m))"

text \<open>A transfer with the sink of an attempt, and one without a sink.\<close>

primrec run_transfer :: "json_reader \<Rightarrow> 'w sicha_callbacks option \<Rightarrow> 'w transfer \<Rightarrow> attempt_io \<Rightarrow> mem \<Rightarrow>
    sicha_transport_status \<times> attempt_io \<times> 'w \<times> mem" where
  "run_transfer rd cbs (T_done ts w) = (\<lambda>io m. (ts, io, w, m))"
| "run_transfer rd cbs (T_status http hs w k) = (\<lambda>io m.
     case attempt_on_status http hs io of (rc, io) \<Rightarrow> run_transfer rd cbs (k (rc, w)) io m)"
| "run_transfer rd cbs (T_body bs w k) = (\<lambda>io m.
     case attempt_on_body rd cbs bs io w m of (rc, io, w, m) \<Rightarrow> run_transfer rd cbs (k (rc, w)) io m)"

primrec drain_transfer :: "'w transfer \<Rightarrow> sicha_transport_status \<times> 'w" where
  "drain_transfer (T_done ts w) = (ts, w)"
| "drain_transfer (T_status http hs w k) = drain_transfer (k (0, w))"
| "drain_transfer (T_body bs w k) = drain_transfer (k (0, w))"

text \<open>\<open>ao_retry_after_ms\<close> is \<open>UINT64_MAX\<close> when there is none.\<close>

record attempt_outcome =
  ao_ts :: sicha_transport_status
  ao_http_status :: int
  ao_body_state :: body_state
  ao_latency_ms :: u64
  ao_retry_after_ms :: u64
  ao_delivered :: bool
  ao_terminal :: sicha_status
  ao_message :: bytes
  ao_excerpt :: bytes

definition MESSAGE_SIZE :: nat where "MESSAGE_SIZE = 96"

definition snprintf :: "nat \<Rightarrow> bytes \<Rightarrow> bytes" where
  "snprintf n s = take (n - 1) s"

definition outcome_message :: "attempt_outcome \<Rightarrow> attempt_outcome" where
  "outcome_message out =
     out\<lparr>ao_message := snprintf MESSAGE_SIZE
       (if ao_terminal out = SICHA_E_NOMEM then lit ''out of memory''
        else if ao_ts out \<noteq> SICHA_T_OK then lit ''transport: '' @ sicha_transport_status_str (ao_ts out)
        else if ao_http_status out < 200 \<or> 299 < ao_http_status out
        then lit ''http '' @ dec_int (ao_http_status out)
        else case ao_body_state out of
               SICHA_BODY_EMPTY \<Rightarrow> lit ''empty response body''
             | SICHA_BODY_MALFORMED \<Rightarrow> lit ''malformed or incomplete response''
             | SICHA_BODY_TOOBIG \<Rightarrow> lit ''response exceeds size cap''
             | SICHA_BODY_OK \<Rightarrow> lit ''ok'')\<rparr>"

definition outcome_borrow_excerpt :: "attempt_outcome \<Rightarrow> bytes \<Rightarrow> attempt_outcome" where
  "outcome_borrow_excerpt out bs =
     (if bs = [] then out else out\<lparr>ao_excerpt := take SICHA_EXCERPT_MAX bs\<rparr>)"

definition http_ok :: "int \<Rightarrow> bool" where
  "http_ok http \<longleftrightarrow> 200 \<le> http \<and> http \<le> 299"

definition outcome_start :: "attempt_io \<Rightarrow> sicha_transport_status \<Rightarrow> u64 \<Rightarrow> attempt_outcome" where
  "outcome_start io ts latency =
     \<lparr>ao_ts = ts, ao_http_status = io_http_status io, ao_body_state = SICHA_BODY_OK,
      ao_latency_ms = latency,
      ao_retry_after_ms = (if io_have_retry_after io
        then sicha_retry_after_ms (Some (io_retry_after io)) SICHA_LEN_CSTR else UINT64_MAX),
      ao_delivered = False, ao_terminal = SICHA_OK, ao_message = [], ao_excerpt = []\<rparr>"

text \<open>The outcome right after the transfer, with the aborts of the sink untangled.\<close>

definition untangle :: "attempt_io \<Rightarrow> attempt_outcome \<Rightarrow> attempt_outcome" where
  "untangle io out =
     (let toobig = out\<lparr>ao_ts := SICHA_T_OK, ao_body_state := SICHA_BODY_TOOBIG\<rparr>;
          nomem = out\<lparr>ao_terminal := SICHA_E_NOMEM\<rparr>;
          out =
            (if ao_ts out = SICHA_T_E_ABORTED_BY_SINK then
               if io_stream io then
                 if sc_done (io_sctx io) then out\<lparr>ao_ts := SICHA_T_OK\<rparr>
                 else if io_sse_rc io = SICHA_STREAM_CANCEL then out\<lparr>ao_ts := SICHA_T_E_CANCELLED\<rparr>
                 else if sc_err (io_sctx io) = SICHA_E_NOMEM \<or> sicha_sse_status (io_sse io) = SICHA_E_NOMEM
                 then nomem
                 else toobig
               else if sicha_buf_status (io_body io) = SICHA_E_NOMEM then nomem
               else toobig
             else out)
      in if ao_ts out = SICHA_T_E_NOMEM then out\<lparr>ao_terminal := SICHA_E_NOMEM\<rparr> else out)"

text \<open>The clean end of a stream: the flush of a last event, and the test for completeness.\<close>

definition flush_stream :: "json_reader \<Rightarrow> 'w sicha_callbacks option \<Rightarrow> attempt_io \<Rightarrow>
    attempt_outcome \<Rightarrow> 'w \<Rightarrow> mem \<Rightarrow> attempt_outcome \<times> attempt_io \<times> 'w \<times> mem" where
  "flush_stream rd cbs io out w m =
     (if sc_done (io_sctx io) then (out, io, w, m)
      else
        case sicha_sse_finish (Some (sicha_stream_on_event rd cbs)) (io_sse io) (io_sctx io, w) m of
          (rc, sse, (ctx, w), m) \<Rightarrow>
            (if rc = SICHA_STREAM_CANCEL then out\<lparr>ao_ts := SICHA_T_E_CANCELLED\<rparr>
             else if rc = -1 then
               if sc_err ctx = SICHA_E_NOMEM \<or> sicha_sse_status sse = SICHA_E_NOMEM
               then out\<lparr>ao_terminal := SICHA_E_NOMEM\<rparr>
               else out\<lparr>ao_body_state := SICHA_BODY_TOOBIG\<rparr>
             else out, io\<lparr>io_sse := sse, io_sctx := ctx\<rparr>, w, m))"

definition stream_verdict :: "attempt_io \<Rightarrow> attempt_outcome \<Rightarrow> attempt_outcome" where
  "stream_verdict io out =
     (if ao_terminal out = SICHA_OK \<and> ao_ts out = SICHA_T_OK \<and> ao_body_state out = SICHA_BODY_OK
         \<and> \<not> sc_done (io_sctx io) \<and> r_finish_raw (sc_r (io_sctx io)) = None
      then out\<lparr>ao_body_state :=
             (if sc_saw_event (io_sctx io) then SICHA_BODY_MALFORMED else SICHA_BODY_EMPTY)\<rparr>
      else out)"

definition finish_stream :: "json_reader \<Rightarrow> 'w sicha_callbacks option \<Rightarrow> attempt_io \<Rightarrow>
    attempt_outcome \<Rightarrow> 'w \<Rightarrow> mem \<Rightarrow> attempt_outcome \<times> attempt_io \<times> 'w \<times> mem" where
  "finish_stream rd cbs io out w m =
     (let (out, io, w, m) = flush_stream rd cbs io out w m in (stream_verdict io out, io, w, m))"

text \<open>The body of a response that was not streamed: parsed, then retained verbatim.\<close>

definition finish_body :: "json_reader \<Rightarrow> attempt_io \<Rightarrow> attempt_outcome \<Rightarrow> mem \<Rightarrow>
    attempt_outcome \<times> attempt_io \<times> mem" where
  "finish_body rd io out m =
     (let (st, bs, r, m) = sicha_response_parse rd (sc_r (io_sctx io)) (buf_bytes (io_body io)) m;
          io = io\<lparr>io_sctx := (io_sctx io)\<lparr>sc_r := r\<rparr>\<rparr>;
          out = out\<lparr>ao_body_state := bs\<rparr>
      in if st \<noteq> SICHA_OK then (out\<lparr>ao_terminal := st\<rparr>, io, m)
         else
           let (raw, blen, b, m) = sicha_buf_take (io_body io) m; io = io\<lparr>io_body := b\<rparr> in
           case raw of
             None \<Rightarrow> (out\<lparr>ao_terminal := SICHA_E_NOMEM\<rparr>, io, m)
           | Some d \<Rightarrow>
               (out, io\<lparr>io_sctx := (io_sctx io)\<lparr>sc_r := r\<lparr>r_raw_body := Some d, r_raw_body_len := blen\<rparr>\<rparr>\<rparr>, m))"

definition finish_response :: "json_reader \<Rightarrow> 'w sicha_callbacks option \<Rightarrow> attempt_io \<Rightarrow>
    attempt_outcome \<Rightarrow> 'w \<Rightarrow> mem \<Rightarrow> attempt_outcome \<times> attempt_io \<times> 'w \<times> mem" where
  "finish_response rd cbs io out w m =
     (if ao_terminal out = SICHA_OK \<and> ao_ts out = SICHA_T_OK \<and> http_ok (ao_http_status out)
         \<and> ao_body_state out = SICHA_BODY_OK
      then if io_stream io then finish_stream rd cbs io out w m
           else let (out, io, m) = finish_body rd io out m in (out, io, w, m)
      else (out, io, w, m))"

definition attempt_excerpt :: "attempt_io \<Rightarrow> attempt_outcome \<Rightarrow> attempt_outcome" where
  "attempt_excerpt io out =
     (let r = sc_r (io_sctx io) in
      if ao_ts out = SICHA_T_OK \<and> (\<not> http_ok (ao_http_status out) \<or> ao_body_state out \<noteq> SICHA_BODY_OK)
      then
        if io_stream io then
          if 0 < buf_len (sc_last_raw (io_sctx io))
          then outcome_borrow_excerpt out (buf_bytes (sc_last_raw (io_sctx io)))
          else outcome_borrow_excerpt out (buf_bytes (r_text r))
        else if r_raw_body r \<noteq> None \<and> 0 < r_raw_body_len r
        then outcome_borrow_excerpt out (take (r_raw_body_len r) (opt_bytes (r_raw_body r)))
        else outcome_borrow_excerpt out (buf_bytes (io_body io))
      else out)"

definition chat_http_request :: "sicha_backend \<Rightarrow> bytes \<Rightarrow> sicha_header list \<Rightarrow> sicha_http_request" where
  "chat_http_request b body headers =
     \<lparr>hr_method = lit ''POST'', hr_url = opt_bytes (b_url_chat b), hr_headers = headers,
      hr_body = Some body, hr_body_len = length body, hr_timeouts = b_timeouts b, hr_flags = 0\<rparr>"

definition run_attempt :: "json_reader \<Rightarrow> 'w client_env \<Rightarrow> sicha_client \<Rightarrow> sicha_backend \<Rightarrow> bytes \<Rightarrow>
    sicha_header list \<Rightarrow> 'w sicha_callbacks option \<Rightarrow> sicha_result \<Rightarrow> bool \<Rightarrow> bool \<Rightarrow> 'w \<Rightarrow> mem \<Rightarrow>
    attempt_outcome \<times> sicha_result \<times> 'w \<times> mem" where
  "run_attempt rd env c b body headers cbs r stream accumulate w m =
     (let rq = chat_http_request b body headers;
          w = debug_request env c rq w;
          (t0, w) = env_now_ms env w;
          (ts, io, w, m) = run_transfer rd cbs (env_perform env rq (env_cancelled env \<noteq> None) w)
                             (attempt_io_init c r stream accumulate) m;
          (t1, w) = env_now_ms env w;
          out = untangle io (outcome_start io ts (t1 - t0));
          (out, io, w, m) = finish_response rd cbs io out w m;
          out = attempt_excerpt io out;
          out = out\<lparr>ao_delivered := io_stream io \<and> sc_delivered (io_sctx io)\<rparr>;
          out = outcome_message out
      in (out, sc_r (io_sctx io), w, m))"

section \<open>The cancellation assist\<close>

definition SICHA_HTTP_FIRE_AND_FORGET :: u32 where "SICHA_HTTP_FIRE_AND_FORGET = 1"

definition AUTH_SIZE :: nat where "AUTH_SIZE = 512"

definition abort_http_request :: "sicha_backend \<Rightarrow> bytes \<Rightarrow> sicha_http_request" where
  "abort_http_request b url =
     \<lparr>hr_method = lit ''POST'', hr_url = url,
      hr_headers =
        \<lparr>hd_name = Some (lit ''Content-Type''), hd_value = Some (lit ''application/json'')\<rparr>
        # (case b_api_key b of
             None \<Rightarrow> []
           | Some key \<Rightarrow>
               if strlen key < AUTH_SIZE - 8
               then [\<lparr>hd_name = Some (lit ''Authorization''),
                      hd_value = Some (snprintf AUTH_SIZE (lit ''Bearer '' @ cstr key))\<rparr>]
               else []),
      hr_body = Some (lit ''{}''), hr_body_len = 2,
      hr_timeouts = \<lparr>connect_ms = 2000, first_byte_ms = 2000, idle_ms = 2000, total_ms = 2000\<rparr>,
      hr_flags = SICHA_HTTP_FIRE_AND_FORGET\<rparr>"

definition kobold_abort_assist :: "'w client_env \<Rightarrow> sicha_client \<Rightarrow> sicha_backend \<Rightarrow> 'w \<Rightarrow> 'w" where
  "kobold_abort_assist env c b w =
     (case b_url_abort b of
        None \<Rightarrow> w
      | Some url \<Rightarrow>
          let rq = abort_http_request b url; w = debug_request env c rq w in
          snd (drain_transfer (env_perform env rq False w)))"

section \<open>The engine\<close>

end
