(* ===== verification/Engine.thy ===== *)
theory Engine
  imports Client
begin

text \<open>
  The engine: \<open>chat_common\<close> of \<open>src/client.c\<close>, with the two entry points
  \<open>sicha_chat\<close> and \<open>sicha_chat_stream\<close>. A round trip is \<open>attempt_step\<close>;
  \<open>backend_loop\<close> repeats it on one backend and \<open>chat_backends\<close> goes from one backend
  to the next.
\<close>

text \<open>
  The variables of \<open>chat_common\<close> that a round trip reads or writes. The last five belong to
  one backend and start afresh with the next. \<open>ch_w\<close> and \<open>ch_mem\<close> are the world and the
  allocator.
\<close>

record 'w chat_state =
  ch_r :: sicha_result
  ch_rng :: u64
  ch_ordinal :: u32
  ch_delivered :: bool
  ch_w :: 'w
  ch_mem :: mem
  ch_retry_used :: u32
  ch_validation_used :: u32
  ch_try :: u32
  ch_body :: "bytes option"
  ch_headers :: "sicha_header list option"

text \<open>What a round trip leads to: \<open>goto done\<close> with the final status, \<open>continue\<close>, or
  \<open>goto advance\<close>.\<close>

datatype verdict = Finish sicha_status | Again | Advance

text \<open>The check of the token and the lazily built pieces of the request.\<close>

definition prepare_body :: "json_reader \<Rightarrow> json_writer \<Rightarrow> sicha_backend \<Rightarrow> sicha_request \<Rightarrow> bool \<Rightarrow>
    'w chat_state \<Rightarrow> sicha_status \<times> 'w chat_state" where
  "prepare_body rd wr b req stream s =
     (if ch_body s \<noteq> None then (SICHA_OK, s)
      else let (st, body, m) = sicha_build_chat_body rd wr b req stream (ch_mem s) in
           (st, s\<lparr>ch_body := body, ch_mem := m\<rparr>))"

definition prepare_headers :: "sicha_client \<Rightarrow> sicha_backend \<Rightarrow> bool \<Rightarrow> 'w chat_state \<Rightarrow>
    sicha_status \<times> 'w chat_state" where
  "prepare_headers c b stream s =
     (if ch_headers s \<noteq> None then (SICHA_OK, s)
      else let (st, hs, m) = sicha_build_headers b stream (c_user_agent c) (ch_mem s) in
           (st, s\<lparr>ch_headers := hs, ch_mem := m\<rparr>))"

definition attempt_prepare :: "json_reader \<Rightarrow> json_writer \<Rightarrow> 'w client_env \<Rightarrow> sicha_client \<Rightarrow>
    sicha_backend \<Rightarrow> sicha_request \<Rightarrow> bool \<Rightarrow> 'w chat_state \<Rightarrow> sicha_status \<times> 'w chat_state" where
  "attempt_prepare rd wr env c b req stream s =
     (if (case env_cancelled env of None \<Rightarrow> False | Some f \<Rightarrow> f (ch_w s)) then (SICHA_E_CANCELLED, s)
      else
        let (st, s) = prepare_body rd wr b req stream s in
        if st \<noteq> SICHA_OK then (st, s) else prepare_headers c b stream s)"

text \<open>The class of a round trip, and the validator on classified successes.\<close>

definition outcome_class :: "sicha_client \<Rightarrow> attempt_outcome \<Rightarrow> sicha_result \<Rightarrow> sicha_error_class" where
  "outcome_class c out r =
     (if ao_terminal out \<noteq> SICHA_OK then SICHA_CLASS_ADVANCE
      else sicha_classify (c_policy c) (ao_ts out) (ao_http_status out) (ao_body_state out) (r_finish r))"

definition rejected_outcome :: "sicha_result \<Rightarrow> attempt_outcome \<Rightarrow> attempt_outcome" where
  "rejected_outcome r out =
     outcome_borrow_excerpt
       (out\<lparr>ao_message := snprintf MESSAGE_SIZE (lit ''validator rejected''), ao_excerpt := []\<rparr>)
       (buf_bytes (r_text r))"

definition validate_attempt :: "'w sicha_callbacks option \<Rightarrow> sicha_result \<Rightarrow> attempt_outcome \<Rightarrow>
    sicha_error_class \<Rightarrow> 'w \<Rightarrow> attempt_outcome \<times> sicha_error_class \<times> 'w" where
  "validate_attempt cbs r out cls w =
     (if ao_terminal out = SICHA_OK \<and> cls = SICHA_CLASS_NONE then
        case cb_of cbs cb_validate of
          None \<Rightarrow> (out, cls, w)
        | Some validate \<Rightarrow>
            let (rc, w) = validate r w in
            if rc \<noteq> 0 then (rejected_outcome r out, SICHA_CLASS_VALIDATION, w) else (out, cls, w)
      else (out, cls, w))"

definition attempt_run :: "json_reader \<Rightarrow> 'w client_env \<Rightarrow> sicha_client \<Rightarrow> nat \<Rightarrow> sicha_backend \<Rightarrow>
    sicha_request \<Rightarrow> 'w sicha_callbacks option \<Rightarrow> bool \<Rightarrow> 'w chat_state \<Rightarrow>
    attempt_outcome \<times> sicha_error_class \<times> 'w chat_state" where
  "attempt_run rd env c i b req cbs stream s =
     (let r = (sicha_result_reset_content (ch_r s))\<lparr>r_backend := int i\<rparr>;
          (out, r, w, m) = run_attempt rd env c b (opt_bytes (ch_body s))
             (case ch_headers s of None \<Rightarrow> [] | Some hs \<Rightarrow> hs) cbs r stream
             (rq_flags req AND SICHA_REQ_NO_ACCUMULATE = 0) (ch_w s) (ch_mem s);
          delivered = ch_delivered s \<or> ao_delivered out;
          (out, cls, w) = validate_attempt cbs r out (outcome_class c out r) w
      in (out, cls, s\<lparr>ch_r := r, ch_w := w, ch_mem := m, ch_delivered := delivered\<rparr>))"

text \<open>Exactly one record, and one call of \<open>on_attempt\<close>, per round trip.\<close>

definition attempt_of :: "nat \<Rightarrow> sicha_backend \<Rightarrow> attempt_outcome \<Rightarrow> sicha_error_class \<Rightarrow> 'w chat_state \<Rightarrow>
    sicha_attempt" where
  "attempt_of i b out cls s =
     (let r = ch_r s; kept = (cls = SICHA_CLASS_ADVANCE \<or> cls = SICHA_CLASS_VALIDATION) in
      \<lparr>at_attempt = ch_ordinal s, at_backend = of_nat i, at_try_of_backend = ch_try s,
       at_model = b_model b, at_error_class = cls, at_http_status = ao_http_status out,
       at_transport_status = ao_ts out, at_latency_ms = ao_latency_ms out,
       at_prompt_tokens = r_prompt_tokens r, at_completion_tokens = r_completion_tokens r,
       at_total_tokens = r_total_tokens r, at_message = Some (ao_message out),
       at_raw_body_excerpt = (if kept then Some (ao_excerpt out) else None),
       at_raw_body_excerpt_len = (if kept then length (ao_excerpt out) else 0)\<rparr>)"

definition attempt_record :: "'w client_env \<Rightarrow> sicha_client \<Rightarrow> nat \<Rightarrow> sicha_backend \<Rightarrow>
    'w sicha_callbacks option \<Rightarrow> attempt_outcome \<Rightarrow> sicha_error_class \<Rightarrow> 'w chat_state \<Rightarrow>
    sicha_status \<times> 'w chat_state" where
  "attempt_record env c i b cbs out cls s =
     (let (st, r, m) = sicha_result_add_attempt (ch_r s) (attempt_of i b out cls s) (ch_mem s);
          s = s\<lparr>ch_r := r, ch_mem := m, ch_ordinal := ch_ordinal s + 1, ch_try := ch_try s + 1\<rparr>
      in if st \<noteq> SICHA_OK then (SICHA_E_NOMEM, s)
         else
           let a = last (r_attempts r); w = debug_attempt env c a (ch_w s);
               w = (case cb_of cbs cb_on_attempt of None \<Rightarrow> w | Some f \<Rightarrow> f a w)
           in (SICHA_OK, s\<lparr>ch_w := w\<rparr>))"

text \<open>
  The streaming commit rule: after a callback has received bytes there is no other try,
  unless the policy allows it.
\<close>

definition committed :: "sicha_client \<Rightarrow> 'w chat_state \<Rightarrow> bool" where
  "committed c s \<longleftrightarrow> ch_delivered s \<and> pol_flags (c_policy c) AND SICHA_POLICY_RETRY_AFTER_DELTAS = 0"

definition retry_wait :: "sicha_client \<Rightarrow> attempt_outcome \<Rightarrow> u32 \<Rightarrow> u64 \<Rightarrow> u64 \<times> u64" where
  "retry_wait c out used rng =
     (if ao_retry_after_ms out \<noteq> UINT64_MAX \<and> retry_after_cap_ms (c_policy c) \<noteq> SICHA_DISABLED
      then (if ucast (retry_after_cap_ms (c_policy c)) < ao_retry_after_ms out
            then ucast (retry_after_cap_ms (c_policy c)) else ao_retry_after_ms out, rng)
      else let (rng, z) = splitmix64 rng in (sicha_backoff_ms (c_policy c) used z, rng))"

definition attempt_decide :: "'w client_env \<Rightarrow> sicha_client \<Rightarrow> sicha_backend \<Rightarrow> attempt_outcome \<Rightarrow>
    sicha_error_class \<Rightarrow> 'w chat_state \<Rightarrow> verdict \<times> 'w chat_state" where
  "attempt_decide env c b out cls s =
     (case cls of
        SICHA_CLASS_NONE \<Rightarrow> (Finish SICHA_OK, s)
      | SICHA_CLASS_ABORT \<Rightarrow> (Finish SICHA_E_ABORTED, s)
      | SICHA_CLASS_CANCELLED \<Rightarrow>
          (Finish SICHA_E_CANCELLED,
           if b_url_abort b \<noteq> None then s\<lparr>ch_w := kobold_abort_assist env c b (ch_w s)\<rparr> else s)
      | SICHA_CLASS_VALIDATION \<Rightarrow>
          if committed c s then (Finish SICHA_E_STREAM_LOST, s)
          else if ch_validation_used s < validation_retries (c_policy c)
          then (Again, s\<lparr>ch_validation_used := ch_validation_used s + 1\<rparr>)
          else (Advance, s)
      | SICHA_CLASS_RETRY_SAME \<Rightarrow>
          if committed c s then (Finish SICHA_E_STREAM_LOST, s)
          else
            let s = s\<lparr>ch_retry_used := ch_retry_used s + 1\<rparr> in
            if max_tries (c_policy c) \<le> ch_retry_used s then (Advance, s)
            else
              let (wait, rng) = retry_wait c out (ch_retry_used s) (ch_rng s);
                  (rc, w) = env_wait_ms env wait (ch_w s);
                  s = s\<lparr>ch_rng := rng, ch_w := w\<rparr>
              in if rc \<noteq> 0 then (Finish SICHA_E_CANCELLED, s) else (Again, s)
      | _ \<Rightarrow> if committed c s then (Finish SICHA_E_STREAM_LOST, s) else (Advance, s))"

definition attempt_step :: "json_reader \<Rightarrow> json_writer \<Rightarrow> 'w client_env \<Rightarrow> sicha_client \<Rightarrow> nat \<Rightarrow>
    sicha_backend \<Rightarrow> sicha_request \<Rightarrow> 'w sicha_callbacks option \<Rightarrow> bool \<Rightarrow> 'w chat_state \<Rightarrow>
    verdict \<times> 'w chat_state" where
  "attempt_step rd wr env c i b req cbs stream s =
     (let (st, s) = attempt_prepare rd wr env c b req stream s in
      if st \<noteq> SICHA_OK then (Finish st, s)
      else
        let (out, cls, s) = attempt_run rd env c i b req cbs stream s;
            (st, s) = attempt_record env c i b cbs out cls s
        in if st \<noteq> SICHA_OK then (Finish SICHA_E_NOMEM, s)
           else if ao_terminal out = SICHA_E_NOMEM then (Finish SICHA_E_NOMEM, s)
           else attempt_decide env c b out cls s)"

text \<open>
  The loop over one backend ends because every \<open>continue\<close> uses up a try or a validation
  retry: \<open>tries_left\<close> is the measure.
\<close>

definition counters :: "'w chat_state \<Rightarrow> u32 \<times> u32" where
  "counters s = (ch_retry_used s, ch_validation_used s)"

definition tries_left :: "sicha_client \<Rightarrow> 'w chat_state \<Rightarrow> nat" where
  "tries_left c s =
     unat (max_tries (c_policy c) - 1 - ch_retry_used s)
     + unat (validation_retries (c_policy c) - ch_validation_used s)"

lemma attempt_prepare_counters:
  "attempt_prepare rd wr env c b req stream s = (st, s') \<Longrightarrow> counters s' = counters s"
  by (auto simp: attempt_prepare_def prepare_body_def prepare_headers_def counters_def Let_def
      split: if_splits prod.splits)

lemma attempt_run_counters:
  "attempt_run rd env c i b req cbs stream s = (out, cls, s') \<Longrightarrow> counters s' = counters s"
  by (auto simp: attempt_run_def counters_def Let_def split: if_splits prod.splits option.splits)

lemma attempt_record_counters:
  "attempt_record env c i b cbs out cls s = (st, s') \<Longrightarrow> counters s' = counters s"
  by (auto simp: attempt_record_def counters_def Let_def split: if_splits prod.splits)

lemma unat_minus_one_less: "x \<noteq> 0 \<Longrightarrow> unat (x - 1 :: u32) < unat x"
  by (metis diff_less less_numeral_extra(1) unat_gt_0 unat_minus_one)

lemma attempt_decide_again:
  assumes "attempt_decide env c b out cls s = (Again, s')"
  shows "tries_left c s' < tries_left c s"
proof -
  consider (validation) "ch_validation_used s < validation_retries (c_policy c)"
      "ch_validation_used s' = ch_validation_used s + 1" "ch_retry_used s' = ch_retry_used s"
    | (same) "\<not> max_tries (c_policy c) \<le> ch_retry_used s + 1"
      "ch_retry_used s' = ch_retry_used s + 1" "ch_validation_used s' = ch_validation_used s"
    using assms
    by (cases cls) (auto simp: attempt_decide_def Let_def split: if_splits prod.splits)
  then show ?thesis
  proof cases
    case validation
    then have "validation_retries (c_policy c) - ch_validation_used s \<noteq> 0" by auto
    from unat_minus_one_less [OF this] show ?thesis
      using validation by (simp add: tries_left_def algebra_simps)
  next
    case same
    then have "max_tries (c_policy c) - 1 - ch_retry_used s \<noteq> 0" by (auto simp: algebra_simps)
    from unat_minus_one_less [OF this] show ?thesis
      using same by (simp add: tries_left_def algebra_simps)
  qed
qed

lemma attempt_step_again:
  assumes "attempt_step rd wr env c i b req cbs stream s = (Again, s')"
  shows "tries_left c s' < tries_left c s"
proof -
  obtain st s1 where s1: "attempt_prepare rd wr env c b req stream s = (st, s1)"
    by (cases "attempt_prepare rd wr env c b req stream s")
  obtain out cls s2 where s2: "attempt_run rd env c i b req cbs stream s1 = (out, cls, s2)"
    using prod_cases3 by blast
  obtain st' s3 where s3: "attempt_record env c i b cbs out cls s2 = (st', s3)"
    by (cases "attempt_record env c i b cbs out cls s2")
  have "attempt_decide env c b out cls s3 = (Again, s')"
    using assms by (simp add: attempt_step_def s1 s2 s3 split: if_splits)
  then have "tries_left c s' < tries_left c s3" by (rule attempt_decide_again)
  moreover have "counters s3 = counters s"
    using s1 s2 s3 attempt_prepare_counters attempt_run_counters attempt_record_counters by metis
  ultimately show ?thesis by (simp add: tries_left_def counters_def)
qed

text \<open>\<open>None\<close> is \<open>goto advance\<close>, and \<open>Some\<close> is \<open>goto done\<close> with the final status.\<close>

function backend_loop :: "json_reader \<Rightarrow> json_writer \<Rightarrow> 'w client_env \<Rightarrow> sicha_client \<Rightarrow> nat \<Rightarrow>
    sicha_backend \<Rightarrow> sicha_request \<Rightarrow> 'w sicha_callbacks option \<Rightarrow> bool \<Rightarrow> 'w chat_state \<Rightarrow>
    sicha_status option \<times> 'w chat_state" where
  "backend_loop rd wr env c i b req cbs stream s =
     (case attempt_step rd wr env c i b req cbs stream s of
        (Finish st, s') \<Rightarrow> (Some st, s')
      | (Advance, s') \<Rightarrow> (None, s')
      | (Again, s') \<Rightarrow> backend_loop rd wr env c i b req cbs stream s')"
  by pat_completeness auto

termination backend_loop
  by (relation "measure (\<lambda>(rd, wr, env, c, i, b, req, cbs, stream, s). tries_left c s)")
    (auto dest: attempt_step_again [OF sym])

declare backend_loop.simps [simp del]

text \<open>The variables of one backend at the start of its loop.\<close>

definition enter_backend :: "'w chat_state \<Rightarrow> 'w chat_state" where
  "enter_backend s = s\<lparr>ch_retry_used := 0, ch_validation_used := 0, ch_try := 0,
                       ch_body := None, ch_headers := None\<rparr>"

fun chat_backends :: "json_reader \<Rightarrow> json_writer \<Rightarrow> 'w client_env \<Rightarrow> sicha_client \<Rightarrow> nat \<Rightarrow>
    sicha_backend list \<Rightarrow> sicha_request \<Rightarrow> 'w sicha_callbacks option \<Rightarrow> bool \<Rightarrow> 'w chat_state \<Rightarrow>
    sicha_status \<times> 'w chat_state" where
  "chat_backends rd wr env c i [] req cbs stream s = (SICHA_E_EXHAUSTED, s)"
| "chat_backends rd wr env c i (b # bs) req cbs stream s =
     (case backend_loop rd wr env c i b req cbs stream (enter_backend s) of
        (Some st, s') \<Rightarrow> (st, s')
      | (None, s') \<Rightarrow> chat_backends rd wr env c (Suc i) bs req cbs stream s')"

text \<open>The four arrays of \<open>chat_common\<close> are allocated before any of them is tested.\<close>

definition alloc4 :: "mem \<Rightarrow> bool \<times> mem" where
  "alloc4 m =
     (let (a, m) = alloc m; (b, m) = alloc m; (c, m) = alloc m; (d, m) = alloc m
      in (a \<and> b \<and> c \<and> d, m))"

definition chat_start :: "sicha_client \<Rightarrow> sicha_result \<Rightarrow> 'w \<Rightarrow> mem \<Rightarrow> 'w chat_state" where
  "chat_start c r w m =
     \<lparr>ch_r = r, ch_rng = c_prng_seed c XOR ucast (c_req_counter c), ch_ordinal = 0,
      ch_delivered = False, ch_w = w, ch_mem = m, ch_retry_used = 0, ch_validation_used = 0,
      ch_try = 0, ch_body = None, ch_headers = None\<rparr>"

text \<open>
  \<open>out_set\<close> says that the caller passed a place for the result; \<open>c\<close> and \<open>req\<close> may be NULL.
  The client comes back with its request counter advanced.
\<close>

definition chat_common :: "json_reader \<Rightarrow> json_writer \<Rightarrow> 'w client_env \<Rightarrow> sicha_client option \<Rightarrow>
    sicha_request option \<Rightarrow> 'w sicha_callbacks option \<Rightarrow> bool \<Rightarrow> bool \<Rightarrow> 'w \<Rightarrow> mem \<Rightarrow>
    sicha_status \<times> sicha_result option \<times> sicha_client option \<times> 'w \<times> mem" where
  "chat_common rd wr env client request cbs out_set stream w m =
     (if \<not> out_set then (SICHA_E_INVALID_ARG, None, client, w, m)
      else case (client, request) of
        (Some c, Some req) \<Rightarrow>
          if (case cbs of None \<Rightarrow> False | Some k \<Rightarrow> \<not> cb_struct_size_ok k)
          then (SICHA_E_INVALID_ARG, None, client, w, m)
          else
            let (st, m) = sicha_request_validate rd req m in
            if st \<noteq> SICHA_OK then (st, None, client, w, m)
            else
              (case sicha_result_create (c_max_response_bytes c) m of
                 (None, m) \<Rightarrow> (SICHA_E_NOMEM, None, client, w, m)
               | (Some r, m) \<Rightarrow>
                   let (ok, m) = alloc4 m in
                   if \<not> ok then (SICHA_E_NOMEM, Some (r\<lparr>r_status := SICHA_E_NOMEM\<rparr>), client, w, m)
                   else
                     let (final, s) = chat_backends rd wr env c 0 (c_backends c) req cbs stream
                                        (chat_start c r w m)
                     in (final, Some ((ch_r s)\<lparr>r_status := final\<rparr>),
                         Some (c\<lparr>c_req_counter := c_req_counter c + 1\<rparr>), ch_w s, ch_mem s))
      | _ \<Rightarrow> (SICHA_E_INVALID_ARG, None, client, w, m))"

definition sicha_chat :: "json_reader \<Rightarrow> json_writer \<Rightarrow> 'w client_env \<Rightarrow> sicha_client option \<Rightarrow>
    sicha_request option \<Rightarrow> 'w sicha_callbacks option \<Rightarrow> bool \<Rightarrow> 'w \<Rightarrow> mem \<Rightarrow>
    sicha_status \<times> sicha_result option \<times> sicha_client option \<times> 'w \<times> mem" where
  "sicha_chat rd wr env c req cbs out_set w m = chat_common rd wr env c req cbs out_set False w m"

definition sicha_chat_stream :: "json_reader \<Rightarrow> json_writer \<Rightarrow> 'w client_env \<Rightarrow> sicha_client option \<Rightarrow>
    sicha_request option \<Rightarrow> 'w sicha_callbacks option \<Rightarrow> bool \<Rightarrow> 'w \<Rightarrow> mem \<Rightarrow>
    sicha_status \<times> sicha_result option \<times> sicha_client option \<times> 'w \<times> mem" where
  "sicha_chat_stream rd wr env c req cbs out_set w m = chat_common rd wr env c req cbs out_set True w m"

end
