(* ===== verification/Response_Parse.thy ===== *)
theory Response_Parse
  imports Response
begin

text \<open>
  The non-streaming parser of \<open>src/response.c\<close>: which bodies it understands (\<open>reply_of\<close>), and
  what becomes of the result on every branch, with any behaviour of the allocator and of
  the size caps.
\<close>

lemma dup_bytes_ok: "all_ok m \<Longrightarrow> \<exists>m'. dup_bytes s m = (Some s, m') \<and> all_ok m'"
  by (cases "alloc m") (auto simp: dup_bytes_def dest: all_ok_alloc)

lemma dup_bytes_Some: "dup_bytes s m = (Some t, m') \<Longrightarrow> t = s"
  by (auto simp: dup_bytes_def split: prod.splits if_splits)

lemma dup_bytes_keeps_ok: "dup_bytes s m = (p, m') \<Longrightarrow> all_ok m \<Longrightarrow> p = Some s \<and> all_ok m'"
  by (auto simp: dup_bytes_def dest: all_ok_alloc split: prod.splits if_splits)

section \<open>Which bodies are understood\<close>

text \<open>
  A reply, read from the document: the first choice must be an object with a message object
  that has text or a tool call.
\<close>

record reply =
  rp_root :: json
  rp_content :: "bytes option"
  rp_reasoning :: "bytes option"
  rp_finish :: "bytes option"

text \<open>The first of several sources that has a value.\<close>

definition first_some :: "'a option list \<Rightarrow> 'a option" where
  "first_some xs = (case filter (\<lambda>x. x \<noteq> None) xs of [] \<Rightarrow> None | x # _ \<Rightarrow> x)"

definition reply_in :: "json \<Rightarrow> json \<Rightarrow> json \<Rightarrow> reply" where
  "reply_in root choice0 msg =
     \<lparr>rp_root = root, rp_content = str_member msg ''content'',
      rp_reasoning = first_some
        [str_member msg ''reasoning'', str_member msg ''reasoning_content'', str_member choice0 ''reasoning''],
      rp_finish = str_member choice0 ''finish_reason''\<rparr>"

lemma find_reasoning_first:
  "find_reasoning choice0 (Some msg) = first_some
     [str_member msg ''reasoning'', str_member msg ''reasoning_content'', str_member choice0 ''reasoning'']"
  by (simp add: find_reasoning_def first_some_def split: option.split)

definition first_choice :: "json \<Rightarrow> json option" where
  "first_choice root =
     (case yyjson_obj_get root (lit ''choices'') of
        Some (JArr (JObj ms # _)) \<Rightarrow> Some (JObj ms)
      | _ \<Rightarrow> None)"

definition message_of :: "json \<Rightarrow> json option" where
  "message_of choice0 =
     (case yyjson_obj_get choice0 (lit ''message'') of
        Some (JObj ms) \<Rightarrow> Some (JObj ms)
      | _ \<Rightarrow> None)"

definition is_tool_turn :: "json \<Rightarrow> bool" where
  "is_tool_turn msg =
     (case yyjson_obj_get msg (lit ''tool_calls'') of Some (JArr (_ # _)) \<Rightarrow> True | _ \<Rightarrow> False)"

definition reply_of :: "json_reader \<Rightarrow> bytes \<Rightarrow> reply option" where
  "reply_of rd body =
     (case rd body of
        None \<Rightarrow> None
      | Some root \<Rightarrow>
          (case first_choice root of
             None \<Rightarrow> None
           | Some choice0 \<Rightarrow>
               (case message_of choice0 of
                  None \<Rightarrow> None
                | Some msg \<Rightarrow>
                    if str_member msg ''content'' = None \<and> \<not> is_tool_turn msg then None
                    else Some (reply_in root choice0 msg))))"

lemma yyjson_shape:
  "yyjson_is_obj v \<longleftrightarrow> (\<exists>ms. v = JObj ms)"
  "yyjson_is_arr v \<longleftrightarrow> (\<exists>vs. v = JArr vs)"
  by (auto elim: yyjson_is_obj.elims yyjson_is_arr.elims)

lemma obj_get_not_obj: "\<not> yyjson_is_obj v \<Longrightarrow> yyjson_obj_get v key = None"
  by (cases v) auto

lemma first_choice_eq:
  "first_choice root =
     (if \<not> yyjson_is_obj root then None
      else case yyjson_obj_get root (lit ''choices'') of
        None \<Rightarrow> None
      | Some choices \<Rightarrow>
          if \<not> yyjson_is_arr choices \<or> yyjson_arr_size choices = 0 then None
          else case yyjson_arr_get_first choices of
            None \<Rightarrow> None
          | Some choice0 \<Rightarrow> if \<not> yyjson_is_obj choice0 then None else Some choice0)"
  by (cases "yyjson_is_obj root")
    (auto simp: first_choice_def obj_get_not_obj split: option.split json.split list.split
        simp del: lit_simps)

lemma message_of_eq:
  "message_of choice0 = (case yyjson_obj_get choice0 (lit ''message'') of
      Some v \<Rightarrow> if yyjson_is_obj v then Some v else None | None \<Rightarrow> None)"
  by (auto simp: message_of_def split: option.split json.split simp del: lit_simps)

lemma is_tool_turn_eq:
  "is_tool_turn msg \<longleftrightarrow> (case yyjson_obj_get msg (lit ''tool_calls'') of
      None \<Rightarrow> False | Some tc \<Rightarrow> yyjson_is_arr tc \<and> yyjson_arr_size tc \<noteq> 0)"
  by (auto simp: is_tool_turn_def split: option.split json.split list.split simp del: lit_simps)

text \<open>The parser, with the checks of the document's shape gathered.\<close>

lemma sicha_response_parse_eq:
  assumes "body \<noteq> []"
  shows "sicha_response_parse rd r body m =
     (case yyjson_read rd body m of
        (None, m) \<Rightarrow> (SICHA_OK, SICHA_BODY_MALFORMED, r, m)
      | (Some root, m) \<Rightarrow>
          (case first_choice root of
             None \<Rightarrow> (SICHA_OK, SICHA_BODY_MALFORMED, r, m)
           | Some choice0 \<Rightarrow> parse_choice r root choice0 m))"
  using assms
  by (auto simp: sicha_response_parse_def first_choice_eq split: option.split prod.split
      simp del: lit_simps)

section \<open>The non-streaming parser, on every branch\<close>

text \<open>A result whose two buffers are well formed and have not failed.\<close>

definition clean :: "sicha_result \<Rightarrow> bool" where
  "clean r \<longleftrightarrow> buf_wf (r_text r) \<and> buf_err (r_text r) = SICHA_OK
     \<and> buf_wf (r_reasoning r) \<and> buf_err (r_reasoning r) = SICHA_OK"

definition over_cap :: "sicha_buf \<Rightarrow> bytes \<Rightarrow> bool" where
  "over_cap b s \<longleftrightarrow> buf_max_len b \<noteq> 0 \<and> buf_max_len b < length (buf_bytes b) + length s"

definition addressable :: "sicha_buf \<Rightarrow> bytes \<Rightarrow> bool" where
  "addressable b s \<longleftrightarrow> length (buf_bytes b) + length s < SIZE_MAX"

lemma append_stage_cases:
  assumes "buf_wf b" "buf_err b = SICHA_OK" "append_stage b s m = (step, b', m')"
  obtains (go) "step = Go" "buf_bytes b' = buf_bytes b @ s" "buf_wf b'" "buf_err b' = SICHA_OK"
      "buf_max_len b' = buf_max_len b"
  | (toobig) "step = Out SICHA_OK SICHA_BODY_TOOBIG" "over_cap b s"
  | (nomem) "step = Out SICHA_E_NOMEM SICHA_BODY_MALFORMED" "\<not> (all_ok m \<and> addressable b s)"
proof -
  obtain b1 m1 where a: "sicha_buf_append b s m = (b1, m1)" by fastforce
  from assms(1,2) a show ?thesis
  proof (cases rule: append_outcomes)
    case appended
    with assms(3) a show ?thesis by (intro go) (auto simp: append_stage_def sicha_buf_status_def)
  next
    case toobig
    with assms(3) a show ?thesis
      by (intro that(2)) (auto simp: append_stage_def sicha_buf_status_def over_cap_def)
  next
    case nomem
    with assms(3) a show ?thesis
      by (intro that(3)) (auto simp: append_stage_def sicha_buf_status_def addressable_def)
  qed
qed

lemma append_stage_mem: "append_stage b s m = (step, b', m') \<Longrightarrow> all_ok m \<Longrightarrow> all_ok m'"
  by (auto simp: append_stage_def Let_def split: prod.splits if_splits dest: append_mem)

lemma text_stage_cases:
  assumes "clean r" "text_stage r (Some msg) m = (step, r', m')"
  obtains (go) b where "step = Go" "str_member msg ''content'' \<noteq> None \<or> is_tool_turn msg"
      "r' = r\<lparr>r_text := b\<rparr>" "buf_bytes b = buf_bytes (r_text r) @ opt_bytes (str_member msg ''content'')"
      "clean r'" "all_ok m \<longrightarrow> all_ok m'"
  | (toobig) s where "step = Out SICHA_OK SICHA_BODY_TOOBIG" "str_member msg ''content'' = Some s"
      "over_cap (r_text r) s"
  | (malformed) "step = Out SICHA_OK SICHA_BODY_MALFORMED" "str_member msg ''content'' = None"
      "\<not> is_tool_turn msg" "r' = r" "m' = m"
  | (nomem) s where "step = Out SICHA_E_NOMEM SICHA_BODY_MALFORMED"
      "str_member msg ''content'' = Some s" "\<not> (all_ok m \<and> addressable (r_text r) s)"
proof (cases "str_member msg ''content''")
  case None
  show ?thesis
  proof (cases "is_tool_turn msg")
    case True
    with None assms show ?thesis
      by (intro go [of "r_text r"])
        (auto simp: text_stage_def is_tool_turn_eq opt_bytes_def split: option.splits
          simp del: lit_simps)
  next
    case False
    with None assms show ?thesis
      by (intro malformed) (auto simp: text_stage_def is_tool_turn_eq split: option.splits if_splits
          simp del: lit_simps)
  qed
next
  case (Some s)
  obtain st b m1 where a: "append_stage (r_text r) s m = (st, b, m1)" by (metis prod_cases3)
  from assms(2) Some a have e: "step = st" "r' = r\<lparr>r_text := b\<rparr>" "m' = m1"
    by (simp_all add: text_stage_def)
  from assms(1) have w: "buf_wf (r_text r)" "buf_err (r_text r) = SICHA_OK"
    by (simp_all add: clean_def)
  from w a show ?thesis
  proof (cases rule: append_stage_cases)
    case go
    with e Some assms(1) show ?thesis
      by (intro that(1) [of b]) (auto simp: clean_def opt_bytes_def dest: append_stage_mem [OF a])
  next
    case toobig
    with e Some show ?thesis by (intro that(2)) auto
  next
    case nomem
    with e Some show ?thesis by (intro that(4)) auto
  qed
qed

lemma reasoning_stage_cases:
  assumes "clean r" "reasoning_stage r choice0 msg m = (step, r', m')"
  obtains (go) b where "step = Go" "r' = r\<lparr>r_reasoning := b\<rparr>"
      "buf_bytes b = buf_bytes (r_reasoning r) @ opt_bytes (find_reasoning choice0 msg)"
      "clean r'" "all_ok m \<longrightarrow> all_ok m'"
  | (toobig) s where "step = Out SICHA_OK SICHA_BODY_TOOBIG" "find_reasoning choice0 msg = Some s"
      "over_cap (r_reasoning r) s"
  | (nomem) s where "step = Out SICHA_E_NOMEM SICHA_BODY_MALFORMED"
      "find_reasoning choice0 msg = Some s" "\<not> (all_ok m \<and> addressable (r_reasoning r) s)"
proof (cases "find_reasoning choice0 msg")
  case None
  with assms show ?thesis
    by (intro go [of "r_reasoning r"]) (auto simp: reasoning_stage_def opt_bytes_def)
next
  case (Some s)
  obtain st b m1 where a: "append_stage (r_reasoning r) s m = (st, b, m1)" by (metis prod_cases3)
  from assms(2) Some a have e: "step = st" "r' = r\<lparr>r_reasoning := b\<rparr>" "m' = m1"
    by (simp_all add: reasoning_stage_def)
  from assms(1) have w: "buf_wf (r_reasoning r)" "buf_err (r_reasoning r) = SICHA_OK"
    by (simp_all add: clean_def)
  from w a show ?thesis
  proof (cases rule: append_stage_cases)
    case go
    with e Some assms(1) show ?thesis
      by (intro that(1) [of b]) (auto simp: clean_def opt_bytes_def dest: append_stage_mem [OF a])
  next
    case toobig
    with e Some show ?thesis by (intro that(2)) auto
  next
    case nomem
    with e Some show ?thesis by (intro that(3)) auto
  qed
qed

text \<open>What the finish reason and the metadata of a document make of a result.\<close>

definition finish_named :: "bytes \<Rightarrow> sicha_finish_reason" where
  "finish_named s =
     (case map_of [(lit ''stop'', SICHA_FINISH_STOP), (lit ''length'', SICHA_FINISH_LENGTH),
         (lit ''tool_calls'', SICHA_FINISH_TOOL_CALLS), (lit ''content_filter'', SICHA_FINISH_CONTENT_FILTER)] s of
        Some f \<Rightarrow> f | None \<Rightarrow> SICHA_FINISH_UNKNOWN)"

lemma map_finish_named: "map_finish = finish_named"
  by (rule ext) (simp add: map_finish_def finish_named_def del: lit_simps)

definition with_finish :: "bytes option \<Rightarrow> sicha_result \<Rightarrow> sicha_result" where
  "with_finish fin r = (case fin of None \<Rightarrow> r
     | Some f \<Rightarrow> r\<lparr>r_finish_raw := Some f, r_finish := finish_named f\<rparr>)"

definition with_model :: "json \<Rightarrow> sicha_result \<Rightarrow> sicha_result" where
  "with_model root r =
     (if r_model r = None then r\<lparr>r_model := str_member root ''model''\<rparr> else r)"

lemma set_finish_cases:
  assumes "sicha_result_set_finish r f m = (st, r', m')"
  shows "(st = SICHA_OK \<and> r' = with_finish (Some f) r \<and> (all_ok m \<longrightarrow> all_ok m'))
    \<or> (st = SICHA_E_NOMEM \<and> r' = r \<and> \<not> all_ok m)"
proof -
  obtain p m1 where d: "dup_bytes f m = (p, m1)" by fastforce
  with assms dup_bytes_keeps_ok [OF d] dup_bytes_Some [of f m] show ?thesis
    by (cases p) (auto simp: sicha_result_set_finish_def with_finish_def map_finish_named)
qed

lemma finish_stage_cases:
  assumes "finish_stage r choice0 m = (step, r', m')"
  shows "(step = Go \<and> r' = with_finish (str_member choice0 ''finish_reason'') r \<and> (all_ok m \<longrightarrow> all_ok m'))
    \<or> (step = Out SICHA_E_NOMEM SICHA_BODY_MALFORMED \<and> r' = r \<and> \<not> all_ok m)"
proof (cases "str_member choice0 ''finish_reason''")
  case None
  with assms show ?thesis by (simp add: finish_stage_def with_finish_def)
next
  case (Some f)
  obtain st r1 m1 where s: "sicha_result_set_finish r f m = (st, r1, m1)" by (metis prod_cases3)
  with assms Some set_finish_cases [OF s] show ?thesis by (auto simp: finish_stage_def)
qed

lemma lift_model_cases:
  assumes "lift_model r root m = (st, r', m')"
  shows "(st = SICHA_OK \<and> r' = with_model root r \<and> (all_ok m \<longrightarrow> all_ok m'))
    \<or> (st = SICHA_E_NOMEM \<and> r' = r \<and> \<not> all_ok m)"
proof (cases "str_member root ''model''")
  case None
  with assms show ?thesis by (simp add: lift_model_def with_model_def)
next
  case (Some s)
  obtain p m1 where d: "dup_bytes s m = (p, m1)" by fastforce
  with assms Some dup_bytes_keeps_ok [OF d] dup_bytes_Some [of s m] show ?thesis
    by (cases p) (auto simp: lift_model_def with_model_def sicha_result_set_model_def)
qed

text \<open>
  A count of the usage object of a document: an integer that is not negative, and 0 for a
  number that is not an integer; anything else leaves the old count.
\<close>

definition usage_count :: "json \<Rightarrow> string \<Rightarrow> int \<Rightarrow> int" where
  "usage_count root key old =
     (case yyjson_obj_get root (lit ''usage'') of
        Some (JObj ms) \<Rightarrow>
          (case obj_lookup ms (lit key) of
             Some (JUint n) \<Rightarrow> if 0 \<le> sint n then sint n else old
           | Some (JSint n) \<Rightarrow> if 0 \<le> sint n then sint n else old
           | Some (JReal _) \<Rightarrow> 0
           | _ \<Rightarrow> old)
      | _ \<Rightarrow> old)"

lemma lift_i64_count:
  "yyjson_obj_get root (lit ''usage'') = Some (JObj ms) \<Longrightarrow>
     usage_count root key old = (let n = lift_i64 (JObj ms) key in if 0 \<le> n then n else old)"
  by (auto simp: usage_count_def lift_i64_def Let_def split: option.split json.split simp del: lit_simps)

lemma lift_usage_counts:
  "lift_usage r root = r\<lparr>r_prompt_tokens := usage_count root ''prompt_tokens'' (r_prompt_tokens r),
     r_completion_tokens := usage_count root ''completion_tokens'' (r_completion_tokens r),
     r_total_tokens := usage_count root ''total_tokens'' (r_total_tokens r)\<rparr>"
proof (cases "\<exists>ms. yyjson_obj_get root (lit ''usage'') = Some (JObj ms)")
  case True
  then obtain ms where u: "yyjson_obj_get root (lit ''usage'') = Some (JObj ms)" by blast
  show ?thesis unfolding lift_usage_def u lift_i64_count [OF u] by (simp add: Let_def)
next
  case False
  then have "usage_count root key old = old" for key old
    by (auto simp: usage_count_def split: option.split json.split simp del: lit_simps)
  with False show ?thesis
    by (auto simp: lift_usage_def yyjson_shape split: option.split simp del: lit_simps)
qed

text \<open>The result after a body that was understood.\<close>

definition holds_reply :: "sicha_result \<Rightarrow> reply \<Rightarrow> sicha_result \<Rightarrow> bool" where
  "holds_reply r rp r' \<longleftrightarrow>
     buf_bytes (r_text r') = buf_bytes (r_text r) @ opt_bytes (rp_content rp)
     \<and> buf_bytes (r_reasoning r') = buf_bytes (r_reasoning r) @ opt_bytes (rp_reasoning rp)
     \<and> clean r'
     \<and> r' = r\<lparr>r_text := r_text r', r_reasoning := r_reasoning r',
         r_finish_raw := (case rp_finish rp of None \<Rightarrow> r_finish_raw r | Some f \<Rightarrow> Some f),
         r_finish := (case rp_finish rp of None \<Rightarrow> r_finish r | Some f \<Rightarrow> finish_named f),
         r_prompt_tokens := usage_count (rp_root rp) ''prompt_tokens'' (r_prompt_tokens r),
         r_completion_tokens := usage_count (rp_root rp) ''completion_tokens'' (r_completion_tokens r),
         r_total_tokens := usage_count (rp_root rp) ''total_tokens'' (r_total_tokens r),
         r_model := (case r_model r of None \<Rightarrow> str_member (rp_root rp) ''model'' | Some s \<Rightarrow> Some s)\<rparr>"

lemma with_simps:
  "with_finish fin (r\<lparr>r_text := t, r_reasoning := u\<rparr>) = (with_finish fin r)\<lparr>r_text := t, r_reasoning := u\<rparr>"
  "lift_usage (r\<lparr>r_text := t, r_reasoning := u\<rparr>) root = (lift_usage r root)\<lparr>r_text := t, r_reasoning := u\<rparr>"
  "with_model root (r\<lparr>r_text := t, r_reasoning := u\<rparr>) = (with_model root r)\<lparr>r_text := t, r_reasoning := u\<rparr>"
  by (auto simp: with_finish_def lift_usage_def with_model_def Let_def split: option.split)

lemma with_bufs [simp]:
  "r_text (with_finish fin r) = r_text r" "r_reasoning (with_finish fin r) = r_reasoning r"
  "r_text (lift_usage r root) = r_text r" "r_reasoning (lift_usage r root) = r_reasoning r"
  "r_text (with_model root r) = r_text r" "r_reasoning (with_model root r) = r_reasoning r"
  by (auto simp: with_finish_def lift_usage_def with_model_def Let_def split: option.split)

lemma with_clean:
  "clean (with_finish fin r) = clean r" "clean (lift_usage r root) = clean r"
  "clean (with_model root r) = clean r"
  by (auto simp: clean_def with_finish_def lift_usage_def with_model_def Let_def split: option.split)

text \<open>The fate of a reply: held, over a cap, or out of memory.\<close>

definition parse_fate :: "sicha_result \<Rightarrow> reply \<Rightarrow> mem \<Rightarrow> sicha_status \<Rightarrow> body_state \<Rightarrow> sicha_result \<Rightarrow> bool" where
  "parse_fate r rp m st bs r' \<longleftrightarrow>
     (st = SICHA_OK \<and> bs = SICHA_BODY_OK \<and> holds_reply r rp r')
     \<or> (st = SICHA_OK \<and> bs = SICHA_BODY_TOOBIG
         \<and> (over_cap (r_text r) (opt_bytes (rp_content rp))
             \<or> over_cap (r_reasoning r) (opt_bytes (rp_reasoning rp))))
     \<or> (st = SICHA_E_NOMEM \<and> bs = SICHA_BODY_MALFORMED
         \<and> \<not> (all_ok m \<and> addressable (r_text r) (opt_bytes (rp_content rp))
              \<and> addressable (r_reasoning r) (opt_bytes (rp_reasoning rp))))"

lemma parse_choice_fate:
  assumes "clean r" "message_of choice0 = Some msg"
    "str_member msg ''content'' \<noteq> None \<or> is_tool_turn msg"
    "parse_choice r root choice0 m = (st, bs, r', m')"
  shows "parse_fate r (reply_in root choice0 msg) m st bs r'"
proof -
  let ?rp = "reply_in root choice0 msg"
  obtain s1 r1 m1 where t: "text_stage r (Some msg) m = (s1, r1, m1)" by (metis prod_cases3)
  note P = assms(4) [unfolded parse_choice_def message_of_eq [symmetric] assms(2) Let_def t, simplified]
  from assms(1) t show ?thesis
  proof (cases rule: text_stage_cases)
    case malformed
    with assms(3) show ?thesis by simp
  next
    case (toobig s)
    with P show ?thesis by (simp add: parse_fate_def reply_in_def find_reasoning_first opt_bytes_def)
  next
    case (nomem s)
    with P show ?thesis by (auto simp add: parse_fate_def reply_in_def find_reasoning_first opt_bytes_def)
  next
    case (go b)
    obtain s2 r2 m2 where u: "reasoning_stage r1 choice0 (Some msg) m1 = (s2, r2, m2)"
      by (metis prod_cases3)
    note P = P [unfolded go(1), simplified, unfolded u, simplified]
    from go(5) u show ?thesis
    proof (cases rule: reasoning_stage_cases)
      case (toobig s)
      with P go show ?thesis by (simp add: parse_fate_def reply_in_def find_reasoning_first opt_bytes_def)
    next
      case (nomem s)
      with P go show ?thesis by (auto simp add: parse_fate_def reply_in_def find_reasoning_first opt_bytes_def)
    next
      case go2: (go b2)
      obtain s3 r3 m3 where f: "finish_stage r2 choice0 m2 = (s3, r3, m3)" by (metis prod_cases3)
      obtain s4 r4 m4 where l: "lift_model (lift_usage r3 root) root m3 = (s4, r4, m4)"
        by (metis prod_cases3)
      note P = P [unfolded go2(1), simplified, unfolded f, simplified]
      consider "s3 = Go" "r3 = with_finish (rp_finish ?rp) r2" "all_ok m2 \<longrightarrow> all_ok m3"
        | "s3 = Out SICHA_E_NOMEM SICHA_BODY_MALFORMED" "\<not> all_ok m2"
        using finish_stage_cases [OF f] by (auto simp: reply_in_def)
      then show ?thesis
      proof cases
        case 2
        with P go(6) go2(5) show ?thesis by (auto simp: parse_fate_def)
      next
        case 1
        note P = P [unfolded 1(1), simplified, unfolded l, simplified]
        consider "s4 = SICHA_OK" "r4 = with_model root (lift_usage r3 root)"
          | "s4 = SICHA_E_NOMEM" "\<not> all_ok m3"
          using lift_model_cases [OF l] by auto
        then show ?thesis
        proof cases
          case 2
          with P 1(3) go(6) go2(5) show ?thesis by (auto simp: parse_fate_def)
        next
          case fin: 1
          have r2: "r2 = r\<lparr>r_text := b, r_reasoning := b2\<rparr>" using go(3) go2(2) by simp
          have r': "r' = with_model root (lift_usage (with_finish (rp_finish ?rp) r2) root)"
            using P fin 1(2) by simp
          have "clean r'" using go2(4) by (simp add: r' with_clean)
          moreover have "r_text r' = b" "r_reasoning r' = b2" by (simp_all add: r' r2)
          moreover have "r' = (with_model root (lift_usage (with_finish (rp_finish ?rp) r) root))
              \<lparr>r_text := b, r_reasoning := b2\<rparr>" by (simp add: r' r2 with_simps)
          ultimately have "holds_reply r ?rp r'"
            using go(3,4) go2(3)
            by (simp add: holds_reply_def reply_in_def find_reasoning_first with_finish_def lift_usage_counts
                with_model_def split: option.split)
          with P fin show ?thesis by (simp add: parse_fate_def)
        qed
      qed
    qed
  qed
qed

lemma parse_choice_malformed:
  assumes "clean r" "message_of choice0 = None \<or>
      (\<exists>msg. message_of choice0 = Some msg \<and> str_member msg ''content'' = None \<and> \<not> is_tool_turn msg)"
  shows "parse_choice r root choice0 m = (SICHA_OK, SICHA_BODY_MALFORMED, r, m)"
  using assms(2)
proof
  assume "message_of choice0 = None"
  then show ?thesis
    unfolding parse_choice_def message_of_eq [symmetric] by (simp add: text_stage_def Let_def)
next
  assume "\<exists>msg. message_of choice0 = Some msg \<and> str_member msg ''content'' = None \<and> \<not> is_tool_turn msg"
  then obtain msg where g: "message_of choice0 = Some msg" "str_member msg ''content'' = None"
    "\<not> is_tool_turn msg" by blast
  obtain s1 r1 m1 where t: "text_stage r (Some msg) m = (s1, r1, m1)" by (metis prod_cases3)
  from assms(1) t g show ?thesis
    unfolding parse_choice_def message_of_eq [symmetric]
    by (cases rule: text_stage_cases) (auto simp: t Let_def)
qed

lemma sicha_response_parse_cases:
  assumes "clean r" "sicha_response_parse rd r body m = (st, bs, r', m')"
  obtains
    (empty) "body = []" "st = SICHA_OK" "bs = SICHA_BODY_EMPTY" "r' = r"
  | (malformed) "body \<noteq> []" "st = SICHA_OK" "bs = SICHA_BODY_MALFORMED" "r' = r"
      "reply_of rd body = None \<or> \<not> all_ok m"
  | (reply) rp m1 where "body \<noteq> []" "reply_of rd body = Some rp" "parse_fate r rp m st bs r'"
proof (cases "body = []")
  case True
  with assms(2) show ?thesis by (intro empty) (auto simp: sicha_response_parse_def)
next
  case False
  obtain v m1 where y: "yyjson_read rd body m = (v, m1)" by fastforce
  note P = assms(2) [unfolded sicha_response_parse_eq [OF False] y, simplified]
  show ?thesis
  proof (cases v)
    case None
    have "\<not> all_ok m" if "rd body \<noteq> None" using yyjson_read_ok [of m rd body] y None that by auto
    moreover have "reply_of rd body = None" if "rd body = None" using that by (simp add: reply_of_def)
    ultimately show ?thesis using P None False by (cases "rd body") (auto intro: malformed)
  next
    case (Some root)
    with y have rd: "rd body = Some root" by (simp add: yyjson_read_Some)
    have m: "all_ok m \<Longrightarrow> all_ok m1" using yyjson_read_ok [of m rd body] y by auto
    show ?thesis
    proof (cases "reply_of rd body")
      case None
      with P Some rd False parse_choice_malformed [OF assms(1)] show ?thesis
        by (intro malformed) (auto simp: reply_of_def split: option.splits if_splits)
    next
      case R: (Some rp)
      then obtain choice0 msg where c: "first_choice root = Some choice0"
        "message_of choice0 = Some msg" "str_member msg ''content'' \<noteq> None \<or> is_tool_turn msg"
        "rp = reply_in root choice0 msg"
        using rd by (auto simp: reply_of_def split: option.splits if_splits)
      from P Some c(1) have "parse_choice r root choice0 m1 = (st, bs, r', m')" by simp
      from parse_choice_fate [OF assms(1) c(2,3) this] m c(4) have "parse_fate r rp m st bs r'"
        by (auto simp: parse_fate_def)
      with False R show ?thesis by (rule reply)
    qed
  qed
qed

end
