(* ===== verification/Response_Stream.thy ===== *)
theory Response_Stream
  imports Response_Parse
begin

text \<open>
  The streaming half of \<open>src/response.c\<close>: what the callbacks of the caller see is what is
  accumulated, the meaning of the return codes, and the text of a whole stream in terms of
  the reference semantics of \<open>Sse\<close>.
\<close>

section \<open>The stream, one callback at a time\<close>

text \<open>The errors a buffer can have.\<close>

definition buf_live :: "sicha_buf \<Rightarrow> bool" where
  "buf_live b \<longleftrightarrow> buf_wf b \<and> buf_err b \<in> {SICHA_OK, SICHA_E_NOMEM, SICHA_INT_E_TOOBIG}"

lemma append_live:
  assumes "buf_live b" "sicha_buf_append b s m = (b', m')"
  shows "buf_live b' \<and> buf_max_len b' = buf_max_len b \<and>
    (buf_err b' = SICHA_OK \<and> buf_bytes b' = buf_bytes b @ s
     \<or> buf_err b' \<noteq> SICHA_OK \<and> buf_bytes b' = buf_bytes b)"
proof (cases "buf_err b = SICHA_OK")
  case False
  with assms show ?thesis by (auto simp: append_sticky)
next
  case True
  from assms(1) have "buf_wf b" by (simp add: buf_live_def)
  from this True assms(2) show ?thesis by (cases rule: append_outcomes) (auto simp: buf_live_def)
qed

lemma reset_live [simp]: "buf_live b \<Longrightarrow> buf_live (sicha_buf_reset b)"
  by (simp add: buf_live_def sicha_buf_reset_wf)

lemma init_live [simp]: "buf_live (sicha_buf_init k)"
  by (simp add: buf_live_def)

lemma deliver_cases:
  assumes "buf_live accum" "deliver ctx accum cb bs w m = (rc, ctx', accum', w', m')"
  obtains
    (failed) e where "rc = -1" "sc_accumulate ctx" "buf_bytes accum' = buf_bytes accum" "buf_live accum'"
      "buf_max_len accum' = buf_max_len accum" "w' = w" "ctx' = ctx\<lparr>sc_err := e\<rparr>" "e \<noteq> SICHA_OK"
      "e = buf_err accum'"
  | (delivered) "buf_bytes accum' = buf_bytes accum @ (if sc_accumulate ctx then bs else [])"
      "buf_live accum'" "buf_max_len accum' = buf_max_len accum"
      "ctx' = ctx\<lparr>sc_delivered := sc_delivered ctx \<or> (cb \<noteq> None \<and> bs \<noteq> [])\<rparr>"
      "(rc, w') = (if bs = [] then (0, w) else call_cb cb bs w)"
      "sc_accumulate ctx \<Longrightarrow> bs \<noteq> [] \<Longrightarrow> buf_err accum' = SICHA_OK"
proof (cases "bs = []")
  case True
  with assms show ?thesis by (intro delivered) (auto simp: deliver_def)
next
  case bs: False
  show ?thesis
  proof (cases "sc_accumulate ctx")
    case False
    with bs assms show ?thesis
      by (intro delivered) (auto simp: deliver_def Let_def split: prod.splits)
  next
    case acc: True
    obtain b m1 where a: "sicha_buf_append accum bs m = (b, m1)" by fastforce
    note L = append_live [OF assms(1) a]
    show ?thesis
    proof (cases "buf_err b = SICHA_OK")
      case True
      with bs acc a L assms(2) show ?thesis
        by (intro delivered) (auto simp: deliver_def Let_def sicha_buf_status_def split: prod.splits)
    next
      case False
      with bs acc a L assms(2) show ?thesis
        by (intro failed [of "buf_err b"])
          (auto simp: deliver_def Let_def sicha_buf_status_def buf_live_def split: prod.splits if_splits)
    qed
  qed
qed

lemma call_cb_code: "call_cb cb bs w = (rc, w') \<Longrightarrow> rc = 0 \<or> rc = SICHA_STREAM_CANCEL"
  by (auto simp: call_cb_def split: option.splits prod.splits if_splits)

lemma raw_chunk_cases:
  assumes "buf_live (sc_last_raw ctx)" "raw_chunk cbs ctx data w m = (rc, ctx', w', m')"
  obtains
    (failed) lr where "rc = -1" "w' = w" "ctx' = ctx\<lparr>sc_last_raw := lr, sc_err := SICHA_E_NOMEM\<rparr>"
      "buf_live lr" "buf_max_len lr = buf_max_len (sc_last_raw ctx)"
      "buf_err lr \<noteq> SICHA_OK"
  | (raw) lr where "(rc, w') = call_cb (cb_of cbs cb_on_raw_chunk) data w"
      "ctx' = ctx\<lparr>sc_last_raw := lr\<rparr>" "buf_live lr"
      "buf_max_len lr = buf_max_len (sc_last_raw ctx)"
proof -
  let ?d = "take SICHA_EXCERPT_MAX data"
  obtain lr m1 where a: "sicha_buf_append (sicha_buf_reset (sc_last_raw ctx)) ?d m = (lr, m1)"
    by fastforce
  have L: "buf_live lr" "buf_max_len lr = buf_max_len (sc_last_raw ctx)"
    using append_live [OF _ a] assms(1) by auto
  show ?thesis
  proof (cases "buf_err lr = SICHA_E_NOMEM")
    case True
    with a L assms(2) show ?thesis
      by (intro failed [of lr]) (auto simp: raw_chunk_def sicha_buf_status_def)
  next
    case False
    with a L assms(2) show ?thesis
      by (intro raw [of lr]) (auto simp: raw_chunk_def sicha_buf_status_def split: prod.splits)
  qed
qed

section \<open>What the caller sees is what is accumulated\<close>

text \<open>
  Callbacks that leave a trace: \<open>seen_t\<close> and \<open>seen_r\<close> read off the world which bytes the
  text and the reasoning callback have been given. The other callbacks leave the traces
  alone. Nothing is said of the codes they return.
\<close>

definition traces :: "('w \<Rightarrow> bytes) \<Rightarrow> ('w \<Rightarrow> bytes) \<Rightarrow> 'w sicha_callbacks option \<Rightarrow> bool" where
  "traces seen_t seen_r cbs \<longleftrightarrow>
     (\<forall>f bs w. cb_of cbs cb_on_delta = Some f \<longrightarrow>
        seen_t (snd (f bs w)) = seen_t w @ bs \<and> seen_r (snd (f bs w)) = seen_r w)
     \<and> (\<forall>f bs w. cb_of cbs cb_on_reasoning = Some f \<longrightarrow>
        seen_r (snd (f bs w)) = seen_r w @ bs \<and> seen_t (snd (f bs w)) = seen_t w)
     \<and> (\<forall>f bs w. cb_of cbs cb_on_raw_chunk = Some f \<longrightarrow>
        seen_t (snd (f bs w)) = seen_t w \<and> seen_r (snd (f bs w)) = seen_r w)"

text \<open>
  The invariant: from worlds with traces \<open>t0\<close> and \<open>r0\<close>, nothing more has been seen unless
  \<open>delivered\<close> is set; and if the stream accumulates and there is a callback, the trace has
  grown by what is in the buffer.
\<close>

definition stream_inv :: "('w \<Rightarrow> bytes) \<Rightarrow> ('w \<Rightarrow> bytes) \<Rightarrow> 'w sicha_callbacks option \<Rightarrow>
    bytes \<Rightarrow> bytes \<Rightarrow> sicha_stream_ctx \<times> 'w \<Rightarrow> bool" where
  "stream_inv seen_t seen_r cbs t0 r0 s \<longleftrightarrow>
     (case s of (ctx, w) \<Rightarrow>
        buf_live (r_text (sc_r ctx)) \<and> buf_live (r_reasoning (sc_r ctx)) \<and> buf_live (sc_last_raw ctx)
        \<and> (\<not> sc_delivered ctx \<longrightarrow> seen_t w = t0 \<and> seen_r w = r0)
        \<and> (sc_accumulate ctx \<and> cb_of cbs cb_on_delta \<noteq> None \<longrightarrow>
             seen_t w = t0 @ buf_bytes (r_text (sc_r ctx)))
        \<and> (sc_accumulate ctx \<and> cb_of cbs cb_on_reasoning \<noteq> None \<longrightarrow>
             seen_r w = r0 @ buf_bytes (r_reasoning (sc_r ctx)))
        \<and> (cb_of cbs cb_on_delta = None \<longrightarrow> seen_t w = t0)
        \<and> (cb_of cbs cb_on_reasoning = None \<longrightarrow> seen_r w = r0))"

lemma call_cb_None: "call_cb None bs w = (0, w)"
  by (simp add: call_cb_def)

lemma call_cb_world: "(rc, w') = call_cb (Some f) bs w \<Longrightarrow> w' = snd (f bs w)"
  by (auto simp: call_cb_def split: prod.splits)

lemma call_cb_traces:
  assumes "traces st sr cbs"
  shows "(rc, w') = call_cb (cb_of cbs cb_on_delta) bs w \<Longrightarrow>
      seen = (if cb_of cbs cb_on_delta = None then [] else bs) \<Longrightarrow>
      st w' = st w @ seen \<and> sr w' = sr w"
    and "(rc, w') = call_cb (cb_of cbs cb_on_reasoning) bs w \<Longrightarrow>
      seen = (if cb_of cbs cb_on_reasoning = None then [] else bs) \<Longrightarrow>
      sr w' = sr w @ seen \<and> st w' = st w"
    and "(rc, w') = call_cb (cb_of cbs cb_on_raw_chunk) bs w \<Longrightarrow> st w' = st w \<and> sr w' = sr w"
  using assms
  by (cases "cb_of cbs cb_on_delta"; auto simp: traces_def call_cb_None dest!: call_cb_world)
    (use assms in \<open>cases "cb_of cbs cb_on_reasoning";
       auto simp: traces_def call_cb_None dest!: call_cb_world\<close>,
     use assms in \<open>cases "cb_of cbs cb_on_raw_chunk";
       auto simp: traces_def call_cb_None dest!: call_cb_world\<close>)

lemma raw_chunk_inv:
  assumes "traces st sr cbs" "stream_inv st sr cbs t0 r0 (ctx, w)"
    "raw_chunk cbs ctx data w m = (rc, ctx', w', m')"
  shows "stream_inv st sr cbs t0 r0 (ctx', w')"
proof -
  from assms(2) have "buf_live (sc_last_raw ctx)" by (simp add: stream_inv_def)
  from this assms(3) show ?thesis
  proof (cases rule: raw_chunk_cases)
    case (failed lr)
    with assms(2) show ?thesis by (simp add: stream_inv_def)
  next
    case (raw lr)
    with assms(2) call_cb_traces(3) [OF assms(1) raw(1)] show ?thesis by (simp add: stream_inv_def)
  qed
qed

lemma deliver_text_inv:
  assumes "traces st sr cbs" "stream_inv st sr cbs t0 r0 (ctx, w)"
    "deliver_text cbs ctx content w m = (rc, ctx', w', m')"
  shows "stream_inv st sr cbs t0 r0 (ctx', w')"
proof (cases content)
  case None
  with assms show ?thesis by (simp add: deliver_text_def)
next
  case (Some bs)
  let ?cb = "cb_of cbs cb_on_delta"
  obtain c1 b1 where d: "deliver ctx (r_text (sc_r ctx)) ?cb bs w m = (rc, c1, b1, w', m')"
    and c': "ctx' = c1\<lparr>sc_r := (sc_r c1)\<lparr>r_text := b1\<rparr>\<rparr>"
    using assms(3) Some by (auto simp: deliver_text_def split: prod.splits)
  from assms(2) have "buf_live (r_text (sc_r ctx))" by (simp add: stream_inv_def)
  from this d show ?thesis
  proof (cases rule: deliver_cases)
    case (failed e)
    with assms(2) c' show ?thesis by (simp add: stream_inv_def)
  next
    case delivered
    have "st w' = st w @ (if ?cb = None then [] else bs) \<and> sr w' = sr w"
      using delivered(5) call_cb_traces(1) [OF assms(1)] by (cases "bs = []") auto
    with delivered assms(2) c' show ?thesis by (auto simp: stream_inv_def)
  qed
qed

lemma deliver_reasoning_inv:
  assumes "traces st sr cbs" "stream_inv st sr cbs t0 r0 (ctx, w)"
    "deliver_reasoning cbs ctx reas w m = (rc, ctx', w', m')"
  shows "stream_inv st sr cbs t0 r0 (ctx', w')"
proof (cases reas)
  case None
  with assms show ?thesis by (simp add: deliver_reasoning_def)
next
  case (Some bs)
  let ?cb = "cb_of cbs cb_on_reasoning"
  obtain c1 b1 where d: "deliver ctx (r_reasoning (sc_r ctx)) ?cb bs w m = (rc, c1, b1, w', m')"
    and c': "ctx' = c1\<lparr>sc_r := (sc_r c1)\<lparr>r_reasoning := b1\<rparr>\<rparr>"
    using assms(3) Some by (auto simp: deliver_reasoning_def split: prod.splits)
  from assms(2) have "buf_live (r_reasoning (sc_r ctx))" by (simp add: stream_inv_def)
  from this d show ?thesis
  proof (cases rule: deliver_cases)
    case (failed e)
    with assms(2) c' show ?thesis by (simp add: stream_inv_def)
  next
    case delivered
    have "sr w' = sr w @ (if ?cb = None then [] else bs) \<and> st w' = st w"
      using delivered(5) call_cb_traces(2) [OF assms(1)] by (cases "bs = []") auto
    with delivered assms(2) c' show ?thesis by (auto simp: stream_inv_def)
  qed
qed

text \<open>The stages of one chunk, cut at the points where the code leaves for \<open>out\<close>.\<close>

lemma delta_stage_inv:
  assumes "traces st sr cbs" "stream_inv st sr cbs t0 r0 (ctx, w)"
    "delta_stage cbs ctx data delta w m = (rc, ctx', w', m')"
  shows "stream_inv st sr cbs t0 r0 (ctx', w')"
proof -
  let ?c = "str_member delta ''content''"
  let ?s = "case str_member delta ''reasoning'' of
    Some s \<Rightarrow> Some s | None \<Rightarrow> str_member delta ''reasoning_content''"
  obtain rc1 c1 w1 m1 where t: "deliver_text cbs ctx ?c w m = (rc1, c1, w1, m1)" by (metis prod_cases4)
  obtain rc2 c2 w2 m2 where u: "deliver_reasoning cbs c1 ?s w1 m1 = (rc2, c2, w2, m2)"
    by (metis prod_cases4)
  note I1 = deliver_text_inv [OF assms(1,2) t]
  note I2 = deliver_reasoning_inv [OF assms(1) I1 u]
  from assms(3) show ?thesis
    unfolding delta_stage_def Let_def t prod.case u
    using I1 I2 raw_chunk_inv [OF assms(1) I2]
    by (auto split: if_splits)
qed

lemma stream_inv_result:
  "r_text r = r_text (sc_r ctx) \<Longrightarrow> r_reasoning r = r_reasoning (sc_r ctx) \<Longrightarrow>
     stream_inv st sr cbs t0 r0 (ctx\<lparr>sc_r := r\<rparr>, w) = stream_inv st sr cbs t0 r0 (ctx, w)"
  by (simp add: stream_inv_def)

lemma stream_inv_flags [simp]:
  "stream_inv st sr cbs t0 r0 (ctx\<lparr>sc_done := d\<rparr>, w) = stream_inv st sr cbs t0 r0 (ctx, w)"
  "stream_inv st sr cbs t0 r0 (ctx\<lparr>sc_saw_event := d\<rparr>, w) = stream_inv st sr cbs t0 r0 (ctx, w)"
  "stream_inv st sr cbs t0 r0 (ctx\<lparr>sc_err := e\<rparr>, w) = stream_inv st sr cbs t0 r0 (ctx, w)"
  by (simp_all add: stream_inv_def)

lemma stream_finish_stage_cases:
  assumes "stream_finish_stage ctx choice0 m = (rc, ctx', m')"
  shows "(rc = 0 \<and> ctx' = ctx\<lparr>sc_r := with_finish (str_member choice0 ''finish_reason'') (sc_r ctx)\<rparr>
           \<and> (all_ok m \<longrightarrow> all_ok m'))
    \<or> (rc = -1 \<and> ctx' = ctx\<lparr>sc_err := SICHA_E_NOMEM\<rparr> \<and> \<not> all_ok m)"
proof (cases "str_member choice0 ''finish_reason''")
  case None
  with assms show ?thesis by (simp add: stream_finish_stage_def with_finish_def)
next
  case (Some f)
  obtain s r1 m1 where s: "sicha_result_set_finish (sc_r ctx) f m = (s, r1, m1)" by (metis prod_cases3)
  with assms Some set_finish_cases [OF s] show ?thesis by (auto simp: stream_finish_stage_def)
qed

lemma meta_stage_cases:
  assumes "meta_stage ctx root m = (rc, ctx', m')"
  shows "(rc = 0 \<and> ctx' = ctx\<lparr>sc_r := with_model root (lift_usage (sc_r ctx) root)\<rparr>
           \<and> (all_ok m \<longrightarrow> all_ok m'))
    \<or> (rc = -1 \<and> ctx' = ctx\<lparr>sc_r := lift_usage (sc_r ctx) root, sc_err := SICHA_E_NOMEM\<rparr> \<and> \<not> all_ok m)"
proof -
  obtain s r1 m1 where s: "lift_model (lift_usage (sc_r ctx) root) root m = (s, r1, m1)"
    by (metis prod_cases3)
  with assms lift_model_cases [OF s] show ?thesis by (auto simp: meta_stage_def)
qed

lemma stream_finish_stage_inv:
  assumes "stream_inv st sr cbs t0 r0 (ctx, w)" "stream_finish_stage ctx choice0 m = (rc, ctx', m')"
  shows "stream_inv st sr cbs t0 r0 (ctx', w)"
  using stream_finish_stage_cases [OF assms(2)] assms(1) by (auto simp: stream_inv_result)

lemma meta_stage_inv:
  assumes "stream_inv st sr cbs t0 r0 (ctx, w)" "meta_stage ctx root m = (rc, ctx', m')"
  shows "stream_inv st sr cbs t0 r0 (ctx', w)"
proof -
  have "stream_inv st sr cbs t0 r0 (ctx\<lparr>sc_r := lift_usage (sc_r ctx) root\<rparr>, w)"
    "stream_inv st sr cbs t0 r0 (ctx\<lparr>sc_r := with_model root (lift_usage (sc_r ctx) root)\<rparr>, w)"
    using assms(1) by (simp_all add: stream_inv_result)
  with meta_stage_cases [OF assms(2)] show ?thesis by auto
qed

text \<open>
  The choice a chunk carries, and its delta. (The first test of the code, for the array and
  its first element, is \<open>first_elem\<close>.)
\<close>

definition first_elem :: "json \<Rightarrow> json option" where
  "first_elem root =
     (case yyjson_obj_get root (lit ''choices'') of
        None \<Rightarrow> None
      | Some choices \<Rightarrow>
          if yyjson_is_arr choices \<and> 0 < yyjson_arr_size choices
          then yyjson_arr_get_first choices else None)"

definition delta_of :: "json \<Rightarrow> json option" where
  "delta_of choice0 = (case yyjson_obj_get choice0 (lit ''delta'') of
     Some v \<Rightarrow> if yyjson_is_obj v then Some v else None | None \<Rightarrow> None)"

lemma choices_stage_eq:
  "choices_stage cbs ctx data root w m =
     (case first_elem root of
        None \<Rightarrow> (True, 0, ctx, w, m)
      | Some choice0 \<Rightarrow>
          if \<not> yyjson_is_obj choice0
          then let (rc, ctx, w, m) = raw_chunk cbs ctx data w m in (False, rc, ctx, w, m)
          else
            case (case delta_of choice0 of None \<Rightarrow> (0, ctx, w, m)
                  | Some delta \<Rightarrow> delta_stage cbs ctx data delta w m) of
              (rc, ctx, w, m) \<Rightarrow>
            if rc \<noteq> 0 then (False, rc, ctx, w, m)
            else
              case stream_finish_stage ctx choice0 m of (rc, ctx, m) \<Rightarrow>
              (rc = 0, rc, ctx, w, m))"
proof (cases "first_elem root")
  case None
  then show ?thesis unfolding choices_stage_def first_elem_def [symmetric] by simp
next
  case (Some choice0)
  show ?thesis
    unfolding choices_stage_def first_elem_def [symmetric] Some delta_of_def
    by (cases "yyjson_obj_get choice0 (lit ''delta'')") (simp_all del: lit_simps)
qed

lemma choices_stage_inv:
  assumes "traces st sr cbs" "stream_inv st sr cbs t0 r0 (ctx, w)"
    "choices_stage cbs ctx data root w m = (go, rc, ctx', w', m')"
  shows "stream_inv st sr cbs t0 r0 (ctx', w')"
proof (cases "first_elem root")
  case None
  with assms show ?thesis by (simp add: choices_stage_eq)
next
  case (Some choice0)
  show ?thesis
  proof (cases "yyjson_is_obj choice0")
    case False
    obtain rc1 c1 w1 m1 where "raw_chunk cbs ctx data w m = (rc1, c1, w1, m1)" by (metis prod_cases4)
    with raw_chunk_inv [OF assms(1,2)] False Some assms(3) show ?thesis
      by (auto simp: choices_stage_eq)
  next
    case True
    obtain rc1 c1 w1 m1 where d: "(case delta_of choice0 of None \<Rightarrow> (0, ctx, w, m)
        | Some delta \<Rightarrow> delta_stage cbs ctx data delta w m) = (rc1, c1, w1, m1)"
      by (metis prod_cases4)
    have I1: "stream_inv st sr cbs t0 r0 (c1, w1)"
      using d assms(2) delta_stage_inv [OF assms(1,2)] by (auto split: option.splits)
    obtain rc2 c2 m2 where f: "stream_finish_stage c1 choice0 m1 = (rc2, c2, m2)"
      by (metis prod_cases3)
    note I2 = stream_finish_stage_inv [OF I1 f]
    show ?thesis
      using assms(3) I1 I2 True by (auto simp: choices_stage_eq Some d f split: if_splits)
  qed
qed

lemma on_event_inv:
  assumes "traces st sr cbs" "stream_inv st sr cbs t0 r0 s"
    "sicha_stream_on_event rd cbs data s m = (rc, s', m')"
  shows "stream_inv st sr cbs t0 r0 s'"
proof -
  obtain ctx w where s: "s = (ctx, w)" by fastforce
  note I = assms(2) [unfolded s]
  show ?thesis
  proof (cases "data = lit ''[DONE]''")
    case True
    with assms(3) I show ?thesis by (auto simp: sicha_stream_on_event_def s simp del: lit_simps)
  next
    case False
    obtain v m1 where y: "yyjson_read rd data m = (v, m1)" by fastforce
    obtain rc1 c1 w1 m2 where r: "raw_chunk cbs ctx data w m1 = (rc1, c1, w1, m2)"
      by (metis prod_cases4)
    note R = raw_chunk_inv [OF assms(1) I r]
    show ?thesis
    proof (cases "\<exists>root. v = Some root \<and> yyjson_is_obj root \<and> yyjson_obj_get root (lit ''error'') = None")
      case raw: False
      with assms(3) False y r R show ?thesis
        by (auto simp: sicha_stream_on_event_def s simp del: lit_simps split: option.splits if_splits)
    next
      case True
      then obtain root where v: "v = Some root" "yyjson_is_obj root"
        "yyjson_obj_get root (lit ''error'') = None" by blast
      obtain go rc2 c2 w2 m3 where c:
        "choices_stage cbs (ctx\<lparr>sc_saw_event := True\<rparr>) data root w m1 = (go, rc2, c2, w2, m3)"
        by (metis prod_cases5)
      obtain rc3 c3 m4 where e: "meta_stage c2 root m3 = (rc3, c3, m4)" by (metis prod_cases3)
      have C: "stream_inv st sr cbs t0 r0 (c2, w2)"
        using choices_stage_inv [OF assms(1) _ c] I by simp
      note M = meta_stage_inv [OF C e]
      show ?thesis
        using assms(3) False v C M
        by (auto simp: sicha_stream_on_event_def s y c e simp del: lit_simps split: if_splits)
    qed
  qed
qed

lemma on_event_keeps:
  assumes "traces st sr cbs"
  shows "keeps k (Some (sicha_stream_on_event rd cbs)) (stream_inv st sr cbs t0 r0)"
proof -
  have "stream_inv st sr cbs t0 r0 (fst (snd (sicha_stream_on_event rd cbs d s m)))"
    if "stream_inv st sr cbs t0 r0 s" for d s m
    using on_event_inv [OF assms that]
    by (cases "sicha_stream_on_event rd cbs d s m") simp
  then show ?thesis by (simp add: keeps_def)
qed

theorem stream_feed_inv:
  assumes "traces st sr cbs" "stream_inv st sr cbs t0 r0 s" "sse_wf k p"
    "sicha_sse_feed (Some (sicha_stream_on_event rd cbs)) p bs s m = (rc, p', s', m')"
  shows "sse_wf k p' \<and> stream_inv st sr cbs t0 r0 s'"
  by (rule sicha_sse_feed_keeps [OF assms(3) on_event_keeps [OF assms(1)] assms(2,4)])

theorem stream_finish_inv:
  assumes "traces st sr cbs" "stream_inv st sr cbs t0 r0 s" "sse_wf k p"
    "sicha_sse_finish (Some (sicha_stream_on_event rd cbs)) p s m = (rc, p', s', m')"
  shows "sse_wf k p' \<and> stream_inv st sr cbs t0 r0 s'"
  by (rule sicha_sse_finish_keeps [OF assms(3) on_event_keeps [OF assms(1)] assms(2,4)])

section \<open>What a chunk adds\<close>

text \<open>The text, the reasoning and the finish reason of a chunk.\<close>

definition usable_root :: "json_reader \<Rightarrow> bytes \<Rightarrow> json option" where
  "usable_root rd data =
     (case rd data of
        None \<Rightarrow> None
      | Some root \<Rightarrow>
          if yyjson_is_obj root \<and> yyjson_obj_get root (lit ''error'') = None then Some root else None)"

definition chunk_choice :: "json_reader \<Rightarrow> bytes \<Rightarrow> json option" where
  "chunk_choice rd data =
     (if data = lit ''[DONE]'' then None
      else case usable_root rd data of
        None \<Rightarrow> None
      | Some root \<Rightarrow>
          (case first_elem root of
             None \<Rightarrow> None
           | Some choice0 \<Rightarrow> if yyjson_is_obj choice0 then Some choice0 else None))"

definition chunk_delta :: "json_reader \<Rightarrow> bytes \<Rightarrow> json option" where
  "chunk_delta rd data = (case chunk_choice rd data of None \<Rightarrow> None | Some c \<Rightarrow> delta_of c)"

definition delta_text :: "json \<Rightarrow> bytes option" where
  "delta_text delta = str_member delta ''content''"

definition delta_reasoning :: "json \<Rightarrow> bytes option" where
  "delta_reasoning delta = (case str_member delta ''reasoning'' of
     Some s \<Rightarrow> Some s | None \<Rightarrow> str_member delta ''reasoning_content'')"

definition chunk_text :: "json_reader \<Rightarrow> bytes \<Rightarrow> bytes" where
  "chunk_text rd data = (case chunk_delta rd data of None \<Rightarrow> [] | Some d \<Rightarrow> opt_bytes (delta_text d))"

definition chunk_reasoning :: "json_reader \<Rightarrow> bytes \<Rightarrow> bytes" where
  "chunk_reasoning rd data =
     (case chunk_delta rd data of None \<Rightarrow> [] | Some d \<Rightarrow> opt_bytes (delta_reasoning d))"

definition chunk_finish :: "json_reader \<Rightarrow> bytes \<Rightarrow> bytes option" where
  "chunk_finish rd data =
     (case chunk_choice rd data of None \<Rightarrow> None | Some c \<Rightarrow> str_member c ''finish_reason'')"

text \<open>
  \<open>adds t r fin rc ctx ctx'\<close>: a stage that ended with \<open>rc\<close>. With 0 it has added \<open>t\<close> to the
  text, \<open>r\<close> to the reasoning and set the finish reason to \<open>fin\<close>, if there is one. With -1, and
  only then, it has set the error.
\<close>

definition ctx_live :: "sicha_stream_ctx \<Rightarrow> bool" where
  "ctx_live ctx \<longleftrightarrow> buf_live (r_text (sc_r ctx)) \<and> buf_live (r_reasoning (sc_r ctx))
     \<and> buf_live (sc_last_raw ctx)"

definition last_finish :: "bytes option \<Rightarrow> bytes option \<Rightarrow> bytes option" where
  "last_finish fin old = (case fin of None \<Rightarrow> old | Some f \<Rightarrow> Some f)"

definition adds :: "bytes \<Rightarrow> bytes \<Rightarrow> bytes option \<Rightarrow> int \<Rightarrow> sicha_stream_ctx \<Rightarrow> sicha_stream_ctx \<Rightarrow> bool"
where
  "adds t r fin rc ctx ctx' \<longleftrightarrow>
     ctx_live ctx' \<and> sc_accumulate ctx' = sc_accumulate ctx \<and> sc_done ctx' = sc_done ctx
     \<and> ((rc = 0 \<or> rc = SICHA_STREAM_CANCEL) \<and> sc_err ctx' = sc_err ctx
         \<or> rc = -1 \<and> sc_err ctx' \<noteq> SICHA_OK)
     \<and> (rc = 0 \<longrightarrow>
          (sc_accumulate ctx \<longrightarrow>
             buf_bytes (r_text (sc_r ctx')) = buf_bytes (r_text (sc_r ctx)) @ t
             \<and> buf_bytes (r_reasoning (sc_r ctx')) = buf_bytes (r_reasoning (sc_r ctx)) @ r)
          \<and> r_finish_raw (sc_r ctx') = last_finish fin (r_finish_raw (sc_r ctx)))"

lemma stream_codes [simp]:
  "SICHA_STREAM_CANCEL \<noteq> 0" "SICHA_STREAM_STOP \<noteq> 0" "SICHA_STREAM_CANCEL \<noteq> -1"
  "SICHA_STREAM_STOP \<noteq> -1" "SICHA_STREAM_STOP \<noteq> SICHA_STREAM_CANCEL"
  "SICHA_STREAM_CANCEL \<noteq> SICHA_STREAM_STOP"
  by (simp_all add: SICHA_STREAM_CANCEL_def SICHA_STREAM_STOP_def)

lemma adds_none: "ctx_live ctx \<Longrightarrow> adds [] [] None 0 ctx ctx"
  by (simp add: adds_def last_finish_def)

lemma adds_append:
  "adds t r fin 0 c c1 \<Longrightarrow> adds t' r' None rc c1 c2 \<Longrightarrow> adds (t @ t') (r @ r') fin rc c c2"
  "adds t r None 0 c c1 \<Longrightarrow> adds t' r' fin rc c1 c2 \<Longrightarrow> adds (t @ t') (r @ r') fin rc c c2"
  by (auto simp: adds_def last_finish_def)

lemma adds_stopped: "adds t r fin rc c c' \<Longrightarrow> rc \<noteq> 0 \<Longrightarrow> adds t' r' fin' rc c c'"
  by (simp add: adds_def)

lemma adds_live: "adds t r fin rc c c' \<Longrightarrow> ctx_live c'"
  by (simp add: adds_def)

lemma raw_chunk_adds:
  assumes "ctx_live ctx" "raw_chunk cbs ctx data w m = (rc, ctx', w', m')"
  shows "adds [] [] None rc ctx ctx'"
proof -
  from assms(1) have "buf_live (sc_last_raw ctx)" by (simp add: ctx_live_def)
  from this assms(2) show ?thesis
  proof (cases rule: raw_chunk_cases)
    case (failed lr)
    with assms(1) show ?thesis by (simp add: adds_def ctx_live_def)
  next
    case (raw lr)
    with assms(1) call_cb_code [OF raw(1) [symmetric]] show ?thesis
      by (auto simp: adds_def ctx_live_def last_finish_def)
  qed
qed

lemma deliver_text_adds:
  assumes "ctx_live ctx" "deliver_text cbs ctx content w m = (rc, ctx', w', m')"
  shows "adds (opt_bytes content) [] None rc ctx ctx'"
proof (cases content)
  case None
  with assms show ?thesis by (simp add: deliver_text_def opt_bytes_def adds_none)
next
  case (Some bs)
  obtain c1 b1 where d:
      "deliver ctx (r_text (sc_r ctx)) (cb_of cbs cb_on_delta) bs w m = (rc, c1, b1, w', m')"
    and c': "ctx' = c1\<lparr>sc_r := (sc_r c1)\<lparr>r_text := b1\<rparr>\<rparr>"
    using assms(2) Some by (auto simp: deliver_text_def split: prod.splits)
  from assms(1) have "buf_live (r_text (sc_r ctx))" by (simp add: ctx_live_def)
  from this d show ?thesis
  proof (cases rule: deliver_cases)
    case (failed e)
    with assms(1) c' show ?thesis by (simp add: adds_def ctx_live_def)
  next
    case delivered
    have "rc = 0 \<or> rc = SICHA_STREAM_CANCEL"
      using delivered(5) call_cb_code by (metis prod.inject)
    with delivered assms(1) c' Some show ?thesis
      by (auto simp: adds_def ctx_live_def last_finish_def opt_bytes_def)
  qed
qed

lemma deliver_reasoning_adds:
  assumes "ctx_live ctx" "deliver_reasoning cbs ctx reas w m = (rc, ctx', w', m')"
  shows "adds [] (opt_bytes reas) None rc ctx ctx'"
proof (cases reas)
  case None
  with assms show ?thesis by (simp add: deliver_reasoning_def opt_bytes_def adds_none)
next
  case (Some bs)
  obtain c1 b1 where d:
      "deliver ctx (r_reasoning (sc_r ctx)) (cb_of cbs cb_on_reasoning) bs w m = (rc, c1, b1, w', m')"
    and c': "ctx' = c1\<lparr>sc_r := (sc_r c1)\<lparr>r_reasoning := b1\<rparr>\<rparr>"
    using assms(2) Some by (auto simp: deliver_reasoning_def split: prod.splits)
  from assms(1) have "buf_live (r_reasoning (sc_r ctx))" by (simp add: ctx_live_def)
  from this d show ?thesis
  proof (cases rule: deliver_cases)
    case (failed e)
    with assms(1) c' show ?thesis by (simp add: adds_def ctx_live_def)
  next
    case delivered
    have "rc = 0 \<or> rc = SICHA_STREAM_CANCEL"
      using delivered(5) call_cb_code by (metis prod.inject)
    with delivered assms(1) c' Some show ?thesis
      by (auto simp: adds_def ctx_live_def last_finish_def opt_bytes_def)
  qed
qed

lemma delta_stage_adds:
  assumes "ctx_live ctx" "delta_stage cbs ctx data delta w m = (rc, ctx', w', m')"
  shows "adds (opt_bytes (delta_text delta)) (opt_bytes (delta_reasoning delta)) None rc ctx ctx'"
proof -
  obtain rc1 c1 w1 m1 where t: "deliver_text cbs ctx (delta_text delta) w m = (rc1, c1, w1, m1)"
    by (metis prod_cases4)
  obtain rc2 c2 w2 m2 where u:
    "deliver_reasoning cbs c1 (delta_reasoning delta) w1 m1 = (rc2, c2, w2, m2)" by (metis prod_cases4)
  note A1 = deliver_text_adds [OF assms(1) t]
  note A2 = deliver_reasoning_adds [OF adds_live [OF A1] u]
  note P = assms(2) [unfolded delta_stage_def Let_def delta_text_def [symmetric]
      delta_reasoning_def [symmetric] t prod.case u]
  show ?thesis
  proof (cases "rc1 = 0")
    case False
    with P A1 show ?thesis by (auto intro: adds_stopped)
  next
    case r1: True
    with A1 A2 have A12: "adds (opt_bytes (delta_text delta)) (opt_bytes (delta_reasoning delta))
        None rc2 ctx c2" using adds_append(1) [of _ "[]" None ctx c1 "[]"] by fastforce
    show ?thesis
    proof (cases "rc2 = 0")
      case False
      with P A12 r1 show ?thesis by (auto intro: adds_stopped)
    next
      case True
      show ?thesis
      proof (cases "yyjson_obj_get delta (lit ''tool_calls'') = None")
        case none: True
        with P r1 True A12 show ?thesis by simp
      next
        case False
        with P r1 True have "raw_chunk cbs c2 data w2 m2 = (rc, ctx', w', m')" by simp
        from raw_chunk_adds [OF adds_live [OF A2] this] A12 True show ?thesis
          using adds_append(1) by fastforce
      qed
    qed
  qed
qed

lemma with_finish_raw:
  "r_finish_raw (with_finish fin r) = last_finish fin (r_finish_raw r)"
  "r_finish_raw (lift_usage r root) = r_finish_raw r"
  "r_finish_raw (with_model root r) = r_finish_raw r"
  by (auto simp: with_finish_def last_finish_def lift_usage_def with_model_def Let_def split: option.split)

lemma finish_stage_adds:
  assumes "ctx_live ctx" "stream_finish_stage ctx choice0 m = (rc, ctx', m')"
  shows "adds [] [] (str_member choice0 ''finish_reason'') rc ctx ctx'"
  using stream_finish_stage_cases [OF assms(2)] assms(1)
  by (elim disjE conjE) (simp_all add: adds_def ctx_live_def with_finish_raw)

lemma meta_stage_adds:
  assumes "ctx_live ctx" "meta_stage ctx root m = (rc, ctx', m')"
  shows "adds [] [] None rc ctx ctx'"
  using meta_stage_cases [OF assms(2)] assms(1)
  by (elim disjE conjE) (simp_all add: adds_def ctx_live_def with_finish_raw last_finish_def)

definition choice_adds :: "json option \<Rightarrow> int \<Rightarrow> sicha_stream_ctx \<Rightarrow> sicha_stream_ctx \<Rightarrow> bool" where
  "choice_adds choice rc ctx ctx' \<longleftrightarrow>
     adds (case choice of None \<Rightarrow> [] | Some c \<Rightarrow>
             (case delta_of c of None \<Rightarrow> [] | Some d \<Rightarrow> opt_bytes (delta_text d)))
          (case choice of None \<Rightarrow> [] | Some c \<Rightarrow>
             (case delta_of c of None \<Rightarrow> [] | Some d \<Rightarrow> opt_bytes (delta_reasoning d)))
          (case choice of None \<Rightarrow> None | Some c \<Rightarrow> str_member c ''finish_reason'') rc ctx ctx'"

lemma choices_stage_adds:
  assumes "ctx_live ctx" "choices_stage cbs ctx data root w m = (go, rc, ctx', w', m')"
  shows "choice_adds (case first_elem root of None \<Rightarrow> None
      | Some c \<Rightarrow> if yyjson_is_obj c then Some c else None) rc ctx ctx' \<and> (go \<longrightarrow> rc = 0)"
proof (cases "first_elem root")
  case None
  with assms show ?thesis by (auto simp: choices_stage_eq choice_adds_def adds_none)
next
  case (Some c)
  show ?thesis
  proof (cases "yyjson_is_obj c")
    case False
    obtain rc1 c1 w1 m1 where r: "raw_chunk cbs ctx data w m = (rc1, c1, w1, m1)" by (metis prod_cases4)
    from raw_chunk_adds [OF assms(1) r] r False Some assms(2) show ?thesis
      by (auto simp: choices_stage_eq choice_adds_def)
  next
    case True
    let ?t = "case delta_of c of None \<Rightarrow> [] | Some d \<Rightarrow> opt_bytes (delta_text d)"
    let ?r = "case delta_of c of None \<Rightarrow> [] | Some d \<Rightarrow> opt_bytes (delta_reasoning d)"
    obtain rc1 c1 w1 m1 where d: "(case delta_of c of None \<Rightarrow> (0, ctx, w, m)
        | Some delta \<Rightarrow> delta_stage cbs ctx data delta w m) = (rc1, c1, w1, m1)"
      by (metis prod_cases4)
    have A1: "adds ?t ?r None rc1 ctx c1"
      using d assms(1) delta_stage_adds [OF assms(1)] by (auto simp: adds_none split: option.splits)
    obtain rc2 c2 m2 where f: "stream_finish_stage c1 c m1 = (rc2, c2, m2)" by (metis prod_cases3)
    note A2 = finish_stage_adds [OF adds_live [OF A1] f]
    show ?thesis
    proof (cases "rc1 = 0")
      case False
      with assms(2) A1 True show ?thesis
        by (auto simp: choices_stage_eq choice_adds_def Some d intro: adds_stopped)
    next
      case z: True
      with A1 A2 have "adds ?t ?r (str_member c ''finish_reason'') rc2 ctx c2"
        using adds_append(2) by fastforce
      with assms(2) z True show ?thesis by (auto simp: choices_stage_eq choice_adds_def Some d f)
    qed
  qed
qed

lemma adds_saw_event [simp]:
  "adds t r fin rc (ctx\<lparr>sc_saw_event := e\<rparr>) ctx' = adds t r fin rc ctx ctx'"
  by (simp add: adds_def)

lemma choice_adds_chunk:
  assumes "choice_adds (chunk_choice rd data) rc ctx ctx'"
  shows "adds (chunk_text rd data) (chunk_reasoning rd data) (chunk_finish rd data) rc ctx ctx'"
  using assms unfolding choice_adds_def chunk_text_def chunk_reasoning_def chunk_finish_def chunk_delta_def
  by (cases "chunk_choice rd data") auto

text \<open>One event: either the end marker, or what the chunk adds.\<close>

text \<open>
  A document that the parser cannot allocate is treated by the code as one that does not
  parse, and its text is not added: \<open>skipped\<close> is that case.
\<close>

lemma on_event_adds:
  assumes "ctx_live ctx" "data \<noteq> lit ''[DONE]''"
    "sicha_stream_on_event rd cbs data (ctx, w) m = (rc, (ctx', w'), m')"
  shows "adds (chunk_text rd data) (chunk_reasoning rd data) (chunk_finish rd data) rc ctx ctx'
    \<or> \<not> all_ok m \<and> adds [] [] None rc ctx ctx'"
proof -
  obtain v m1 where y: "yyjson_read rd data m = (v, m1)" by fastforce
  obtain rc1 c1 w1 m2 where r: "raw_chunk cbs ctx data w m1 = (rc1, c1, w1, m2)" by (metis prod_cases4)
  note R = raw_chunk_adds [OF assms(1) r]
  show ?thesis
  proof (cases "\<exists>root. v = Some root \<and> yyjson_is_obj root \<and> yyjson_obj_get root (lit ''error'') = None")
    case False
    have raw: "adds [] [] None rc ctx ctx'"
      using assms(2,3) False y r R
      by (cases v) (auto simp: sicha_stream_on_event_def simp del: lit_simps split: if_splits)
    have "chunk_choice rd data = None \<or> \<not> all_ok m"
    proof (cases v)
      case None
      with y yyjson_read_fails have "rd data = None \<or> \<not> all_ok m" by blast
      then show ?thesis by (auto simp: chunk_choice_def usable_root_def)
    next
      case (Some root)
      with y have "rd data = Some root" by (simp add: yyjson_read_Some)
      with Some False have "usable_root rd data = None" by (simp add: usable_root_def del: lit_simps)
      then show ?thesis by (simp add: chunk_choice_def)
    qed
    with raw show ?thesis
      by (auto simp: chunk_text_def chunk_reasoning_def chunk_finish_def chunk_delta_def)
  next
    case True
    then obtain root where v: "v = Some root" "yyjson_is_obj root"
      "yyjson_obj_get root (lit ''error'') = None" by blast
    let ?ctx = "ctx\<lparr>sc_saw_event := True\<rparr>"
    obtain go rc2 c2 w2 m3 where c: "choices_stage cbs ?ctx data root w m1 = (go, rc2, c2, w2, m3)"
      by (metis prod_cases5)
    have "rd data = Some root" using y v by (simp add: yyjson_read_Some)
    then have cc: "chunk_choice rd data = (case first_elem root of None \<Rightarrow> None
        | Some c \<Rightarrow> if yyjson_is_obj c then Some c else None)"
      using v assms(2) by (simp add: chunk_choice_def usable_root_def del: lit_simps)
    have "ctx_live ?ctx" using assms(1) by (simp add: ctx_live_def)
    from choices_stage_adds [OF this c, folded cc]
    have C: "adds (chunk_text rd data) (chunk_reasoning rd data) (chunk_finish rd data) rc2 ctx c2"
      "go \<longrightarrow> rc2 = 0"
      by (auto dest!: choice_adds_chunk simp del: lit_simps)
    obtain rc3 c3 m4 where e: "meta_stage c2 root m3 = (rc3, c3, m4)" by (metis prod_cases3)
    note M = meta_stage_adds [OF adds_live [OF C(1)] e]
    show ?thesis
    proof (cases go)
      case False
      with assms(2,3) v C y c show ?thesis
        by (auto simp: sicha_stream_on_event_def simp del: lit_simps)
    next
      case True
      with C M have "adds (chunk_text rd data) (chunk_reasoning rd data) (chunk_finish rd data) rc3 ctx c3"
        using adds_append(1) [of _ _ _ ctx c2 "[]" "[]"]
        by (auto simp: adds_def last_finish_def)
      with True assms(2,3) v y c e show ?thesis
        by (auto simp: sicha_stream_on_event_def simp del: lit_simps)
    qed
  qed
qed


lemma raw_chunk_mem: "raw_chunk cbs ctx data w m = (rc, ctx', w', m') \<Longrightarrow> all_ok m \<Longrightarrow> all_ok m'"
  by (auto simp: raw_chunk_def Let_def split: prod.splits if_splits dest: append_mem)

lemma deliver_mem: "deliver ctx b cb bs w m = (rc, ctx', b', w', m') \<Longrightarrow> all_ok m \<Longrightarrow> all_ok m'"
  by (auto simp: deliver_def Let_def split: prod.splits if_splits dest: append_mem)

lemma delta_stage_mem:
  assumes "delta_stage cbs ctx data delta w m = (rc, ctx', w', m')" "all_ok m"
  shows "all_ok m'"
  using assms
  by (auto simp: delta_stage_def Let_def deliver_text_def deliver_reasoning_def
      split: option.splits prod.splits if_splits dest!: deliver_mem raw_chunk_mem)

lemma choices_stage_mem:
  assumes "choices_stage cbs ctx data root w m = (go, rc, ctx', w', m')" "all_ok m"
  shows "all_ok m'"
proof (cases "first_elem root")
  case None
  with assms show ?thesis by (simp add: choices_stage_eq)
next
  case (Some c)
  obtain rc1 c1 w1 m1 where d: "(case delta_of c of None \<Rightarrow> (0, ctx, w, m)
      | Some delta \<Rightarrow> delta_stage cbs ctx data delta w m) = (rc1, c1, w1, m1)"
    by (metis prod_cases4)
  obtain rc2 c2 m2 where f: "stream_finish_stage c1 c m1 = (rc2, c2, m2)" by (metis prod_cases3)
  have m1: "all_ok m1" using d assms(2) delta_stage_mem by (auto split: option.splits)
  have m2: "all_ok m2" using stream_finish_stage_cases [OF f] m1 by auto
  show ?thesis
    using assms m1 m2 by (auto simp: choices_stage_eq Some d f split: if_splits prod.splits
        dest: raw_chunk_mem)
qed

lemma on_event_mem: "mem_keeps (sicha_stream_on_event rd cbs)"
proof -
  have "all_ok m'" if E: "sicha_stream_on_event rd cbs d s m = (rc, s', m')" and m: "all_ok m"
    for d s m rc s' m'
  proof -
    obtain ctx w where s: "s = (ctx, w)" by fastforce
    obtain v m1 where y: "yyjson_read rd d m = (v, m1)" by fastforce
    have m1: "all_ok m1" using yyjson_read_ok [OF m, of rd d] y by auto
    obtain rc1 c1 w1 m2 where r: "raw_chunk cbs ctx d w m1 = (rc1, c1, w1, m2)" by (metis prod_cases4)
    have m2: "all_ok m2" using raw_chunk_mem [OF r m1] .
    show ?thesis
    proof (cases v)
      case None
      with E m m2 y r show ?thesis
        by (auto simp: sicha_stream_on_event_def s split: if_splits simp del: lit_simps)
    next
      case (Some root)
      obtain go rc2 c2 w2 m3 where c:
        "choices_stage cbs (ctx\<lparr>sc_saw_event := True\<rparr>) d root w m1 = (go, rc2, c2, w2, m3)"
        by (metis prod_cases5)
      have m3: "all_ok m3" using choices_stage_mem [OF c m1] .
      obtain rc3 c3 m4 where e: "meta_stage c2 root m3 = (rc3, c3, m4)" by (metis prod_cases3)
      have m4: "all_ok m4" using meta_stage_cases [OF e] m3 by auto
      show ?thesis
        using E m m2 m3 m4 Some
        by (auto simp: sicha_stream_on_event_def s y r c e split: if_splits simp del: lit_simps)
    qed
  qed
  then show ?thesis unfolding mem_keeps_def by (metis prod.collapse)
qed

section \<open>The text of a stream\<close>

text \<open>
  The chunks before the end marker, and what a stream of chunks says in all.
\<close>

definition before_done :: "bytes list \<Rightarrow> bytes list" where
  "before_done evs = takeWhile (\<lambda>e. e \<noteq> lit ''[DONE]'') evs"

definition stream_text :: "json_reader \<Rightarrow> bytes list \<Rightarrow> bytes" where
  "stream_text rd evs = concat (map (chunk_text rd) (before_done evs))"

definition stream_reasoning :: "json_reader \<Rightarrow> bytes list \<Rightarrow> bytes" where
  "stream_reasoning rd evs = concat (map (chunk_reasoning rd) (before_done evs))"

lemma on_event_done:
  "sicha_stream_on_event rd cbs (lit ''[DONE]'') (ctx, w) m =
     (SICHA_STREAM_STOP, (ctx\<lparr>sc_done := True\<rparr>, w), m)"
  by (simp add: sicha_stream_on_event_def del: lit_simps)

lemma processed_text:
  assumes "processed True (sicha_stream_on_event rd cbs) s evs s' rc"
    "ctx_live (fst s)" "sc_accumulate (fst s)" "rc = 0 \<or> rc = SICHA_STREAM_STOP"
  shows "buf_bytes (r_text (sc_r (fst s'))) = buf_bytes (r_text (sc_r (fst s))) @ stream_text rd evs
    \<and> buf_bytes (r_reasoning (sc_r (fst s'))) = buf_bytes (r_reasoning (sc_r (fst s))) @ stream_reasoning rd evs
    \<and> sc_done (fst s') = (sc_done (fst s) \<or> rc = SICHA_STREAM_STOP)
    \<and> (rc = SICHA_STREAM_STOP \<longleftrightarrow> lit ''[DONE]'' \<in> set evs)"
  using assms
proof (induction rule: processed.induct)
  case (stop s)
  then show ?case by (simp add: stream_text_def stream_reasoning_def before_done_def)
next
  case (last d s m rc s' m')
  obtain ctx w ctx' w' where s: "s = (ctx, w)" "s' = (ctx', w')" by fastforce
  show ?case
  proof (cases "d = lit ''[DONE]''")
    case True
    with last s on_event_done [of rd cbs ctx w m] show ?thesis
      by (auto simp: stream_text_def stream_reasoning_def before_done_def simp del: lit_simps)
  next
    case False
    from on_event_adds [OF _ False last(1) [unfolded s]] last s have False
      by (auto simp: adds_def)
    then show ?thesis ..
  qed
next
  case (step d s m s1 m' ds s' rc)
  obtain ctx w ctx1 w1 where s: "s = (ctx, w)" "s1 = (ctx1, w1)" by fastforce
  have d: "d \<noteq> lit ''[DONE]''"
    using step(1) s on_event_done [of rd cbs ctx w m] by (auto simp del: lit_simps)
  from on_event_adds [OF _ d step(1) [unfolded s]] step(2,5) s
  have A: "adds (chunk_text rd d) (chunk_reasoning rd d) (chunk_finish rd d) 0 ctx ctx1" by simp
  with step(4) [OF _ _ step(7)] step(5,6) s have
    "buf_bytes (r_text (sc_r (fst s'))) = buf_bytes (r_text (sc_r ctx1)) @ stream_text rd ds
    \<and> buf_bytes (r_reasoning (sc_r (fst s'))) = buf_bytes (r_reasoning (sc_r ctx1)) @ stream_reasoning rd ds
    \<and> sc_done (fst s') = (sc_done ctx1 \<or> rc = SICHA_STREAM_STOP)
    \<and> (rc = SICHA_STREAM_STOP \<longleftrightarrow> lit ''[DONE]'' \<in> set ds)"
    by (simp add: adds_def del: lit_simps)
  with A d step(6) s show ?case
    by (simp add: adds_def stream_text_def stream_reasoning_def before_done_def del: lit_simps)
qed

lemma before_done_prefix: "lit ''[DONE]'' \<in> set evs \<Longrightarrow> before_done (evs @ rest) = before_done evs"
  unfolding before_done_def by (rule takeWhile_append1) simp_all

theorem stream_run_text:
  assumes R: "sse_run (Some (sicha_stream_on_event rd cbs)) (sicha_sse_init max_ev) bs
      (ctx, w) m = (rc, p', (ctx', w'), m')"
    and "all_ok m" "ctx_live ctx" "sc_accumulate ctx" "rc = 0 \<or> rc = SICHA_STREAM_STOP"
  shows "buf_bytes (r_text (sc_r ctx')) = buf_bytes (r_text (sc_r ctx)) @ stream_text rd (sse_events bs)"
    and "buf_bytes (r_reasoning (sc_r ctx')) =
      buf_bytes (r_reasoning (sc_r ctx)) @ stream_reasoning rd (sse_events bs)"
    and "sc_done ctx' = (sc_done ctx \<or> rc = SICHA_STREAM_STOP)"
    and "rc = SICHA_STREAM_STOP \<longleftrightarrow> lit ''[DONE]'' \<in> set (sse_events bs)"
proof -
  let ?f = "sicha_stream_on_event rd cbs"
  have "part_of True ?f rc (ctx, w) (ctx', w') (sse_events bs)"
    by (rule sse_run_part [OF R _ on_event_mem]) (simp add: assms(2))
  then obtain evs rest rc' where E: "sse_events bs = evs @ rest"
    "processed True ?f (ctx, w) evs (ctx', w') rc'" "rc = 0 \<longrightarrow> rest = [] \<and> rc' = 0"
    "rc' \<noteq> 0 \<longrightarrow> rc = rc'" "rc' = 0 \<longrightarrow> rc = 0 \<or> rc = -1" by (auto simp: part_of_def)
  then have rc: "rc' = rc" using assms(5) by auto
  have P: "buf_bytes (r_text (sc_r ctx')) = buf_bytes (r_text (sc_r ctx)) @ stream_text rd evs"
    "buf_bytes (r_reasoning (sc_r ctx')) = buf_bytes (r_reasoning (sc_r ctx)) @ stream_reasoning rd evs"
    "sc_done ctx' = (sc_done ctx \<or> rc = SICHA_STREAM_STOP)"
    "rc = SICHA_STREAM_STOP \<longleftrightarrow> lit ''[DONE]'' \<in> set evs"
    using processed_text [OF E(2)] assms(3-5) rc by auto
  have "before_done (sse_events bs) = before_done evs"
    using E(1,3) P(4) assms(5) before_done_prefix [of evs rest] by auto
  with P(1,2) show
    "buf_bytes (r_text (sc_r ctx')) = buf_bytes (r_text (sc_r ctx)) @ stream_text rd (sse_events bs)"
    "buf_bytes (r_reasoning (sc_r ctx')) =
      buf_bytes (r_reasoning (sc_r ctx)) @ stream_reasoning rd (sse_events bs)"
    by (simp_all add: stream_text_def stream_reasoning_def)
  show "sc_done ctx' = (sc_done ctx \<or> rc = SICHA_STREAM_STOP)" by (rule P(3))
  show "rc = SICHA_STREAM_STOP \<longleftrightarrow> lit ''[DONE]'' \<in> set (sse_events bs)"
    using P(4) E(1,3) assms(5) by (auto simp del: lit_simps)
qed

end
