(* ===== verification/Engine_Rounds.thy ===== *)
theory Engine_Rounds
  imports Engine Response_Parse Response_Stream
begin

text \<open>
  Lemmas on the engine that all its properties use: the rules for its two loops, what a round
  trip leaves alone, and the cases of one round trip.
\<close>

section \<open>The loops\<close>

text \<open>
  \<open>I\<close> holds before each round trip on one backend; a round trip that advances or ends the
  call establishes \<open>A\<close> or \<open>F\<close>.
\<close>

lemma backend_loop_rule:
  assumes step: "\<And>s v s'. I s \<Longrightarrow> attempt_step rd wr env c i b req cbs stream s = (v, s') \<Longrightarrow>
      (case v of Again \<Rightarrow> I s' | Advance \<Rightarrow> A s' | Finish st \<Rightarrow> F st s')"
    and run: "I s" "backend_loop rd wr env c i b req cbs stream s = (res, s')"
  shows "case res of None \<Rightarrow> A s' | Some st \<Rightarrow> F st s'"
  using run
proof (induction "tries_left c s" arbitrary: s rule: less_induct)
  case less
  obtain v s1 where v: "attempt_step rd wr env c i b req cbs stream s = (v, s1)"
    by (cases "attempt_step rd wr env c i b req cbs stream s")
  note eq = less.prems(2) [unfolded backend_loop.simps [of rd wr env c i b req cbs stream s] v, simplified]
  show ?case
  proof (cases v)
    case Again
    with v have "tries_left c s1 < tries_left c s" by (simp add: attempt_step_again)
    with less.hyps [OF this] step [OF less.prems(1) v] eq Again show ?thesis by simp
  qed (use step [OF less.prems(1) v] eq in auto)
qed

text \<open>The chain of backends: \<open>J i\<close> holds when backend \<open>i\<close> is entered.\<close>

lemma chat_backends_rule:
  assumes loop: "\<And>k b s res s'. i \<le> k \<Longrightarrow> k < i + length bs \<Longrightarrow> b = bs ! (k - i) \<Longrightarrow> J k s \<Longrightarrow>
      backend_loop rd wr env c k b req cbs stream (enter_backend s) = (res, s') \<Longrightarrow>
      (case res of None \<Rightarrow> J (Suc k) s' | Some st \<Rightarrow> F st s')"
    and run: "J i s" "chat_backends rd wr env c i bs req cbs stream s = (final, s')"
  shows "F final s' \<or> final = SICHA_E_EXHAUSTED \<and> J (i + length bs) s'"
  using assms
proof (induction bs arbitrary: i s)
  case Nil
  then show ?case by simp
next
  case (Cons b bs)
  obtain res s1 where l: "backend_loop rd wr env c i b req cbs stream (enter_backend s) = (res, s1)"
    by (cases "backend_loop rd wr env c i b req cbs stream (enter_backend s)")
  note here = Cons.prems(1) [of i b s res s1, simplified, OF Cons.prems(2) l]
  show ?case
  proof (cases res)
    case (Some st)
    with here Cons.prems(3) l show ?thesis by simp
  next
    case None
    have "F final s' \<or> final = SICHA_E_EXHAUSTED \<and> J (Suc i + length bs) s'"
    proof (rule Cons.IH [of "Suc i" s1])
      show "J (Suc i) s1" using here None by simp
      show "chat_backends rd wr env c (Suc i) bs req cbs stream s1 = (final, s')"
        using Cons.prems(3) l None by simp
      fix k b' s res s'
      assume k: "Suc i \<le> k" "k < Suc i + length bs" "b' = bs ! (k - Suc i)" "J k s"
        "backend_loop rd wr env c k b' req cbs stream (enter_backend s) = (res, s')"
      then have "b' = (b # bs) ! (k - i)" by (simp add: nth_Cons')
      with k Cons.prems(1) [of k b' s res s'] show "case res of None \<Rightarrow> J (Suc k) s' | Some st \<Rightarrow> F st s'"
        by simp
    qed
    then show ?thesis by simp
  qed
qed

section \<open>Frames\<close>

text \<open>What the reading of a response leaves alone.\<close>

definition kept_part :: "sicha_result \<Rightarrow> sicha_attempt list \<times> u32 \<times> int \<times> sicha_status" where
  "kept_part r = (r_attempts r, r_cap_attempts r, r_backend r, r_status r)"

lemma kept_updates [simp]:
  "kept_part (r\<lparr>r_text := b\<rparr>) = kept_part r"
  "kept_part (r\<lparr>r_reasoning := b\<rparr>) = kept_part r"
  "kept_part (r\<lparr>r_raw_body := x, r_raw_body_len := n\<rparr>) = kept_part r"
  "kept_part (sicha_result_reset_content r) = kept_part r"
  by (simp_all add: kept_part_def sicha_result_reset_content_def)

lemma kept_model: "sicha_result_set_model r s m = (st, r', m') \<Longrightarrow> kept_part r' = kept_part r"
  by (auto simp: sicha_result_set_model_def kept_part_def Let_def split: prod.splits if_splits)

lemma kept_finish: "sicha_result_set_finish r s m = (st, r', m') \<Longrightarrow> kept_part r' = kept_part r"
  by (auto simp: sicha_result_set_finish_def kept_part_def Let_def split: prod.splits if_splits)

lemma kept_usage [simp]: "kept_part (lift_usage r root) = kept_part r"
  by (simp add: lift_usage_def kept_part_def Let_def split: option.split)

lemma kept_lift_model: "lift_model r root m = (st, r', m') \<Longrightarrow> kept_part r' = kept_part r"
  by (auto simp: lift_model_def dest: kept_model split: option.splits if_splits)

lemma kept_text_stage: "text_stage r msg m = (x, r', m') \<Longrightarrow> kept_part r' = kept_part r"
  by (auto simp: text_stage_def Let_def split: option.splits prod.splits if_splits)

lemma kept_reasoning_stage: "reasoning_stage r ch msg m = (x, r', m') \<Longrightarrow> kept_part r' = kept_part r"
  by (auto simp: reasoning_stage_def Let_def split: option.splits prod.splits)

lemma kept_finish_stage: "finish_stage r ch m = (x, r', m') \<Longrightarrow> kept_part r' = kept_part r"
  by (auto simp: finish_stage_def Let_def dest: kept_finish split: option.splits prod.splits)

lemma kept_parse_choice:
  "parse_choice r root ch m = (st, bs, r', m') \<Longrightarrow> kept_part r' = kept_part r"
  by (auto simp: parse_choice_def Let_def split: prod.splits parse_step.splits
      dest!: kept_text_stage kept_reasoning_stage kept_finish_stage kept_lift_model)

lemma kept_parse:
  "sicha_response_parse rd r body m = (st, bs, r', m') \<Longrightarrow> kept_part r' = kept_part r"
  by (auto simp: sicha_response_parse_def split: if_splits option.splits prod.splits
      dest: kept_parse_choice)

lemma kept_raw_chunk: "raw_chunk cbs ctx data w m = (rc, ctx', w', m') \<Longrightarrow> sc_r ctx' = sc_r ctx"
  by (auto simp: raw_chunk_def Let_def split: prod.splits if_splits)

lemma kept_deliver: "deliver ctx a cb bs w m = (rc, ctx', a', w', m') \<Longrightarrow> sc_r ctx' = sc_r ctx"
  by (auto simp: deliver_def Let_def split: prod.splits if_splits)

lemma kept_deliver_text:
  "deliver_text cbs ctx s w m = (rc, ctx', w', m') \<Longrightarrow> kept_part (sc_r ctx') = kept_part (sc_r ctx)"
  by (auto simp: deliver_text_def Let_def split: option.splits prod.splits dest: kept_deliver)

lemma kept_deliver_reasoning:
  "deliver_reasoning cbs ctx s w m = (rc, ctx', w', m') \<Longrightarrow> kept_part (sc_r ctx') = kept_part (sc_r ctx)"
  by (auto simp: deliver_reasoning_def Let_def split: option.splits prod.splits dest: kept_deliver)

lemma kept_delta_stage:
  "delta_stage cbs ctx d x w m = (rc, ctx', w', m') \<Longrightarrow> kept_part (sc_r ctx') = kept_part (sc_r ctx)"
  by (auto simp: delta_stage_def Let_def split: prod.splits if_splits
      dest!: kept_deliver_text kept_deliver_reasoning kept_raw_chunk)

lemma kept_stream_finish_stage:
  "stream_finish_stage ctx ch m = (rc, ctx', m') \<Longrightarrow> kept_part (sc_r ctx') = kept_part (sc_r ctx)"
  by (auto simp: stream_finish_stage_def Let_def split: option.splits prod.splits if_splits
      dest!: kept_finish)

lemma kept_choices_stage:
  "choices_stage cbs ctx d root w m = (go, rc, ctx', w', m') \<Longrightarrow>
     kept_part (sc_r ctx') = kept_part (sc_r ctx)"
  by (auto simp: choices_stage_eq split: option.splits prod.splits if_splits
      dest!: kept_delta_stage kept_raw_chunk kept_stream_finish_stage)

lemma kept_meta_stage:
  "meta_stage ctx root m = (rc, ctx', m') \<Longrightarrow> kept_part (sc_r ctx') = kept_part (sc_r ctx)"
  by (auto simp: meta_stage_def Let_def split: prod.splits if_splits dest!: kept_lift_model)

lemma kept_on_event:
  "sicha_stream_on_event rd cbs d (ctx, w) m = (rc, (ctx', w'), m') \<Longrightarrow>
     kept_part (sc_r ctx') = kept_part (sc_r ctx)"
  by (auto simp: sicha_stream_on_event_def Let_def split: prod.splits option.splits if_splits
      dest!: kept_raw_chunk kept_choices_stage kept_meta_stage)

section \<open>A transfer\<close>

text \<open>
  \<open>obs\<close> is what is watched of the world. A transfer is \<open>quiet\<close> when it does not touch that
  itself: between two calls of the sink it stays as it is.
\<close>

primrec quiet :: "('w \<Rightarrow> 'o) \<Rightarrow> 'w transfer \<Rightarrow> 'o \<Rightarrow> bool" where
  "quiet obs (T_done ts w) = (\<lambda>x. obs w = x)"
| "quiet obs (T_status http hs w k) = (\<lambda>x. obs w = x \<and> (\<forall>r. quiet obs (k r) (obs (snd r))))"
| "quiet obs (T_body bs w k) = (\<lambda>x. obs w = x \<and> (\<forall>r. quiet obs (k r) (obs (snd r))))"

lemma quiet_unit: "quiet (\<lambda>_. ()) t x"
  by (induction t arbitrary: x) auto

lemma scan_retry_after_keeps [simp]:
  "io_sctx (scan_retry_after hs io) = io_sctx io"
  "io_sse (scan_retry_after hs io) = io_sse io"
  "io_body (scan_retry_after hs io) = io_body io"
  "io_stream (scan_retry_after hs io) = io_stream io"
  "io_http_status (scan_retry_after hs io) = io_http_status io"
  by (induction hs io rule: scan_retry_after.induct) (auto split: option.splits)

lemma attempt_on_body_keeps:
  assumes "keeps k (Some (sicha_stream_on_event rd cbs)) (\<lambda>(ctx, w). P ctx (obs w))"
    and "sse_wf k (io_sse io)" "P (io_sctx io) (obs w)"
    and "attempt_on_body rd cbs bs io w m = (rc, io', w', m')"
  shows "sse_wf k (io_sse io') \<and> P (io_sctx io') (obs w') \<and> io_stream io' = io_stream io
    \<and> (\<not> io_stream io \<longrightarrow> io_sctx io' = io_sctx io)"
proof (cases "io_stream io")
  case True
  obtain rc1 p1 s1 m1 where
    f: "sicha_sse_feed (Some (sicha_stream_on_event rd cbs)) (io_sse io) bs (io_sctx io, w) m
          = (rc1, p1, s1, m1)"
    by (metis prod_cases4)
  from sicha_sse_feed_keeps [OF assms(2,1) _ f] assms(3)
  have "sse_wf k p1 \<and> (case s1 of (ctx, w) \<Rightarrow> P ctx (obs w))" by simp
  with True f assms(4) show ?thesis
    by (auto simp: attempt_on_body_def Let_def split: prod.splits if_splits)
next
  case False
  with assms show ?thesis by (auto simp: attempt_on_body_def Let_def split: prod.splits)
qed

lemma run_transfer_keeps:
  assumes "keeps k (Some (sicha_stream_on_event rd cbs)) (\<lambda>(ctx, w). P ctx (obs w))"
  shows "quiet obs t x \<Longrightarrow> sse_wf k (io_sse io) \<Longrightarrow> P (io_sctx io) x \<Longrightarrow>
    run_transfer rd cbs t io m = (ts, io', w', m') \<Longrightarrow>
    sse_wf k (io_sse io') \<and> P (io_sctx io') (obs w') \<and> io_stream io' = io_stream io
    \<and> (\<not> io_stream io \<longrightarrow> io_sctx io' = io_sctx io)"
proof (induction t arbitrary: x io m)
  case (T_done ts w)
  then show ?case by auto
next
  case (T_status http hs w t)
  let ?io = "scan_retry_after hs (io\<lparr>io_http_status := http\<rparr>)"
  have q: "quiet obs (t (0, w)) (obs w)" using T_status.prems(1) by force
  have P: "P (io_sctx ?io) (obs w)" "sse_wf k (io_sse ?io)" using T_status.prems by auto
  have "run_transfer rd cbs (t (0, w)) ?io m = (ts, io', w', m')"
    using T_status.prems(4) by (simp add: attempt_on_status_def)
  from T_status.IH [OF rangeI q P(2,1) this] show ?case by simp
next
  case (T_body bs w t)
  obtain rc io1 w1 m1 where b: "attempt_on_body rd cbs bs io w m = (rc, io1, w1, m1)"
    by (metis prod_cases4)
  have P: "P (io_sctx io) (obs w)" using T_body.prems by simp
  note here = attempt_on_body_keeps [where P = P and obs = obs, OF assms T_body.prems(2) P b]
  have q: "quiet obs (t (rc, w1)) (obs w1)" using T_body.prems(1) by force
  have "run_transfer rd cbs (t (rc, w1)) io1 m1 = (ts, io', w', m')" using T_body.prems(4) b by simp
  from T_body.IH [OF rangeI q _ _ this] here show ?case by auto
qed

text \<open>The end of a response, for what is watched of a stream.\<close>

lemma finish_stream_keeps:
  assumes "keeps k (Some (sicha_stream_on_event rd cbs)) (\<lambda>(ctx, w). P ctx (obs w))"
    and "sse_wf k (io_sse io)" "P (io_sctx io) (obs w)"
    and "finish_stream rd cbs io out w m = (out', io', w', m')"
  shows "P (io_sctx io') (obs w') \<and> io_stream io' = io_stream io"
proof (cases "sc_done (io_sctx io)")
  case True
  with assms(3,4) show ?thesis by (simp add: finish_stream_def flush_stream_def)
next
  case False
  obtain rc1 p1 s1 m1 where
    f: "sicha_sse_finish (Some (sicha_stream_on_event rd cbs)) (io_sse io) (io_sctx io, w) m
          = (rc1, p1, s1, m1)"
    by (metis prod_cases4)
  obtain ctx1 w1 where s1: "s1 = (ctx1, w1)" by fastforce
  from sicha_sse_finish_keeps [OF assms(2,1) _ f] assms(3) have "P ctx1 (obs w1)" by (simp add: s1)
  moreover have "w' = w1 \<and> io' = io\<lparr>io_sse := p1, io_sctx := ctx1\<rparr>"
    using assms(4) False f by (simp add: finish_stream_def flush_stream_def s1)
  ultimately show ?thesis by simp
qed

lemma finish_body_keeps:
  assumes "finish_body rd io out m = (out', io', m')"
  shows "kept_part (sc_r (io_sctx io')) = kept_part (sc_r (io_sctx io)) \<and> io_stream io' = io_stream io
    \<and> sc_delivered (io_sctx io') = sc_delivered (io_sctx io)"
  using assms
  by (auto simp: finish_body_def Let_def split: prod.splits if_splits option.splits dest!: kept_parse)

lemma untangle_fields [simp]:
  "ao_http_status (untangle io out) = ao_http_status out"
  "ao_delivered (untangle io out) = ao_delivered out"
  by (auto simp: untangle_def Let_def)

text \<open>A round trip, for what is watched of a stream.\<close>

definition env_quiet :: "('w \<Rightarrow> 'o) \<Rightarrow> 'w client_env \<Rightarrow> bool" where
  "env_quiet obs env \<longleftrightarrow>
     (\<forall>w. obs (snd (env_now_ms env w)) = obs w)
     \<and> (\<forall>n w. obs (snd (env_wait_ms env n w)) = obs w)
     \<and> (\<forall>bs w. obs (env_log env bs w) = obs w)
     \<and> (\<forall>rq cancel w. quiet obs (env_perform env rq cancel w) (obs w))"

lemma env_quiet_unit: "env_quiet (\<lambda>_. ()) env"
  by (simp add: env_quiet_def quiet_unit)

lemma debug_quiet:
  assumes "env_quiet obs env"
  shows "obs (debug_request env c rq w) = obs w" "obs (debug_attempt env c a w) = obs w"
  using assms by (simp_all add: env_quiet_def debug_request_def debug_attempt_def)

lemma run_attempt_keeps:
  assumes q: "env_quiet obs env"
    and k: "keeps (c_max_event_bytes c) (Some (sicha_stream_on_event rd cbs)) (\<lambda>(ctx, w). P ctx (obs w))"
    and P: "P (sicha_stream_ctx_init r acc) (obs w)"
    and body: "\<not> stream \<Longrightarrow> (\<And>io out m out' io' m' x. P (io_sctx io) x \<Longrightarrow>
        finish_body rd io out m = (out', io', m') \<Longrightarrow> P (io_sctx io') x)"
    and run: "run_attempt rd env c b bd hs cbs r stream acc w m = (out, r', w', m')"
  obtains ctx where "P ctx (obs w')" "sc_r ctx = r'" "ao_delivered out = (stream \<and> sc_delivered ctx)"
proof -
  let ?rq = "chat_http_request b bd hs"
  let ?io = "attempt_io_init c r stream acc"
  let ?w = "debug_request env c ?rq w"
  obtain t0 w1 where t0: "env_now_ms env ?w = (t0, w1)" by fastforce
  obtain ts io w2 m2 where
    t: "run_transfer rd cbs (env_perform env ?rq (env_cancelled env \<noteq> None) w1) ?io m = (ts, io, w2, m2)"
    by (metis prod_cases4)
  obtain t1 w3 where t1: "env_now_ms env w2 = (t1, w3)" by fastforce
  have o1: "obs w1 = obs w" using q debug_quiet(1) [OF q] t0
    by (metis env_quiet_def snd_conv)
  have o3: "obs w3 = obs w2" using q t1 by (metis env_quiet_def snd_conv)
  have "quiet obs (env_perform env ?rq (env_cancelled env \<noteq> None) w1) (obs w)"
    using q o1 by (metis env_quiet_def)
  from run_transfer_keeps [where P = P, OF k this _ _ t] P
  have io: "sse_wf (c_max_event_bytes c) (io_sse io)" "P (io_sctx io) (obs w3)" "io_stream io = stream"
    by (simp_all add: attempt_io_init_def sse_wf_init o3)
  define out1 where "out1 = untangle io (outcome_start io ts (t1 - t0))"
  obtain out2 io2 w4 m4 where f: "finish_response rd cbs io out1 w3 m2 = (out2, io2, w4, m4)"
    by (metis prod_cases4)
  have run1: "r' = sc_r (io_sctx io2)" "w' = w4"
    "out = outcome_message ((attempt_excerpt io2 out2)\<lparr>ao_delivered := io_stream io2 \<and> sc_delivered (io_sctx io2)\<rparr>)"
    using run by (simp_all add: run_attempt_def Let_def t0 t t1 f out1_def [symmetric] del: not_None_eq)
  have "P (io_sctx io2) (obs w4) \<and> io_stream io2 = stream"
  proof (cases stream)
    case True
    then show ?thesis using f io finish_stream_keeps [where P = P and obs = obs, OF k io(1,2)]
      by (auto simp: finish_response_def split: if_splits)
  next
    case False
    then show ?thesis using f io body [OF False io(2)] finish_body_keeps
      by (fastforce simp: finish_response_def split: if_splits prod.splits)
  qed
  with run1 show thesis by (intro that [of "io_sctx io2"]) (auto simp: outcome_message_def)
qed

section \<open>One round trip\<close>

lemma on_event_keeps_part:
  "keeps k (Some (sicha_stream_on_event rd cbs)) (\<lambda>(ctx, w). kept_part (sc_r ctx) = x)"
proof -
  have "kept_part (sc_r (fst (fst (snd (sicha_stream_on_event rd cbs d (ctx, w) m))))) = kept_part (sc_r ctx)"
    for d ctx w m
    using kept_on_event by (cases "sicha_stream_on_event rd cbs d (ctx, w) m") fastforce
  then show ?thesis by (auto simp: keeps_def split_def)
qed

lemma run_attempt_kept:
  assumes "run_attempt rd env c b bd hs cbs r stream acc w m = (out, r', w', m')"
  shows "kept_part r' = kept_part r"
proof -
  let ?P = "\<lambda>ctx (_ :: unit). kept_part (sc_r ctx) = kept_part r"
  have P: "?P (sicha_stream_ctx_init r acc) ()" by (simp add: sicha_stream_ctx_init_def)
  show ?thesis
  proof (rule run_attempt_keeps [where P = ?P and obs = "\<lambda>_. ()", OF env_quiet_unit on_event_keeps_part P _ assms])
    fix io out m out' io' m' and x :: unit
    assume "?P (io_sctx io) x" "finish_body rd io out m = (out', io', m')"
    then show "?P (io_sctx io') x" using finish_body_keeps by simp
  qed auto
qed

text \<open>What a round trip does not touch, apart from its record.\<close>

lemma attempt_prepare_frame:
  assumes "attempt_prepare rd wr env c b req stream s = (st, s')"
  shows "ch_r s' = ch_r s \<and> ch_ordinal s' = ch_ordinal s \<and> ch_try s' = ch_try s
    \<and> ch_delivered s' = ch_delivered s \<and> ch_w s' = ch_w s \<and> ch_rng s' = ch_rng s
    \<and> counters s' = counters s"
  using assms
  by (auto simp: attempt_prepare_def prepare_body_def prepare_headers_def counters_def Let_def
      split: if_splits prod.splits)

lemma validate_attempt_cases:
  assumes "validate_attempt cbs r out0 cls0 w = (out, cls, w')"
  obtains (plain) "out = out0" "cls = cls0" "w' = w"
      "ao_terminal out0 = SICHA_OK \<and> cls = SICHA_CLASS_NONE \<longrightarrow> cb_of cbs cb_validate = None"
  | (accepted) f where "cb_of cbs cb_validate = Some f" "f r w = (0, w')" "out = out0"
      "cls = SICHA_CLASS_NONE" "cls0 = SICHA_CLASS_NONE" "ao_terminal out0 = SICHA_OK"
  | (rejected) f rc where "cb_of cbs cb_validate = Some f" "f r w = (rc, w')" "rc \<noteq> 0"
      "out = rejected_outcome r out0" "cls = SICHA_CLASS_VALIDATION" "cls0 = SICHA_CLASS_NONE"
      "ao_terminal out0 = SICHA_OK"
proof (cases "ao_terminal out0 = SICHA_OK \<and> cls0 = SICHA_CLASS_NONE")
  case False
  with assms show thesis by (intro plain) (auto simp: validate_attempt_def)
next
  case True
  show thesis
  proof (cases "cb_of cbs cb_validate")
    case None
    with True assms show thesis by (intro plain) (auto simp: validate_attempt_def)
  next
    case (Some f)
    obtain rc w1 where f: "f r w = (rc, w1)" by fastforce
    show thesis
    proof (cases "rc = 0")
      case True
      with Some f \<open>ao_terminal out0 = SICHA_OK \<and> cls0 = SICHA_CLASS_NONE\<close> assms show thesis
        by (intro accepted [of f]) (auto simp: validate_attempt_def)
    next
      case False
      with Some f True assms show thesis by (intro rejected [of f rc]) (auto simp: validate_attempt_def)
    qed
  qed
qed

lemma rejected_outcome_fields [simp]:
  "ao_terminal (rejected_outcome r out) = ao_terminal out" "ao_ts (rejected_outcome r out) = ao_ts out"
  "ao_delivered (rejected_outcome r out) = ao_delivered out"
  "ao_http_status (rejected_outcome r out) = ao_http_status out"
  "ao_retry_after_ms (rejected_outcome r out) = ao_retry_after_ms out"
  by (simp_all add: rejected_outcome_def outcome_borrow_excerpt_def)

lemma validate_attempt_fields:
  assumes "validate_attempt cbs r out0 cls0 w = (out, cls, w')"
  shows "ao_terminal out = ao_terminal out0 \<and> ao_delivered out = ao_delivered out0 \<and> ao_ts out = ao_ts out0
    \<and> ao_retry_after_ms out = ao_retry_after_ms out0 \<and> ao_http_status out = ao_http_status out0"
  using assms by (cases rule: validate_attempt_cases) auto

lemma attempt_run_cases:
  assumes "attempt_run rd env c i b req cbs stream s = (out, cls, s')"
  obtains out0 r w m w' where
    "run_attempt rd env c b (opt_bytes (ch_body s)) (case ch_headers s of None \<Rightarrow> [] | Some hs \<Rightarrow> hs) cbs
       ((sicha_result_reset_content (ch_r s))\<lparr>r_backend := int i\<rparr>) stream
       (rq_flags req AND SICHA_REQ_NO_ACCUMULATE = 0) (ch_w s) (ch_mem s) = (out0, r, w, m)"
    "validate_attempt cbs r out0 (outcome_class c out0 r) w = (out, cls, w')"
    "s' = s\<lparr>ch_r := r, ch_w := w', ch_mem := m, ch_delivered := ch_delivered s \<or> ao_delivered out0\<rparr>"
proof -
  obtain out0 r w m where r:
    "run_attempt rd env c b (opt_bytes (ch_body s)) (case ch_headers s of None \<Rightarrow> [] | Some hs \<Rightarrow> hs) cbs
       ((sicha_result_reset_content (ch_r s))\<lparr>r_backend := int i\<rparr>) stream
       (rq_flags req AND SICHA_REQ_NO_ACCUMULATE = 0) (ch_w s) (ch_mem s) = (out0, r, w, m)"
    by (metis prod_cases4)
  obtain out1 cls1 w1 where v: "validate_attempt cbs r out0 (outcome_class c out0 r) w = (out1, cls1, w1)"
    by (metis prod_cases3)
  show thesis using assms by (intro that [OF r v [THEN trans]]) (auto simp: attempt_run_def Let_def r v)
qed

text \<open>The record of a round trip.\<close>

definition stored :: "sicha_attempt \<Rightarrow> sicha_attempt" where
  "stored a =
     (let n = min SICHA_EXCERPT_MAX (if at_raw_body_excerpt a \<noteq> None then at_raw_body_excerpt_len a else 0)
      in a\<lparr>at_model := Some (cstr (opt_bytes (at_model a))), at_message := Some (cstr (opt_bytes (at_message a))),
           at_raw_body_excerpt := Some (take n (opt_bytes (at_raw_body_excerpt a))), at_raw_body_excerpt_len := n\<rparr>)"

lemma stored_fields [simp]:
  "at_attempt (stored a) = at_attempt a" "at_backend (stored a) = at_backend a"
  "at_try_of_backend (stored a) = at_try_of_backend a" "at_error_class (stored a) = at_error_class a"
  "at_http_status (stored a) = at_http_status a" "at_transport_status (stored a) = at_transport_status a"
  by (simp_all add: stored_def Let_def)

lemma add_attempt_cases:
  assumes "sicha_result_add_attempt r a m = (st, r', m')"
  shows "st = SICHA_OK \<and> (\<exists>cap. r' = r\<lparr>r_cap_attempts := cap, r_attempts := r_attempts r @ [stored a]\<rparr>)
    \<or> st = SICHA_E_NOMEM \<and> (\<exists>cap. r' = r\<lparr>r_cap_attempts := cap\<rparr>) \<and> \<not> all_ok m"
proof -
  define full where "full \<longleftrightarrow> of_nat (length (r_attempts r)) = r_cap_attempts r"
  obtain ok m0 where m0: "(if full then alloc m else (True, m)) = (ok, m0)" by fastforce
  define r1 where "r1 = (if full then r\<lparr>r_cap_attempts := if r_cap_attempts r = 0 then 4 else r_cap_attempts r * 2\<rparr> else r)"
  define elen where "elen = min SICHA_EXCERPT_MAX (if at_raw_body_excerpt a \<noteq> None then at_raw_body_excerpt_len a else 0)"
  have elen_eq: "(let e = (if at_raw_body_excerpt a \<noteq> None then at_raw_body_excerpt_len a else 0)
      in if SICHA_EXCERPT_MAX < e then SICHA_EXCERPT_MAX else e) = elen"
    by (simp add: elen_def Let_def min_def)
  obtain x m1 where 1: "dup_bytes (cstr (opt_bytes (at_model a))) m0 = (x, m1)" by fastforce
  obtain y m2 where 2: "dup_bytes (cstr (opt_bytes (at_message a))) m1 = (y, m2)" by fastforce
  obtain z m3 where 3: "dup_bytes (take elen (opt_bytes (at_raw_body_excerpt a))) m2 = (z, m3)" by fastforce
  have ok: "all_ok m \<Longrightarrow> ok \<and> all_ok m0" using m0 all_ok_alloc [of m ok m0] by (auto split: if_splits)
  have eq: "sicha_result_add_attempt r a m =
      (if \<not> ok then (SICHA_E_NOMEM, r, m0)
       else if x = None \<or> y = None \<or> z = None then (SICHA_E_NOMEM, r1, m3)
       else (SICHA_OK, r1\<lparr>r_attempts := r_attempts r1 @
               [a\<lparr>at_model := x, at_message := y, at_raw_body_excerpt := z, at_raw_body_excerpt_len := elen\<rparr>]\<rparr>, m3))"
    using elen_eq by (simp only: sicha_result_add_attempt_def Let_def full_def [symmetric] m0 prod.case
        r1_def [symmetric] 1 2 3)
  have r1: "\<exists>cap. r1 = r\<lparr>r_cap_attempts := cap\<rparr>" "r_attempts r1 = r_attempts r"
    unfolding r1_def by (auto intro: exI [of _ "r_cap_attempts r"])
  show ?thesis
  proof (cases "ok \<and> x \<noteq> None \<and> y \<noteq> None \<and> z \<noteq> None")
    case True
    then have "x = Some (cstr (opt_bytes (at_model a)))" "y = Some (cstr (opt_bytes (at_message a)))"
      "z = Some (take elen (opt_bytes (at_raw_body_excerpt a)))"
      using 1 2 3 dup_bytes_Some by fast+
    then have st: "a\<lparr>at_model := x, at_message := y, at_raw_body_excerpt := z, at_raw_body_excerpt_len := elen\<rparr> = stored a"
      by (simp add: stored_def Let_def elen_def)
    have "sicha_result_add_attempt r a m = (SICHA_OK, r1\<lparr>r_attempts := r_attempts r1 @ [stored a]\<rparr>, m3)"
      using True eq unfolding st by auto
    then have "st = SICHA_OK" "r' = r1\<lparr>r_attempts := r_attempts r1 @ [stored a]\<rparr>" using assms by simp_all
    moreover obtain cap where "r1 = r\<lparr>r_cap_attempts := cap\<rparr>" using r1(1) by blast
    ultimately show ?thesis by (intro disjI1 conjI exI [of _ cap]) simp_all
  next
    case False
    with ok 1 2 3 have "\<not> all_ok m"
      using dup_bytes_keeps_ok [OF 1] dup_bytes_keeps_ok [OF 2] dup_bytes_keeps_ok [OF 3] by blast
    moreover have "\<exists>cap. r = r\<lparr>r_cap_attempts := cap\<rparr>" by (intro exI [of _ "r_cap_attempts r"]) simp
    moreover have "st = SICHA_E_NOMEM \<and> (r' = r \<or> r' = r1)"
      using assms eq False by (simp split: if_splits)
    ultimately show ?thesis using r1(1) by metis
  qed
qed

lemma attempt_record_cases:
  assumes "attempt_record env c i b cbs out cls s = (st, s')"
  obtains (recorded) a cap m where "st = SICHA_OK" "a = stored (attempt_of i b out cls s)"
      "s' = s\<lparr>ch_r := (ch_r s)\<lparr>r_cap_attempts := cap, r_attempts := r_attempts (ch_r s) @ [a]\<rparr>,
              ch_mem := m, ch_ordinal := ch_ordinal s + 1, ch_try := ch_try s + 1,
              ch_w := (case cb_of cbs cb_on_attempt of None \<Rightarrow> debug_attempt env c a (ch_w s)
                       | Some f \<Rightarrow> f a (debug_attempt env c a (ch_w s)))\<rparr>"
  | (failed) cap m where "st = SICHA_E_NOMEM" "\<not> all_ok (ch_mem s)"
      "s' = s\<lparr>ch_r := (ch_r s)\<lparr>r_cap_attempts := cap\<rparr>, ch_mem := m, ch_ordinal := ch_ordinal s + 1,
              ch_try := ch_try s + 1\<rparr>"
proof -
  obtain st0 r m where r: "sicha_result_add_attempt (ch_r s) (attempt_of i b out cls s) (ch_mem s) = (st0, r, m)"
    by (metis prod_cases3)
  from add_attempt_cases [OF r] show thesis
  proof (elim disjE conjE exE)
    fix cap assume "st0 = SICHA_OK"
      "r = (ch_r s)\<lparr>r_cap_attempts := cap,
         r_attempts := r_attempts (ch_r s) @ [stored (attempt_of i b out cls s)]\<rparr>"
    with r assms show thesis
      by (intro recorded [OF _ refl]) (auto simp: attempt_record_def Let_def split: option.split)
  next
    fix cap assume "st0 = SICHA_E_NOMEM" "r = (ch_r s)\<lparr>r_cap_attempts := cap\<rparr>" "\<not> all_ok (ch_mem s)"
    with r assms show thesis by (intro failed) (auto simp: attempt_record_def Let_def)
  qed
qed

lemma attempt_decide_frame:
  assumes "attempt_decide env c b out cls s = (v, s')"
  shows "ch_r s' = ch_r s \<and> ch_ordinal s' = ch_ordinal s \<and> ch_try s' = ch_try s
    \<and> ch_delivered s' = ch_delivered s"
  using assms
  by (cases cls) (auto simp: attempt_decide_def Let_def split: if_splits prod.splits)

text \<open>The ways a round trip ends.\<close>

lemma attempt_step_cases:
  assumes "attempt_step rd wr env c i b req cbs stream s = (v, s')"
  obtains
    (unprepared) st where "attempt_prepare rd wr env c b req stream s = (st, s')" "st \<noteq> SICHA_OK"
      "v = Finish st"
  | (unrecorded) s1 out cls s2 st where "attempt_prepare rd wr env c b req stream s = (SICHA_OK, s1)"
      "attempt_run rd env c i b req cbs stream s1 = (out, cls, s2)"
      "attempt_record env c i b cbs out cls s2 = (st, s')" "st \<noteq> SICHA_OK" "v = Finish SICHA_E_NOMEM"
  | (no_memory) s1 out cls s2 where "attempt_prepare rd wr env c b req stream s = (SICHA_OK, s1)"
      "attempt_run rd env c i b req cbs stream s1 = (out, cls, s2)"
      "attempt_record env c i b cbs out cls s2 = (SICHA_OK, s')" "ao_terminal out = SICHA_E_NOMEM"
      "v = Finish SICHA_E_NOMEM"
  | (decided) s1 out cls s2 s3 where "attempt_prepare rd wr env c b req stream s = (SICHA_OK, s1)"
      "attempt_run rd env c i b req cbs stream s1 = (out, cls, s2)"
      "attempt_record env c i b cbs out cls s2 = (SICHA_OK, s3)" "ao_terminal out \<noteq> SICHA_E_NOMEM"
      "attempt_decide env c b out cls s3 = (v, s')"
proof -
  obtain st s1 where s1: "attempt_prepare rd wr env c b req stream s = (st, s1)"
    by (cases "attempt_prepare rd wr env c b req stream s")
  obtain out cls s2 where s2: "attempt_run rd env c i b req cbs stream s1 = (out, cls, s2)"
    using prod_cases3 by blast
  obtain st' s3 where s3: "attempt_record env c i b cbs out cls s2 = (st', s3)"
    by (cases "attempt_record env c i b cbs out cls s2")
  note eq = assms [unfolded attempt_step_def s1 Let_def prod.case s2 s3]
  show thesis
  proof (cases "st = SICHA_OK \<and> st' = SICHA_OK \<and> ao_terminal out \<noteq> SICHA_E_NOMEM")
    case True
    with eq s1 s2 s3 show thesis by (intro decided) auto
  next
    case False
    with eq s1 s2 s3 show thesis
      by (cases "st = SICHA_OK"; cases "st' = SICHA_OK")
        (auto intro: unprepared unrecorded no_memory)
  qed
qed

end
