(* ===== verification/Request_Utf8.thy ===== *)
theory Request_Utf8
  imports Request
begin

text \<open>
  \<open>sicha_utf8_valid\<close> against the definition of UTF-8: it accepts exactly the concatenations
  of encodings of Unicode scalar values.
\<close>

section \<open>UTF-8 against the encoding of code points\<close>

definition scalar_value :: "nat \<Rightarrow> bool" where
  "scalar_value n \<longleftrightarrow> n < 0xD800 \<or> 0xE000 \<le> n \<and> n < 0x110000"

definition utf8_encode :: "nat \<Rightarrow> bytes" where
  "utf8_encode n =
     (if n < 0x80 then [of_nat n]
      else if n < 0x800 then [of_nat (0xC0 + n div 64), of_nat (0x80 + n mod 64)]
      else if n < 0x10000 then
        [of_nat (0xE0 + n div 4096), of_nat (0x80 + n div 64 mod 64), of_nat (0x80 + n mod 64)]
      else
        [of_nat (0xF0 + n div 262144), of_nat (0x80 + n div 4096 mod 64),
         of_nat (0x80 + n div 64 mod 64), of_nat (0x80 + n mod 64)])"

lemma byte_and_C0: "(c :: byte) AND 0xC0 = push_bit 6 (drop_bit 6 c)"
proof (rule bit_word_eqI)
  fix n
  assume "n < LENGTH(8)"
  then have "n = 0 \<or> n = 1 \<or> n = 2 \<or> n = 3 \<or> n = 4 \<or> n = 5 \<or> n = 6 \<or> n = 7" by auto
  then show "bit (c AND 0xC0) n = bit (push_bit 6 (drop_bit 6 c)) n"
    by (auto simp: bit_simps)
qed

lemma byte_eq_nat: "(b :: byte) = c \<longleftrightarrow> unat b = unat c"
  by (simp add: unsigned_word_eqI word_eq_iff_unsigned)

definition cont :: "byte \<Rightarrow> bool" where
  "cont c \<longleftrightarrow> 0x80 \<le> unat c \<and> unat c < 0xC0"

lemma cont_byte: "c AND 0xC0 = 0x80 \<longleftrightarrow> cont c"
proof -
  have l: "unat c < 256" using unsigned_less [of c] by simp
  have "drop_bit 6 (c AND 0xC0) = drop_bit 6 c"
  proof (rule bit_word_eqI)
    fix n
    assume "n < LENGTH(8)"
    then have "n = 0 \<or> n = 1 \<or> 2 \<le> n" by auto
    then show "bit (drop_bit 6 (c AND 0xC0)) n = bit (drop_bit 6 c) n"
      by (auto simp: bit_simps dest: bit_imp_le_length)
  qed
  then have "(c AND 0xC0 = 0x80) \<longleftrightarrow> drop_bit 6 c = 2"
    by (auto simp: byte_and_C0)
  also have "\<dots> \<longleftrightarrow> unat (drop_bit 6 c) = 2" by (simp add: byte_eq_nat)
  also have "\<dots> \<longleftrightarrow> unat c div 64 = 2" by (simp add: drop_bit_eq_div unat_div)
  also have "\<dots> \<longleftrightarrow> cont c" unfolding cont_def by linarith
  finally show ?thesis .
qed

lemma byte_le: "(b :: byte) \<le> c \<longleftrightarrow> unat b \<le> unat c" "b < c \<longleftrightarrow> unat b < unat c"
  by (simp_all add: word_le_nat_alt word_less_nat_alt)

lemma byte_of_nat: "n < 256 \<Longrightarrow> unat (of_nat n :: byte) = n"
  by (simp add: unat_of_nat take_bit_eq_mod)

lemma byte_eqI: "unat (b :: byte) = n \<Longrightarrow> b = of_nat n"
  by auto

text \<open>One step of the scan, by the length of the sequence.\<close>

lemma utf8_scan_1: "unat b < 0x80 \<Longrightarrow> utf8_scan (b # q) = utf8_scan q"
  by (simp add: byte_le)

lemma utf8_scan_2:
  "0xC2 \<le> unat b \<Longrightarrow> unat b < 0xE0 \<Longrightarrow> utf8_scan (b # c # q) = (cont c \<and> utf8_scan q)"
  by (simp add: byte_le cont_byte)

lemma utf8_scan_3:
  "0xE0 \<le> unat b \<Longrightarrow> unat b < 0xF0 \<Longrightarrow> utf8_scan (b # c # d # q) =
     ((if unat b = 0xE0 then 0xA0 else 0x80) \<le> unat c \<and> unat c \<le> (if unat b = 0xED then 0x9F else 0xBF)
      \<and> cont d \<and> utf8_scan q)"
  by (auto simp: byte_le cont_byte byte_eq_nat [of b])

lemma utf8_scan_4:
  "0xF0 \<le> unat b \<Longrightarrow> unat b < 0xF5 \<Longrightarrow> utf8_scan (b # c # d # e # q) =
     ((if unat b = 0xF0 then 0x90 else 0x80) \<le> unat c \<and> unat c \<le> (if unat b = 0xF4 then 0x8F else 0xBF)
      \<and> cont d \<and> cont e \<and> utf8_scan q)"
  by (auto simp: byte_le cont_byte byte_eq_nat [of b])

lemma utf8_scan_encode:
  assumes "scalar_value n"
  shows "utf8_scan (utf8_encode n @ r) = utf8_scan r"
proof -
  consider "n < 0x80" | "0x80 \<le> n" "n < 0x800" | "0x800 \<le> n" "n < 0x10000"
    | "0x10000 \<le> n" "n < 0x110000" using assms by (force simp: scalar_value_def)
  then show ?thesis
  proof cases
    case 1
    then show ?thesis by (simp add: utf8_encode_def utf8_scan_1 byte_of_nat del: utf8_scan.simps)
  next
    case 2
    let ?b = "0xC0 + n div 64" and ?c = "0x80 + n mod 64"
    have "0xC2 \<le> ?b" "?b < 0xE0" "?c < 0xC0" using 2 by linarith+
    then have "utf8_scan (of_nat ?b # of_nat ?c # r) = utf8_scan r"
      by (subst utf8_scan_2) (simp_all add: byte_of_nat cont_def del: utf8_scan.simps of_nat_add)
    with 2 show ?thesis by (simp add: utf8_encode_def del: utf8_scan.simps of_nat_add)
  next
    case 3
    let ?b = "0xE0 + n div 4096" and ?c = "0x80 + n div 64 mod 64" and ?d = "0x80 + n mod 64"
    have b: "0xE0 \<le> ?b" "?b < 0xF0" "?c < 0xC0" "?d < 0xC0" using 3 by linarith+
    have q: "n div 4096 = n div 64 div 64" "32 \<le> n div 64" using 3 by (simp flip: div_mult2_eq, linarith)
    note e = div_mult_mod_eq [of "n div 64" 64]
    have "?b = 0xE0 \<Longrightarrow> 0xA0 \<le> ?c" using q e by linarith
    moreover have "?b = 0xED \<Longrightarrow> ?c \<le> 0x9F"
    proof -
      assume "?b = 0xED"
      then have "0xD000 \<le> n" "n < 0xE000" by linarith+
      with assms have "n < 0xD800" unfolding scalar_value_def by linarith
      then have "n div 64 < 0x360" by linarith
      with q(1) e \<open>?b = 0xED\<close> show "?c \<le> 0x9F" by linarith
    qed
    ultimately have "utf8_scan (of_nat ?b # of_nat ?c # of_nat ?d # r) = utf8_scan r"
      using b by (subst utf8_scan_3) (auto simp: byte_of_nat cont_def simp del: utf8_scan.simps of_nat_add)
    with 3 show ?thesis by (simp add: utf8_encode_def del: utf8_scan.simps of_nat_add)
  next
    case 4
    let ?b = "0xF0 + n div 262144" and ?c = "0x80 + n div 4096 mod 64"
      and ?d = "0x80 + n div 64 mod 64" and ?e = "0x80 + n mod 64"
    have b: "0xF0 \<le> ?b" "?b < 0xF5" "?c < 0xC0" "?d < 0xC0" "?e < 0xC0" using 4 by linarith+
    have q: "n div 262144 = n div 4096 div 64" by (simp flip: div_mult2_eq)
    have "16 \<le> n div 4096" "n div 4096 < 0x110" using 4 by linarith+
    note e = div_mult_mod_eq [of "n div 4096" 64]
    have "?b = 0xF0 \<Longrightarrow> 0x90 \<le> ?c" using q e \<open>16 \<le> n div 4096\<close> by linarith
    moreover have "?b = 0xF4 \<Longrightarrow> ?c \<le> 0x8F" using q e \<open>n div 4096 < 0x110\<close> by linarith
    ultimately have "utf8_scan (of_nat ?b # of_nat ?c # of_nat ?d # of_nat ?e # r) = utf8_scan r"
      using b by (subst utf8_scan_4) (auto simp: byte_of_nat cont_def simp del: utf8_scan.simps of_nat_add)
    with 4 show ?thesis by (simp add: utf8_encode_def del: utf8_scan.simps of_nat_add)
  qed
qed

text \<open>The four shapes of a sequence that the scan accepts.\<close>

lemma utf8_scan_cases:
  assumes "utf8_scan (b # p)"
  obtains (one) "unat b < 0x80" "utf8_scan p"
  | (two) c q where "p = c # q" "0xC2 \<le> unat b" "unat b < 0xE0" "cont c" "utf8_scan q"
  | (three) c d q where "p = c # d # q" "0xE0 \<le> unat b" "unat b < 0xF0"
      "(if unat b = 0xE0 then 0xA0 else 0x80) \<le> unat c" "unat c \<le> (if unat b = 0xED then 0x9F else 0xBF)"
      "cont d" "utf8_scan q"
  | (four) c d e q where "p = c # d # e # q" "0xF0 \<le> unat b" "unat b < 0xF5"
      "(if unat b = 0xF0 then 0x90 else 0x80) \<le> unat c" "unat c \<le> (if unat b = 0xF4 then 0x8F else 0xBF)"
      "cont d" "cont e" "utf8_scan q"
proof -
  consider "unat b < 0x80" | "0x80 \<le> unat b" "unat b < 0xC2" | "0xC2 \<le> unat b" "unat b < 0xE0"
    | "0xE0 \<le> unat b" "unat b < 0xF0" | "0xF0 \<le> unat b" "unat b < 0xF5" | "0xF5 \<le> unat b"
    by linarith
  then show ?thesis
  proof cases
    case 1
    with assms one show ?thesis by (simp add: utf8_scan_1 del: utf8_scan.simps)
  next
    case 2
    with assms show ?thesis by (simp add: byte_le)
  next
    case 3
    show ?thesis
    proof (cases p)
      case Nil
      with assms 3 show ?thesis by (simp add: byte_le)
    next
      case (Cons c q)
      with assms 3 two show ?thesis by (simp add: utf8_scan_2 del: utf8_scan.simps)
    qed
  next
    case 4
    show ?thesis
    proof (cases "\<exists>c d q. p = c # d # q")
      case False
      then have "p = [] \<or> (\<exists>c. p = [c])" by (cases p rule: remdups_adj.cases) auto
      with assms 4 show ?thesis by (auto simp: byte_le)
    next
      case True
      then obtain c d q where "p = c # d # q" by blast
      with assms 4 three show ?thesis by (simp add: utf8_scan_3 del: utf8_scan.simps)
    qed
  next
    case 5
    show ?thesis
    proof (cases "\<exists>c d e q. p = c # d # e # q")
      case False
      then have "p = [] \<or> (\<exists>c. p = [c]) \<or> (\<exists>c d. p = [c, d])"
        by (metis list.exhaust)
      with assms 5 show ?thesis by (auto simp: byte_le)
    next
      case True
      then obtain c d e q where "p = c # d # e # q" by blast
      with assms 5 four show ?thesis by (simp add: utf8_scan_4 del: utf8_scan.simps)
    qed
  next
    case 6
    with assms show ?thesis by (simp add: byte_le)
  qed
qed

lemma of_nat_unat_byte: "n = unat (b :: byte) \<Longrightarrow> of_nat n = b"
  by simp

lemma div_mod_digits:
  fixes a c :: nat
  assumes "c < k"
  shows "(a * k + c) div k = a" "(a * k + c) mod k = c"
  using assms by simp_all

lemma utf8_decode_2:
  assumes "0xC2 \<le> unat b" "unat b < 0xE0" "cont c"
  shows "\<exists>n. scalar_value n \<and> utf8_encode n = [b, c]"
proof -
  define x y where "x = unat b - 0xC0" and "y = unat c - 0x80"
  then have xy: "unat b = 0xC0 + x" "unat c = 0x80 + y" "2 \<le> x" "x < 32" "y < 64"
    using assms by (auto simp: cont_def)
  let ?n = "x * 64 + y"
  have n: "0x80 \<le> ?n" "?n < 0x800" using xy by linarith+
  have b: "of_nat (0xC0 + x) = b" "of_nat (0x80 + y) = c" using xy by (metis of_nat_unat_byte)+
  have "utf8_encode ?n = [of_nat (0xC0 + x), of_nat (0x80 + y)]"
    using n xy(5) by (simp add: utf8_encode_def div_mod_digits del: of_nat_add)
  with n b show ?thesis by (intro exI [of _ ?n]) (simp add: scalar_value_def del: of_nat_add)
qed

lemma utf8_decode_3:
  assumes "0xE0 \<le> unat b" "unat b < 0xF0"
    "(if unat b = 0xE0 then 0xA0 else 0x80) \<le> unat c" "unat c \<le> (if unat b = 0xED then 0x9F else 0xBF)"
    "cont d"
  shows "\<exists>n. scalar_value n \<and> utf8_encode n = [b, c, d]"
proof -
  define x y z where "x = unat b - 0xE0" and "y = unat c - 0x80" and "z = unat d - 0x80"
  have c: "0x80 \<le> unat c" using assms(3) by (simp split: if_splits)
  with x_def y_def z_def have xy: "unat b = 0xE0 + x" "unat c = 0x80 + y" "unat d = 0x80 + z"
    "x < 16" "y < 64" "z < 64" "x = 0 \<longrightarrow> 32 \<le> y" "x = 13 \<longrightarrow> y < 32"
    using assms by (auto simp: cont_def split: if_splits)
  let ?n = "(x * 64 + y) * 64 + z"
  have n: "0x800 \<le> ?n" using xy(7) by (cases "x = 0") simp_all
  have "x \<le> 15" "y \<le> 63" "z \<le> 63" using xy(4-6) by linarith+
  then have n': "?n < 0x10000" by simp
  note n = n n'
  have "scalar_value ?n"
  proof (cases "x = 13")
    case True
    with xy have "?n < 0xD800" by simp
    then show ?thesis by (simp add: scalar_value_def)
  next
    case False
    then have "x \<le> 12 \<or> 14 \<le> x" by linarith
    then have "?n < 0xD800 \<or> 0xE000 \<le> ?n" using xy(5,6) by (elim disjE) simp_all
    with n show ?thesis unfolding scalar_value_def by linarith
  qed
  moreover have "?n div 4096 = x"
  proof -
    have "?n div 4096 = ?n div 64 div 64" by (simp flip: div_mult2_eq)
    also have "\<dots> = x" using xy(5,6) by (simp add: div_mod_digits del: div_mult_self3 div_mult_self4)
    finally show ?thesis .
  qed
  moreover have "of_nat (0xE0 + x) = b" "of_nat (0x80 + y) = c" "of_nat (0x80 + z) = d"
    using xy by (metis of_nat_unat_byte)+
  moreover have "?n div 64 mod 64 = y"
    using div_mod_digits(1) [OF xy(6), of "x * 64 + y"] div_mod_digits(2) [OF xy(5), of x] by metis
  moreover have "?n mod 64 = z" by (rule div_mod_digits(2) [OF xy(6)])
  ultimately show ?thesis
    using n by (intro exI [of _ ?n]) (simp add: utf8_encode_def del: of_nat_add)
qed

lemma utf8_decode_4:
  assumes "0xF0 \<le> unat b" "unat b < 0xF5"
    "(if unat b = 0xF0 then 0x90 else 0x80) \<le> unat c" "unat c \<le> (if unat b = 0xF4 then 0x8F else 0xBF)"
    "cont d" "cont e"
  shows "\<exists>n. scalar_value n \<and> utf8_encode n = [b, c, d, e]"
proof -
  define x y z u where "x = unat b - 0xF0" and "y = unat c - 0x80" and "z = unat d - 0x80"
    and "u = unat e - 0x80"
  have c: "0x80 \<le> unat c" using assms(3) by (simp split: if_splits)
  with x_def y_def z_def u_def have xy: "unat b = 0xF0 + x" "unat c = 0x80 + y" "unat d = 0x80 + z"
    "unat e = 0x80 + u" "x < 5" "y < 64" "z < 64" "u < 64" "x = 0 \<longrightarrow> 16 \<le> y" "x = 4 \<longrightarrow> y < 16"
    using assms by (auto simp: cont_def split: if_splits)
  let ?m = "(x * 64 + y) * 64 + z"
  let ?n = "?m * 64 + u"
  have n: "0x10000 \<le> ?n" using xy(9) by (cases "x = 0") simp_all
  have n': "?n < 0x110000" using xy(5-8,10) by (cases "x = 4") simp_all
  note n = n n'
  have m: "?n div 4096 = x * 64 + y"
  proof -
    have "?n div 4096 = ?n div 64 div 64" by (simp flip: div_mult2_eq)
    also have "?n div 64 = ?m" using xy(8) by (simp add: div_mod_digits)
    also have "?m div 64 = x * 64 + y" using xy(7) by (simp add: div_mod_digits)
    finally show ?thesis .
  qed
  have "?n div 262144 = x"
  proof -
    have "?n div 262144 = ?n div 4096 div 64" by (simp flip: div_mult2_eq)
    also have "\<dots> = x" unfolding m using xy(6) by (simp add: div_mod_digits)
    finally show ?thesis .
  qed
  moreover have "?n div 4096 mod 64 = y" unfolding m using xy(6) by (simp add: div_mod_digits)
  moreover have "?n div 64 mod 64 = z"
    using div_mod_digits(1) [OF xy(8), of ?m] div_mod_digits(2) [OF xy(7), of "x * 64 + y"] by metis
  moreover have "?n mod 64 = u" by (rule div_mod_digits(2) [OF xy(8)])
  moreover have "of_nat (0xF0 + x) = b" "of_nat (0x80 + y) = c" "of_nat (0x80 + z) = d"
    "of_nat (0x80 + u) = e"
    using xy by (metis of_nat_unat_byte)+
  ultimately show ?thesis
    using n by (intro exI [of _ ?n]) (simp add: utf8_encode_def scalar_value_def del: of_nat_add)
qed

lemma utf8_decode:
  assumes "utf8_scan (b # p)"
  obtains n q where "scalar_value n" "b # p = utf8_encode n @ q" "utf8_scan q" "length q < length (b # p)"
  using assms
proof (cases rule: utf8_scan_cases)
  case one
  then show ?thesis
    by (intro that [of "unat b" p]) (simp_all add: scalar_value_def utf8_encode_def)
next
  case (two c q)
  with utf8_decode_2 [OF two(2-4)] that show ?thesis by fastforce
next
  case (three c d q)
  with utf8_decode_3 [OF three(2-6)] that show ?thesis by fastforce
next
  case (four c d e q)
  with utf8_decode_4 [OF four(2-7)] that show ?thesis by fastforce
qed

lemma utf8_scan_iff:
  "utf8_scan bs \<longleftrightarrow> (\<exists>cps. (\<forall>n \<in> set cps. scalar_value n) \<and> bs = concat (map utf8_encode cps))"
proof
  show "utf8_scan bs \<Longrightarrow> \<exists>cps. (\<forall>n \<in> set cps. scalar_value n) \<and> bs = concat (map utf8_encode cps)"
  proof (induction "length bs" arbitrary: bs rule: less_induct)
    case less
    show ?case
    proof (cases bs)
      case Nil
      then show ?thesis by (intro exI [of _ "[]"]) simp
    next
      case (Cons b p)
      with less.prems obtain n q where n: "scalar_value n" "b # p = utf8_encode n @ q" "utf8_scan q"
        "length q < length (b # p)" by (auto elim: utf8_decode simp del: utf8_scan.simps)
      with less.hyps [of q] Cons obtain cps where "\<forall>n \<in> set cps. scalar_value n"
        "q = concat (map utf8_encode cps)" by auto
      with n Cons show ?thesis by (intro exI [of _ "n # cps"]) auto
    qed
  qed
next
  assume "\<exists>cps. (\<forall>n \<in> set cps. scalar_value n) \<and> bs = concat (map utf8_encode cps)"
  then obtain cps where c: "\<forall>n \<in> set cps. scalar_value n" "bs = concat (map utf8_encode cps)" by blast
  have "\<forall>n \<in> set cps. scalar_value n \<Longrightarrow> utf8_scan (concat (map utf8_encode cps))"
    by (induction cps) (simp_all add: utf8_scan_encode del: utf8_scan.simps(2))
  with c show "utf8_scan bs" by simp
qed

end
