(* ===== verification/Request_Headers.thy ===== *)
theory Request_Headers
  imports Request_Utf8
begin

text \<open>
  Header names, URLs, what an initialised backend promises (\<open>backend_wf\<close>), and the headers of
  a request: their bytes are safe, and the names the library sets are there once.
\<close>

section \<open>Header names\<close>

lemma sicha_header_name_eq_iff: "sicha_header_name_eq s t \<longleftrightarrow> map lower s = map lower t"
  by (induction s t rule: sicha_header_name_eq.induct) auto

section \<open>URLs\<close>

lemma prefix_ci_iff: "prefix_ci s prefix \<longleftrightarrow> length prefix \<le> length s \<and> map lower (take (length prefix) s) = prefix"
  by (induction s prefix rule: prefix_ci.induct) auto

lemma scheme_len_cases:
  obtains "scheme_len url = 0"
  | "scheme_len url = 8" "prefix_ci url (lit ''https://'')"
  | "scheme_len url = 7" "prefix_ci url (lit ''http://'')"
  by (cases "prefix_ci url (lit ''https://'')"; cases "prefix_ci url (lit ''http://'')")
    (simp_all add: scheme_len_def del: lit_simps)

lemma scheme_len_le: "scheme_len url \<le> length url"
  by (cases rule: scheme_len_cases [of url]) (auto simp: prefix_ci_iff simp del: lit_simps)

lemma trim_slashes_no_end: "trim_slashes s = [] \<or> last (trim_slashes s) \<noteq> 0x2F"
proof (cases "dropWhile (\<lambda>b. b = 0x2F) (rev s)")
  case Nil
  then show ?thesis by (simp add: trim_slashes_def)
next
  case (Cons b r)
  then have "b \<noteq> 0x2F" using hd_dropWhile [of "\<lambda>b. b = 0x2F" "rev s"] by simp
  with Cons show ?thesis by (simp add: trim_slashes_def)
qed

lemma trim_slashes_snoc: "trim_slashes (s @ [b]) = (if b = 0x2F then trim_slashes s else s @ [b])"
  by (simp add: trim_slashes_def)

lemma trim_slashes_eq: "\<exists>n. s = trim_slashes s @ replicate n 0x2F"
proof (induction s rule: rev_induct)
  case Nil
  then show ?case by (simp add: trim_slashes_def)
next
  case (snoc b s)
  then obtain n where n: "s = trim_slashes s @ replicate n 0x2F" by blast
  show ?case
  proof (cases "b = 0x2F")
    case True
    have "s @ [b] = trim_slashes s @ (replicate n 0x2F @ [0x2F])"
      using n True by (metis append.assoc)
    also have "replicate n 0x2F @ [0x2F] = (replicate (Suc n) 0x2F :: bytes)"
      by (simp add: replicate_append_same)
    also have "trim_slashes s = trim_slashes (s @ [b])" using True by (simp add: trim_slashes_snoc)
    finally show ?thesis by blast
  next
    case False
    then show ?thesis by (intro exI [of _ 0]) (simp add: trim_slashes_snoc)
  qed
qed

text \<open>A URL that was accepted: a scheme, a host that is not empty, and printable bytes.\<close>

definition url_ok :: "bytes \<Rightarrow> bool" where
  "url_ok url \<longleftrightarrow> scheme_len url \<noteq> 0 \<and> drop (scheme_len url) url \<noteq> []
     \<and> hd (drop (scheme_len url) url) \<noteq> 0x2F \<and> (\<forall>b \<in> set url. \<not> url_byte_bad b)"

lemma sicha_url_validate_iff:
  "sicha_url_validate url = SICHA_OK \<longleftrightarrow> (\<exists>u. url = Some u \<and> url_ok (cstr u))"
  by (cases url) (auto simp: sicha_url_validate_def url_ok_def Let_def)

lemma sicha_url_validate_cases: "sicha_url_validate url = SICHA_OK \<or> sicha_url_validate url = SICHA_E_INVALID_ARG"
  by (auto simp: sicha_url_validate_def Let_def split: option.split)

definition url_origin :: "bytes \<Rightarrow> bytes" where
  "url_origin url = take (scheme_len url) url @ takeWhile (\<lambda>b. b \<noteq> 0x2F) (drop (scheme_len url) url)"

text \<open>
  The origin of an accepted URL is a prefix of it, longer than the scheme, that ends where
  the path starts.
\<close>

lemma url_origin_prefix:
  assumes "url_ok url"
  shows "\<exists>path. url = url_origin url @ path \<and> (path = [] \<or> hd path = 0x2F)"
    and "scheme_len url < length (url_origin url)"
    and "0x2F \<notin> set (drop (scheme_len url) (url_origin url))"
proof -
  let ?s = "scheme_len url" and ?r = "drop (scheme_len url) url"
  have l: "length (take ?s url) = ?s" using scheme_len_le [of url] by simp
  have "url = take ?s url @ takeWhile (\<lambda>b. b \<noteq> 0x2F) ?r @ dropWhile (\<lambda>b. b \<noteq> 0x2F) ?r" by simp
  moreover have "dropWhile (\<lambda>b. b \<noteq> 0x2F) ?r = [] \<or> hd (dropWhile (\<lambda>b. b \<noteq> 0x2F) ?r) = 0x2F"
    by (metis (mono_tags, lifting) hd_dropWhile)
  ultimately show "\<exists>path. url = url_origin url @ path \<and> (path = [] \<or> hd path = 0x2F)"
    unfolding url_origin_def by (metis append.assoc)
  have "takeWhile (\<lambda>b. b \<noteq> 0x2F) ?r \<noteq> []"
    using assms by (cases ?r) (auto simp: url_ok_def)
  with l show "?s < length (url_origin url)" by (simp add: url_origin_def)
  show "0x2F \<notin> set (drop ?s (url_origin url))"
    using l by (auto simp: url_origin_def dest: set_takeWhileD)
qed

section \<open>Backends that were accepted\<close>

definition safe_value :: "bytes \<Rightarrow> bool" where
  "safe_value v \<longleftrightarrow> (\<forall>b \<in> set v. (0x20 \<le> b \<or> b = 0x09) \<and> b \<noteq> 0x7F)"

lemma value_bytes_ok_iff: "value_bytes_ok v \<longleftrightarrow> safe_value v"
  by (auto simp: value_bytes_ok_def safe_value_def not_less)

definition token :: "bytes \<Rightarrow> bool" where
  "token n \<longleftrightarrow> n \<noteq> [] \<and> (\<forall>b \<in> set n. is_token_char b)"

lemma sicha_header_validate_iff:
  "sicha_header_validate name value = SICHA_OK \<longleftrightarrow>
     (\<exists>n v. name = Some n \<and> value = Some v \<and> token (cstr n) \<and> safe_value (cstr v))"
  by (auto simp: sicha_header_validate_def token_def value_bytes_ok_iff split: option.splits)

definition extra_ok :: "bool \<Rightarrow> sicha_header \<Rightarrow> bool" where
  "extra_ok have_key h \<longleftrightarrow>
     (\<exists>n v. hd_name h = Some n \<and> hd_value h = Some v \<and> token (cstr n) \<and> safe_value (cstr v)
        \<and> \<not> is_reserved_header (cstr n) have_key)"

lemma extra_headers_validate_iff:
  "extra_headers_validate hs have_key = SICHA_OK \<longleftrightarrow> (\<forall>h \<in> set hs. extra_ok have_key h)"
proof (induction hs)
  case Nil
  then show ?case by simp
next
  case (Cons h hs)
  then show ?case
    by (cases "sicha_header_validate (hd_name h) (hd_value h) = SICHA_OK")
      (auto simp: extra_ok_def sicha_header_validate_iff opt_bytes_def split: option.splits)
qed

text \<open>What a backend promises once it has been initialised.\<close>

definition backend_wf :: "json_reader \<Rightarrow> sicha_backend \<Rightarrow> bool" where
  "backend_wf rd b \<longleftrightarrow>
     (\<exists>base. b_base_url b = Some base \<and> url_ok base
        \<and> b_url_chat b = Some (trim_slashes base @ lit ''/chat/completions'')
        \<and> (b_url_abort b = None \<or> b_url_abort b = Some (url_origin base @ lit ''/api/extra/abort'')))
     \<and> (\<exists>model. b_model b = Some model \<and> model \<noteq> [] \<and> utf8_scan model \<and> cstr model = model)
     \<and> (\<forall>key. b_api_key b = Some key \<longrightarrow> key \<noteq> [] \<and> safe_value key \<and> cstr key = key)
     \<and> (\<forall>h \<in> set (b_extra_headers b). extra_ok (b_api_key b \<noteq> None) h)
     \<and> (\<forall>json. b_extra_body_json b = Some json \<longrightarrow> cstr json = json \<and> (\<exists>ms. rd json = Some (JObj ms)))
     \<and> connect_ms (b_timeouts b) \<noteq> 0 \<and> first_byte_ms (b_timeouts b) \<noteq> 0
     \<and> idle_ms (b_timeouts b) \<noteq> 0 \<and> total_ms (b_timeouts b) \<noteq> 0"

lemma timeouts_resolve_nonzero:
  "connect_ms (timeouts_resolve t) \<noteq> 0" "first_byte_ms (timeouts_resolve t) \<noteq> 0"
  "idle_ms (timeouts_resolve t) \<noteq> 0" "total_ms (timeouts_resolve t) \<noteq> 0"
  by (simp_all add: timeouts_resolve_def SICHA_DEFAULT_CONNECT_MS_def SICHA_DEFAULT_FIRST_BYTE_MS_def
      SICHA_DEFAULT_IDLE_MS_def SICHA_DEFAULT_TOTAL_MS_def)

lemma dup_cstr_Some: "dup_cstr s m = (Some t, m') \<Longrightarrow> t = cstr s"
  by (auto simp: dup_cstr_def split: prod.splits if_splits)

lemma dup_header_complete:
  assumes "dup_header n v m = (h, m')" "header_complete h"
  shows "h = \<lparr>hd_name = Some (cstr n), hd_value = Some (cstr v)\<rparr>"
proof -
  obtain n1 m1 v1 m2 where d: "dup_cstr n m = (n1, m1)" "dup_cstr v m1 = (v1, m2)" by fastforce
  with assms have h: "h = \<lparr>hd_name = n1, hd_value = v1\<rparr>" by (simp add: dup_header_def)
  with assms(2) obtain x y where "n1 = Some x" "v1 = Some y" by (auto simp: header_complete_def)
  with h d show ?thesis by (auto dest: dup_cstr_Some)
qed

definition copied :: "sicha_header \<Rightarrow> sicha_header" where
  "copied h = \<lparr>hd_name = Some (cstr (opt_bytes (hd_name h))), hd_value = Some (cstr (opt_bytes (hd_value h)))\<rparr>"

lemma copy_extra_headers_Some:
  "copy_extra_headers hs m = (Some hs', m') \<Longrightarrow> hs' = map copied hs"
proof (induction hs arbitrary: m hs' m')
  case Nil
  then show ?case by simp
next
  case (Cons h hs)
  obtain h1 m1 where d: "dup_header (opt_bytes (hd_name h)) (opt_bytes (hd_value h)) m = (h1, m1)" by fastforce
  with Cons.prems obtain hs1 where c: "header_complete h1" "copy_extra_headers hs m1 = (Some hs1, m')"
    "hs' = h1 # hs1" by (auto split: if_splits option.splits prod.splits)
  with Cons.IH [OF c(2)] dup_header_complete [OF d c(1)] show ?case by (simp add: copied_def)
qed

lemma extra_ok_copied: "extra_ok k h \<Longrightarrow> extra_ok k (copied h)"
  by (auto simp: extra_ok_def copied_def opt_bytes_def)

lemma validate_json_object_OK:
  "validate_json_object rd json m = (SICHA_OK, m') \<Longrightarrow> \<exists>ms. rd (cstr json) = Some (JObj ms)"
  by (auto simp: validate_json_object_def dest!: yyjson_read_Some elim!: yyjson_is_obj.elims
      split: prod.splits option.splits if_splits)

lemma backend_validate_OK:
  assumes "backend_validate rd desc m = (SICHA_OK, m')"
  shows "\<exists>url. d_base_url desc = Some url \<and> url_ok (cstr url)"
    "\<exists>model. d_model desc = Some model \<and> cstr model \<noteq> [] \<and> utf8_scan (cstr model)"
    "\<forall>key. d_api_key desc = Some key \<longrightarrow> cstr key \<noteq> [] \<and> safe_value (cstr key)"
    "\<forall>h \<in> set (extra_headers_of desc). extra_ok (d_api_key desc \<noteq> None) h"
    "\<forall>json. d_extra_body_json desc = Some json \<longrightarrow> (\<exists>ms. rd (cstr json) = Some (JObj ms))"
proof -
  note B = assms [unfolded backend_validate_def Let_def]
  show "\<exists>url. d_base_url desc = Some url \<and> url_ok (cstr url)"
    using B sicha_url_validate_iff [of "d_base_url desc"] by (auto split: if_splits)
  show "\<exists>model. d_model desc = Some model \<and> cstr model \<noteq> [] \<and> utf8_scan (cstr model)"
    using B by (cases "d_model desc") (auto simp: sicha_utf8_valid_def take_strlen split: if_splits)
  show "\<forall>key. d_api_key desc = Some key \<longrightarrow> cstr key \<noteq> [] \<and> safe_value (cstr key)"
    using B by (auto simp: value_bytes_ok_iff split: if_splits)
  have "extra_headers_validate (extra_headers_of desc) (d_api_key desc \<noteq> None) = SICHA_OK"
    using B by (auto split: if_splits)
  then show "\<forall>h \<in> set (extra_headers_of desc). extra_ok (d_api_key desc \<noteq> None) h"
    by (simp only: extra_headers_validate_iff)
  show "\<forall>json. d_extra_body_json desc = Some json \<longrightarrow> (\<exists>ms. rd (cstr json) = Some (JObj ms))"
    using B by (auto dest: validate_json_object_OK split: if_splits)
qed

lemma url_join_Some: "sicha_url_join b p m = (Some s, m') \<Longrightarrow> s = trim_slashes (cstr b) @ cstr p"
  by (auto simp: sicha_url_join_def split: prod.splits if_splits)

lemma url_origin_Some: "sicha_url_origin b m = (Some s, m') \<Longrightarrow> s = url_origin (cstr b)"
  by (auto simp: sicha_url_origin_def url_origin_def Let_def split: prod.splits if_splits)

lemma copy_opt_Some:
  "copy_opt s m = (Some t, m') \<Longrightarrow> \<exists>s'. s = Some s' \<and> t = cstr s'"
  "copy_opt s m = (t2, m') \<Longrightarrow> s = None \<Longrightarrow> t2 = None"
  by (auto simp: copy_opt_def dest: dup_cstr_Some split: option.splits)

lemma cstr_append: "0 \<notin> set s \<Longrightarrow> cstr (s @ t) = s @ cstr t"
  by (auto simp: cstr_def takeWhile_append)

lemma url_origin_no_nul: "0 \<notin> set (url_origin (cstr url))"
  using cstr_no_nul [of url]
  by (auto simp: url_origin_def dest!: in_set_takeD in_set_dropD set_takeWhileD)

lemma trim_slashes_origin:
  assumes "url_ok url"
  shows "trim_slashes (url_origin url) = url_origin url"
proof -
  let ?s = "scheme_len url"
  note O = url_origin_prefix [OF assms]
  have "drop ?s (url_origin url) \<noteq> []" using O(2) by simp
  then have "last (drop ?s (url_origin url)) \<in> set (drop ?s (url_origin url))" by (rule last_in_set)
  with O(2,3) have l: "last (url_origin url) \<noteq> 0x2F" by (auto simp: last_drop)
  have "url_origin url \<noteq> []" using O(2) by auto
  then obtain t b where t: "url_origin url = t @ [b]" by (metis rev_exhaust)
  with l show ?thesis by (simp add: trim_slashes_snoc)
qed

lemma abort_url_Some:
  assumes "abort_url desc m = (Some s, m')" "d_base_url desc = Some url" "url_ok (cstr url)"
  shows "s = url_origin (cstr url) @ lit ''/api/extra/abort''"
proof -
  obtain orig m1 where o: "sicha_url_origin url m = (orig, m1)" by fastforce
  with assms obtain o' where o': "orig = Some o'" "sicha_url_join o' (lit ''/api/extra/abort'') m1 = (Some s, m')"
    by (auto simp: abort_url_def opt_bytes_def split: option.splits)
  with o have e: "o' = url_origin (cstr url)" by (auto dest: url_origin_Some)
  have "cstr o' = o'" using url_origin_no_nul e by (simp add: cstr_id)
  moreover have "cstr (lit ''/api/extra/abort'') = lit ''/api/extra/abort''" by (simp add: cstr_def)
  ultimately show ?thesis using url_join_Some [OF o'(2)] e trim_slashes_origin [OF assms(3)] by metis
qed

lemma sicha_backend_init_OK:
  assumes "sicha_backend_init rd desc m = (SICHA_OK, b, m')"
  shows "\<exists>m1. backend_validate rd desc m = (SICHA_OK, m1)"
    "b_base_url b = Some (cstr (opt_bytes (d_base_url desc)))"
    "b_url_chat b = Some (trim_slashes (cstr (opt_bytes (d_base_url desc))) @ lit ''/chat/completions'')"
    "b_model b = Some (cstr (opt_bytes (d_model desc)))"
    "b_api_key b = map_option cstr (d_api_key desc)"
    "b_extra_body_json b = map_option cstr (d_extra_body_json desc)"
    "b_extra_headers b = map copied (extra_headers_of desc)"
    "b_timeouts b = timeouts_resolve (d_timeouts desc)" "b_flags b = d_flags desc"
    "\<exists>ma mb. (if d_flags desc AND SICHA_BACKEND_KOBOLD_CANCEL_ASSIST \<noteq> 0
       then abort_url desc ma else (None, ma)) = (b_url_abort b, mb)"
    "d_flags desc AND SICHA_BACKEND_KOBOLD_CANCEL_ASSIST \<noteq> 0 \<longleftrightarrow> b_url_abort b \<noteq> None"
proof -
  let ?url = "opt_bytes (d_base_url desc)"
  let ?assist = "d_flags desc AND SICHA_BACKEND_KOBOLD_CANCEL_ASSIST \<noteq> 0"
  obtain st m0 where v: "backend_validate rd desc m = (st, m0)" by fastforce
  obtain base m1 where b: "dup_cstr ?url m0 = (base, m1)" by fastforce
  obtain chat m2 where c: "(if base = None then (None, m1)
    else sicha_url_join ?url (lit ''/chat/completions'') m1) = (chat, m2)" by fastforce
  obtain model m3 where d: "dup_cstr (opt_bytes (d_model desc)) m2 = (model, m3)" by fastforce
  obtain key m4 where k: "copy_opt (d_api_key desc) m3 = (key, m4)" by fastforce
  obtain eb m5 where e: "copy_opt (d_extra_body_json desc) m4 = (eb, m5)" by fastforce
  obtain abort m6 where a: "(if ?assist then abort_url desc m5 else (None, m5)) = (abort, m6)" by fastforce
  obtain ok m7 where o: "(if 0 < d_n_extra_headers desc then alloc m6 else (True, m6)) = (ok, m7)"
    by fastforce
  obtain extra m8 where x: "(if ok then copy_extra_headers (extra_headers_of desc) m7 else (None, m7))
    = (extra, m8)" by fastforce
  note A = assms [unfolded sicha_backend_init_def Let_def v b c d k e a o x prod.case]
  have st: "st = SICHA_OK" using A by (auto split: if_splits)
  have na: "\<not> (?assist \<and> abort = None)" using A st by (auto split: if_splits)
  obtain hs where hs: "extra = Some hs" using A st na by (auto split: option.splits if_splits)
  have F: "base \<noteq> None" "chat \<noteq> None" "model \<noteq> None" "d_api_key desc \<noteq> None \<longrightarrow> key \<noteq> None"
    "d_extra_body_json desc \<noteq> None \<longrightarrow> eb \<noteq> None"
    using A st na hs by (auto split: if_splits)
  have B: "b = \<lparr>b_base_url = base, b_url_chat = chat, b_url_abort = abort, b_api_key = key,
      b_model = model, b_extra_headers = hs, b_extra_body_json = eb,
      b_timeouts = timeouts_resolve (d_timeouts desc), b_flags = d_flags desc\<rparr>"
    using A st na hs F by (auto split: if_splits)
  show "\<exists>m1. backend_validate rd desc m = (SICHA_OK, m1)" using v st by blast
  show "b_base_url b = Some (cstr ?url)" using B F(1) b by (auto dest: dup_cstr_Some)
  show "b_url_chat b = Some (trim_slashes (cstr ?url) @ lit ''/chat/completions'')"
    using B F(1,2) c by (auto dest!: url_join_Some simp: cstr_def)
  show "b_model b = Some (cstr (opt_bytes (d_model desc)))" using B F(3) d by (auto dest: dup_cstr_Some)
  show "b_api_key b = map_option cstr (d_api_key desc)"
    using B F(4) k copy_opt_Some [of "d_api_key desc"] by (cases "d_api_key desc"; cases key) auto
  show "b_extra_body_json b = map_option cstr (d_extra_body_json desc)"
    using B F(5) e copy_opt_Some [of "d_extra_body_json desc"] by (cases "d_extra_body_json desc"; cases eb) auto
  show "b_extra_headers b = map copied (extra_headers_of desc)"
    using B hs x by (auto dest: copy_extra_headers_Some split: if_splits)
  show "b_timeouts b = timeouts_resolve (d_timeouts desc)" "b_flags b = d_flags desc" using B by auto
  show "\<exists>ma mb. (if ?assist then abort_url desc ma else (None, ma)) = (b_url_abort b, mb)"
    by (intro exI [of _ m5] exI [of _ m6]) (simp add: a B)
  show "?assist \<longleftrightarrow> b_url_abort b \<noteq> None" using a B na by (auto split: if_splits)
qed

lemma sicha_backend_init_wf:
  assumes "sicha_backend_init rd desc m = (SICHA_OK, b, m')"
  shows "backend_wf rd b"
proof -
  note I = sicha_backend_init_OK [OF assms]
  from I(1) obtain m1 where v: "backend_validate rd desc m = (SICHA_OK, m1)" by blast
  note V = backend_validate_OK [OF v]
  from V(1) obtain url where url: "d_base_url desc = Some url" "url_ok (cstr url)" by blast
  from V(2) obtain model where model: "d_model desc = Some model" "cstr model \<noteq> []"
    "utf8_scan (cstr model)" by blast
  have "b_url_abort b = None \<or> b_url_abort b = Some (url_origin (cstr url) @ lit ''/api/extra/abort'')"
    using I(10) url abort_url_Some by (cases "b_url_abort b") (auto split: if_splits simp del: lit_simps)
  then have 1: "\<exists>base. b_base_url b = Some base \<and> url_ok base
      \<and> b_url_chat b = Some (trim_slashes base @ lit ''/chat/completions'')
      \<and> (b_url_abort b = None \<or> b_url_abort b = Some (url_origin base @ lit ''/api/extra/abort''))"
    using I(2,3) url by (auto simp: opt_bytes_def simp del: lit_simps)
  have 2: "\<exists>model. b_model b = Some model \<and> model \<noteq> [] \<and> utf8_scan model \<and> cstr model = model"
    using I(4) model by (simp add: opt_bytes_def)
  have 3: "\<forall>key. b_api_key b = Some key \<longrightarrow> key \<noteq> [] \<and> safe_value key \<and> cstr key = key"
    using I(5) V(3) by auto
  have 4: "\<forall>h \<in> set (b_extra_headers b). extra_ok (b_api_key b \<noteq> None) h"
    using I(5,7) V(4) extra_ok_copied by auto
  have 5: "\<forall>json. b_extra_body_json b = Some json \<longrightarrow> cstr json = json \<and> (\<exists>ms. rd json = Some (JObj ms))"
    using I(6) V(5) by auto
  from 1 2 3 4 5 show ?thesis by (simp add: backend_wf_def I(8) timeouts_resolve_nonzero del: lit_simps)
qed

section \<open>The headers of a request\<close>

definition header :: "bytes \<Rightarrow> bytes \<Rightarrow> sicha_header" where
  "header n v = \<lparr>hd_name = Some n, hd_value = Some v\<rparr>"

definition generated_headers :: "sicha_backend \<Rightarrow> bool \<Rightarrow> bytes \<Rightarrow> sicha_header list" where
  "generated_headers b stream user_agent =
     [header (lit ''Content-Type'') (lit ''application/json''),
      header (lit ''Accept'') (if stream then lit ''text/event-stream'' else lit ''application/json''),
      header (lit ''User-Agent'') (cstr user_agent)]
     @ (case b_api_key b of None \<Rightarrow> []
        | Some key \<Rightarrow> [header (lit ''Authorization'') (lit ''Bearer '' @ cstr key)])"

lemma dup_headers_complete:
  "dup_headers hs m = (hs', m') \<Longrightarrow> \<forall>h \<in> set hs'. header_complete h \<Longrightarrow> hs' = map copied hs"
proof (induction hs arbitrary: m hs' m')
  case Nil
  then show ?case by simp
next
  case (Cons h hs)
  obtain h1 m1 where d: "dup_header (opt_bytes (hd_name h)) (opt_bytes (hd_value h)) m = (h1, m1)" by fastforce
  obtain hs1 m2 where r: "dup_headers hs m1 = (hs1, m2)" by fastforce
  with d Cons.prems have e: "hs' = h1 # hs1" "header_complete h1" "\<forall>h \<in> set hs1. header_complete h"
    by auto
  with Cons.IH [OF r e(3)] dup_header_complete [OF d e(2)] show ?case by (simp add: copied_def)
qed

lemma auth_header_complete:
  assumes "auth_header key m = (h, m')" "header_complete h"
  shows "h = header (lit ''Authorization'') (lit ''Bearer '' @ cstr key)"
proof -
  obtain n m2 where d: "dup_cstr (lit ''Authorization'') (snd (alloc m)) = (n, m2)" by fastforce
  with assms show ?thesis
    by (cases "alloc m") (auto simp: auth_header_def header_complete_def header_def cstr_def
        dest!: dup_cstr_Some split: if_splits)
qed

lemma sicha_build_headers_cases:
  assumes "sicha_build_headers b stream ua m = (st, hs, m')"
  shows "st = SICHA_OK \<and> hs = Some (generated_headers b stream ua @ map copied (b_extra_headers b))
    \<or> st = SICHA_E_NOMEM \<and> hs = None"
proof -
  obtain ok m0 where o: "alloc m = (ok, m0)" by fastforce
  obtain h1 m1 where 1: "dup_header (lit ''Content-Type'') (lit ''application/json'') m0 = (h1, m1)" by fastforce
  obtain h2 m2 where 2: "dup_header (lit ''Accept'')
      (if stream then lit ''text/event-stream'' else lit ''application/json'') m1 = (h2, m2)" by fastforce
  obtain h3 m3 where 3: "dup_header (lit ''User-Agent'') ua m2 = (h3, m3)" by fastforce
  obtain auth m4 where 4: "(case b_api_key b of None \<Rightarrow> ([], m3)
      | Some key \<Rightarrow> let (h, m) = auth_header key m3 in ([h], m)) = (auth, m4)" by fastforce
  obtain extra m5 where 5: "dup_headers (b_extra_headers b) m4 = (extra, m5)" by fastforce
  let ?hs = "[h1, h2, h3] @ auth @ extra"
  define P where "P \<longleftrightarrow> (\<forall>h \<in> set ?hs. header_complete h)"
  note A = assms [unfolded sicha_build_headers_def Let_def o 1 2 3 5 prod.case 4 [unfolded Let_def] 5,
      folded P_def]
  show ?thesis
  proof (cases "ok \<and> P")
    case False
    with A show ?thesis by (auto split: if_splits)
  next
    case OK: True
    then have True: "\<forall>h \<in> set ?hs. header_complete h" by (simp add: P_def)
    then have c: "header_complete h1" "header_complete h2" "header_complete h3"
      "\<forall>h \<in> set auth. header_complete h" "\<forall>h \<in> set extra. header_complete h" by auto
    have "auth = (case b_api_key b of None \<Rightarrow> []
        | Some key \<Rightarrow> [header (lit ''Authorization'') (lit ''Bearer '' @ cstr key)])"
      using 4 c(4) by (auto dest!: auth_header_complete split: option.splits prod.splits simp del: lit_simps)
    then have "?hs = generated_headers b stream ua @ map copied (b_extra_headers b)"
      using dup_header_complete [OF 1 c(1)] dup_header_complete [OF 2 c(2)]
        dup_header_complete [OF 3 c(3)] dup_headers_complete [OF 5 c(5)]
      by (simp add: generated_headers_def header_def cstr_def)
    with A OK show ?thesis by (auto split: if_splits)
  qed
qed

definition named :: "bytes \<Rightarrow> sicha_header \<Rightarrow> bool" where
  "named r h \<longleftrightarrow> sicha_header_name_eq (opt_bytes (hd_name h)) r"

lemma header_sel [simp]: "hd_name (header n v) = Some n" "hd_value (header n v) = Some v"
  by (simp_all add: header_def)

lemma named_header: "named r (header n v) = (map lower n = map lower r)"
  by (simp add: named_def opt_bytes_def sicha_header_name_eq_iff)

lemma token_lits:
  "token (lit ''Content-Type'')" "token (lit ''Accept'')" "token (lit ''User-Agent'')"
  "token (lit ''Authorization'')"
  by (simp_all add: token_def is_token_char_def)

lemma safe_value_lits:
  "safe_value (lit ''application/json'')" "safe_value (lit ''text/event-stream'')"
  "safe_value (lit ''Bearer '')"
  by (simp_all add: safe_value_def)

lemma safe_value_append [simp]: "safe_value (s @ t) \<longleftrightarrow> safe_value s \<and> safe_value t"
  by (auto simp: safe_value_def)

definition header_safe :: "sicha_header \<Rightarrow> bool" where
  "header_safe h \<longleftrightarrow> (\<exists>n v. h = header n v \<and> token n \<and> safe_value v)"

lemma copied_safe: "extra_ok k h \<Longrightarrow> header_safe (copied h)"
  by (auto simp: extra_ok_def header_safe_def copied_def header_def opt_bytes_def)

lemma generated_safe:
  assumes "backend_wf rd b" "safe_value (cstr ua)"
  shows "\<forall>h \<in> set (generated_headers b stream ua). header_safe h"
proof -
  have s: "header_safe (header n v)" if "token n" "safe_value v" for n v
    using that by (auto simp: header_safe_def)
  have "safe_value (cstr key)" if "b_api_key b = Some key" for key
    using assms(1) that by (auto simp: backend_wf_def)
  then show ?thesis
    using assms(2) token_lits safe_value_lits
    by (auto simp: generated_headers_def simp del: lit_simps intro!: s split: option.splits)
qed

lemma build_headers_safe:
  assumes "backend_wf rd b" "safe_value (cstr ua)"
    "sicha_build_headers b stream ua m = (SICHA_OK, Some hs, m')"
  shows "\<forall>h \<in> set hs. header_safe h"
proof -
  have hs: "hs = generated_headers b stream ua @ map copied (b_extra_headers b)"
    using sicha_build_headers_cases [OF assms(3)] by auto
  moreover have "\<forall>h \<in> set (b_extra_headers b). header_safe (copied h)"
    using assms(1) copied_safe by (auto simp: backend_wf_def)
  ultimately show ?thesis using generated_safe [OF assms(1,2)] by auto
qed

text \<open>The names the library sets itself.\<close>

definition own_names :: "sicha_backend \<Rightarrow> bytes list" where
  "own_names b = [lit ''Content-Type'', lit ''Accept'', lit ''User-Agent'']
     @ (if b_api_key b = None then [] else [lit ''Authorization''])"

definition framing_names :: "bytes list" where
  "framing_names = [lit ''Content-Length'', lit ''Host'', lit ''Transfer-Encoding'']"

lemma reserved_names:
  assumes "extra_ok (b_api_key b \<noteq> None) h" "r \<in> set (own_names b @ framing_names)"
  shows "\<not> named r (copied h)"
  using assms by (auto simp: extra_ok_def is_reserved_header_def own_names_def framing_names_def named_def
      copied_def opt_bytes_def simp del: lit_simps split: if_splits)

lemma filter_copied:
  assumes "backend_wf rd b" "r \<in> set (own_names b @ framing_names)"
  shows "filter (named r) (map copied (b_extra_headers b)) = []"
  using assms reserved_names by (auto simp: backend_wf_def filter_empty_conv)

lemma count_generated:
  assumes "r \<in> set (own_names b)"
  shows "length (filter (named r) (generated_headers b stream ua)) = 1"
  using assms
  by (cases "b_api_key b") (auto simp: own_names_def generated_headers_def named_header lower_def)

lemma count_framing:
  assumes "r \<in> set framing_names"
  shows "filter (named r) (generated_headers b stream ua) = []"
  using assms
  by (cases "b_api_key b") (auto simp: framing_names_def generated_headers_def named_header lower_def)

lemma build_headers_unique:
  assumes "backend_wf rd b" "sicha_build_headers b stream ua m = (SICHA_OK, Some hs, m')"
  shows "\<forall>r \<in> set (own_names b). length (filter (named r) hs) = 1"
    and "\<forall>r \<in> set framing_names. filter (named r) hs = []"
proof -
  have hs: "hs = generated_headers b stream ua @ map copied (b_extra_headers b)"
    using sicha_build_headers_cases [OF assms(2)] by auto
  show "\<forall>r \<in> set (own_names b). length (filter (named r) hs) = 1"
  proof
    fix r assume r: "r \<in> set (own_names b)"
    with filter_copied [OF assms(1), of r] count_generated [OF r]
    show "length (filter (named r) hs) = 1" by (simp add: hs)
  qed
  show "\<forall>r \<in> set framing_names. filter (named r) hs = []"
  proof
    fix r assume r: "r \<in> set framing_names"
    with filter_copied [OF assms(1), of r] count_framing [OF r]
    show "filter (named r) hs = []" by (simp add: hs)
  qed
qed

text \<open>The API key shows in no header but Authorization.\<close>

lemma generated_key:
  "filter (\<lambda>h. \<not> named (lit ''Authorization'') h) (generated_headers (b\<lparr>b_api_key := k\<rparr>) stream ua)
   = filter (\<lambda>h. \<not> named (lit ''Authorization'') h) (generated_headers (b\<lparr>b_api_key := k'\<rparr>) stream ua)"
  by (cases k; cases k') (simp_all add: generated_headers_def named_header lower_def)

lemma build_headers_key:
  assumes "sicha_build_headers (b\<lparr>b_api_key := k\<rparr>) stream ua m = (SICHA_OK, Some hs, m1)"
    "sicha_build_headers (b\<lparr>b_api_key := k'\<rparr>) stream ua m' = (SICHA_OK, Some hs', m2)"
  shows "filter (\<lambda>h. \<not> named (lit ''Authorization'') h) hs = filter (\<lambda>h. \<not> named (lit ''Authorization'') h) hs'"
  using sicha_build_headers_cases [OF assms(1)] sicha_build_headers_cases [OF assms(2)]
    generated_key [where b = b and k = k and k' = k' and stream = stream and ua = ua] by auto


end
