(* ===== verification/Request_Body.thy ===== *)
theory Request_Body
  imports Request_Headers "HOL-Library.Sublist"
begin

text \<open>
  The body of a request: which members its root has (\<open>chat_root\<close>), that no key is there twice,
  that the extra body wins, and that the body of a request that was accepted can be written.
\<close>

section \<open>The body of a request\<close>

text \<open>
  \<open>builds f v\<close>: if the build succeeds, then with the value \<open>v\<close>; and it fails only if an
  allocation fails.
\<close>

definition builds :: "'a build \<Rightarrow> 'a \<Rightarrow> bool" where
  "builds f v \<longleftrightarrow> (\<forall>m. case f m of
      (Inr v', m') \<Rightarrow> v' = v \<and> (all_ok m \<longrightarrow> all_ok m')
    | (Inl e, m') \<Rightarrow> \<not> all_ok m \<and> (e = SICHA_E_NOMEM \<or> e = SICHA_E_INVALID_ARG))"

lemma buildsD: "builds f v \<Longrightarrow> case f m of
      (Inr v', m') \<Rightarrow> v' = v \<and> (all_ok m \<longrightarrow> all_ok m')
    | (Inl e, m') \<Rightarrow> \<not> all_ok m \<and> (e = SICHA_E_NOMEM \<or> e = SICHA_E_INVALID_ARG)"
  unfolding builds_def by (rule spec)

lemma builds_ret [builds_intros]: "builds (ret v) v"
  by (simp add: builds_def ret_def)

lemma builds_new [builds_intros]: "builds (mut_new v) v"
  by (auto simp: builds_def mut_new_def dest: all_ok_alloc split: prod.split)

lemma builds_then: "builds f v \<Longrightarrow> builds (g v) w \<Longrightarrow> builds (and_then f g) w"
  by (fastforce simp: builds_def and_then_def split: prod.splits sum.splits)

lemma builds_add [builds_intros]: "builds (yyjson_mut_obj_add ms k v) (ms @ [(k, v)])"
  unfolding yyjson_mut_obj_add_def by (rule builds_new)

lemma builds_add_if [builds_intros]: "builds (add_if c k v ms) (ms @ (if c then [(lit k, v)] else []))"
  using builds_add [of ms "lit k" v] builds_ret [of ms] by (simp add: add_if_def del: lit_simps)

lemma builds_import:
  assumes "rd (cstr json) = Some v" "if obj then yyjson_is_obj v else yyjson_is_arr v"
  shows "builds (import_json rd json obj) v"
  unfolding builds_def
proof
  fix m
  obtain r m1 where y: "yyjson_read rd (cstr json) m = (r, m1)" by fastforce
  show "case import_json rd json obj m of
      (Inr v', m') \<Rightarrow> v' = v \<and> (all_ok m \<longrightarrow> all_ok m')
    | (Inl e, m') \<Rightarrow> \<not> all_ok m \<and> (e = SICHA_E_NOMEM \<or> e = SICHA_E_INVALID_ARG)"
  proof (cases r)
    case None
    with y assms(1) yyjson_read_fails [of rd "cstr json" m m1] show ?thesis by (simp add: import_json_def)
  next
    case (Some v')
    with y assms(1) have v: "v' = v" by (simp add: yyjson_read_Some)
    have m1: "all_ok m \<longrightarrow> all_ok m1" using yyjson_read_ok [of m rd "cstr json"] y by auto
    have "builds (mut_new v) v" by (rule builds_new)
    then have N: "case mut_new v m1 of
        (Inr v', m') \<Rightarrow> v' = v \<and> (all_ok m1 \<longrightarrow> all_ok m')
      | (Inl e, m') \<Rightarrow> \<not> all_ok m1 \<and> (e = SICHA_E_NOMEM \<or> e = SICHA_E_INVALID_ARG)"
      by (simp add: builds_def)
    have "import_json rd json obj m = mut_new v m1"
      using y Some v assms(2) by (simp add: import_json_def)
    with N m1 show ?thesis by (auto split: prod.splits sum.splits)
  qed
qed

text \<open>What each stage adds to the root.\<close>

definition message_json :: "sicha_message \<Rightarrow> json" where
  "message_json msg =
     JObj ([(lit ''role'', JStr (opt_bytes (role_str (msg_role msg)))),
            (lit ''content'', JStr (content_bytes msg))]
       @ (case msg_tool_call_id msg of None \<Rightarrow> [] | Some tid \<Rightarrow> [(lit ''tool_call_id'', JStr (cstr tid))]))"

lemma builds_message: "builds (message_obj msg) (message_json msg)"
proof -
  have "builds (message_obj msg) (JObj ((([] @ [(lit ''role'', JStr (opt_bytes (role_str (msg_role msg))))])
      @ [(lit ''content'', JStr (content_bytes msg))])
      @ (if msg_tool_call_id msg \<noteq> None
         then [(lit ''tool_call_id'', JStr (cstr (opt_bytes (msg_tool_call_id msg))))] else [])))"
    unfolding message_obj_def
    by (rule builds_then, rule builds_new, rule builds_then, rule builds_add, rule builds_then,
        rule builds_add, rule builds_then, rule builds_add_if, rule builds_ret)
  then show ?thesis
    by (cases "msg_tool_call_id msg") (simp_all add: message_json_def opt_bytes_def del: lit_simps)
qed

lemma builds_messages: "builds (message_objs msgs) (map message_json msgs)"
proof (induction msgs)
  case Nil
  show ?case by (simp add: builds_ret)
next
  case (Cons msg msgs)
  show ?case
    unfolding message_objs.simps list.map
    by (rule builds_then, rule builds_message, rule builds_then, rule Cons.IH, rule builds_ret)
qed

definition messages_member :: "json_reader \<Rightarrow> sicha_request \<Rightarrow> members" where
  "messages_member rd req =
     [(lit ''messages'',
       case rq_messages_json req of
         Some json \<Rightarrow> the (rd (cstr json)) | None \<Rightarrow> JArr (map message_json (messages_of req)))]"

definition stream_members :: "sicha_backend \<Rightarrow> bool \<Rightarrow> members" where
  "stream_members b stream =
     (if \<not> stream then []
      else (lit ''stream'', JBool True)
        # (if b_flags b AND SICHA_BACKEND_STREAM_USAGE = 0 then []
           else [(lit ''stream_options'', JObj [(lit ''include_usage'', JBool True)])]))"

definition sampler_members :: "sicha_request \<Rightarrow> members" where
  "sampler_members req =
     (if is_set req SICHA_SET_MAX_TOKENS
      then [(lit ''max_tokens'', JSint (word_of_int (rq_max_tokens req)))] else [])
     @ (if is_set req SICHA_SET_TEMPERATURE then [(lit ''temperature'', JReal (rq_temperature req))] else [])
     @ (if is_set req SICHA_SET_TOP_P then [(lit ''top_p'', JReal (rq_top_p req))] else [])
     @ (if is_set req SICHA_SET_TOP_K then [(lit ''top_k'', JSint (word_of_int (rq_top_k req)))] else [])
     @ (if is_set req SICHA_SET_PRESENCE_PENALTY
        then [(lit ''presence_penalty'', JReal (rq_presence_penalty req))] else [])
     @ (if is_set req SICHA_SET_FREQUENCY_PENALTY
        then [(lit ''frequency_penalty'', JReal (rq_frequency_penalty req))] else [])"

definition stop_member :: "sicha_request \<Rightarrow> members" where
  "stop_member req =
     (if rq_n_stop req = 0 then []
      else [(lit ''stop'', JArr (map (\<lambda>s. JStr (cstr (opt_bytes s))) (stop_of req)))])"

definition format_member :: "json_reader \<Rightarrow> sicha_request \<Rightarrow> members" where
  "format_member rd req =
     (case rq_response_format_json req of
        None \<Rightarrow> [] | Some json \<Rightarrow> [(lit ''response_format'', the (rd (cstr json)))])"

text \<open>The root before the extra body, and the extra body's members.\<close>

definition own_members :: "json_reader \<Rightarrow> sicha_backend \<Rightarrow> sicha_request \<Rightarrow> bool \<Rightarrow> members" where
  "own_members rd b req stream =
     (lit ''model'', JStr (cstr (opt_bytes (b_model b))))
     # messages_member rd req @ stream_members b stream @ sampler_members req @ stop_member req
       @ format_member rd req"

definition extra_members :: "json_reader \<Rightarrow> sicha_backend \<Rightarrow> members" where
  "extra_members rd b =
     (case b_extra_body_json b of None \<Rightarrow> [] | Some json \<Rightarrow> obj_members (the (rd (cstr json))))"

fun merged :: "members \<Rightarrow> members \<Rightarrow> members" where
  "merged ms [] = ms"
| "merged ms ((key, v) # extra) = merged (yyjson_mut_obj_remove_keyn ms key @ [(key, v)]) extra"

lemma builds_merge: "builds (merge_extra ms extra) (merged ms extra)"
proof (induction ms extra rule: merged.induct)
  case (1 ms)
  show ?case by (simp add: builds_ret)
next
  case (2 ms key v extra)
  let ?ms = "yyjson_mut_obj_remove_keyn ms key @ [(key, v)]"
  show ?case
    unfolding builds_def
  proof
    fix m
    obtain ok1 m1 where 1: "alloc m = (ok1, m1)" by fastforce
    obtain ok2 m2 where 2: "alloc m1 = (ok2, m2)" by fastforce
    have ok: "ok1 \<and> ok2 \<and> all_ok m2" if "all_ok m"
      using all_ok_alloc [OF that 1] all_ok_alloc [OF _ 2] by blast
    from "2.IH" have "case merge_extra ?ms extra m2 of
        (Inr v', m') \<Rightarrow> v' = merged ?ms extra \<and> (all_ok m2 \<longrightarrow> all_ok m')
      | (Inl e, m') \<Rightarrow> \<not> all_ok m2 \<and> (e = SICHA_E_NOMEM \<or> e = SICHA_E_INVALID_ARG)"
      by (rule buildsD)
    then show "case merge_extra ms ((key, v) # extra) m of
        (Inr v', m') \<Rightarrow> v' = merged ms ((key, v) # extra) \<and> (all_ok m \<longrightarrow> all_ok m')
      | (Inl e, m') \<Rightarrow> \<not> all_ok m \<and> (e = SICHA_E_NOMEM \<or> e = SICHA_E_INVALID_ARG)"
      using ok 1 2 by (auto split: prod.splits sum.splits)
  qed
qed

text \<open>The JSON that the request and the backend carry, as validation leaves it.\<close>

definition json_fields_ok :: "json_reader \<Rightarrow> sicha_backend \<Rightarrow> sicha_request \<Rightarrow> bool" where
  "json_fields_ok rd b req \<longleftrightarrow>
     (\<forall>json. rq_messages_json req = Some json \<longrightarrow> (\<exists>vs. rd (cstr json) = Some (JArr vs)))
     \<and> (\<forall>json. rq_response_format_json req = Some json \<longrightarrow> (\<exists>ms. rd (cstr json) = Some (JObj ms)))
     \<and> (\<forall>json. b_extra_body_json b = Some json \<longrightarrow> (\<exists>ms. rd (cstr json) = Some (JObj ms)))"

lemma builds_messages_stage:
  assumes "json_fields_ok rd b req"
  shows "builds (messages_stage rd req ms) (ms @ messages_member rd req)"
proof (cases "rq_messages_json req")
  case None
  have "builds (messages_stage rd req ms) (ms @ [(lit ''messages'', JArr (map message_json (messages_of req)))])"
    unfolding messages_stage_def None option.case
    by (rule builds_then, rule builds_new, rule builds_then, rule builds_new, rule builds_then,
        rule builds_messages, rule builds_ret)
  then show ?thesis by (simp add: messages_member_def None del: lit_simps)
next
  case (Some json)
  with assms obtain vs where v: "rd (cstr json) = Some (JArr vs)" by (auto simp: json_fields_ok_def)
  have "builds (messages_stage rd req ms) (ms @ [(lit ''messages'', JArr vs)])"
    unfolding messages_stage_def Some option.case
    by (rule builds_then, rule builds_import, rule v, simp, rule builds_add)
  then show ?thesis by (simp add: messages_member_def Some v del: lit_simps)
qed

lemma builds_stream_stage: "builds (stream_stage b stream ms) (ms @ stream_members b stream)"
proof -
  have "builds (and_then (yyjson_mut_obj_add ms (lit ''stream'') (JBool True)) (\<lambda>ms.
          and_then (mut_new []) (\<lambda>so.
          and_then (yyjson_mut_obj_add so (lit ''include_usage'') (JBool True)) (\<lambda>so.
          yyjson_mut_obj_add ms (lit ''stream_options'') (JObj so)))))
      ((ms @ [(lit ''stream'', JBool True)])
        @ [(lit ''stream_options'', JObj ([] @ [(lit ''include_usage'', JBool True)]))])"
    by (rule builds_then, rule builds_add, rule builds_then, rule builds_new, rule builds_then,
        rule builds_add, rule builds_add)
  moreover have "builds (and_then (yyjson_mut_obj_add ms (lit ''stream'') (JBool True)) ret)
      (ms @ [(lit ''stream'', JBool True)])"
    by (rule builds_then, rule builds_add, rule builds_ret)
  ultimately show ?thesis
    using builds_ret [of ms]
    by (cases stream; cases "b_flags b AND SICHA_BACKEND_STREAM_USAGE = 0")
      (simp_all add: stream_stage_def stream_members_def ret_def [abs_def] del: lit_simps)
qed

lemma builds_sampler_stage: "builds (sampler_stage req ms) (ms @ sampler_members req)"
proof -
  have "builds (sampler_stage req ms) ((((((ms
     @ (if is_set req SICHA_SET_MAX_TOKENS
        then [(lit ''max_tokens'', JSint (word_of_int (rq_max_tokens req)))] else []))
     @ (if is_set req SICHA_SET_TEMPERATURE then [(lit ''temperature'', JReal (rq_temperature req))] else []))
     @ (if is_set req SICHA_SET_TOP_P then [(lit ''top_p'', JReal (rq_top_p req))] else []))
     @ (if is_set req SICHA_SET_TOP_K then [(lit ''top_k'', JSint (word_of_int (rq_top_k req)))] else []))
     @ (if is_set req SICHA_SET_PRESENCE_PENALTY
        then [(lit ''presence_penalty'', JReal (rq_presence_penalty req))] else []))
     @ (if is_set req SICHA_SET_FREQUENCY_PENALTY
        then [(lit ''frequency_penalty'', JReal (rq_frequency_penalty req))] else []))"
    unfolding sampler_stage_def
    by (rule builds_then, rule builds_add_if, rule builds_then, rule builds_add_if, rule builds_then,
        rule builds_add_if, rule builds_then, rule builds_add_if, rule builds_then, rule builds_add_if,
        rule builds_add_if)
  then show ?thesis by (simp only: sampler_members_def append.assoc)
qed

lemma builds_stops: "builds (stop_strs ss) (map (\<lambda>s. JStr (cstr (opt_bytes s))) ss)"
proof (induction ss)
  case Nil
  show ?case by (simp add: builds_ret)
next
  case (Cons s ss)
  show ?case
    unfolding stop_strs.simps list.map
    by (rule builds_then, rule builds_new, rule builds_then, rule Cons.IH, rule builds_ret)
qed

lemma builds_stop_stage: "builds (stop_stage req ms) (ms @ stop_member req)"
proof (cases "rq_n_stop req = 0")
  case True
  then show ?thesis by (simp add: stop_stage_def stop_member_def builds_ret)
next
  case False
  have "builds (and_then (mut_new ()) (\<lambda>_. and_then (mut_new ()) (\<lambda>_.
        and_then (stop_strs (stop_of req)) (\<lambda>vs. ret (ms @ [(lit ''stop'', JArr vs)])))))
      (ms @ [(lit ''stop'', JArr (map (\<lambda>s. JStr (cstr (opt_bytes s))) (stop_of req)))])"
    by (rule builds_then, rule builds_new, rule builds_then, rule builds_new, rule builds_then,
        rule builds_stops, rule builds_ret)
  with False show ?thesis by (simp add: stop_stage_def stop_member_def del: lit_simps)
qed

lemma builds_format_stage:
  assumes "json_fields_ok rd b req"
  shows "builds (format_stage rd req ms) (ms @ format_member rd req)"
proof (cases "rq_response_format_json req")
  case None
  then show ?thesis by (simp add: format_stage_def format_member_def builds_ret)
next
  case (Some json)
  with assms obtain vs where v: "rd (cstr json) = Some (JObj vs)" by (auto simp: json_fields_ok_def)
  have "builds (format_stage rd req ms) (ms @ [(lit ''response_format'', JObj vs)])"
    unfolding format_stage_def Some option.case
    by (rule builds_then, rule builds_import, rule v, simp, rule builds_add)
  then show ?thesis by (simp add: format_member_def Some v del: lit_simps)
qed

lemma builds_extra_stage:
  assumes "json_fields_ok rd b req"
  shows "builds (extra_stage rd b ms) (merged ms (extra_members rd b))"
proof (cases "b_extra_body_json b")
  case None
  then show ?thesis by (simp add: extra_stage_def extra_members_def builds_ret)
next
  case (Some json)
  with assms obtain es where v: "rd (cstr json) = Some (JObj es)" by (auto simp: json_fields_ok_def)
  show ?thesis
    unfolding builds_def
  proof
    fix m
    obtain r m1 where y: "yyjson_read rd (cstr json) m = (r, m1)" by fastforce
    have m1: "all_ok m \<Longrightarrow> r = Some (JObj es) \<and> all_ok m1"
      using yyjson_read_ok [of m rd "cstr json"] y v by auto
    have r: "r = None \<or> r = Some (JObj es)" using y v by (cases r) (auto dest: yyjson_read_Some)
    have "builds (merge_extra ms es) (merged ms es)" by (rule builds_merge)
    then have "case merge_extra ms es m1 of
        (Inr v', m') \<Rightarrow> v' = merged ms es \<and> (all_ok m1 \<longrightarrow> all_ok m')
      | (Inl e, m') \<Rightarrow> \<not> all_ok m1 \<and> (e = SICHA_E_NOMEM \<or> e = SICHA_E_INVALID_ARG)"
      by (rule buildsD)
    then show "case extra_stage rd b ms m of
        (Inr v', m') \<Rightarrow> v' = merged ms (extra_members rd b) \<and> (all_ok m \<longrightarrow> all_ok m')
      | (Inl e, m') \<Rightarrow> \<not> all_ok m \<and> (e = SICHA_E_NOMEM \<or> e = SICHA_E_INVALID_ARG)"
      using r m1 y v Some
      by (auto simp: extra_stage_def extra_members_def split: prod.splits sum.splits)
  qed
qed

lemma builds_root:
  assumes "json_fields_ok rd b req"
  shows "builds (chat_body_root rd b req stream) (merged (own_members rd b req stream) (extra_members rd b))"
proof -
  have "builds (chat_body_root rd b req stream)
     (merged (((((([] @ [(lit ''model'', JStr (cstr (opt_bytes (b_model b))))]) @ messages_member rd req)
        @ stream_members b stream) @ sampler_members req) @ stop_member req) @ format_member rd req)
        (extra_members rd b))"
    unfolding chat_body_root_def
    by (rule builds_then, rule builds_new, rule builds_then, rule builds_new, rule builds_then,
        rule builds_add, rule builds_then, rule builds_messages_stage [OF assms], rule builds_then,
        rule builds_stream_stage, rule builds_then, rule builds_sampler_stage, rule builds_then,
        rule builds_stop_stage, rule builds_then, rule builds_format_stage [OF assms],
        rule builds_extra_stage [OF assms])
  then show ?thesis by (simp only: own_members_def append.assoc append_Nil append_Cons)
qed

text \<open>Keys of the root: none twice, and the extra body wins.\<close>

lemma remove_keyn_keys: "map fst (yyjson_mut_obj_remove_keyn ms key) = filter (\<lambda>k. k \<noteq> key) (map fst ms)"
  by (induction ms) (auto simp: yyjson_mut_obj_remove_keyn_def)

lemma remove_keyn_map_of:
  "map_of (yyjson_mut_obj_remove_keyn ms key) = (map_of ms) (key := None)"
  by (induction ms) (auto simp: yyjson_mut_obj_remove_keyn_def fun_eq_iff)

lemma merged_distinct: "distinct (map fst ms) \<Longrightarrow> distinct (map fst (merged ms extra))"
proof (induction ms extra rule: merged.induct)
  case (2 ms key v extra)
  then show ?case by (simp add: remove_keyn_keys)
qed simp

lemma merged_map_of: "map_of (merged ms extra) = map_of ms ++ map_of (rev extra)"
proof (induction ms extra rule: merged.induct)
  case (2 ms key v extra)
  have "map_of (yyjson_mut_obj_remove_keyn ms key @ [(key, v)]) = (map_of ms) (key \<mapsto> v)"
    by (auto simp: remove_keyn_map_of map_add_def fun_eq_iff split: option.splits)
  then show ?case unfolding merged.simps 2 by (simp only: rev.simps map_of_append map_add_assoc map_of.simps fst_conv snd_conv map_add_upd map_add_empty)
qed simp

definition own_keys :: "bytes list" where
  "own_keys = map lit [''model'', ''messages'', ''stream'', ''stream_options'', ''max_tokens'',
     ''temperature'', ''top_p'', ''top_k'', ''presence_penalty'', ''frequency_penalty'', ''stop'',
     ''response_format'']"

lemma own_keys_distinct: "distinct own_keys"
  by (simp add: own_keys_def)

lemma subseq_if: "subseq (if c then xs else []) xs" "subseq (if c then [] else xs) xs"
  by simp_all

lemma own_members_subseq: "subseq (map fst (own_members rd b req stream)) own_keys"
proof -
  have 1: "subseq (map fst (stream_members b stream)) [lit ''stream'', lit ''stream_options'']"
    by (simp add: stream_members_def del: lit_simps)
  have 2: "subseq (map fst (sampler_members req))
    ([lit ''max_tokens''] @ [lit ''temperature''] @ [lit ''top_p''] @ [lit ''top_k'']
     @ [lit ''presence_penalty''] @ [lit ''frequency_penalty''])"
    unfolding sampler_members_def map_append
    by (intro list_emb_append_mono) (simp_all del: lit_simps)
  have 3: "subseq (map fst (stop_member req)) [lit ''stop'']"
    by (simp add: stop_member_def del: lit_simps)
  have 4: "subseq (map fst (format_member rd req)) [lit ''response_format'']"
    by (simp add: format_member_def del: lit_simps split: option.split)
  have "subseq ([lit ''model''] @ [lit ''messages''] @ map fst (stream_members b stream)
      @ map fst (sampler_members req) @ map fst (stop_member req) @ map fst (format_member rd req))
    ([lit ''model''] @ [lit ''messages''] @ [lit ''stream'', lit ''stream_options'']
      @ ([lit ''max_tokens''] @ [lit ''temperature''] @ [lit ''top_p''] @ [lit ''top_k'']
          @ [lit ''presence_penalty''] @ [lit ''frequency_penalty''])
      @ [lit ''stop''] @ [lit ''response_format''])"
    by (intro list_emb_append_mono 1 2 3 4) (simp_all del: lit_simps)
  then show ?thesis
    by (simp add: own_members_def messages_member_def own_keys_def del: lit_simps)
qed

lemma own_members_distinct: "distinct (map fst (own_members rd b req stream))"
  using own_members_subseq [of rd b req stream] own_keys_distinct
  by (auto simp: subseq_conv_nths)

lemma request_validate_OK:
  assumes "sicha_request_validate rd req m = (SICHA_OK, m')"
  shows "request_shape_ok req"
    "\<forall>json. rq_messages_json req = Some json \<longrightarrow> (\<exists>vs. rd (cstr json) = Some (JArr vs))"
    "\<forall>json. rq_response_format_json req = Some json \<longrightarrow> (\<exists>ms. rd (cstr json) = Some (JObj ms))"
proof -
  show "request_shape_ok req" using assms by (auto simp: sicha_request_validate_def split: if_splits)
  then have V: "(let (ok, m) =
              (case rq_messages_json req of None \<Rightarrow> (True, m)
               | Some json \<Rightarrow>
                   (case yyjson_read rd (cstr json) m of
                      (None, m) \<Rightarrow> (False, m)
                    | (Some root, m) \<Rightarrow> (yyjson_is_arr root, m)))
        in if \<not> ok then (SICHA_E_INVALID_ARG, m)
           else
             case rq_response_format_json req of None \<Rightarrow> (SICHA_OK, m)
             | Some json \<Rightarrow> validate_json_object rd json m) = (SICHA_OK, m')"
    using assms by (simp add: sicha_request_validate_def)
  show "\<forall>json. rq_messages_json req = Some json \<longrightarrow> (\<exists>vs. rd (cstr json) = Some (JArr vs))"
    using V by (auto dest!: yyjson_read_Some elim!: yyjson_is_arr.elims
        split: prod.splits option.splits if_splits)
  show "\<forall>json. rq_response_format_json req = Some json \<longrightarrow> (\<exists>ms. rd (cstr json) = Some (JObj ms))"
    using V by (auto dest: validate_json_object_OK split: prod.splits if_splits)
qed

lemma validate_json_object_cases:
  assumes "validate_json_object rd json m = (st, m')"
  shows "st = SICHA_OK \<or> st = SICHA_E_INVALID_ARG" "all_ok m \<Longrightarrow> all_ok m'"
    "all_ok m \<Longrightarrow> rd (cstr json) = Some (JObj ms) \<Longrightarrow> st = SICHA_OK"
proof -
  obtain r m1 where y: "yyjson_read rd (cstr json) m = (r, m1)" by fastforce
  have k: "all_ok m \<Longrightarrow> r = rd (cstr json) \<and> all_ok m1" using yyjson_read_ok [of m rd "cstr json"] y by auto
  show "st = SICHA_OK \<or> st = SICHA_E_INVALID_ARG" "all_ok m \<Longrightarrow> all_ok m'"
    "all_ok m \<Longrightarrow> rd (cstr json) = Some (JObj ms) \<Longrightarrow> st = SICHA_OK"
    using assms y k by (cases r; auto simp: validate_json_object_def split: if_splits)+
qed

lemma request_validate_cases:
  assumes "sicha_request_validate rd req m = (st, m')"
  shows "st = SICHA_OK \<or> st = SICHA_E_INVALID_ARG" "all_ok m \<Longrightarrow> all_ok m'"
    "all_ok m \<Longrightarrow> request_shape_ok req \<Longrightarrow> json_fields_ok rd b req \<Longrightarrow> st = SICHA_OK"
proof -
  define arr where "arr = (case rq_messages_json req of None \<Rightarrow> (True, m)
     | Some json \<Rightarrow> (case yyjson_read rd (cstr json) m of
         (None, m) \<Rightarrow> (False, m) | (Some root, m) \<Rightarrow> (yyjson_is_arr root, m)))"
  obtain ok m1 where o: "arr = (ok, m1)" by fastforce
  have m1: "all_ok m \<Longrightarrow> all_ok m1"
    using o yyjson_read_ok [of m rd] by (auto simp: arr_def split: option.splits prod.splits)
      (metis prod.inject)+
  have ok: "ok" if a: "all_ok m" "json_fields_ok rd b req"
  proof (cases "rq_messages_json req")
    case None
    with o show ?thesis by (simp add: arr_def)
  next
    case (Some json)
    with a obtain vs where v: "rd (cstr json) = Some (JArr vs)" by (auto simp: json_fields_ok_def)
    obtain m2 where "yyjson_read rd (cstr json) m = (Some (JArr vs), m2)"
      using yyjson_read_ok [OF a(1), of rd "cstr json"] v by auto
    with o Some show ?thesis by (simp add: arr_def)
  qed
  note V = assms [unfolded sicha_request_validate_def arr_def [symmetric] o Let_def prod.case]
  show "st = SICHA_OK \<or> st = SICHA_E_INVALID_ARG"
    using V validate_json_object_cases(1) by (auto split: if_splits option.splits)
  show "all_ok m \<Longrightarrow> all_ok m'"
    using V m1 validate_json_object_cases(2) by (auto split: if_splits option.splits)
  show "all_ok m \<Longrightarrow> request_shape_ok req \<Longrightarrow> json_fields_ok rd b req \<Longrightarrow> st = SICHA_OK"
    using V m1 ok validate_json_object_cases(3) [where m = m1] unfolding json_fields_ok_def
    by (auto split: if_splits option.splits)
qed

text \<open>The root of the body that is written.\<close>

definition chat_root :: "json_reader \<Rightarrow> sicha_backend \<Rightarrow> sicha_request \<Rightarrow> bool \<Rightarrow> members" where
  "chat_root rd b req stream = merged (own_members rd b req stream) (extra_members rd b)"

lemma chat_root_distinct: "distinct (map fst (chat_root rd b req stream))"
  unfolding chat_root_def by (rule merged_distinct [OF own_members_distinct])

lemma chat_root_lookup:
  "obj_lookup (chat_root rd b req stream) key =
     (case map_of (rev (extra_members rd b)) key of
        Some v \<Rightarrow> Some v | None \<Rightarrow> obj_lookup (own_members rd b req stream) key)"
  by (simp add: obj_lookup_map_of chat_root_def merged_map_of map_add_def split: option.split)

lemma json_fields_okI:
  assumes "backend_wf rd b" "sicha_request_validate rd req m = (SICHA_OK, m')"
  shows "json_fields_ok rd b req"
  using assms(1) request_validate_OK(2,3) [OF assms(2)]
  by (auto simp: json_fields_ok_def backend_wf_def)

lemma build_chat_body_cases:
  assumes "backend_wf rd b" "sicha_build_chat_body rd wr b req stream m = (st, out, m')"
  obtains (invalid) "st = SICHA_E_INVALID_ARG" "out = None"
      "fst (sicha_request_validate rd req m) = SICHA_E_INVALID_ARG"
  | (built) s where "st = SICHA_OK" "out = Some s" "wr (JObj (chat_root rd b req stream)) = Some s"
      "request_shape_ok req"
  | (failed) "st = SICHA_E_NOMEM \<or> st = SICHA_E_INVALID_ARG" "out = None" "request_shape_ok req"
      "all_ok m \<Longrightarrow> wr (JObj (chat_root rd b req stream)) = None"
proof -
  obtain v m0 where v: "sicha_request_validate rd req m = (v, m0)" by fastforce
  show ?thesis
  proof (cases "v = SICHA_OK")
    case False
    with v request_validate_cases(1) [OF v] assms(2) show ?thesis
      by (intro invalid) (auto simp: sicha_build_chat_body_def)
  next
    case True
    with v have v': "sicha_request_validate rd req m = (SICHA_OK, m0)" by simp
    note shape = request_validate_OK(1) [OF v'] and m0 = request_validate_cases(2) [OF v]
    obtain r m1 where r: "chat_body_root rd b req stream m0 = (r, m1)" by fastforce
    have B: "case (r, m1) of
        (Inr v', m') \<Rightarrow> v' = chat_root rd b req stream \<and> (all_ok m0 \<longrightarrow> all_ok m')
      | (Inl e, m') \<Rightarrow> \<not> all_ok m0 \<and> (e = SICHA_E_NOMEM \<or> e = SICHA_E_INVALID_ARG)"
      using buildsD [OF builds_root [OF json_fields_okI [OF assms(1) v'], of stream], of m0]
      unfolding r chat_root_def .
    show ?thesis
    proof (cases r)
      case (Inl e)
      with B m0 r True v assms(2) shape show ?thesis
        by (intro failed) (auto simp: sicha_build_chat_body_def and_then_def)
    next
      case (Inr root)
      with B have root: "root = chat_root rd b req stream" "all_ok m0 \<longrightarrow> all_ok m1" by auto
      obtain ok m2 where o: "alloc m1 = (ok, m2)" by fastforce
      show ?thesis
      proof (cases "ok \<and> wr (JObj root) \<noteq> None")
        case True
        then obtain s where "wr (JObj root) = Some s" by auto
        with True Inr r o \<open>v = SICHA_OK\<close> v assms(2) shape root show ?thesis
          by (intro built [of s]) (auto simp: sicha_build_chat_body_def and_then_def yyjson_mut_write_def)
      next
        case False
        have "wr (JObj root) = None" if "all_ok m"
          using False all_ok_alloc [OF _ o] root(2) m0 [OF that] by auto
        with False Inr r o \<open>v = SICHA_OK\<close> v assms(2) shape root show ?thesis
          by (intro failed)
            (auto simp: sicha_build_chat_body_def and_then_def yyjson_mut_write_def split: option.splits)
      qed
    qed
  qed
qed

text \<open>Values that can be written as JSON text.\<close>

fun json_ok :: "json \<Rightarrow> bool" where
  "json_ok (JReal d) = isfinite d"
| "json_ok (JStr s) = utf8_scan s"
| "json_ok (JArr vs) = (\<forall>v \<in> set vs. json_ok v)"
| "json_ok (JObj ms) = (\<forall>m \<in> set ms. utf8_scan (fst m) \<and> json_ok (snd m))"
| "json_ok _ = True"

lemma utf8_lits: "\<forall>k \<in> set own_keys. utf8_scan k"
  "utf8_scan (lit ''role'')" "utf8_scan (lit ''content'')" "utf8_scan (lit ''tool_call_id'')"
  "utf8_scan (lit ''include_usage'')"
  by (simp_all add: own_keys_def)

lemma role_str_utf8: "utf8_scan (opt_bytes (role_str r))"
  by (simp add: role_str_def opt_bytes_def)

lemma message_json_ok: "message_ok msg \<Longrightarrow> json_ok (message_json msg)"
  using role_str_utf8 [of "msg_role msg"] utf8_lits
  by (auto simp: message_ok_def message_json_def simp del: lit_simps split: if_splits option.splits)

lemma shape_messages: "request_shape_ok req \<Longrightarrow> \<forall>msg \<in> set (messages_of req). message_ok msg"
  by (auto simp: request_shape_ok_def Let_def split: if_splits)

lemma shape_stops: "request_shape_ok req \<Longrightarrow> \<forall>s \<in> set (stop_of req). stop_ok s"
  by (auto simp: request_shape_ok_def Let_def split: if_splits)

lemma shape_finite:
  assumes "request_shape_ok req"
  shows "is_set req SICHA_SET_TEMPERATURE \<Longrightarrow> isfinite (rq_temperature req)"
    "is_set req SICHA_SET_TOP_P \<Longrightarrow> isfinite (rq_top_p req)"
    "is_set req SICHA_SET_PRESENCE_PENALTY \<Longrightarrow> isfinite (rq_presence_penalty req)"
    "is_set req SICHA_SET_FREQUENCY_PENALTY \<Longrightarrow> isfinite (rq_frequency_penalty req)"
  using assms by (auto simp: request_shape_ok_def Let_def split: if_splits)

definition members_ok :: "members \<Rightarrow> bool" where
  "members_ok ms \<longleftrightarrow> (\<forall>m \<in> set ms. json_ok (snd m))"

lemma members_ok_append [simp]: "members_ok (a @ b) \<longleftrightarrow> members_ok a \<and> members_ok b"
  by (auto simp: members_ok_def)

lemma members_ok_simps [simp]:
  "members_ok []" "members_ok ((k, v) # ms) \<longleftrightarrow> json_ok v \<and> members_ok ms"
  by (auto simp: members_ok_def)

lemma own_members_ok:
  assumes "request_shape_ok req" "json_fields_ok rd b req" "\<forall>s v. rd s = Some v \<longrightarrow> json_ok v"
    "utf8_scan (cstr (opt_bytes (b_model b)))"
  shows "members_ok (own_members rd b req stream)"
proof -
  note keys = utf8_lits
  have 1: "members_ok (messages_member rd req)"
  proof (cases "rq_messages_json req")
    case None
    then show ?thesis
      using shape_messages [OF assms(1)] message_json_ok by (auto simp: messages_member_def)
  next
    case (Some json)
    with assms(2) obtain vs where v: "rd (cstr json) = Some (JArr vs)" by (auto simp: json_fields_ok_def)
    with assms(3) have "json_ok (JArr vs)" by blast
    with Some v show ?thesis by (simp add: messages_member_def)
  qed
  have 2: "members_ok (stream_members b stream)"
    using keys by (simp add: stream_members_def del: lit_simps)
  have 3: "members_ok (sampler_members req)"
    using shape_finite [OF assms(1)] by (simp add: sampler_members_def del: lit_simps)
  have 4: "members_ok (stop_member req)"
    using shape_stops [OF assms(1)]
    by (auto simp: stop_member_def stop_ok_def opt_bytes_def simp del: lit_simps split: option.splits)
  have 5: "members_ok (format_member rd req)"
  proof (cases "rq_response_format_json req")
    case None
    then show ?thesis by (simp add: format_member_def)
  next
    case (Some json)
    with assms(2) obtain ms where v: "rd (cstr json) = Some (JObj ms)" by (auto simp: json_fields_ok_def)
    with assms(3) have "json_ok (JObj ms)" by blast
    with Some v show ?thesis by (simp add: format_member_def)
  qed
  from 1 2 3 4 5 assms(4) show ?thesis by (simp add: own_members_def del: lit_simps)
qed

lemma own_members_json_ok:
  assumes "members_ok (own_members rd b req stream)"
  shows "json_ok (JObj (own_members rd b req stream))"
proof -
  have "set (map fst (own_members rd b req stream)) \<subseteq> set own_keys"
    using own_members_subseq [of rd b req stream] set_nths_subset
    unfolding subseq_conv_nths by fastforce
  with assms utf8_lits(1) show ?thesis by (auto simp: members_ok_def)
qed

lemma set_merged: "set (merged ms es) \<subseteq> set ms \<union> set es"
proof (induction ms es rule: merged.induct)
  case (2 ms key v extra)
  have "set (yyjson_mut_obj_remove_keyn ms key) \<subseteq> set ms"
    by (auto simp: yyjson_mut_obj_remove_keyn_def)
  with 2 show ?case by auto
qed simp

lemma merged_json_ok: "json_ok (JObj ms) \<Longrightarrow> json_ok (JObj es) \<Longrightarrow> json_ok (JObj (merged ms es))"
  using set_merged [of ms es] by auto

lemma chat_root_ok:
  assumes "backend_wf rd b" "request_shape_ok req" "json_fields_ok rd b req"
    "\<forall>s v. rd s = Some v \<longrightarrow> json_ok v"
  shows "json_ok (JObj (chat_root rd b req stream))"
proof -
  have "utf8_scan (cstr (opt_bytes (b_model b)))"
    using assms(1) by (auto simp: backend_wf_def opt_bytes_def)
  then have 1: "json_ok (JObj (own_members rd b req stream))"
    by (intro own_members_json_ok own_members_ok assms)
  have 2: "json_ok (JObj (extra_members rd b))"
  proof (cases "b_extra_body_json b")
    case None
    then show ?thesis by (simp add: extra_members_def)
  next
    case (Some json)
    with assms(3) obtain ms where v: "rd (cstr json) = Some (JObj ms)" by (auto simp: json_fields_ok_def)
    with assms(4) have "json_ok (JObj ms)" by blast
    with Some v show ?thesis by (simp add: extra_members_def)
  qed
  show ?thesis unfolding chat_root_def by (rule merged_json_ok [OF 1 2])
qed

lemma build_chat_body_succeeds:
  assumes "backend_wf rd b" "sicha_request_validate rd req mv = (SICHA_OK, mv')" "all_ok m"
    "\<forall>s v. rd s = Some v \<longrightarrow> json_ok v" "\<forall>v. json_ok v \<longrightarrow> wr v \<noteq> None"
  shows "\<exists>s m'. sicha_build_chat_body rd wr b req stream m = (SICHA_OK, Some s, m')"
proof -
  note J = json_fields_okI [OF assms(1,2)] and S = request_validate_OK(1) [OF assms(2)]
  obtain st out m' where B: "sicha_build_chat_body rd wr b req stream m = (st, out, m')"
    by (metis prod_cases3)
  obtain v m0 where v: "sicha_request_validate rd req m = (v, m0)" by fastforce
  have w: "wr (JObj (chat_root rd b req stream)) \<noteq> None"
    using chat_root_ok [OF assms(1) S J assms(4)] assms(5) by blast
  from assms(1) B show ?thesis
  proof (cases rule: build_chat_body_cases)
    case invalid
    with request_validate_cases(3) [OF v assms(3) S J] v show ?thesis by simp
  next
    case (built s)
    with B show ?thesis by blast
  next
    case failed
    from failed(4) [OF assms(3)] w show ?thesis by simp
  qed
qed

end
