(* ===== verification/Engine_Log.thy ===== *)
theory Engine_Log
  imports Engine_Rounds Request_Body
begin

text \<open>
  The attempt records of a call. The records of one backend form a block, the blocks follow
  the order of the backends, and the final status says how the last attempt ended.
\<close>

section \<open>Blocks of records\<close>

text \<open>A class after which the engine may try again or go to the next backend.\<close>

definition moves_on :: "sicha_error_class \<Rightarrow> bool" where
  "moves_on cls \<longleftrightarrow> cls \<noteq> SICHA_CLASS_NONE \<and> cls \<noteq> SICHA_CLASS_ABORT \<and> cls \<noteq> SICHA_CLASS_CANCELLED"

definition repeats :: "sicha_error_class \<Rightarrow> bool" where
  "repeats cls \<longleftrightarrow> cls = SICHA_CLASS_RETRY_SAME \<or> cls = SICHA_CLASS_VALIDATION"

definition last_class :: "sicha_attempt list \<Rightarrow> sicha_error_class option" where
  "last_class as = (if as = [] then None else Some (at_error_class (last as)))"

text \<open>At most so many attempts go to one backend.\<close>

definition budget :: "sicha_client \<Rightarrow> nat" where
  "budget c = Suc (unat (max_tries (c_policy c) - 1) + unat (validation_retries (c_policy c)))"

lemma budget_resolved:
  "policy_resolved (c_policy c) \<Longrightarrow> budget c = unat (max_tries (c_policy c)) + unat (validation_retries (c_policy c))"
  unfolding budget_def policy_resolved_def by (metis Suc_pred' add_Suc unat_gt_0 unat_minus_one)

definition numbered :: "nat \<Rightarrow> sicha_attempt list \<Rightarrow> bool" where
  "numbered i as \<longleftrightarrow> (\<forall>j < length as. at_backend (as ! j) = of_nat i \<and> at_try_of_backend (as ! j) = of_nat j)"

definition block_ok :: "sicha_client \<Rightarrow> nat \<Rightarrow> sicha_attempt list \<Rightarrow> bool" where
  "block_ok c i as \<longleftrightarrow> numbered i as \<and> length as \<le> budget c
     \<and> (\<forall>a \<in> set (butlast as). repeats (at_error_class a))"

definition ordinals_ok :: "sicha_attempt list \<Rightarrow> bool" where
  "ordinals_ok as \<longleftrightarrow> (\<forall>j < length as. at_attempt (as ! j) = of_nat j)"

lemma numbered_snoc:
  "numbered i (as @ [a]) \<longleftrightarrow> numbered i as \<and> at_backend a = of_nat i \<and> at_try_of_backend a = of_nat (length as)"
  by (auto simp: numbered_def nth_append less_Suc_eq)

lemma ordinals_ok_snoc:
  "ordinals_ok (as @ [a]) \<longleftrightarrow> ordinals_ok as \<and> at_attempt a = of_nat (length as)"
  by (auto simp: ordinals_ok_def nth_append less_Suc_eq)

lemma last_class_snoc [simp]: "last_class (as @ [a]) = Some (at_error_class a)"
  by (simp add: last_class_def)

text \<open>How the final status and the last record belong together.\<close>

definition ends_as :: "sicha_status \<Rightarrow> sicha_attempt list \<Rightarrow> bool" where
  "ends_as st as \<longleftrightarrow> st \<noteq> SICHA_E_EXHAUSTED
     \<and> (st = SICHA_OK \<longleftrightarrow> last_class as = Some SICHA_CLASS_NONE)
     \<and> (st = SICHA_E_ABORTED \<longleftrightarrow> last_class as = Some SICHA_CLASS_ABORT)
     \<and> (last_class as = Some SICHA_CLASS_CANCELLED \<longrightarrow> st = SICHA_E_CANCELLED)"

section \<open>One backend\<close>

text \<open>\<open>pre\<close> are the records of the backends before.\<close>

definition in_backend :: "sicha_client \<Rightarrow> nat \<Rightarrow> sicha_attempt list \<Rightarrow> 'w chat_state \<Rightarrow> bool" where
  "in_backend c i pre s \<longleftrightarrow>
     (\<exists>blk. r_attempts (ch_r s) = pre @ blk \<and> numbered i blk \<and> ch_try s = of_nat (length blk)
        \<and> (\<forall>a \<in> set blk. repeats (at_error_class a))
        \<and> Suc (length blk + tries_left c s) \<le> budget c
        \<and> ordinals_ok (pre @ blk) \<and> ch_ordinal s = of_nat (length (pre @ blk)))"

definition left_backend :: "sicha_client \<Rightarrow> nat \<Rightarrow> sicha_attempt list \<Rightarrow> 'w chat_state \<Rightarrow> bool" where
  "left_backend c i pre s \<longleftrightarrow>
     (\<exists>blk. r_attempts (ch_r s) = pre @ blk \<and> block_ok c i blk \<and> blk \<noteq> []
        \<and> moves_on (at_error_class (last blk))
        \<and> ordinals_ok (pre @ blk) \<and> ch_ordinal s = of_nat (length (pre @ blk)))"

definition ended_in_backend :: "sicha_client \<Rightarrow> nat \<Rightarrow> sicha_attempt list \<Rightarrow> sicha_status \<Rightarrow>
    'w chat_state \<Rightarrow> bool" where
  "ended_in_backend c i pre st s \<longleftrightarrow>
     (\<exists>blk. r_attempts (ch_r s) = pre @ blk \<and> block_ok c i blk \<and> ordinals_ok (pre @ blk)
        \<and> ends_as st (pre @ blk))"

lemma build_chat_body_status:
  assumes "sicha_build_chat_body rd wr b req stream m = (st, out, m')" "backend_wf rd b"
  shows "st \<in> {SICHA_OK, SICHA_E_NOMEM, SICHA_E_INVALID_ARG}"
  using assms(2,1) by (cases rule: build_chat_body_cases) auto

lemma attempt_prepare_status:
  assumes "attempt_prepare rd wr env c b req stream s = (st, s')" "backend_wf rd b"
  shows "st \<in> {SICHA_OK, SICHA_E_NOMEM, SICHA_E_INVALID_ARG, SICHA_E_CANCELLED}"
proof -
  have "st \<in> {SICHA_OK, SICHA_E_NOMEM, SICHA_E_INVALID_ARG}"
    if "prepare_body rd wr b req stream s = (st, s1)" for st s1
    using that build_chat_body_status [OF _ assms(2)]
    by (auto simp: prepare_body_def split: if_splits prod.splits)
  moreover have "st \<in> {SICHA_OK, SICHA_E_NOMEM}" if "prepare_headers c b stream s0 = (st, s1)" for st s0 s1
    using that by (auto simp: prepare_headers_def split: if_splits prod.splits dest: sicha_build_headers_cases)
  ultimately show ?thesis
    using assms(1) by (fastforce simp: attempt_prepare_def split: if_splits prod.splits)
qed

text \<open>The verdict on a recorded round trip.\<close>

lemma attempt_decide_verdict:
  assumes "attempt_decide env c b out cls s = (v, s')"
  shows "case v of Again \<Rightarrow> repeats cls \<and> ch_r s' = ch_r s | Advance \<Rightarrow> moves_on cls
    | Finish st \<Rightarrow> st \<noteq> SICHA_E_EXHAUSTED \<and> (st = SICHA_OK \<longleftrightarrow> cls = SICHA_CLASS_NONE)
        \<and> (st = SICHA_E_ABORTED \<longleftrightarrow> cls = SICHA_CLASS_ABORT)
        \<and> (cls = SICHA_CLASS_CANCELLED \<longrightarrow> st = SICHA_E_CANCELLED)"
  using assms
  by (cases cls) (auto simp: attempt_decide_def Let_def repeats_def moves_on_def split: if_splits prod.splits)

lemma attempt_decide_again_repeats:
  "attempt_decide env c b out cls s = (Again, s') \<Longrightarrow> repeats cls \<and> ch_r s' = ch_r s"
  using attempt_decide_verdict [of env c b out cls s Again s'] by simp

lemma repeats_moves_on: "repeats cls \<Longrightarrow> moves_on cls"
  by (auto simp: repeats_def moves_on_def)

text \<open>A round trip that was recorded adds one record of its class.\<close>

lemma attempt_recorded:
  assumes "attempt_prepare rd wr env c b req stream s = (SICHA_OK, s1)"
    and "attempt_run rd env c i b req cbs stream s1 = (out, cls, s2)"
    and "attempt_record env c i b cbs out cls s2 = (SICHA_OK, s3)"
  obtains a where "r_attempts (ch_r s3) = r_attempts (ch_r s) @ [a]" "at_error_class a = cls"
    "at_attempt a = ch_ordinal s" "at_backend a = of_nat i" "at_try_of_backend a = ch_try s"
    "ch_ordinal s3 = ch_ordinal s + 1" "ch_try s3 = ch_try s + 1" "counters s3 = counters s"
proof -
  note P = attempt_prepare_frame [OF assms(1)]
  obtain out0 r w m w' where R:
    "run_attempt rd env c b (opt_bytes (ch_body s1)) (case ch_headers s1 of None \<Rightarrow> [] | Some hs \<Rightarrow> hs) cbs
       ((sicha_result_reset_content (ch_r s1))\<lparr>r_backend := int i\<rparr>) stream
       (rq_flags req AND SICHA_REQ_NO_ACCUMULATE = 0) (ch_w s1) (ch_mem s1) = (out0, r, w, m)"
    "s2 = s1\<lparr>ch_r := r, ch_w := w', ch_mem := m, ch_delivered := ch_delivered s1 \<or> ao_delivered out0\<rparr>"
    using assms(2) by (rule attempt_run_cases) blast
  have kept: "r_attempts r = r_attempts (ch_r s1)"
    using run_attempt_kept [OF R(1)] by (simp add: kept_part_def sicha_result_reset_content_def)
  from assms(3) show thesis
  proof (cases rule: attempt_record_cases)
    case (recorded a cap m')
    with R(2) P kept show thesis
      by (intro that [of a]) (simp_all add: attempt_of_def Let_def counters_def)
  qed simp
qed

lemma attempt_unrecorded:
  assumes "attempt_prepare rd wr env c b req stream s = (SICHA_OK, s1)"
    and "attempt_run rd env c i b req cbs stream s1 = (out, cls, s2)"
    and "attempt_record env c i b cbs out cls s2 = (st, s3)" "st \<noteq> SICHA_OK"
  shows "r_attempts (ch_r s3) = r_attempts (ch_r s)"
proof -
  note P = attempt_prepare_frame [OF assms(1)]
  obtain out0 r w m w' where R:
    "run_attempt rd env c b (opt_bytes (ch_body s1)) (case ch_headers s1 of None \<Rightarrow> [] | Some hs \<Rightarrow> hs) cbs
       ((sicha_result_reset_content (ch_r s1))\<lparr>r_backend := int i\<rparr>) stream
       (rq_flags req AND SICHA_REQ_NO_ACCUMULATE = 0) (ch_w s1) (ch_mem s1) = (out0, r, w, m)"
    "s2 = s1\<lparr>ch_r := r, ch_w := w', ch_mem := m, ch_delivered := ch_delivered s1 \<or> ao_delivered out0\<rparr>"
    using assms(2) by (rule attempt_run_cases) blast
  have kept: "r_attempts r = r_attempts (ch_r s1)"
    using run_attempt_kept [OF R(1)] by (simp add: kept_part_def sicha_result_reset_content_def)
  from assms(3) show ?thesis
    by (cases rule: attempt_record_cases) (use assms(4) R(2) P kept in auto)
qed

lemma no_memory_class:
  assumes "attempt_run rd env c i b req cbs stream s = (out, cls, s')" "ao_terminal out = SICHA_E_NOMEM"
  shows "cls = SICHA_CLASS_ADVANCE"
proof -
  from assms(1) obtain out0 r w m w' where
    "validate_attempt cbs r out0 (outcome_class c out0 r) w = (out, cls, w')"
    by (rule attempt_run_cases)
  then show ?thesis
    by (cases rule: validate_attempt_cases) (use assms(2) in \<open>auto simp: outcome_class_def\<close>)
qed

text \<open>The last record of \<open>pre @ blk\<close> when the block may go on and what came before moved on.\<close>

definition pre_ok :: "sicha_attempt list \<Rightarrow> bool" where
  "pre_ok pre \<longleftrightarrow> (case last_class pre of None \<Rightarrow> True | Some cls \<Rightarrow> moves_on cls)"

lemma ends_as_other:
  assumes "pre_ok as" "st \<in> {SICHA_E_NOMEM, SICHA_E_INVALID_ARG, SICHA_E_CANCELLED}"
  shows "ends_as st as"
  using assms by (auto simp: pre_ok_def ends_as_def moves_on_def split: option.splits)

lemma pre_ok_append: "pre_ok pre \<Longrightarrow> \<forall>a \<in> set blk. repeats (at_error_class a) \<Longrightarrow> pre_ok (pre @ blk)"
  by (cases blk rule: rev_cases) (auto simp: pre_ok_def repeats_moves_on last_class_def)

lemma attempt_step_log:
  assumes "backend_wf rd b" "pre_ok pre" "in_backend c i pre s"
    "attempt_step rd wr env c i b req cbs stream s = (v, s')"
  shows "case v of Again \<Rightarrow> in_backend c i pre s' | Advance \<Rightarrow> left_backend c i pre s'
    | Finish st \<Rightarrow> ended_in_backend c i pre st s'"
proof -
  from assms(3) obtain blk where I: "r_attempts (ch_r s) = pre @ blk" "numbered i blk"
    "ch_try s = of_nat (length blk)" "\<forall>a \<in> set blk. repeats (at_error_class a)"
    "Suc (length blk + tries_left c s) \<le> budget c" "ordinals_ok (pre @ blk)"
    "ch_ordinal s = of_nat (length (pre @ blk))"
    by (auto simp: in_backend_def)
  have blk: "block_ok c i blk" using I(2,4,5) by (auto simp: block_ok_def dest: in_set_butlastD)
  note pre = pre_ok_append [OF assms(2) I(4)]
  from assms(4) show ?thesis
  proof (cases rule: attempt_step_cases)
    case (unprepared st)
    have "ends_as st (pre @ blk)"
      using attempt_prepare_status [OF unprepared(1) assms(1)] unprepared(2) by (intro ends_as_other [OF pre]) auto
    with unprepared I blk attempt_prepare_frame [OF unprepared(1)] show ?thesis
      by (auto simp: ended_in_backend_def)
  next
    case (unrecorded s1 out cls s2 st)
    have "ends_as SICHA_E_NOMEM (pre @ blk)" by (rule ends_as_other [OF pre]) simp
    with unrecorded I blk attempt_unrecorded [OF unrecorded(1-4)] show ?thesis
      by (auto simp: ended_in_backend_def)
  next
    case (no_memory s1 out cls s2)
    from no_memory(1-3) obtain a where a: "r_attempts (ch_r s') = r_attempts (ch_r s) @ [a]"
      "at_error_class a = cls" "at_attempt a = ch_ordinal s" "at_backend a = of_nat i"
      "at_try_of_backend a = ch_try s"
      by (rule attempt_recorded)
    have "cls = SICHA_CLASS_ADVANCE" using no_memory_class [OF no_memory(2,4)] .
    then have "ends_as SICHA_E_NOMEM ((pre @ blk) @ [a])" using a(2) by (simp add: ends_as_def del: append_assoc)
    moreover have "block_ok c i (blk @ [a])"
      using I(2-5) a by (simp add: block_ok_def numbered_snoc)
    moreover have "ordinals_ok ((pre @ blk) @ [a])"
      unfolding ordinals_ok_snoc using I(6,7) a(3) by simp
    ultimately show ?thesis using no_memory(5) I(1) a(1) by (auto simp: ended_in_backend_def)
  next
    case (decided s1 out cls s2 s3)
    from decided(1-3) obtain a where a: "r_attempts (ch_r s3) = r_attempts (ch_r s) @ [a]"
      "at_error_class a = cls" "at_attempt a = ch_ordinal s" "at_backend a = of_nat i"
      "at_try_of_backend a = ch_try s" "ch_ordinal s3 = ch_ordinal s + 1" "ch_try s3 = ch_try s + 1"
      "counters s3 = counters s"
      by (rule attempt_recorded)
    note D = attempt_decide_frame [OF decided(5)] and V = attempt_decide_verdict [OF decided(5)]
    have ok: "block_ok c i (blk @ [a])" "ordinals_ok ((pre @ blk) @ [a])"
      using I(2-7) a(2-5) unfolding ordinals_ok_snoc by (simp_all add: block_ok_def numbered_snoc)
    have at: "r_attempts (ch_r s') = pre @ (blk @ [a])" using D a(1) I(1) by simp
    have ord: "ch_ordinal s' = of_nat (length (pre @ (blk @ [a])))" using D a(6) I(7) by (simp add: add_ac)
    show ?thesis
    proof (cases v)
      case (Finish st)
      with V a(2) have "ends_as st ((pre @ blk) @ [a])" by (simp add: ends_as_def del: append_assoc)
      with Finish at ok show ?thesis by (auto simp: ended_in_backend_def)
    next
      case Advance
      with V a(2) at ok ord show ?thesis by (auto simp: left_backend_def intro: exI [of _ "blk @ [a]"])
    next
      case Again
      have "tries_left c s' < tries_left c s3"
        using attempt_decide_again decided(5) Again by blast
      moreover have "tries_left c s3 = tries_left c s"
        using a(8) by (simp add: tries_left_def counters_def)
      ultimately have "Suc (length (blk @ [a]) + tries_left c s') \<le> budget c" using I(5) by simp
      moreover have "\<forall>a \<in> set (blk @ [a]). repeats (at_error_class a)" using V Again a(2) I(4) by auto
      moreover have "ch_try s' = of_nat (length (blk @ [a]))" using D a(7) I(3) by (simp add: add_ac)
      moreover have "numbered i (blk @ [a])" using ok(1) by (simp add: block_ok_def)
      ultimately show ?thesis using Again at ok ord unfolding in_backend_def
        by (auto intro!: exI [of _ "blk @ [a]"])
    qed
  qed
qed

section \<open>The chain of backends\<close>

definition blocks_ok :: "sicha_client \<Rightarrow> sicha_attempt list list \<Rightarrow> bool" where
  "blocks_ok c bss \<longleftrightarrow> (\<forall>j < length bss. block_ok c j (bss ! j))"

definition passed :: "sicha_attempt list list \<Rightarrow> bool" where
  "passed bss \<longleftrightarrow> (\<forall>blk \<in> set bss. blk \<noteq> [] \<and> moves_on (at_error_class (last blk)))"

definition entering :: "sicha_client \<Rightarrow> nat \<Rightarrow> 'w chat_state \<Rightarrow> bool" where
  "entering c k s \<longleftrightarrow> (\<exists>bss. length bss = k \<and> r_attempts (ch_r s) = concat bss \<and> blocks_ok c bss \<and> passed bss
     \<and> ordinals_ok (concat bss) \<and> ch_ordinal s = of_nat (length (concat bss)))"

text \<open>The records of a whole call and its final status, for a client with \<open>n\<close> backends.\<close>

definition call_log :: "sicha_client \<Rightarrow> sicha_status \<Rightarrow> sicha_attempt list \<Rightarrow> bool" where
  "call_log c st as \<longleftrightarrow>
     ordinals_ok as
     \<and> (\<exists>bss. as = concat bss \<and> length bss \<le> length (c_backends c) \<and> blocks_ok c bss
          \<and> (if st = SICHA_E_EXHAUSTED then length bss = length (c_backends c) \<and> passed bss
             else passed (butlast bss) \<and> ends_as st as))"

lemma blocks_ok_snoc: "blocks_ok c (bss @ [blk]) \<longleftrightarrow> blocks_ok c bss \<and> block_ok c (length bss) blk"
  by (auto simp: blocks_ok_def nth_append less_Suc_eq)

lemma passed_snoc: "passed (bss @ [blk]) \<longleftrightarrow> passed bss \<and> blk \<noteq> [] \<and> moves_on (at_error_class (last blk))"
  by (auto simp: passed_def)

lemma passed_pre_ok: "passed bss \<Longrightarrow> pre_ok (concat bss)"
  by (cases bss rule: rev_cases) (auto simp: pre_ok_def passed_def last_class_def)

lemma enter_backend_in:
  assumes "entering c k s" "r_attempts (ch_r s) = concat bss"
  shows "in_backend c i (concat bss) (enter_backend s)"
  using assms
  by (auto simp: in_backend_def entering_def enter_backend_def numbered_def budget_def tries_left_def)

lemma chat_backends_log:
  assumes "\<forall>b \<in> set (c_backends c). backend_wf rd b" "entering c 0 s"
    "chat_backends rd wr env c 0 (c_backends c) req cbs stream s = (final, s')"
  shows "call_log c final (r_attempts (ch_r s'))"
proof -
  let ?n = "length (c_backends c)"
  let ?F = "\<lambda>st s'. \<exists>bss blk. r_attempts (ch_r s') = concat (bss @ [blk]) \<and> length bss < ?n
      \<and> blocks_ok c (bss @ [blk]) \<and> passed bss \<and> ordinals_ok (concat (bss @ [blk]))
      \<and> ends_as st (concat (bss @ [blk]))"
  have "?F final s' \<or> final = SICHA_E_EXHAUSTED \<and> entering c (0 + length (c_backends c)) s'"
  proof (rule chat_backends_rule [where J = "entering c" and F = ?F, OF _ assms(2,3)])
    fix k b and s :: "'a chat_state" and res s'
    assume k: "k < 0 + ?n" "b = c_backends c ! (k - 0)" and J: "entering c k s"
      and run: "backend_loop rd wr env c k b req cbs stream (enter_backend s) = (res, s')"
    from J obtain bss where bss: "length bss = k" "r_attempts (ch_r s) = concat bss" "blocks_ok c bss"
      "passed bss" by (auto simp: entering_def)
    have wf: "backend_wf rd b" using assms(1) k by simp
    have start: "in_backend c k (concat bss) (enter_backend s)" using J bss(2) by (rule enter_backend_in)
    from backend_loop_rule [where I = "in_backend c k (concat bss)" and A = "left_backend c k (concat bss)"
        and F = "ended_in_backend c k (concat bss)", OF attempt_step_log [OF wf passed_pre_ok [OF bss(4)]] start run]
    have "case res of None \<Rightarrow> left_backend c k (concat bss) s' | Some st \<Rightarrow> ended_in_backend c k (concat bss) st s'" .
    then show "case res of None \<Rightarrow> entering c (Suc k) s' | Some st \<Rightarrow> ?F st s'"
    proof (cases res)
      case None
      assume "case res of None \<Rightarrow> left_backend c k (concat bss) s' | Some st \<Rightarrow> ended_in_backend c k (concat bss) st s'"
      with None obtain blk where "r_attempts (ch_r s') = concat (bss @ [blk])" "block_ok c k blk" "blk \<noteq> []"
        "moves_on (at_error_class (last blk))" "ordinals_ok (concat (bss @ [blk]))"
        "ch_ordinal s' = of_nat (length (concat (bss @ [blk])))"
        by (auto simp: left_backend_def)
      with None bss show ?thesis
        by (auto simp: entering_def blocks_ok_snoc passed_snoc simp del: concat_append intro!: exI [of _ "bss @ [blk]"])
    next
      case (Some st)
      assume "case res of None \<Rightarrow> left_backend c k (concat bss) s' | Some st \<Rightarrow> ended_in_backend c k (concat bss) st s'"
      with Some obtain blk where "r_attempts (ch_r s') = concat (bss @ [blk])" "block_ok c k blk"
        "ordinals_ok (concat (bss @ [blk]))" "ends_as st (concat (bss @ [blk]))"
        by (auto simp: ended_in_backend_def)
      with Some bss k(1) show ?thesis by (auto simp: blocks_ok_snoc simp del: concat_append)
    qed
  qed
  then show ?thesis
  proof (elim disjE exE conjE)
    fix bss blk
    assume "r_attempts (ch_r s') = concat (bss @ [blk])" "length bss < ?n" "blocks_ok c (bss @ [blk])"
      "passed bss" "ordinals_ok (concat (bss @ [blk]))" "ends_as final (concat (bss @ [blk]))"
    moreover from this have "final \<noteq> SICHA_E_EXHAUSTED" by (simp add: ends_as_def)
    ultimately show ?thesis unfolding call_log_def by (auto intro!: exI [of _ "bss @ [blk]"])
  next
    assume "final = SICHA_E_EXHAUSTED" "entering c (0 + ?n) s'"
    then show ?thesis unfolding call_log_def entering_def by auto
  qed
qed

text \<open>What \<open>sicha_client_create\<close> promises of a client.\<close>

definition client_ok :: "json_reader \<Rightarrow> sicha_client \<Rightarrow> bool" where
  "client_ok rd c \<longleftrightarrow> c_backends c \<noteq> [] \<and> (\<forall>b \<in> set (c_backends c). backend_wf rd b)
     \<and> policy_resolved (c_policy c) \<and> validate_overrides (override_list (c_policy c)) = SICHA_OK
     \<and> safe_value (cstr (c_user_agent c)) \<and> c_prng_seed c \<noteq> 0
     \<and> c_max_response_bytes c \<noteq> 0 \<and> c_max_event_bytes c \<noteq> 0"

lemma alloc4_ok:
  assumes "all_ok m" "alloc4 m = (ok, m')"
  shows "ok \<and> all_ok m'"
proof -
  obtain a m1 where 1: "alloc m = (a, m1)" by fastforce
  obtain b m2 where 2: "alloc m1 = (b, m2)" by fastforce
  obtain c m3 where 3: "alloc m2 = (c, m3)" by fastforce
  obtain d m4 where 4: "alloc m3 = (d, m4)" by fastforce
  have "a \<and> all_ok m1" by (rule all_ok_alloc [OF assms(1) 1])
  moreover from this have "b \<and> all_ok m2" using all_ok_alloc [OF _ 2] by blast
  moreover from this have "c \<and> all_ok m3" using all_ok_alloc [OF _ 3] by blast
  moreover from this have "d \<and> all_ok m4" using all_ok_alloc [OF _ 4] by blast
  ultimately show ?thesis using assms(2) by (simp add: alloc4_def 1 2 3 4)
qed

text \<open>The ways \<open>chat_common\<close> ends.\<close>

lemma chat_common_cases:
  assumes "chat_common rd wr env client request cbs out_set stream w m = (st, out, client', w', m')"
  obtains (rejected) "out = None" "client' = client" "w' = w" "st \<noteq> SICHA_OK"
  | (no_arrays) c r where "client = Some c" "st = SICHA_E_NOMEM" "client' = client" "w' = w"
      "out = Some (r\<lparr>r_status := SICHA_E_NOMEM\<rparr>)" "r = fresh_result (c_max_response_bytes c)"
  | (ran) c req m1 m2 s where "client = Some c" "request = Some req" "out_set"
      "sicha_request_validate rd req m = (SICHA_OK, m1)" "all_ok m1 \<longrightarrow> all_ok m2"
      "chat_backends rd wr env c 0 (c_backends c) req cbs stream
         (chat_start c (fresh_result (c_max_response_bytes c)) w m2) = (st, s)"
      "out = Some ((ch_r s)\<lparr>r_status := st\<rparr>)" "w' = ch_w s" "m' = ch_mem s"
      "client' = Some (c\<lparr>c_req_counter := c_req_counter c + 1\<rparr>)"
proof (cases "out_set \<and> client \<noteq> None \<and> request \<noteq> None
    \<and> (case cbs of None \<Rightarrow> True | Some k \<Rightarrow> cb_struct_size_ok k)")
  case False
  with assms show thesis
    by (intro rejected) (auto simp: chat_common_def split: option.splits if_splits)
next
  case True
  then obtain c req where cr: "client = Some c" "request = Some req" and out_set: out_set by auto
  obtain v m1 where v: "sicha_request_validate rd req m = (v, m1)" by fastforce
  obtain ro m2 where ro: "sicha_result_create (c_max_response_bytes c) m1 = (ro, m2)" by fastforce
  obtain ok m3 where ok: "alloc4 m2 = (ok, m3)" by fastforce
  have ro': "ro = None \<or> ro = Some (fresh_result (c_max_response_bytes c))"
    using ro by (auto simp: sicha_result_create_def split: prod.splits)
  have mem: "all_ok m1 \<longrightarrow> all_ok m3"
    using ro alloc4_ok [OF _ ok] all_ok_alloc by (fastforce simp: sicha_result_create_def split: prod.splits)
  have cb: "\<not> (case cbs of None \<Rightarrow> False | Some k \<Rightarrow> \<not> cb_struct_size_ok k)"
    using True by (auto split: option.splits)
  have eq: "(if v \<noteq> SICHA_OK then (v, None, Some c, w, m1)
      else case ro of None \<Rightarrow> (SICHA_E_NOMEM, None, Some c, w, m2)
      | Some r \<Rightarrow>
          if \<not> ok then (SICHA_E_NOMEM, Some (r\<lparr>r_status := SICHA_E_NOMEM\<rparr>), Some c, w, m3)
          else let (final, s) = chat_backends rd wr env c 0 (c_backends c) req cbs stream (chat_start c r w m3)
               in (final, Some ((ch_r s)\<lparr>r_status := final\<rparr>),
                   Some (c\<lparr>c_req_counter := c_req_counter c + 1\<rparr>), ch_w s, ch_mem s))
      = (st, out, client', w', m')"
    using assms cb out_set ok by (cases ro; cases "v = SICHA_OK") (simp_all add: chat_common_def cr v ro Let_def)
  show thesis
  proof (cases "v = SICHA_OK \<and> ro \<noteq> None")
    case False
    with eq cr show thesis by (intro rejected) (auto split: if_splits)
  next
    case True
    with ro' have r: "ro = Some (fresh_result (c_max_response_bytes c))" and v': "v = SICHA_OK" by auto
    show thesis
    proof (cases ok)
      case False
      with eq r v' cr show thesis by (intro no_arrays) auto
    next
      case True
      obtain final s where f: "chat_backends rd wr env c 0 (c_backends c) req cbs stream
          (chat_start c (fresh_result (c_max_response_bytes c)) w m3) = (final, s)" by fastforce
      with eq r v' cr True out_set v mem show thesis by (intro ran [of c req m1 m3 s]) auto
    qed
  qed
qed

theorem chat_common_log:
  assumes "client_ok rd c"
    "chat_common rd wr env (Some c) request cbs out_set stream w m = (st, Some r, client', w', m')"
  shows "r_status r = st \<and> call_log c st (r_attempts r)"
  using assms(2)
proof (cases rule: chat_common_cases)
  case (no_arrays c0 r0)
  then show ?thesis using assms(1)
    by (auto simp: call_log_def fresh_result_def ordinals_ok_def client_ok_def blocks_ok_def block_ok_def
        numbered_def passed_def ends_as_def last_class_def Suc_le_eq intro!: exI [of _ "[]"])
next
  case (ran c0 req m1 m2 s)
  have "entering c 0 (chat_start c (fresh_result (c_max_response_bytes c)) w m2)"
    by (simp add: entering_def chat_start_def fresh_result_def blocks_ok_def passed_def ordinals_ok_def)
  from chat_backends_log [OF _ this] ran assms(1) show ?thesis by (auto simp: client_ok_def)
qed simp

end
