(* ===== verification/Engine_Commit.thy ===== *)
theory Engine_Commit
  imports Engine_Log
begin

text \<open>
  The streaming commit rule, and what it is for: the deltas the callbacks have seen during a
  call are the text of the result, whatever was retried in between.
\<close>

section \<open>The commit rule\<close>

text \<open>Once bytes have been delivered, a round trip ends the call.\<close>

lemma attempt_step_committed:
  assumes "attempt_step rd wr env c i b req cbs stream s = (v, s')" "ch_delivered s'"
    "pol_flags (c_policy c) AND SICHA_POLICY_RETRY_AFTER_DELTAS = 0"
  shows "\<exists>st. v = Finish st"
  using assms(1)
proof (cases rule: attempt_step_cases)
  case (decided s1 out cls s2 s3)
  have "committed c s3"
    using attempt_decide_frame [OF decided(5)] assms(2,3) by (simp add: committed_def)
  with decided(5) show ?thesis
    by (cases cls) (auto simp: attempt_decide_def split: if_splits)
qed auto

section \<open>What the callbacks see\<close>

text \<open>
  \<open>st\<close> and \<open>sr\<close> are the deltas seen so far, in the state of the caller. The delta callbacks
  append what they get; nothing else touches them.
\<close>

definition watches :: "('w \<Rightarrow> bytes) \<Rightarrow> ('w \<Rightarrow> bytes) \<Rightarrow> 'w sicha_callbacks option \<Rightarrow> bool" where
  "watches st sr cbs \<longleftrightarrow> traces st sr cbs
     \<and> (\<forall>f r w. cb_of cbs cb_validate = Some f \<longrightarrow> st (snd (f r w)) = st w \<and> sr (snd (f r w)) = sr w)
     \<and> (\<forall>f a w. cb_of cbs cb_on_attempt = Some f \<longrightarrow> st (f a w) = st w \<and> sr (f a w) = sr w)"

definition watched :: "'w sicha_callbacks option \<Rightarrow> bool \<Rightarrow> bytes \<Rightarrow> bytes \<Rightarrow> sicha_stream_ctx \<Rightarrow>
    bytes \<times> bytes \<Rightarrow> bool" where
  "watched cbs acc t0 r0 ctx x \<longleftrightarrow>
     buf_live (r_text (sc_r ctx)) \<and> buf_live (r_reasoning (sc_r ctx)) \<and> buf_live (sc_last_raw ctx)
     \<and> sc_accumulate ctx = acc
     \<and> (\<not> sc_delivered ctx \<longrightarrow> x = (t0, r0))
     \<and> (acc \<and> cb_of cbs cb_on_delta \<noteq> None \<longrightarrow> fst x = t0 @ buf_bytes (r_text (sc_r ctx)))
     \<and> (acc \<and> cb_of cbs cb_on_reasoning \<noteq> None \<longrightarrow> snd x = r0 @ buf_bytes (r_reasoning (sc_r ctx)))
     \<and> (cb_of cbs cb_on_delta = None \<longrightarrow> fst x = t0)
     \<and> (cb_of cbs cb_on_reasoning = None \<longrightarrow> snd x = r0)"

lemma watched_iff:
  "watched cbs acc t0 r0 ctx (st w, sr w) \<longleftrightarrow> stream_inv st sr cbs t0 r0 (ctx, w) \<and> sc_accumulate ctx = acc"
  by (auto simp: watched_def stream_inv_def)

lemma on_event_accumulate:
  assumes "ctx_live ctx" "sicha_stream_on_event rd cbs d (ctx, w) m = (rc, (ctx', w'), m')"
  shows "sc_accumulate ctx' = sc_accumulate ctx"
proof (cases "d = lit ''[DONE]''")
  case True
  with assms(2) show ?thesis by (auto simp: on_event_done simp del: lit_simps)
next
  case False
  from on_event_adds [OF assms(1) False assms(2)] show ?thesis by (auto simp: adds_def)
qed

lemma on_event_watched:
  assumes "watches st sr cbs"
  shows "keeps k (Some (sicha_stream_on_event rd cbs)) (\<lambda>(ctx, w). watched cbs acc t0 r0 ctx (st w, sr w))"
proof -
  have t: "traces st sr cbs" using assms by (simp add: watches_def)
  have "watched cbs acc t0 r0 ctx' (st w', sr w')"
    if "watched cbs acc t0 r0 ctx (st w, sr w)" "sicha_stream_on_event rd cbs d (ctx, w) m = (rc, (ctx', w'), m')"
    for d ctx w m rc ctx' w' m'
  proof -
    have i: "stream_inv st sr cbs t0 r0 (ctx, w)" "sc_accumulate ctx = acc" using that(1) by (simp_all add: watched_iff)
    have "ctx_live ctx" using i(1) by (simp add: stream_inv_def ctx_live_def)
    with on_event_inv [OF t i(1) that(2)] on_event_accumulate [OF _ that(2)] i(2) show ?thesis
      by (simp add: watched_iff)
  qed
  then show ?thesis unfolding keeps_def option.case
    by (metis (no_types, lifting) case_prod_conv prod.collapse)
qed

text \<open>The state of a call, between round trips.\<close>

definition saw :: "('w \<Rightarrow> bytes) \<Rightarrow> ('w \<Rightarrow> bytes) \<Rightarrow> 'w sicha_callbacks option \<Rightarrow> bool \<Rightarrow> bytes \<Rightarrow> bytes \<Rightarrow>
    'w chat_state \<Rightarrow> bool" where
  "saw st sr cbs acc t0 r0 s \<longleftrightarrow>
     buf_live (r_text (ch_r s)) \<and> buf_live (r_reasoning (ch_r s))
     \<and> (\<not> ch_delivered s \<longrightarrow> st (ch_w s) = t0 \<and> sr (ch_w s) = r0)
     \<and> (acc \<and> cb_of cbs cb_on_delta \<noteq> None \<longrightarrow> st (ch_w s) = t0 @ buf_bytes (r_text (ch_r s)))
     \<and> (acc \<and> cb_of cbs cb_on_reasoning \<noteq> None \<longrightarrow> sr (ch_w s) = r0 @ buf_bytes (r_reasoning (ch_r s)))"

lemma saw_frame:
  assumes "saw st sr cbs acc t0 r0 s" "r_text (ch_r s') = r_text (ch_r s)"
    "r_reasoning (ch_r s') = r_reasoning (ch_r s)" "ch_delivered s' = ch_delivered s"
    "st (ch_w s') = st (ch_w s)" "sr (ch_w s') = sr (ch_w s)"
  shows "saw st sr cbs acc t0 r0 s'"
  using assms by (simp add: saw_def)

lemma drain_quiet: "quiet obs t x \<Longrightarrow> obs (snd (drain_transfer t)) = x"
  by (induction t arbitrary: x) (auto simp: split_def)

lemma attempt_run_saw:
  assumes q: "env_quiet (\<lambda>w. (st w, sr w)) env" and W: "watches st sr cbs"
    and I: "saw st sr cbs acc t0 r0 s" "\<not> ch_delivered s"
    and acc: "acc = (rq_flags req AND SICHA_REQ_NO_ACCUMULATE = 0)"
    and run: "attempt_run rd env c i b req cbs True s = (out, cls, s')"
  shows "saw st sr cbs acc t0 r0 s'"
proof -
  let ?P = "watched cbs acc t0 r0" and ?r = "(sicha_result_reset_content (ch_r s))\<lparr>r_backend := int i\<rparr>"
  from run obtain out0 r w m w' where R:
    "run_attempt rd env c b (opt_bytes (ch_body s)) (case ch_headers s of None \<Rightarrow> [] | Some hs \<Rightarrow> hs) cbs ?r True
       acc (ch_w s) (ch_mem s) = (out0, r, w, m)"
    and V: "validate_attempt cbs r out0 (outcome_class c out0 r) w = (out, cls, w')"
    and s': "s' = s\<lparr>ch_r := r, ch_w := w', ch_mem := m, ch_delivered := ch_delivered s \<or> ao_delivered out0\<rparr>"
    unfolding acc by (rule attempt_run_cases)
  have "?P (sicha_stream_ctx_init ?r acc) (st (ch_w s), sr (ch_w s))"
    using I by (auto simp: watched_def saw_def sicha_stream_ctx_init_def sicha_result_reset_content_def)
  from run_attempt_keeps [where P = ?P and obs = "\<lambda>w. (st w, sr w)", OF q on_event_watched [OF W] this _ R]
  obtain ctx where ctx: "?P ctx (st w, sr w)" "sc_r ctx = r" "ao_delivered out0 = sc_delivered ctx"
    by auto
  have "st w' = st w \<and> sr w' = sr w"
    using V by (cases rule: validate_attempt_cases) (use W in \<open>auto simp: watches_def\<close>, (metis snd_conv)+)
  with ctx s' I show ?thesis by (auto simp: saw_def watched_def)
qed

lemma attempt_record_saw:
  assumes q: "env_quiet (\<lambda>w. (st w, sr w)) env" and W: "watches st sr cbs"
    and "saw st sr cbs acc t0 r0 s" "attempt_record env c i b cbs out cls s = (code, s')"
  shows "saw st sr cbs acc t0 r0 s' \<and> ch_delivered s' = ch_delivered s"
proof -
  have d: "st (debug_attempt env c a w) = st w" "sr (debug_attempt env c a w) = sr w" for a w
    using debug_quiet(2) [OF q, of c a w] by simp_all
  from assms(4) show ?thesis
    by (cases rule: attempt_record_cases)
      (use assms(3) W in \<open>auto simp: saw_def d watches_def split: option.split\<close>)
qed

lemma kobold_quiet:
  assumes "env_quiet obs env"
  shows "obs (kobold_abort_assist env c b w) = obs w"
proof (cases "b_url_abort b")
  case None
  then show ?thesis by (simp add: kobold_abort_assist_def)
next
  case (Some u)
  let ?rq = "abort_http_request b u"
  have "quiet obs (env_perform env ?rq False (debug_request env c ?rq w)) (obs (debug_request env c ?rq w))"
    using assms by (simp add: env_quiet_def)
  from drain_quiet [OF this] Some debug_quiet(1) [OF assms] show ?thesis
    by (simp add: kobold_abort_assist_def Let_def)
qed

lemma attempt_decide_saw:
  assumes q: "env_quiet (\<lambda>w. (st w, sr w)) env"
    and "saw st sr cbs acc t0 r0 s" "attempt_decide env c b out cls s = (v, s')"
  shows "saw st sr cbs acc t0 r0 s'"
proof -
  have w: "st (snd (env_wait_ms env n w)) = st w" "sr (snd (env_wait_ms env n w)) = sr w" for n w
    using q unfolding env_quiet_def by (metis Pair_inject)+
  have k: "st (kobold_abort_assist env c b w) = st w" "sr (kobold_abort_assist env c b w) = sr w" for w
    using kobold_quiet [OF q] by simp_all
  have "st (ch_w s') = st (ch_w s) \<and> sr (ch_w s') = sr (ch_w s)"
    using assms(3) w k
    by (cases cls) (auto simp: attempt_decide_def Let_def split: if_splits prod.splits; metis snd_conv)+
  with attempt_decide_frame [OF assms(3)] assms(2) show ?thesis by (intro saw_frame [OF assms(2)]) simp_all
qed

text \<open>One round trip from a state in which nothing was delivered.\<close>

lemma attempt_step_saw:
  assumes q: "env_quiet (\<lambda>w. (st w, sr w)) env" and W: "watches st sr cbs"
    and flag: "pol_flags (c_policy c) AND SICHA_POLICY_RETRY_AFTER_DELTAS = 0"
    and acc: "acc = (rq_flags req AND SICHA_REQ_NO_ACCUMULATE = 0)"
    and I: "saw st sr cbs acc t0 r0 s \<and> \<not> ch_delivered s"
    and step: "attempt_step rd wr env c i b req cbs True s = (v, s')"
  shows "case v of Finish _ \<Rightarrow> saw st sr cbs acc t0 r0 s'
    | _ \<Rightarrow> saw st sr cbs acc t0 r0 s' \<and> \<not> ch_delivered s'"
proof -
  have prep: "saw st sr cbs acc t0 r0 s1 \<and> \<not> ch_delivered s1"
    if "attempt_prepare rd wr env c b req True s = (code, s1)" for code s1
    using attempt_prepare_frame [OF that] I by (auto intro: saw_frame [of st sr cbs acc t0 r0 s])
  have "saw st sr cbs acc t0 r0 s'"
    using step
  proof (cases rule: attempt_step_cases)
    case (unprepared code)
    with prep show ?thesis by blast
  next
    case (unrecorded s1 out cls s2 code)
    with prep [OF unrecorded(1)] attempt_run_saw [OF q W _ _ acc unrecorded(2)]
      attempt_record_saw [OF q W _ unrecorded(3)] show ?thesis by blast
  next
    case (no_memory s1 out cls s2)
    with prep [OF no_memory(1)] attempt_run_saw [OF q W _ _ acc no_memory(2)]
      attempt_record_saw [OF q W _ no_memory(3)] show ?thesis by blast
  next
    case (decided s1 out cls s2 s3)
    with prep [OF decided(1)] attempt_run_saw [OF q W _ _ acc decided(2)]
      attempt_record_saw [OF q W _ decided(3)] attempt_decide_saw [OF q _ decided(5)] show ?thesis by blast
  qed
  moreover have "\<not> ch_delivered s'" if "\<And>code. v \<noteq> Finish code"
    using attempt_step_committed [OF step _ flag] that by blast
  ultimately show ?thesis by (cases v) auto
qed

theorem chat_backends_saw:
  assumes q: "env_quiet (\<lambda>w. (st w, sr w)) env" and W: "watches st sr cbs"
    and flag: "pol_flags (c_policy c) AND SICHA_POLICY_RETRY_AFTER_DELTAS = 0"
    and acc: "acc = (rq_flags req AND SICHA_REQ_NO_ACCUMULATE = 0)"
    and I: "saw st sr cbs acc t0 r0 s" "\<not> ch_delivered s"
    and run: "chat_backends rd wr env c i bs req cbs True s = (final, s')"
  shows "saw st sr cbs acc t0 r0 s'"
proof -
  let ?I = "\<lambda>s. saw st sr cbs acc t0 r0 s \<and> \<not> ch_delivered s"
  have "saw st sr cbs acc t0 r0 s' \<or> final = SICHA_E_EXHAUSTED \<and> ?I s'"
  proof (rule chat_backends_rule [where J = "\<lambda>_. ?I" and F = "\<lambda>_. saw st sr cbs acc t0 r0", OF _ _ run])
    show "?I s" using I by simp
    fix k b and s :: "'a chat_state" and res s'
    assume J: "?I s" and run: "backend_loop rd wr env c k b req cbs True (enter_backend s) = (res, s')"
    have start: "?I (enter_backend s)" using J by (auto simp: enter_backend_def saw_def)
    show "case res of None \<Rightarrow> ?I s' | Some st' \<Rightarrow> saw st sr cbs acc t0 r0 s'"
    proof (rule backend_loop_rule [where I = ?I and A = ?I and F = "\<lambda>_. saw st sr cbs acc t0 r0", OF _ start run])
      fix s v s' assume "?I s" "attempt_step rd wr env c k b req cbs True s = (v, s')"
      from attempt_step_saw [OF q W flag acc this]
      show "case v of Finish x \<Rightarrow> saw st sr cbs acc t0 r0 s' | Again \<Rightarrow> ?I s' | Advance \<Rightarrow> ?I s'" by (cases v) auto
    qed
  qed
  then show ?thesis by blast
qed

text \<open>A whole streaming call.\<close>

theorem chat_stream_saw:
  assumes q: "env_quiet (\<lambda>w. (st w, sr w)) env" and W: "watches st sr cbs"
    and flag: "pol_flags (c_policy c) AND SICHA_POLICY_RETRY_AFTER_DELTAS = 0"
    and acc: "rq_flags req AND SICHA_REQ_NO_ACCUMULATE = 0"
    and run: "sicha_chat_stream rd wr env (Some c) (Some req) cbs out_set w m = (final, Some r, client', w', m')"
  shows "(cb_of cbs cb_on_delta \<noteq> None \<longrightarrow> st w' = st w @ buf_bytes (r_text r))
    \<and> (cb_of cbs cb_on_reasoning \<noteq> None \<longrightarrow> sr w' = sr w @ buf_bytes (r_reasoning r))"
  using run unfolding sicha_chat_stream_def
proof (cases rule: chat_common_cases)
  case (no_arrays c0 r0)
  then show ?thesis by (simp add: fresh_result_def)
next
  case (ran c0 req0 m1 m2 s)
  let ?s = "chat_start c (fresh_result (c_max_response_bytes c)) w m2"
  have 1: "saw st sr cbs True (st w) (sr w) ?s" by (simp add: saw_def chat_start_def fresh_result_def)
  have 2: "\<not> ch_delivered ?s" by (simp add: chat_start_def)
  have 3: "chat_backends rd wr env c 0 (c_backends c) req cbs True ?s = (final, s)" using ran by simp
  have 4: "True = (rq_flags req AND SICHA_REQ_NO_ACCUMULATE = 0)" using acc by simp
  have "saw st sr cbs True (st w) (sr w) s"
    by (rule chat_backends_saw [where st = st and sr = sr and env = env, OF q W flag 4 1 2 3])
  moreover have "r = (ch_r s)\<lparr>r_status := final\<rparr>" "w' = ch_w s" using ran(7,8) by simp_all
  ultimately show ?thesis by (simp add: saw_def)
qed simp

end
