(* ===== verification/Transport.thy ===== *)
theory Transport
  imports Client
begin

text \<open>
  The contract between the client and a transport, as \<open>include/sicha.h\<close> states it at
  \<open>sicha_http_sink\<close> and \<open>sicha_transport\<close>: an interface that a transport implements, and what a
  sink gets from a transport that keeps it.
\<close>

section \<open>The protocol of a transport\<close>

text \<open>
  What \<open>sicha.h\<close> asks of a transport: the status line comes once and before any of the
  body, a nonzero answer of the sink ends the transfer, and a transfer does not succeed
  without a status line.
\<close>

primrec body_phase :: "'w transfer \<Rightarrow> bool" where
  "body_phase (T_done ts w) = True"
| "body_phase (T_status http hs w k) = False"
| "body_phase (T_body bs w k) =
     ((\<forall>x. fst x \<noteq> 0 \<longrightarrow> k x = T_done SICHA_T_E_ABORTED_BY_SINK (snd x)) \<and> (\<forall>x. body_phase (k x)))"

primrec conforms :: "'w transfer \<Rightarrow> bool" where
  "conforms (T_done ts w) = (ts \<noteq> SICHA_T_OK)"
| "conforms (T_status http hs w k) =
     ((\<forall>x. fst x \<noteq> 0 \<longrightarrow> k x = T_done SICHA_T_E_ABORTED_BY_SINK (snd x)) \<and> (\<forall>x. body_phase (k x)))"
| "conforms (T_body bs w k) = False"

datatype sink_event = Got_status int "sicha_header list" | Got_body bytes

text \<open>A sink that takes everything, and what it gets.\<close>

primrec accept_all :: "'w transfer \<Rightarrow> sink_event list \<times> sicha_transport_status \<times> 'w" where
  "accept_all (T_done ts w) = ([], ts, w)"
| "accept_all (T_status http hs w k) =
     (let (evs, ts, w) = accept_all (k (0, w)) in (Got_status http hs # evs, ts, w))"
| "accept_all (T_body bs w k) =
     (let (evs, ts, w) = accept_all (k (0, w)) in (Got_body bs # evs, ts, w))"

lemma accept_body_phase: "body_phase t \<Longrightarrow> accept_all t = (evs, ts, w) \<Longrightarrow> \<exists>bs. evs = map Got_body bs"
proof (induction t arbitrary: evs ts w)
  case (T_body bs w0 k)
  obtain e' ts' w' where e: "accept_all (k (0, w0)) = (e', ts', w')" by (rule prod_cases3)
  from T_body.IH [OF _ _ e] T_body.prems e obtain bs' where "e' = map Got_body bs'" by auto
  then have "evs = map Got_body (bs # bs')" using T_body.prems e by simp
  then show ?case by blast
qed auto

locale transport =
  fixes perform :: "sicha_http_request option \<Rightarrow> 'tok \<Rightarrow> 'w \<Rightarrow> 'w transfer"
  assumes conforms: "conforms (perform rq tok w)"
begin

lemma accepted:
  assumes "accept_all (perform rq tok w) = (evs, ts, w')"
  shows "evs = [] \<and> ts \<noteq> SICHA_T_OK \<or> (\<exists>http hs bs. evs = Got_status http hs # map Got_body bs)"
proof (cases "perform rq tok w")
  case (T_done ts w)
  with assms conforms [of rq tok] show ?thesis by (metis (no_types, lifting) accept_all.simps(1) conforms.simps(1) prod.inject)
next
  case (T_status http hs w1 k)
  obtain e' ts' w2 where e: "accept_all (k (0, w1)) = (e', ts', w2)" by (rule prod_cases3)
  have "body_phase (k (0, w1))" using conforms [of rq tok w] T_status by simp
  from accept_body_phase [OF this e] assms T_status e show ?thesis by auto
next
  case (T_body bs w1 k)
  with conforms [of rq tok w] show ?thesis by simp
qed

end

end
