(* ===== verification/Engine_Success.thy ===== *)
theory Engine_Success
  imports Engine_Log Transport Response_Parse
begin

text \<open>
  A backend that answers: when the transport delivers a 2xx response with a reply in it and
  there is enough memory, the call succeeds with the first round trip, and the result holds
  the reply.
\<close>

section \<open>Enough memory\<close>

lemma dup_header_ok:
  assumes "all_ok m" "dup_header n v m = (h, m')"
  shows "header_complete h \<and> all_ok m'"
proof -
  obtain x m1 where 1: "dup_cstr n m = (x, m1)" by fastforce
  obtain y m2 where 2: "dup_cstr v m1 = (y, m2)" by fastforce
  have a: "x \<noteq> None \<and> all_ok m1" using 1 assms(1) by (auto simp: dup_cstr_def split: prod.splits dest: all_ok_alloc)
  then have "y \<noteq> None \<and> all_ok m2" using 2 by (auto simp: dup_cstr_def split: prod.splits dest: all_ok_alloc)
  with a assms(2) show ?thesis by (auto simp: dup_header_def 1 2 header_complete_def)
qed

lemma dup_headers_ok:
  "all_ok m \<Longrightarrow> dup_headers hs m = (hs', m') \<Longrightarrow> (\<forall>h \<in> set hs'. header_complete h) \<and> all_ok m'"
proof (induction hs arbitrary: m hs' m')
  case (Cons h hs)
  obtain x m1 where 1: "dup_header (opt_bytes (hd_name h)) (opt_bytes (hd_value h)) m = (x, m1)" by fastforce
  obtain xs m2 where 2: "dup_headers hs m1 = (xs, m2)" by fastforce
  note a = dup_header_ok [OF Cons.prems(1) 1]
  from Cons.IH [OF conjunct2 [OF a] 2] a Cons.prems(2) show ?case by (auto simp: 1 2)
qed simp

lemma auth_header_ok:
  assumes "all_ok m" "auth_header key m = (h, m')"
  shows "header_complete h \<and> all_ok m'"
proof -
  obtain ok m1 where 1: "alloc m = (ok, m1)" by fastforce
  note a = all_ok_alloc [OF assms(1) 1]
  obtain n m2 where 2: "dup_cstr (lit ''Authorization'') m1 = (n, m2)" by fastforce
  have "n \<noteq> None \<and> all_ok m2" using 2 a by (auto simp: dup_cstr_def split: prod.splits dest: all_ok_alloc)
  with a assms(2) show ?thesis by (auto simp: auth_header_def 1 2 header_complete_def simp del: lit_simps)
qed

lemma build_headers_ok:
  assumes "all_ok m" "sicha_build_headers b stream ua m = (st, hs, m')"
  shows "st = SICHA_OK \<and> hs = Some (generated_headers b stream ua @ map copied (b_extra_headers b)) \<and> all_ok m'"
proof -
  obtain ok m0 where o: "alloc m = (ok, m0)" by fastforce
  note k0 = all_ok_alloc [OF assms(1) o]
  obtain h1 m1 where 1: "dup_header (lit ''Content-Type'') (lit ''application/json'') m0 = (h1, m1)" by fastforce
  note k1 = dup_header_ok [OF conjunct2 [OF k0] 1]
  obtain h2 m2 where 2: "dup_header (lit ''Accept'')
      (if stream then lit ''text/event-stream'' else lit ''application/json'') m1 = (h2, m2)" by fastforce
  note k2 = dup_header_ok [OF conjunct2 [OF k1] 2]
  obtain h3 m3 where 3: "dup_header (lit ''User-Agent'') ua m2 = (h3, m3)" by fastforce
  note k3 = dup_header_ok [OF conjunct2 [OF k2] 3]
  obtain auth m4 where 4: "(case b_api_key b of None \<Rightarrow> ([], m3)
      | Some key \<Rightarrow> let (h, m) = auth_header key m3 in ([h], m)) = (auth, m4)" by fastforce
  have k4: "(\<forall>h \<in> set auth. header_complete h) \<and> all_ok m4"
    using 4 k3 auth_header_ok [of m3] by (auto simp: Let_def split: option.splits prod.splits)
  obtain extra m5 where 5: "dup_headers (b_extra_headers b) m4 = (extra, m5)" by fastforce
  note k5 = dup_headers_ok [OF conjunct2 [OF k4] 5]
  have eq: "sicha_build_headers b stream ua m = (SICHA_OK, Some ([h1, h2, h3] @ auth @ extra), m5)"
    using k0 k1 k2 k3 k4 k5 by (simp add: sicha_build_headers_def o 1 2 3 4 5 ball_Un Let_def [of "dup_header a b c" for a b c]
      Let_def [of "dup_headers a b" for a b] Let_def [of "alloc a" for a] del: lit_simps)
  with assms(2) sicha_build_headers_cases [OF eq] k5 show ?thesis by simp
qed

lemma build_chat_body_ok:
  assumes "backend_wf rd b" "sicha_request_validate rd req mv = (SICHA_OK, mv')" "all_ok m"
    "\<forall>s v. rd s = Some v \<longrightarrow> json_ok v" "\<forall>v. json_ok v \<longrightarrow> wr v \<noteq> None"
    "sicha_build_chat_body rd wr b req stream m = (st, out, m')"
  shows "st = SICHA_OK \<and> out \<noteq> None \<and> all_ok m'"
proof -
  have s: "st = SICHA_OK" "out \<noteq> None" using build_chat_body_succeeds [OF assms(1-5), of stream] assms(6) by auto
  obtain v m0 where v: "sicha_request_validate rd req m = (v, m0)" by fastforce
  have v': "v = SICHA_OK" using s(1) assms(6) v by (auto simp: sicha_build_chat_body_def split: if_splits)
  note m0 = request_validate_cases(2) [OF v assms(3)]
  obtain r m1 where r: "chat_body_root rd b req stream m0 = (r, m1)" by fastforce
  have B: "case (r, m1) of
      (Inr v', m') \<Rightarrow> v' = chat_root rd b req stream \<and> (all_ok m0 \<longrightarrow> all_ok m')
    | (Inl e, m') \<Rightarrow> \<not> all_ok m0 \<and> (e = SICHA_E_NOMEM \<or> e = SICHA_E_INVALID_ARG)"
    using buildsD [OF builds_root [OF json_fields_okI [OF assms(1,2)], of stream], of m0]
    unfolding r chat_root_def .
  with m0 obtain root where root: "r = Inr root" "all_ok m1" by (cases r) auto
  obtain ok m2 where o: "alloc m1 = (ok, m2)" by fastforce
  note k = all_ok_alloc [OF root(2) o]
  from assms(6) v v' r root(1) o k have "m' = m2"
    by (auto simp: sicha_build_chat_body_def and_then_def yyjson_mut_write_def split: option.splits)
  with s k show ?thesis by simp
qed

lemma dup_bytes_mem: "dup_bytes s m = (p, m') \<Longrightarrow> all_ok m \<Longrightarrow> all_ok m'"
  using dup_bytes_keeps_ok by blast

lemma set_model_mem: "sicha_result_set_model r s m = (st, r', m') \<Longrightarrow> all_ok m \<Longrightarrow> all_ok m'"
  by (auto simp: sicha_result_set_model_def Let_def split: prod.splits if_splits option.splits dest: dup_bytes_mem)

lemma lift_model_mem: "lift_model r root m = (st, r', m') \<Longrightarrow> all_ok m \<Longrightarrow> all_ok m'"
  by (auto simp: lift_model_def Let_def split: prod.splits if_splits option.splits dest: set_model_mem)

lemma text_stage_mem: "text_stage r msg m = (x, r', m') \<Longrightarrow> all_ok m \<Longrightarrow> all_ok m'"
  by (auto simp: text_stage_def Let_def split: prod.splits if_splits option.splits dest: append_stage_mem)

lemma reasoning_stage_mem: "reasoning_stage r c0 msg m = (x, r', m') \<Longrightarrow> all_ok m \<Longrightarrow> all_ok m'"
  by (auto simp: reasoning_stage_def Let_def split: prod.splits if_splits option.splits dest: append_stage_mem)

lemma set_finish_mem: "sicha_result_set_finish r f m = (st, r', m') \<Longrightarrow> all_ok m \<Longrightarrow> all_ok m'"
  using set_finish_cases [of r f m st r' m'] by auto

lemma finish_stage_mem: "finish_stage r c0 m = (x, r', m') \<Longrightarrow> all_ok m \<Longrightarrow> all_ok m'"
  by (auto simp: finish_stage_def Let_def split: prod.splits if_splits option.splits dest: set_finish_mem)

lemma parse_choice_mem: "parse_choice r root c0 m = (st, bs, r', m') \<Longrightarrow> all_ok m \<Longrightarrow> all_ok m'"
  by (auto simp: parse_choice_def Let_def split: prod.splits if_splits parse_step.splits
      dest!: text_stage_mem reasoning_stage_mem finish_stage_mem lift_model_mem)

lemma response_parse_mem:
  assumes "sicha_response_parse rd r body m = (st, bs, r', m')" "all_ok m"
  shows "all_ok m'"
proof (cases "body = []")
  case True
  with assms show ?thesis by (simp add: sicha_response_parse_def)
next
  case False
  obtain v m1 where y: "yyjson_read rd body m = (v, m1)" by fastforce
  have "all_ok m1" using yyjson_read_ok [OF assms(2), of rd body] y by auto
  with assms(1) y show ?thesis
    by (auto simp: sicha_response_parse_eq [OF False] split: option.splits dest: parse_choice_mem)
qed

lemma buf_reserve_mem: "buf_reserve b n m = (ok, b', m') \<Longrightarrow> all_ok m \<Longrightarrow> all_ok m'"
  by (auto simp: buf_reserve_def Let_def split: if_splits prod.splits dest: all_ok_alloc)

lemma buf_take_mem: "sicha_buf_take b m = (p, n, b', m') \<Longrightarrow> all_ok m \<Longrightarrow> all_ok m'"
  by (auto simp: sicha_buf_take_def split: if_splits prod.splits option.splits dest: buf_reserve_mem)

section \<open>The transfer\<close>

text \<open>A body buffer that takes everything the transport delivers.\<close>

definition takes :: "attempt_io \<Rightarrow> nat \<Rightarrow> bool" where
  "takes io n \<longleftrightarrow> \<not> io_stream io \<and> buf_wf (io_body io) \<and> buf_err (io_body io) = SICHA_OK
     \<and> length (buf_bytes (io_body io)) + n < SIZE_MAX
     \<and> (buf_max_len (io_body io) = 0 \<or> length (buf_bytes (io_body io)) + n \<le> buf_max_len (io_body io))"

lemma on_body_takes:
  assumes "takes io (length bs + n)" "all_ok m" "attempt_on_body rd cbs bs io w m = (rc, io', w', m')"
  shows "rc = 0 \<and> w' = w \<and> all_ok m' \<and> takes io' n \<and> io_sctx io' = io_sctx io \<and> io_http_status io' = io_http_status io
    \<and> buf_bytes (io_body io') = buf_bytes (io_body io) @ bs"
proof -
  obtain b m1 where a: "sicha_buf_append (io_body io) bs m = (b, m1)" by fastforce
  have t: "buf_wf (io_body io)" "buf_err (io_body io) = SICHA_OK" "\<not> io_stream io"
    using assms(1) by (simp_all add: takes_def)
  from t(1,2) a have "buf_err b = SICHA_OK \<and> buf_bytes b = buf_bytes (io_body io) @ bs \<and> buf_wf b
      \<and> buf_max_len b = buf_max_len (io_body io)"
    by (cases rule: append_outcomes) (use assms(1,2) in \<open>auto simp: takes_def\<close>)
  moreover note append_mem [OF a assms(2)]
  ultimately show ?thesis using assms(1,3) t(3)
    by (auto simp: attempt_on_body_def a takes_def sicha_buf_status_def)
qed

lemma run_body_takes:
  assumes "accept_all t = (map Got_body bs, ts, w')" "takes io (length (concat bs))" "all_ok m"
  shows "\<exists>io' m'. run_transfer rd cbs t io m = (ts, io', w', m') \<and> all_ok m' \<and> takes io' 0
    \<and> io_sctx io' = io_sctx io \<and> io_http_status io' = io_http_status io
    \<and> buf_bytes (io_body io') = buf_bytes (io_body io) @ concat bs"
  using assms
proof (induction t arbitrary: bs io m)
  case (T_done x1 x2)
  then show ?case by (auto simp: takes_def)
next
  case (T_status x1 x2 x3 x4)
  then show ?case by (auto simp: split_def Let_def)
next
  case (T_body b w k)
  obtain e ts1 w1 where e: "accept_all (k (0, w)) = (e, ts1, w1)" by (rule prod_cases3)
  with T_body.prems(1) obtain bs' where bs: "bs = b # bs'" "e = map Got_body bs'" "ts1 = ts" "w1 = w'"
    by (cases bs) auto
  obtain rc io1 w2 m1 where o: "attempt_on_body rd cbs b io w m = (rc, io1, w2, m1)" by (metis prod_cases4)
  have "takes io (length b + length (concat bs'))" using T_body.prems(2) bs(1) by simp
  note O = on_body_takes [OF this T_body.prems(3) o]
  have "accept_all (k (0, w)) = (map Got_body bs', ts, w')" using e bs by simp
  from T_body.IH [OF _ this, of io1 m1] O obtain io' m' where
    "run_transfer rd cbs (k (0, w)) io1 m1 = (ts, io', w', m')" "all_ok m'" "takes io' 0"
    "io_sctx io' = io_sctx io1" "io_http_status io' = io_http_status io1"
    "buf_bytes (io_body io') = buf_bytes (io_body io1) @ concat bs'" by auto
  with O bs(1) show ?case by (simp add: o)
qed

lemma scan_retry_after_takes [simp]:
  "takes (scan_retry_after hs io) n = takes io n" "io_http_status (scan_retry_after hs io) = io_http_status io"
  "io_body (scan_retry_after hs io) = io_body io"
  by (induction hs arbitrary: io) (auto simp: takes_def split: option.splits)

lemma run_transfer_takes:
  assumes "accept_all t = (Got_status http hs # map Got_body bs, ts, w')" "takes io (length (concat bs))" "all_ok m"
  shows "\<exists>io' m'. run_transfer rd cbs t io m = (ts, io', w', m') \<and> all_ok m' \<and> takes io' 0
    \<and> io_sctx io' = io_sctx io \<and> io_http_status io' = http
    \<and> buf_bytes (io_body io') = buf_bytes (io_body io) @ concat bs"
proof (cases t)
  case (T_status x1 x2 w k)
  then have "accept_all (k (0, w)) = (map Got_body bs, ts, w')" "x1 = http" "x2 = hs"
    using assms(1) by (auto simp: Let_def split: prod.splits)
  moreover have "takes (scan_retry_after hs (io\<lparr>io_http_status := http\<rparr>)) (length (concat bs))"
    using assms(2) by (simp add: takes_def)
  ultimately show ?thesis
    using run_body_takes [of "k (0, w)" bs ts w' "scan_retry_after hs (io\<lparr>io_http_status := http\<rparr>)" m rd cbs]
      T_status assms(3)
    by (auto simp: attempt_on_status_def)
qed (use assms(1) in \<open>auto simp: Let_def split: prod.splits\<close>)

section \<open>The call\<close>

text \<open>
  The transport answers the first request of a call to a backend, whatever its body and
  headers, with one response. The call finds the world as \<open>w\<close>.
\<close>

definition answers :: "'w client_env \<Rightarrow> sicha_client \<Rightarrow> sicha_backend \<Rightarrow> int \<Rightarrow> bytes \<Rightarrow> 'w \<Rightarrow> bool" where
  "answers env c b http body w \<longleftrightarrow>
     (\<forall>bd hds t0 w1. env_now_ms env (debug_request env c (chat_http_request b bd hds) w) = (t0, w1) \<longrightarrow>
        (\<exists>hs bs w'. accept_all (env_perform env (chat_http_request b bd hds) (env_cancelled env \<noteq> None) w1)
             = (Got_status http hs # map Got_body bs, SICHA_T_OK, w') \<and> concat bs = body))"

text \<open>A reply that fits the caps of the client and that its policy accepts.\<close>

definition good_reply :: "json_reader \<Rightarrow> sicha_client \<Rightarrow> bytes \<Rightarrow> reply \<Rightarrow> bool" where
  "good_reply rd c body rp \<longleftrightarrow>
     reply_of rd body = Some rp \<and> body \<noteq> [] \<and> length body < SIZE_MAX \<and> length body \<le> c_max_response_bytes c
     \<and> length (opt_bytes (rp_content rp)) < SIZE_MAX \<and> length (opt_bytes (rp_content rp)) \<le> c_max_response_bytes c
     \<and> length (opt_bytes (rp_reasoning rp)) < SIZE_MAX \<and> length (opt_bytes (rp_reasoning rp)) \<le> c_max_response_bytes c
     \<and> \<not> finish_policed (c_policy c) (case rp_finish rp of None \<Rightarrow> SICHA_FINISH_UNKNOWN | Some f \<Rightarrow> finish_named f)"

lemma finish_body_good:
  assumes "good_reply rd c (buf_bytes (io_body io)) rp" "takes io 0" "all_ok m"
    "sc_r (io_sctx io) = r" "clean r" "buf_bytes (r_text r) = []" "buf_bytes (r_reasoning r) = []"
    "buf_max_len (r_text r) = c_max_response_bytes c" "buf_max_len (r_reasoning r) = c_max_response_bytes c"
    "finish_body rd io out m = (out', io', m')" "r_finish r = SICHA_FINISH_UNKNOWN"
  shows "out' = out\<lparr>ao_body_state := SICHA_BODY_OK\<rparr> \<and> all_ok m' \<and> io_http_status io' = io_http_status io
    \<and> io_stream io' = io_stream io
    \<and> (\<exists>r' d. sc_r (io_sctx io') = r'\<lparr>r_raw_body := Some d, r_raw_body_len := length (buf_bytes (io_body io))\<rparr>
         \<and> holds_reply r rp r' \<and> take (length (buf_bytes (io_body io))) d = buf_bytes (io_body io))"
proof -
  obtain st bs r1 m1 where p: "sicha_response_parse rd r (buf_bytes (io_body io)) m = (st, bs, r1, m1)"
    by (metis prod_cases4)
  have P: "st = SICHA_OK \<and> bs = SICHA_BODY_OK \<and> holds_reply r rp r1"
    by (rule sicha_response_parse_cases [OF assms(5) p])
      (use assms(1,3,6-9) in \<open>auto simp: good_reply_def parse_fate_def over_cap_def addressable_def\<close>)
  have t: "buf_wf (io_body io)" "buf_err (io_body io) = SICHA_OK" using assms(2) by (simp_all add: takes_def)
  obtain raw n b2 m2 where k: "sicha_buf_take (io_body io) m1 = (raw, n, b2, m2)" by (metis prod_cases4)
  have "raw \<noteq> None" using sicha_buf_take_None [OF t response_parse_mem [OF p assms(3)]] k by simp
  then obtain d where d: "raw = Some d" by blast
  note T = sicha_buf_take_Some [OF t(1) k [unfolded d]]
  have n: "n = length (buf_bytes (io_body io))"
    using T(1,3) by (metis length_take less_imp_le min.absorb2)
  note m2 = buf_take_mem [OF k response_parse_mem [OF p assms(3)]]
  show ?thesis using assms(10) P p k d n m2 T(1)
    by (auto simp: finish_body_def assms(4) Let_def intro!: exI [of _ r1] exI [of _ d])
qed

lemma holds_reply_finish:
  "holds_reply r rp r' \<Longrightarrow> r_finish r = SICHA_FINISH_UNKNOWN \<Longrightarrow>
    r_finish r' = (case rp_finish rp of None \<Rightarrow> SICHA_FINISH_UNKNOWN | Some f \<Rightarrow> finish_named f)"
  by (auto simp: holds_reply_def split: option.split dest!: arg_cong [of _ _ r_finish])

lemma run_attempt_good:
  assumes "answers env c b http body w" "200 \<le> http" "http \<le> 299" "good_reply rd c body rp" "all_ok m"
    and "c_max_response_bytes c \<noteq> 0" "r = (sicha_result_reset_content r0)\<lparr>r_backend := i\<rparr>" "clean r0"
    and "buf_max_len (r_text r0) = c_max_response_bytes c" "buf_max_len (r_reasoning r0) = c_max_response_bytes c"
    and "run_attempt rd env c b bd hs cbs r False acc w m = (out, r', w', m')"
  shows "ao_ts out = SICHA_T_OK \<and> ao_terminal out = SICHA_OK \<and> ao_http_status out = http
    \<and> ao_body_state out = SICHA_BODY_OK \<and> all_ok m' \<and> buf_bytes (r_text r') = opt_bytes (rp_content rp)
    \<and> buf_bytes (r_reasoning r') = opt_bytes (rp_reasoning rp)
    \<and> take (r_raw_body_len r') (opt_bytes (r_raw_body r')) = body
    \<and> r_finish r' = (case rp_finish rp of None \<Rightarrow> SICHA_FINISH_UNKNOWN | Some f \<Rightarrow> finish_named f)"
proof -
  let ?rq = "chat_http_request b bd hs"
  let ?io = "attempt_io_init c r False acc"
  let ?w = "debug_request env c ?rq w"
  obtain t0 w1 where t0: "env_now_ms env ?w = (t0, w1)" by fastforce
  obtain hdrs bs w2 where a: "accept_all (env_perform env ?rq (env_cancelled env \<noteq> None) w1)
      = (Got_status http hdrs # map Got_body bs, SICHA_T_OK, w2)" "concat bs = body"
    using assms(1) t0 unfolding answers_def by blast
  have "takes ?io (length (concat bs))"
    using a(2) assms(4) by (simp add: takes_def attempt_io_init_def good_reply_def)
  from run_transfer_takes [OF a(1) this assms(5), of rd cbs] obtain io m1 where
    T: "run_transfer rd cbs (env_perform env ?rq (env_cancelled env \<noteq> None) w1) ?io m = (SICHA_T_OK, io, w2, m1)"
    and io: "all_ok m1" "takes io 0" "io_sctx io = io_sctx ?io" "io_http_status io = http" "buf_bytes (io_body io) = body"
    using a(2) by (auto simp: attempt_io_init_def)
  obtain t1 w3 where t1: "env_now_ms env w2 = (t1, w3)" by fastforce
  let ?out = "untangle io (outcome_start io SICHA_T_OK (t1 - t0))"
  obtain out1 io1 m2 where f: "finish_body rd io ?out m1 = (out1, io1, m2)" by (metis prod_cases3)
  have r: "sc_r (io_sctx io) = r" using io(3) by (simp add: attempt_io_init_def sicha_stream_ctx_init_def)
  have c: "clean r" "buf_bytes (r_text r) = []" "buf_bytes (r_reasoning r) = []"
    "buf_max_len (r_text r) = c_max_response_bytes c" "buf_max_len (r_reasoning r) = c_max_response_bytes c"
    "r_finish r = SICHA_FINISH_UNKNOWN"
    using assms(7-10) by (simp_all add: clean_def sicha_result_reset_content_def sicha_buf_reset_wf)
  have "good_reply rd c (buf_bytes (io_body io)) rp" using assms(4) io(5) by simp
  from finish_body_good [OF this io(2,1) r c(1-5) f c(6)] obtain r1 d where
    F: "out1 = ?out\<lparr>ao_body_state := SICHA_BODY_OK\<rparr>" "all_ok m2" "io_stream io1 = io_stream io"
    "sc_r (io_sctx io1) = r1\<lparr>r_raw_body := Some d, r_raw_body_len := length body\<rparr>" "holds_reply r rp r1"
    "take (length body) d = body" unfolding io(5) by blast
  have s: "\<not> io_stream io" using io(2) by (simp add: takes_def)
  have o: "ao_ts ?out = SICHA_T_OK" "ao_terminal ?out = SICHA_OK" "ao_http_status ?out = http" "ao_body_state ?out = SICHA_BODY_OK"
    by (simp_all add: untangle_def outcome_start_def io(4))
  have fr: "finish_response rd cbs io ?out w3 m1 = (out1, io1, w3, m2)"
    using s o assms(2,3) f by (simp add: finish_response_def http_ok_def)
  have run: "r' = sc_r (io_sctx io1)" "m' = m2"
    "out = outcome_message ((attempt_excerpt io1 out1)\<lparr>ao_delivered := io_stream io1 \<and> sc_delivered (io_sctx io1)\<rparr>)"
    using assms(11) by (simp_all add: run_attempt_def Let_def t0 T t1 fr del: not_None_eq)
  have e: "attempt_excerpt io1 out1 = out1"
    using F(1) o assms(2,3) by (simp add: attempt_excerpt_def Let_def http_ok_def)
  show ?thesis
    using run F o e c(2,3) holds_reply_finish [OF F(5) c(6)]
    by (auto simp: outcome_message_def holds_reply_def opt_bytes_def)
qed

text \<open>
  The first round trip of a backend, when the attempt ends well whatever the body and the
  headers are that the client has built for it.
\<close>

definition ends_well :: "sicha_client \<Rightarrow> attempt_outcome \<Rightarrow> sicha_result \<Rightarrow> bool" where
  "ends_well c out r \<longleftrightarrow> ao_ts out = SICHA_T_OK \<and> ao_terminal out = SICHA_OK \<and> http_success (ao_http_status out)
     \<and> ao_body_state out = SICHA_BODY_OK \<and> \<not> finish_policed (c_policy c) (r_finish r)"

lemma step_finishes:
  assumes "all_ok (ch_mem s)" "backend_wf rd b" "sicha_request_validate rd req mv = (SICHA_OK, mv')"
    and "validate_overrides (override_list (c_policy c)) = SICHA_OK"
    and "\<forall>s v. rd s = Some v \<longrightarrow> json_ok v" "\<forall>v. json_ok v \<longrightarrow> wr v \<noteq> None"
    and "\<forall>f w. env_cancelled env = Some f \<longrightarrow> \<not> f w"
    and "\<forall>f r w. cb_of cbs cb_validate = Some f \<longrightarrow> fst (f r w) = 0"
    and "ch_body s = None" "ch_headers s = None"
    and run: "\<And>bd hds m out r' w' m'. all_ok m \<Longrightarrow>
      run_attempt rd env c b bd hds cbs ((sicha_result_reset_content (ch_r s))\<lparr>r_backend := int i\<rparr>) stream
        (rq_flags req AND SICHA_REQ_NO_ACCUMULATE = 0) (ch_w s) m = (out, r', w', m') \<Longrightarrow>
      ends_well c out r' \<and> all_ok m' \<and> Q r'"
    and step: "attempt_step rd wr env c i b req cbs stream s = (v, s')"
  shows "v = Finish SICHA_OK \<and> r_backend (ch_r s') = int i
    \<and> (\<exists>r' a cap. Q r' \<and> r_attempts r' = r_attempts (ch_r s)
         \<and> ch_r s' = r'\<lparr>r_cap_attempts := cap, r_attempts := r_attempts r' @ [a]\<rparr>)"
proof -
  obtain st1 bd m1 where b1: "sicha_build_chat_body rd wr b req stream (ch_mem s) = (st1, bd, m1)" by (metis prod_cases3)
  note B = build_chat_body_ok [OF assms(2,3,1,5,6) b1]
  obtain st2 hs m2 where h: "sicha_build_headers b stream (c_user_agent c) m1 = (st2, hs, m2)" by (metis prod_cases3)
  from B have "all_ok m1" by simp
  note H = build_headers_ok [OF this h]
  let ?s1 = "s\<lparr>ch_body := bd, ch_headers := hs, ch_mem := m2\<rparr>"
  have prep: "attempt_prepare rd wr env c b req stream s = (SICHA_OK, ?s1)"
    using B H assms(7,9,10)
    by (auto simp: attempt_prepare_def prepare_body_def prepare_headers_def b1 h Let_def split: option.split)
  obtain out cls s2 where r: "attempt_run rd env c i b req cbs stream ?s1 = (out, cls, s2)" by (metis prod_cases3)
  from r obtain out0 r w m w' where R:
    "run_attempt rd env c b (opt_bytes bd) (case hs of None \<Rightarrow> [] | Some hs \<Rightarrow> hs) cbs
       ((sicha_result_reset_content (ch_r s))\<lparr>r_backend := int i\<rparr>) stream
       (rq_flags req AND SICHA_REQ_NO_ACCUMULATE = 0) (ch_w s) m2 = (out0, r, w, m)"
    "validate_attempt cbs r out0 (outcome_class c out0 r) w = (out, cls, w')"
    "s2 = ?s1\<lparr>ch_r := r, ch_w := w', ch_mem := m, ch_delivered := ch_delivered s \<or> ao_delivered out0\<rparr>"
    by (rule attempt_run_cases) auto
  from H have "all_ok m2" by simp
  note G = run [OF this R(1), unfolded ends_well_def]
  have none: "outcome_class c out0 r = SICHA_CLASS_NONE"
    using G classify_None_iff [OF assms(4)] by (simp add: outcome_class_def)
  from R(2) have V: "cls = SICHA_CLASS_NONE \<and> out = out0"
    by (cases rule: validate_attempt_cases) (use none assms(8) in \<open>auto, metis fst_conv\<close>)
  obtain st3 s3 where rec: "attempt_record env c i b cbs out cls s2 = (st3, s3)" by fastforce
  have kept: "r_attempts r = r_attempts (ch_r s)" "r_backend r = int i"
    using run_attempt_kept [OF R(1)] by (simp_all add: kept_part_def sicha_result_reset_content_def)
  from rec have rec3: "st3 = SICHA_OK \<and> (\<exists>a cap. ch_r s3 = r\<lparr>r_cap_attempts := cap, r_attempts := r_attempts r @ [a]\<rparr>)"
    by (cases rule: attempt_record_cases) (use R(3) G in auto)
  have "attempt_step rd wr env c i b req cbs stream s = (Finish SICHA_OK, s3)"
    using rec3 V G rec by (simp add: attempt_step_def prep r attempt_decide_def)
  with step have v: "v = Finish SICHA_OK" "s' = s3" by simp_all
  from rec3 obtain a cap where a: "ch_r s3 = r\<lparr>r_cap_attempts := cap, r_attempts := r_attempts r @ [a]\<rparr>" by blast
  with G kept v show ?thesis by (intro conjI exI [of _ r] exI [of _ a] exI [of _ cap]) simp_all
qed

lemma step_succeeds:
  assumes "answers env c b http body (ch_w s)" "200 \<le> http" "http \<le> 299" "good_reply rd c body rp" "all_ok (ch_mem s)"
    and "c_max_response_bytes c \<noteq> 0" "clean (ch_r s)" "validate_overrides (override_list (c_policy c)) = SICHA_OK"
    and "buf_max_len (r_text (ch_r s)) = c_max_response_bytes c" "buf_max_len (r_reasoning (ch_r s)) = c_max_response_bytes c"
    and "backend_wf rd b" "sicha_request_validate rd req mv = (SICHA_OK, mv')"
    and "\<forall>s v. rd s = Some v \<longrightarrow> json_ok v" "\<forall>v. json_ok v \<longrightarrow> wr v \<noteq> None"
    and "\<forall>f w. env_cancelled env = Some f \<longrightarrow> \<not> f w"
    and "\<forall>f r w. cb_of cbs cb_validate = Some f \<longrightarrow> fst (f r w) = 0"
    and "ch_body s = None" "ch_headers s = None"
    and "attempt_step rd wr env c i b req cbs False s = (v, s')"
  shows "v = Finish SICHA_OK \<and> r_backend (ch_r s') = int i \<and> buf_bytes (r_text (ch_r s')) = opt_bytes (rp_content rp)
    \<and> buf_bytes (r_reasoning (ch_r s')) = opt_bytes (rp_reasoning rp)
    \<and> take (r_raw_body_len (ch_r s')) (opt_bytes (r_raw_body (ch_r s'))) = body
    \<and> length (r_attempts (ch_r s')) = Suc (length (r_attempts (ch_r s)))"
proof -
  let ?Q = "\<lambda>r. buf_bytes (r_text r) = opt_bytes (rp_content rp) \<and> buf_bytes (r_reasoning r) = opt_bytes (rp_reasoning rp)
    \<and> take (r_raw_body_len r) (opt_bytes (r_raw_body r)) = body"
  have "v = Finish SICHA_OK \<and> r_backend (ch_r s') = int i
    \<and> (\<exists>r' a cap. ?Q r' \<and> r_attempts r' = r_attempts (ch_r s)
         \<and> ch_r s' = r'\<lparr>r_cap_attempts := cap, r_attempts := r_attempts r' @ [a]\<rparr>)"
  proof (rule step_finishes [OF assms(5,11,12,8,13-18) _ assms(19)])
    fix bd hds m out r' w' m'
    assume "all_ok m" and run: "run_attempt rd env c b bd hds cbs
      ((sicha_result_reset_content (ch_r s))\<lparr>r_backend := int i\<rparr>) False
      (rq_flags req AND SICHA_REQ_NO_ACCUMULATE = 0) (ch_w s) m = (out, r', w', m')"
    from run_attempt_good [OF assms(1-4) this(1) assms(6) refl assms(7,9,10) run] assms(2-4)
    show "ends_well c out r' \<and> all_ok m' \<and> ?Q r'"
      by (auto simp: ends_well_def http_success_def good_reply_def)
  qed
  then show ?thesis by auto
qed

theorem chat_succeeds:
  assumes "client_ok rd c" "all_ok m" "sicha_request_validate rd req m = (SICHA_OK, m0)"
    and "answers env c (hd (c_backends c)) http body w" "200 \<le> http" "http \<le> 299" "good_reply rd c body rp"
    and "\<forall>s v. rd s = Some v \<longrightarrow> json_ok v" "\<forall>v. json_ok v \<longrightarrow> wr v \<noteq> None"
    and "\<forall>f w. env_cancelled env = Some f \<longrightarrow> \<not> f w"
    and "\<forall>f r w. cb_of cbs cb_validate = Some f \<longrightarrow> fst (f r w) = 0"
    and "case cbs of None \<Rightarrow> True | Some k \<Rightarrow> cb_struct_size_ok k"
  shows "\<exists>r c' w' m'. sicha_chat rd wr env (Some c) (Some req) cbs True w m = (SICHA_OK, Some r, c', w', m')
    \<and> r_status r = SICHA_OK \<and> buf_bytes (r_text r) = opt_bytes (rp_content rp)
    \<and> buf_bytes (r_reasoning r) = opt_bytes (rp_reasoning rp)
    \<and> take (r_raw_body_len r) (opt_bytes (r_raw_body r)) = body \<and> length (r_attempts r) = 1"
proof -
  note m0 = request_validate_cases(2) [OF assms(3,2)]
  obtain k m1 where 1: "alloc m0 = (k, m1)" by fastforce
  note k = all_ok_alloc [OF m0 1]
  obtain ok m2 where 2: "alloc4 m1 = (ok, m2)" by fastforce
  note k2 = alloc4_ok [OF conjunct2 [OF k] 2]
  let ?r0 = "fresh_result (c_max_response_bytes c)"
  obtain b bs where bs: "c_backends c = b # bs" using assms(1) by (cases "c_backends c") (auto simp: client_ok_def)
  let ?s = "enter_backend (chat_start c ?r0 w m2)"
  obtain v s' where st: "attempt_step rd wr env c 0 b req cbs False ?s = (v, s')" by fastforce
  have c: "c_max_response_bytes c \<noteq> 0" "validate_overrides (override_list (c_policy c)) = SICHA_OK" "backend_wf rd b"
    using assms(1) bs by (simp_all add: client_ok_def)
  have S: "all_ok (ch_mem ?s)" "clean (ch_r ?s)" "buf_max_len (r_text (ch_r ?s)) = c_max_response_bytes c"
    "buf_max_len (r_reasoning (ch_r ?s)) = c_max_response_bytes c" "ch_body ?s = None" "ch_headers ?s = None"
    "r_attempts (ch_r ?s) = []"
    using k2 by (simp_all add: enter_backend_def chat_start_def clean_def fresh_result_def)
  have a: "answers env c b http body (ch_w ?s)"
    using assms(4) bs by (simp add: enter_backend_def chat_start_def)
  note step = step_succeeds [OF a assms(5-7) S(1) c(1) S(2) c(2) S(3,4) c(3) assms(3,8-11) S(5,6) st]
  have "backend_loop rd wr env c 0 b req cbs False ?s = (Some SICHA_OK, s')"
    using step st by (simp add: backend_loop.simps)
  then have run: "chat_backends rd wr env c 0 (c_backends c) req cbs False (chat_start c ?r0 w m2) = (SICHA_OK, s')"
    by (simp add: bs)
  have cb: "\<not> (case cbs of None \<Rightarrow> False | Some k \<Rightarrow> \<not> cb_struct_size_ok k)"
    using assms(12) by (cases cbs) simp_all
  have "sicha_chat rd wr env (Some c) (Some req) cbs True w m =
      (SICHA_OK, Some ((ch_r s')\<lparr>r_status := SICHA_OK\<rparr>), Some (c\<lparr>c_req_counter := c_req_counter c + 1\<rparr>), ch_w s', ch_mem s')"
    using cb k k2
    by (simp add: sicha_chat_def chat_common_def assms(3) sicha_result_create_def 1 2 run Let_def)
  with step S(7) show ?thesis by simp
qed

end
