(* ===== verification/Client_Facts.thy ===== *)
theory Client_Facts
  imports Engine_Log
begin

text \<open>
  What a created client promises, what the debug log keeps to itself, how long a retry waits,
  and the call with a token that is already set.
\<close>

section \<open>Created clients\<close>

lemma init_backends_wf:
  "init_backends rd ds m = (SICHA_OK, bs, m') \<Longrightarrow> length bs = length ds \<and> (\<forall>b \<in> set bs. backend_wf rd b)"
proof (induction ds arbitrary: m bs m')
  case (Cons d ds)
  obtain st b m1 where 1: "sicha_backend_init rd d m = (st, b, m1)" by (metis prod_cases3)
  obtain st2 bs2 m2 where 2: "init_backends rd ds m1 = (st2, bs2, m2)" by (metis prod_cases3)
  from Cons.prems have s: "st = SICHA_OK" "st2 = SICHA_OK" "bs = b # bs2"
    by (auto simp: 1 2 split: if_splits)
  with Cons.IH [of m1 bs2 m2] 2 sicha_backend_init_wf [of rd d m b m1] 1 show ?case by simp
qed simp

lemma seed_nonzero: "seed_of pe opts \<noteq> 0"
  by (simp add: seed_of_def Let_def split: prod.split)

lemma default_user_agent: "safe_value (cstr (take 63 (lit ''sicha/'' @ sicha_version_str)))"
  by (simp add: safe_value_def cstr_def sicha_version_str_def)

lemma client_opts_check_OK:
  assumes "client_opts_check pe opts = SICHA_OK"
  shows "o_backends opts \<noteq> None \<and> o_n_backends opts \<noteq> 0 \<and> sicha_policy_validate (o_retry opts) = SICHA_OK
    \<and> (\<forall>ua. o_user_agent opts = Some ua \<longrightarrow> safe_value (cstr ua))"
  using assms sicha_header_validate_iff [of "Some (lit ''User-Agent'')"]
  by (auto simp: client_opts_check_def split: if_splits simp del: lit_simps)

lemma client_create_ok:
  assumes "sicha_client_create rd pe (Some opts) m = (st, Some c, m')"
    and "\<forall>ds. o_backends opts = Some ds \<longrightarrow> o_n_backends opts \<le> length ds"
  shows "st = SICHA_OK \<and> client_ok rd c \<and> length (c_backends c) = o_n_backends opts
    \<and> c_policy c = sicha_policy_resolve (o_retry opts) \<and> c_req_counter c = 0"
proof -
  have chk: "client_opts_check pe opts = SICHA_OK"
    using assms(1) by (auto simp: sicha_client_create_def split: if_splits)
  note C = client_opts_check_OK [OF chk]
  then obtain ds where ds: "o_backends opts = Some ds" by auto
  obtain k1 m1 where 1: "alloc m = (k1, m1)" by fastforce
  obtain k2 m2 where 2: "alloc m1 = (k2, m2)" by fastforce
  obtain st3 bs m3 where 3: "init_backends rd (take (o_n_backends opts) ds) m2 = (st3, bs, m3)" by (metis prod_cases3)
  obtain k4 m4 where 4: "(if 0 < n_overrides (o_retry opts) then alloc m3 else (True, m3)) = (k4, m4)" by fastforce
  let ?ua = "case o_user_agent opts of None \<Rightarrow> take 63 (lit ''sicha/'' @ sicha_version_str) | Some ua \<Rightarrow> ua"
  obtain ua m5 where 5: "dup_cstr ?ua m4 = (ua, m5)" by fastforce
  note A = assms(1) [unfolded sicha_client_create_def option.case Let_def chk ds 1 2 3 4 5 prod.case]
  obtain u where ok: "k1" "k2" "st3 = SICHA_OK" "k4" "ua = Some u" "st = SICHA_OK"
    and c: "c = \<lparr>c_backends = bs, c_policy = sicha_policy_resolve (o_retry opts),
        c_prng_seed = seed_of pe opts, c_req_counter = 0,
        c_max_response_bytes = (if o_max_response_bytes opts \<noteq> 0
          then o_max_response_bytes opts else SICHA_DEFAULT_MAX_RESPONSE_BYTES),
        c_max_event_bytes = (if o_max_event_bytes opts \<noteq> 0
          then o_max_event_bytes opts else SICHA_DEFAULT_MAX_EVENT_BYTES),
        c_user_agent = u, c_debug = debug_enabled pe\<rparr>"
    using A by (auto split: if_splits option.splits)
  note B = init_backends_wf [OF 3 [unfolded ok(3)]]
  have len: "length bs = o_n_backends opts" using B assms(2) ds by simp
  have ua: "safe_value (cstr u)"
    using 5 ok(5) C default_user_agent dup_cstr_Some by (fastforce split: option.splits simp del: lit_simps)
  have pol: "validate_overrides (override_list (o_retry opts)) = SICHA_OK"
    using C by (auto simp: sicha_policy_validate_def Let_def split: if_splits)
  have "client_ok rd c"
    using B C len ua pol seed_nonzero sicha_policy_resolve_resolved
    by (auto simp: client_ok_def c SICHA_DEFAULT_MAX_RESPONSE_BYTES_def SICHA_DEFAULT_MAX_EVENT_BYTES_def)
  with ok(6) len show ?thesis by (simp add: c)
qed

section \<open>How many attempts a call makes\<close>

lemma blocks_bound: "(\<And>blk. blk \<in> set bss \<Longrightarrow> length blk \<le> k) \<Longrightarrow> length (concat bss) \<le> length bss * k"
  by (induction bss) (force simp: add_mono)+

lemma call_log_bound:
  assumes "call_log c st as"
  shows "length as \<le> length (c_backends c) * budget c"
proof -
  obtain bss where bss: "as = concat bss" "length bss \<le> length (c_backends c)" "blocks_ok c bss"
    using assms unfolding call_log_def by blast
  have "length blk \<le> budget c" if "blk \<in> set bss" for blk
    using that bss(3) by (auto simp: in_set_conv_nth blocks_ok_def block_ok_def)
  from blocks_bound [OF this] bss(1,2) show ?thesis by (metis le_trans mult_le_mono1)
qed

section \<open>The debug log\<close>

lemma authorization_name: "sicha_header_name_eq (lit ''Authorization'') (lit ''Authorization'')"
  unfolding sicha_header_name_eq_iff by (rule refl)

text \<open>Two keys give the same log of a request.\<close>

lemma log_hides_key:
  assumes "b_api_key b = Some k"
  shows "debug_request_text (chat_http_request b body (generated_headers b stream ua @ hs)) =
    debug_request_text (chat_http_request (b\<lparr>b_api_key := Some k'\<rparr>) body
      (generated_headers (b\<lparr>b_api_key := Some k'\<rparr>) stream ua @ hs))"
proof -
  have "debug_header (header (lit ''Authorization'') v) = lit ''  Authorization: Bearer ***'' @ nl" for v
    by (simp add: debug_header_def header_def opt_bytes_def authorization_name del: lit_simps) (simp add: lit_def)
  then show ?thesis using assms
    by (simp add: debug_request_text_def chat_http_request_def generated_headers_def del: lit_simps)
qed

lemma built_log_hides_key:
  assumes "b_api_key b = Some k" "sicha_build_headers b stream ua m = (SICHA_OK, Some hs, m1)"
    "sicha_build_headers (b\<lparr>b_api_key := Some k'\<rparr>) stream ua m' = (SICHA_OK, Some hs', m1')"
  shows "debug_request_text (chat_http_request b body hs) =
    debug_request_text (chat_http_request (b\<lparr>b_api_key := Some k'\<rparr>) body hs')"
proof -
  have "hs = generated_headers b stream ua @ map copied (b_extra_headers b)"
    "hs' = generated_headers (b\<lparr>b_api_key := Some k'\<rparr>) stream ua @ map copied (b_extra_headers b)"
    using sicha_build_headers_cases [OF assms(2)] sicha_build_headers_cases [OF assms(3)] by auto
  then show ?thesis using log_hides_key [OF assms(1)] by simp
qed

text \<open>
  And the cancellation assist, whose Authorization header is left out when the key is too long
  for the buffer it is printed into: the log then shows that, and nothing else of the key.
\<close>

lemma abort_log_hides_key:
  assumes "b_api_key b = Some k" "strlen k < AUTH_SIZE - 8 \<longleftrightarrow> strlen k' < AUTH_SIZE - 8"
  shows "debug_request_text (abort_http_request b url) =
    debug_request_text (abort_http_request (b\<lparr>b_api_key := Some k'\<rparr>) url)"
  using assms
  by (simp add: debug_request_text_def abort_http_request_def debug_header_def opt_bytes_def authorization_name
      del: lit_simps)

section \<open>Waiting before a retry\<close>

text \<open>The cap that bounds a wait: that of Retry-After when it is in force, or that of the backoff.\<close>

lemma retry_wait_cases:
  assumes "backoff_base_ms (c_policy c) \<noteq> 0"
  shows "if ao_retry_after_ms out \<noteq> UINT64_MAX \<and> retry_after_cap_ms (c_policy c) \<noteq> SICHA_DISABLED
    then retry_wait c out used rng = (min (ao_retry_after_ms out) (ucast (retry_after_cap_ms (c_policy c))), rng)
    else \<exists>z. fst (splitmix64 rng) = snd (retry_wait c out used rng) \<and> z = snd (splitmix64 rng)
      \<and> unat (fst (retry_wait c out used rng)) =
          min (unat (backoff_base_ms (c_policy c)) * 2 ^ (max 1 (unat used) - 1) + jitter_of (c_policy c) z)
              (unat (backoff_cap_ms (c_policy c)))"
  using sicha_backoff_ms_spec [OF assms]
  by (auto simp: retry_wait_def min_def not_less backoff_spec_def split: prod.split)

lemma retry_wait_bound:
  assumes "backoff_base_ms (c_policy c) \<noteq> 0"
  shows "unat (fst (retry_wait c out used rng)) \<le>
    max (unat (backoff_cap_ms (c_policy c))) (unat (retry_after_cap_ms (c_policy c)))"
proof (cases "ao_retry_after_ms out \<noteq> UINT64_MAX \<and> retry_after_cap_ms (c_policy c) \<noteq> SICHA_DISABLED")
  case True
  then have "fst (retry_wait c out used rng) \<le> ucast (retry_after_cap_ms (c_policy c))"
    using retry_wait_cases [OF assms, of out used rng] by simp
  then have "unat (fst (retry_wait c out used rng)) \<le> unat (ucast (retry_after_cap_ms (c_policy c)) :: u64)"
    by (simp add: word_le_nat_alt)
  then show ?thesis by simp
next
  case False
  with retry_wait_cases [OF assms, of out used rng] show ?thesis by auto
qed

section \<open>A token that is set\<close>

lemma chat_cancelled:
  assumes "c_backends c \<noteq> []" "env_cancelled env = Some f" "f w"
    "chat_common rd wr env (Some c) request cbs out_set stream w m = (st, Some r, client', w', m')"
  shows "w' = w \<and> r_attempts r = [] \<and> st \<in> {SICHA_E_CANCELLED, SICHA_E_NOMEM}"
  using assms(4)
proof (cases rule: chat_common_cases)
  case (no_arrays c0 r0)
  then show ?thesis by (simp add: fresh_result_def)
next
  case (ran c0 req m1 m2 s)
  obtain b bs where bs: "c_backends c = b # bs" using assms(1) by (cases "c_backends c") auto
  let ?s = "enter_backend (chat_start c (fresh_result (c_max_response_bytes c)) w m2)"
  have "attempt_step rd wr env c 0 b req cbs stream ?s = (Finish SICHA_E_CANCELLED, ?s)"
    using assms(2,3) by (simp add: attempt_step_def attempt_prepare_def enter_backend_def chat_start_def)
  then have "chat_backends rd wr env c 0 (c_backends c) req cbs stream
      (chat_start c (fresh_result (c_max_response_bytes c)) w m2) = (SICHA_E_CANCELLED, ?s)"
    by (simp add: bs backend_loop.simps)
  then have "st = SICHA_E_CANCELLED" "s = ?s" using ran(1,6) by simp_all
  moreover have "r = (ch_r s)\<lparr>r_status := st\<rparr>" "w' = ch_w s" using ran(7,8) by simp_all
  ultimately show ?thesis by (simp add: enter_backend_def chat_start_def fresh_result_def)
qed simp

text \<open>A call with valid arguments and enough memory always hands out a result.\<close>

lemma chat_has_result:
  assumes "all_ok m" "sicha_request_validate rd req m = (SICHA_OK, m0)"
    "case cbs of None \<Rightarrow> True | Some k \<Rightarrow> cb_struct_size_ok k"
  shows "\<exists>st r c' w' m'. chat_common rd wr env (Some c) (Some req) cbs True stream w m = (st, Some r, c', w', m')"
proof -
  note m0 = request_validate_cases(2) [OF assms(2,1)]
  obtain k m1 where 1: "alloc m0 = (k, m1)" by fastforce
  note k = all_ok_alloc [OF m0 1]
  obtain ok m2 where 2: "alloc4 m1 = (ok, m2)" by fastforce
  note k2 = alloc4_ok [OF conjunct2 [OF k] 2]
  obtain st s where 3: "chat_backends rd wr env c 0 (c_backends c) req cbs stream
      (chat_start c (fresh_result (c_max_response_bytes c)) w m2) = (st, s)" by fastforce
  have cb: "\<not> (case cbs of None \<Rightarrow> False | Some k \<Rightarrow> \<not> cb_struct_size_ok k)"
    using assms(3) by (cases cbs) simp_all
  show ?thesis using cb k k2
    by (simp add: chat_common_def assms(2) sicha_result_create_def 1 2 3 Let_def)
qed

end
