(* ===== verification/Cancel.thy ===== *)
theory Cancel
  imports Status
begin

text \<open>
  The cancel token and the built-in clock (\<open>src/cancel.c\<close>).

  The token is first a value with the operations of the source, then, with its mutex and its
  condition variable, a step relation of any number of threads that trigger it, reset it and
  wait on it. The built-in clock waits on the token; the contract of a clock is the locale
  \<open>clock\<close>.
\<close>

section \<open>The token\<close>

record sicha_cancel =
  tk_flag :: u32

definition sicha_cancel_create :: "mem \<Rightarrow> sicha_cancel option \<times> mem" where
  "sicha_cancel_create m =
     (let (ok, m) = alloc m in (if ok then Some \<lparr>tk_flag = 0\<rparr> else None, m))"

definition sicha_cancel_trigger :: "sicha_cancel option \<Rightarrow> sicha_cancel option" where
  "sicha_cancel_trigger c = (case c of None \<Rightarrow> None | Some c \<Rightarrow> Some (c\<lparr>tk_flag := 1\<rparr>))"

definition sicha_cancel_reset :: "sicha_cancel option \<Rightarrow> sicha_cancel option" where
  "sicha_cancel_reset c = (case c of None \<Rightarrow> None | Some c \<Rightarrow> Some (c\<lparr>tk_flag := 0\<rparr>))"

definition sicha_cancel_is_cancelled :: "sicha_cancel option \<Rightarrow> int" where
  "sicha_cancel_is_cancelled c =
     (case c of None \<Rightarrow> 0 | Some c \<Rightarrow> if tk_flag c \<noteq> 0 then 1 else 0)"

section \<open>Threads on one token\<close>

text \<open>
  Where a thread is. \<open>Trig_\<close> and \<open>Reset_\<close> are inside \<open>sicha_cancel_trigger\<close> and
  \<open>sicha_cancel_reset\<close>, named by what has been done last; the others are inside the waiting
  loop of \<open>real_wait_ms\<close>: before the test of the flag, after it with the flag still clear,
  parked on the condition variable (the mutex is released), woken and without the mutex yet,
  out of the loop, with the flag read for the result, and returned.
\<close>

datatype pc = Idle | Trig_locked | Trig_stored | Trig_broadcast | Reset_locked | Reset_stored
  | Wait_test | Wait_checked | Wait_parked | Wait_woken | Wait_left | Wait_read bool | Returned bool

record shared =
  sh_flag :: u32
  sh_owner :: "nat option"
  sh_pc :: "nat \<Rightarrow> pc"

definition goto :: "nat \<Rightarrow> pc \<Rightarrow> shared \<Rightarrow> shared" where
  "goto t p s = s\<lparr>sh_pc := (sh_pc s)(t := p)\<rparr>"

text \<open>\<open>pthread_cond_broadcast\<close>: every parked thread is woken.\<close>

definition broadcast :: "shared \<Rightarrow> shared" where
  "broadcast s = s\<lparr>sh_pc := (\<lambda>u. if sh_pc s u = Wait_parked then Wait_woken else sh_pc s u)\<rparr>"

text \<open>
  A thread takes and gives back the mutex, and works on the flag. \<open>wait_expire\<close> is the test
  of the deadline: it can come out either way at any time. A parked thread can also wake by
  its timeout or for no reason at all.
\<close>

inductive step :: "nat \<Rightarrow> shared \<Rightarrow> shared \<Rightarrow> bool" for t where
  trigger_lock: "sh_pc s t = Idle \<Longrightarrow> sh_owner s = None \<Longrightarrow> step t s (goto t Trig_locked (s\<lparr>sh_owner := Some t\<rparr>))"
| trigger_store: "sh_pc s t = Trig_locked \<Longrightarrow> step t s (goto t Trig_stored (s\<lparr>sh_flag := 1\<rparr>))"
| trigger_broadcast: "sh_pc s t = Trig_stored \<Longrightarrow> step t s (goto t Trig_broadcast (broadcast s))"
| trigger_unlock: "sh_pc s t = Trig_broadcast \<Longrightarrow> step t s (goto t Idle (s\<lparr>sh_owner := None\<rparr>))"
| reset_lock: "sh_pc s t = Idle \<Longrightarrow> sh_owner s = None \<Longrightarrow> step t s (goto t Reset_locked (s\<lparr>sh_owner := Some t\<rparr>))"
| reset_store: "sh_pc s t = Reset_locked \<Longrightarrow> step t s (goto t Reset_stored (s\<lparr>sh_flag := 0\<rparr>))"
| reset_unlock: "sh_pc s t = Reset_stored \<Longrightarrow> step t s (goto t Idle (s\<lparr>sh_owner := None\<rparr>))"
| wait_lock: "sh_pc s t = Idle \<Longrightarrow> sh_owner s = None \<Longrightarrow> step t s (goto t Wait_test (s\<lparr>sh_owner := Some t\<rparr>))"
| wait_flag: "sh_pc s t = Wait_test \<Longrightarrow> sh_flag s \<noteq> 0 \<Longrightarrow> step t s (goto t Wait_left s)"
| wait_check: "sh_pc s t = Wait_test \<Longrightarrow> sh_flag s = 0 \<Longrightarrow> step t s (goto t Wait_checked s)"
| wait_expire: "sh_pc s t = Wait_checked \<Longrightarrow> step t s (goto t Wait_left s)"
| wait_park: "sh_pc s t = Wait_checked \<Longrightarrow> step t s (goto t Wait_parked (s\<lparr>sh_owner := None\<rparr>))"
| wait_wake: "sh_pc s t = Wait_parked \<Longrightarrow> step t s (goto t Wait_woken s)"
| wait_relock: "sh_pc s t = Wait_woken \<Longrightarrow> sh_owner s = None \<Longrightarrow> step t s (goto t Wait_test (s\<lparr>sh_owner := Some t\<rparr>))"
| wait_read: "sh_pc s t = Wait_left \<Longrightarrow> step t s (goto t (Wait_read (sh_flag s \<noteq> 0)) s)"
| wait_unlock: "sh_pc s t = Wait_read b \<Longrightarrow> step t s (goto t (Returned b) (s\<lparr>sh_owner := None\<rparr>))"

definition token_start :: shared where
  "token_start = \<lparr>sh_flag = 0, sh_owner = None, sh_pc = (\<lambda>_. Idle)\<rparr>"

inductive reachable :: "shared \<Rightarrow> bool" where
  start: "reachable token_start"
| step: "reachable s \<Longrightarrow> step t s s' \<Longrightarrow> reachable s'"

text \<open>The program points at which a thread holds the mutex.\<close>

fun holds :: "pc \<Rightarrow> bool" where
  "holds Idle = False"
| "holds Wait_parked = False"
| "holds Wait_woken = False"
| "holds (Returned b) = False"
| "holds p = True"

text \<open>
  The invariant: the mutex has the owner that the program points say, a thread that has seen
  the flag clear and not yet parked is right about it, and a parked thread may stay parked
  with the flag set only while the thread that has stored it is about to broadcast.
\<close>

definition token_inv :: "shared \<Rightarrow> bool" where
  "token_inv s \<longleftrightarrow>
     (\<forall>t. holds (sh_pc s t) \<longleftrightarrow> sh_owner s = Some t)
     \<and> (\<forall>t. sh_pc s t = Wait_checked \<longrightarrow> sh_flag s = 0)
     \<and> (\<forall>t. sh_pc s t = Wait_parked \<longrightarrow> sh_flag s = 0 \<or> (\<exists>u. sh_pc s u = Trig_stored))"

lemma goto_simps [simp]:
  "sh_flag (goto t p s) = sh_flag s"
  "sh_owner (goto t p s) = sh_owner s"
  "sh_pc (goto t p s) u = (if u = t then p else sh_pc s u)"
  by (simp_all add: goto_def)

lemma broadcast_simps [simp]:
  "sh_flag (broadcast s) = sh_flag s"
  "sh_owner (broadcast s) = sh_owner s"
  "sh_pc (broadcast s) u = (if sh_pc s u = Wait_parked then Wait_woken else sh_pc s u)"
  by (simp_all add: broadcast_def)

lemma token_inv_owner: "token_inv s \<Longrightarrow> holds (sh_pc s t) \<Longrightarrow> holds (sh_pc s u) \<Longrightarrow> t = u"
  unfolding token_inv_def by (metis option.inject)

lemma token_inv_step:
  assumes "step t s s'" "token_inv s"
  shows "token_inv s'"
proof -
  from assms(2) have own: "\<And>u. holds (sh_pc s u) \<longleftrightarrow> sh_owner s = Some u"
    and chk: "\<And>u. sh_pc s u = Wait_checked \<Longrightarrow> sh_flag s = 0"
    and park: "\<And>u. sh_pc s u = Wait_parked \<Longrightarrow> sh_flag s = 0 \<or> (\<exists>v. sh_pc s v = Trig_stored)"
    by (auto simp: token_inv_def)
  have free: "\<not> holds (sh_pc s u)" if "sh_owner s = None" for u using own that by simp
  have mine: "\<not> holds (sh_pc s u)" if "holds (sh_pc s t)" "u \<noteq> t" for u
    using token_inv_owner [OF assms(2) that(1), of u] that(2) by blast
  have own': "holds (sh_pc s' u) \<longleftrightarrow> sh_owner s' = Some u" for u
    using assms(1) own [of u] own [of t] free [of u] mine [of u]
    by (cases rule: step.cases) auto
  have chk': "sh_flag s' = 0" if "sh_pc s' u = Wait_checked" for u
    using assms(1) that chk [of u] mine [of u]
    by (cases rule: step.cases) (auto split: if_splits)
  have park': "sh_flag s' = 0 \<or> (\<exists>v. sh_pc s' v = Trig_stored)" if "sh_pc s' u = Wait_parked" for u
  proof (cases "\<exists>v. sh_pc s v = Trig_stored \<and> v \<noteq> t")
    case True
    then obtain v where v: "sh_pc s v = Trig_stored" "v \<noteq> t" by blast
    have "sh_pc s' v = Trig_stored"
      using assms(1) v by (cases rule: step.cases) auto
    then show ?thesis by blast
  next
    case False
    with park [of u] have "sh_pc s u = Wait_parked \<Longrightarrow> sh_flag s = 0 \<or> sh_pc s t = Trig_stored" by blast
    with assms(1) that chk [of t] show ?thesis
      by (cases rule: step.cases) (auto split: if_splits)
  qed
  show ?thesis unfolding token_inv_def using own' chk' park' by blast
qed

lemma reachable_inv: "reachable s \<Longrightarrow> token_inv s"
proof (induction rule: reachable.induct)
  case start
  show ?case by (simp add: token_inv_def token_start_def)
next
  case (step s t s')
  then show ?case by (blast intro: token_inv_step)
qed

text \<open>How far a waiter is from returning when the flag is set.\<close>

fun wait_rank :: "pc \<Rightarrow> nat" where
  "wait_rank Wait_woken = 4"
| "wait_rank Wait_test = 3"
| "wait_rank Wait_left = 2"
| "wait_rank (Wait_read b) = 1"
| "wait_rank p = 0"

definition waiting :: "pc \<Rightarrow> bool" where
  "waiting p \<longleftrightarrow> p \<in> {Wait_test, Wait_checked, Wait_parked, Wait_woken, Wait_left}"

text \<open>No wake-up is lost: once a trigger is over, no waiter sleeps.\<close>

lemma no_lost_wakeup:
  assumes "reachable s" "sh_flag s \<noteq> 0" "\<forall>u. sh_pc s u \<noteq> Trig_stored"
  shows "sh_pc s t \<noteq> Wait_parked \<and> sh_pc s t \<noteq> Wait_checked"
  using reachable_inv [OF assms(1)] assms(2,3) by (auto simp: token_inv_def)

text \<open>And with the flag set every step of a waiter brings it nearer to returning nonzero.\<close>

lemma waiter_advances:
  assumes "reachable s" "sh_flag s \<noteq> 0" "\<forall>u. sh_pc s u \<noteq> Trig_stored" "waiting (sh_pc s t)" "step t s s'"
  shows "sh_flag s' = sh_flag s
    \<and> (waiting (sh_pc s' t) \<and> wait_rank (sh_pc s' t) < wait_rank (sh_pc s t) \<or> sh_pc s' t = Wait_read True)"
  using assms(5) no_lost_wakeup [OF assms(1-3), of t] assms(2,4)
  by (cases rule: step.cases) (auto simp: waiting_def)

section \<open>The contract of a clock\<close>

text \<open>
  The clock that a client gets. The cancel token is the function that reads it, or \<open>None\<close>
  for NULL.
\<close>

record 'w sicha_clock =
  ck_now_ms :: "'w \<Rightarrow> u64 \<times> 'w"
  ck_wait_ms :: "('w \<Rightarrow> bool) option \<Rightarrow> u64 \<Rightarrow> 'w \<Rightarrow> int \<times> 'w"

definition SICHA_WAIT_FOREVER_MS :: u64 where
  "SICHA_WAIT_FOREVER_MS = push_bit 60 1"

text \<open>
  Time does not run backwards, a wait that was not cancelled has taken its time, and only a
  set token makes a wait return nonzero. \<open>time\<close> is the time at a state of the world. The
  upper half of the range of the clock, which begins after 292 million years, is left out.
\<close>

definition clock_range :: u64 where
  "clock_range = push_bit 63 1"

locale clock =
  fixes ck :: "'w sicha_clock" and time :: "'w \<Rightarrow> u64"
  assumes now_reads: "ck_now_ms ck w = (t, w') \<Longrightarrow> t = time w' \<and> time w \<le> time w'"
    and wait_mono: "ck_wait_ms ck tok ms w = (rc, w') \<Longrightarrow> ms < SICHA_WAIT_FOREVER_MS \<Longrightarrow>
      time w < clock_range \<Longrightarrow> time w \<le> time w'"
    and wait_full: "ck_wait_ms ck tok ms w = (0, w') \<Longrightarrow> ms < SICHA_WAIT_FOREVER_MS \<Longrightarrow>
      time w < clock_range \<Longrightarrow> time w' < clock_range \<Longrightarrow> unat (time w) + unat ms \<le> unat (time w')"
    and wait_cancelled: "ck_wait_ms ck tok ms w = (rc, w') \<Longrightarrow> rc \<noteq> 0 \<Longrightarrow> \<exists>f. tok = Some f \<and> f w'"

section \<open>The built-in clock\<close>

text \<open>
  What the built-in clock sees of the process: the monotonic clock of the system in
  milliseconds, the token, and what the coming calls of the system will do. A reading of the
  clock happens after a lag. A sleep or a timed wait returns after a time of its own, early
  or late, and the token may have been triggered meanwhile. When the lists are used up,
  readings take no time and sleeps last as long as asked; a wait without a limit that nobody
  ends lasts as long as the clock can count.
\<close>

record real_world =
  rw_time :: u64
  rw_flag :: bool
  rw_lags :: "u64 list"
  rw_waits :: "(u64 \<times> bool) list"

definition sat_add :: "u64 \<Rightarrow> u64 \<Rightarrow> u64" where
  "sat_add a b = (if UINT64_MAX - b < a then UINT64_MAX else a + b)"

text \<open>A reading of the clock of the system: seconds and nanoseconds.\<close>

definition clock_gettime :: "'x real_world_scheme \<Rightarrow> u64 \<times> u64 \<times> 'x real_world_scheme" where
  "clock_gettime w =
     (let w = (case rw_lags w of
                 [] \<Rightarrow> w
               | d # ds \<Rightarrow> w\<lparr>rw_time := sat_add (rw_time w) d, rw_lags := ds\<rparr>)
      in (rw_time w div 1000, (rw_time w mod 1000) * 1000000, w))"

definition real_now_ms :: "'x real_world_scheme \<Rightarrow> u64 \<times> 'x real_world_scheme" where
  "real_now_ms w = (case clock_gettime w of (tv_sec, tv_nsec, w) \<Rightarrow> (tv_sec * 1000 + tv_nsec div 1000000, w))"

definition system_wait :: "u64 \<Rightarrow> 'x real_world_scheme \<Rightarrow> 'x real_world_scheme" where
  "system_wait ms w =
     (case rw_waits w of
        [] \<Rightarrow> w\<lparr>rw_time := (if SICHA_WAIT_FOREVER_MS \<le> ms then UINT64_MAX else sat_add (rw_time w) ms)\<rparr>
      | (d, trig) # r \<Rightarrow>
          w\<lparr>rw_time := sat_add (rw_time w) d, rw_flag := rw_flag w \<or> trig, rw_waits := r\<rparr>)"

definition nanosleep :: "u64 \<Rightarrow> u64 \<Rightarrow> 'x real_world_scheme \<Rightarrow> 'x real_world_scheme" where
  "nanosleep tv_sec tv_nsec w = system_wait (tv_sec * 1000 + tv_nsec div 1000000) w"

definition real_sleep_ms :: "u64 \<Rightarrow> 'x real_world_scheme \<Rightarrow> 'x real_world_scheme" where
  "real_sleep_ms ms w = nanosleep (ms div 1000) ((ms mod 1000) * 1000000) w"

definition sicha_cond_timedwait_ms :: "u64 \<Rightarrow> 'x real_world_scheme \<Rightarrow> 'x real_world_scheme" where
  "sicha_cond_timedwait_ms ms w = system_wait ms w"

lemma unat_MAX: "unat UINT64_MAX = 18446744073709551615"
  by (simp add: UINT64_MAX_def)

lemma u64_bound: "unat (a :: u64) \<le> 18446744073709551615"
  using unsigned_less [of a, where 'a = nat] by simp

lemma le_MAX [simp]: "a \<le> UINT64_MAX"
  by (simp add: word_le_nat_alt unat_MAX u64_bound)

lemma unat_MAX_minus: "unat (UINT64_MAX - b) = 18446744073709551615 - unat b"
  by (simp add: unat_sub unat_MAX)

lemma unat_sat_add: "unat (sat_add a b) = min (unat a + unat b) 18446744073709551615"
proof (cases "unat a + unat b \<le> 18446744073709551615")
  case True
  then have "unat (a + b) = unat a + unat b" by (intro unat_add_lem [THEN iffD1]) simp
  with True show ?thesis by (auto simp: sat_add_def word_less_nat_alt unat_MAX_minus min_def)
next
  case False
  with u64_bound [of a] u64_bound [of b] show ?thesis by (auto simp: sat_add_def word_less_nat_alt unat_MAX_minus unat_MAX)
qed

lemma sat_add_ge: "a \<le> sat_add a b"
  using u64_bound [of a] by (simp add: word_le_nat_alt unat_sat_add)

lemma system_wait_time: "rw_time w \<le> rw_time (system_wait ms w)"
  by (auto simp: system_wait_def sat_add_ge split: list.split)

text \<open>Seconds and nanoseconds make up the milliseconds again.\<close>

lemma split_ms: "(a :: u64) div 1000 * 1000 + a mod 1000 * 1000000 div 1000000 = a"
proof -
  have "unat (a mod 1000) < 1000" by (simp add: unat_mod)
  then have m: "unat (a mod 1000 * 1000000) = unat (a mod 1000) * 1000000"
    by (subst unat_mult_lem [THEN iffD1]) simp_all
  have "a mod 1000 * 1000000 div 1000000 = a mod 1000"
    by (rule word_unat_eq_iff [THEN iffD2]) (simp add: unat_div m)
  then show ?thesis by (simp add: word_mod_div_equality)
qed

lemma real_sleep_system: "real_sleep_ms ms w = system_wait ms w"
  by (simp add: real_sleep_ms_def nanosleep_def split_ms)

lemma real_now_ms_time:
  "real_now_ms w =
     (case rw_lags w of
        [] \<Rightarrow> (rw_time w, w)
      | d # ds \<Rightarrow> (sat_add (rw_time w) d, w\<lparr>rw_time := sat_add (rw_time w) d, rw_lags := ds\<rparr>))"
  by (simp add: real_now_ms_def clock_gettime_def Let_def split_ms split: list.split)

lemma real_now_time: "real_now_ms w = (t, w') \<Longrightarrow> t = rw_time w' \<and> rw_time w \<le> rw_time w' \<and> rw_waits w' = rw_waits w"
  by (auto simp: real_now_ms_time sat_add_ge split: list.splits)

text \<open>How many milliseconds the clock can still count.\<close>

definition time_left :: "'x real_world_scheme \<Rightarrow> nat" where
  "time_left w = unat (UINT64_MAX - rw_time w)"

lemma system_wait_progress:
  assumes "0 < ms" "rw_time w < UINT64_MAX"
  shows "length (rw_waits (system_wait ms w)) < length (rw_waits w)
    \<or> length (rw_waits (system_wait ms w)) = length (rw_waits w) \<and> time_left (system_wait ms w) < time_left w"
proof (cases "rw_waits w")
  case Nil
  have "rw_time w < rw_time (system_wait ms w)"
    using assms Nil u64_bound [of "rw_time w"]
    by (auto simp: system_wait_def word_less_nat_alt unat_sat_add unat_MAX)
  then have "time_left (system_wait ms w) < time_left w"
    using u64_bound [of "rw_time (system_wait ms w)"]
    unfolding time_left_def unat_MAX_minus word_less_nat_alt by linarith
  then show ?thesis using Nil by (simp add: system_wait_def)
qed (auto simp: system_wait_def)

text \<open>
  The loop of a wait without a token, and the loop of a wait on a token. Both end: every
  round uses up a scheduled wait or brings the clock forward.
\<close>

function sleep_loop :: "u64 \<Rightarrow> u64 \<Rightarrow> 'x real_world_scheme \<Rightarrow> 'x real_world_scheme" where
  "sleep_loop deadline now w =
     (if now < deadline then
        let chunk = deadline - now; w = real_sleep_ms (if 100 < chunk then 100 else chunk) w in
        if deadline = UINT64_MAX then w
        else case real_now_ms w of (now, w) \<Rightarrow> sleep_loop deadline now w
      else w)"
  by pat_completeness auto

function wait_loop :: "('x real_world_scheme \<Rightarrow> bool) \<Rightarrow> u64 \<Rightarrow> 'x real_world_scheme \<Rightarrow> 'x real_world_scheme" where
  "wait_loop cancelled deadline w =
     (if cancelled w then w
      else
        case real_now_ms w of (now, w) \<Rightarrow>
          if deadline \<le> now then w
          else
            let remain = (if deadline = UINT64_MAX then SICHA_WAIT_FOREVER_MS else deadline - now)
            in wait_loop cancelled deadline (sicha_cond_timedwait_ms remain w))"
  by pat_completeness auto

lemma time_left_mono: "rw_time w \<le> rw_time w' \<Longrightarrow> time_left w' \<le> time_left w"
  unfolding time_left_def unat_MAX_minus word_le_nat_alt by linarith

lemma sub_pos: "(a :: u64) < b \<Longrightarrow> 0 < b - a"
  by (simp add: word_greater_zero_iff)

termination sleep_loop
proof (relation "measures [\<lambda>(deadline, now, w). length (rw_waits w), \<lambda>(deadline, now, w). time_left w,
    \<lambda>(deadline, now, w). unat deadline - unat now]")
  fix deadline now :: u64 and w :: "'x real_world_scheme" and chunk w1 now' w2
  assume a: "now < deadline" "chunk = deadline - now" "w1 = real_sleep_ms (if 100 < chunk then 100 else chunk) w"
    "deadline \<noteq> UINT64_MAX" "(now', w2) = real_now_ms w1"
  let ?ms = "if 100 < chunk then 100 else chunk"
  have ms: "0 < ?ms" using sub_pos [OF a(1)] a(2) by simp
  have w2: "now' = rw_time w2" "rw_time w1 \<le> rw_time w2" "rw_waits w2 = rw_waits w1"
    using real_now_time [of w1 now' w2] a(5) by simp_all
  note left = time_left_mono [OF w2(2)]
  have "length (rw_waits w1) < length (rw_waits w) \<or>
    length (rw_waits w1) = length (rw_waits w) \<and>
      (time_left w2 < time_left w \<or> time_left w2 = time_left w \<and> unat deadline - unat now' < unat deadline - unat now)"
  proof (cases "rw_time w < UINT64_MAX")
    case True
    from system_wait_progress [OF ms True] left a(3) show ?thesis by (auto simp: real_sleep_system)
  next
    case False
    then have max: "rw_time w = UINT64_MAX" by (simp add: not_less order.eq_iff)
    have "UINT64_MAX \<le> rw_time w2"
      using system_wait_time [of w ?ms] w2(2) a(3) max by (simp add: real_sleep_system)
    then have w2_max: "rw_time w2 = UINT64_MAX" by (simp add: order.eq_iff)
    then have "unat deadline - unat now' < unat deadline - unat now"
      using a(1) w2(1) u64_bound [of deadline] by (simp add: unat_MAX word_less_nat_alt)
    moreover have "length (rw_waits w1) < length (rw_waits w) \<or> length (rw_waits w1) = length (rw_waits w)"
      using a(3) by (auto simp: real_sleep_system system_wait_def split: list.split)
    ultimately show ?thesis using max w2_max by (simp add: time_left_def)
  qed
  then show "((deadline, now', w2), deadline, now, w)
    \<in> measures [\<lambda>(deadline, now, w). length (rw_waits w), \<lambda>(deadline, now, w). time_left w,
        \<lambda>(deadline, now, w). unat deadline - unat now]"
    using w2(3) by simp
qed simp

termination wait_loop
proof (relation "measures [\<lambda>(c, deadline, w). length (rw_waits w), \<lambda>(c, deadline, w). time_left w]")
  fix cancelled and deadline :: u64 and w :: "'x real_world_scheme" and now w1 remain
  assume a: "\<not> cancelled w" "(now, w1) = real_now_ms w" "\<not> deadline \<le> now"
    "remain = (if deadline = UINT64_MAX then SICHA_WAIT_FOREVER_MS else deadline - now)"
  have w1: "now = rw_time w1" "rw_time w \<le> rw_time w1" "rw_waits w1 = rw_waits w"
    using real_now_time [of w now w1] a(2) by simp_all
  have "0 < remain" using a(3,4) sub_pos [of now deadline] by (simp add: SICHA_WAIT_FOREVER_MS_def not_le)
  moreover have "rw_time w1 < UINT64_MAX"
    using a(3) w1(1) le_MAX [of deadline] by (metis not_le order.strict_trans2)
  ultimately show "((cancelled, deadline, sicha_cond_timedwait_ms remain w1), cancelled, deadline, w)
    \<in> measures [\<lambda>(c, deadline, w). length (rw_waits w), \<lambda>(c, deadline, w). time_left w]"
    using system_wait_progress [of remain w1] time_left_mono [OF w1(2)] w1(3)
    by (auto simp: sicha_cond_timedwait_ms_def)
qed simp

declare sleep_loop.simps [simp del] wait_loop.simps [simp del]

definition real_wait_ms :: "('x real_world_scheme \<Rightarrow> bool) option \<Rightarrow> u64 \<Rightarrow> 'x real_world_scheme \<Rightarrow>
    int \<times> 'x real_world_scheme" where
  "real_wait_ms cancel ms w =
     (case real_now_ms w of (now, w) \<Rightarrow>
        let deadline = (if SICHA_WAIT_FOREVER_MS \<le> ms \<or> UINT64_MAX - ms < now then UINT64_MAX else now + ms) in
        case cancel of
          None \<Rightarrow> (0, sleep_loop deadline now w)
        | Some cancelled \<Rightarrow>
            let w = wait_loop cancelled deadline w in (if cancelled w then 1 else 0, w))"

definition sicha_clock_real :: "'x real_world_scheme sicha_clock" where
  "sicha_clock_real = \<lparr>ck_now_ms = real_now_ms, ck_wait_ms = real_wait_ms\<rparr>"

lemma sleep_loop_time:
  assumes "now \<le> rw_time w"
  shows "rw_time w \<le> rw_time (sleep_loop deadline now w)
    \<and> (deadline = UINT64_MAX \<or> deadline \<le> rw_time (sleep_loop deadline now w))"
  using assms
proof (induction deadline now w rule: sleep_loop.induct)
  case (1 deadline now w)
  show ?case
  proof (cases "now < deadline")
    case False
    with 1(2) have "deadline \<le> rw_time w" by (meson not_le order.trans)
    with False show ?thesis by (simp add: sleep_loop.simps)
  next
    case True
    let ?w1 = "real_sleep_ms (if 100 < deadline - now then 100 else deadline - now) w"
    have w1: "rw_time w \<le> rw_time ?w1" by (simp add: real_sleep_system system_wait_time)
    obtain now' w2 where n: "real_now_ms ?w1 = (now', w2)" by fastforce
    note w2 = real_now_time [OF n]
    show ?thesis
    proof (cases "deadline = UINT64_MAX")
      case True
      with \<open>now < deadline\<close> show ?thesis
        by (simp add: sleep_loop.simps Let_def real_sleep_system system_wait_time)
    next
      case False
      have "rw_time w2 \<le> rw_time (sleep_loop deadline now' w2) \<and> deadline \<le> rw_time (sleep_loop deadline now' w2)"
        using 1(1) [OF True refl refl False n [symmetric]] w2 False by simp
      moreover have "sleep_loop deadline now w = sleep_loop deadline now' w2"
        using True False n by (subst sleep_loop.simps) (simp add: Let_def)
      moreover have "rw_time w \<le> rw_time w2" using w1 w2 by (metis order.trans)
      ultimately show ?thesis by (metis order.trans)
    qed
  qed
qed

lemma wait_loop_time:
  "rw_time w \<le> rw_time (wait_loop c deadline w)
   \<and> (c (wait_loop c deadline w) \<or> deadline \<le> rw_time (wait_loop c deadline w))"
proof (induction c deadline w rule: wait_loop.induct)
  case (1 c deadline w)
  obtain now w1 where n: "real_now_ms w = (now, w1)" by fastforce
  note w1 = real_now_time [OF n]
  show ?case
  proof (cases "c w \<or> deadline \<le> now")
    case True
    with n w1 show ?thesis by (auto simp: wait_loop.simps)
  next
    case False
    let ?remain = "if deadline = UINT64_MAX then SICHA_WAIT_FOREVER_MS else deadline - now"
    let ?w2 = "sicha_cond_timedwait_ms ?remain w1"
    have "wait_loop c deadline w = wait_loop c deadline ?w2"
      using False n by (subst wait_loop.simps) (simp add: Let_def)
    moreover have "rw_time w1 \<le> rw_time ?w2" by (simp add: sicha_cond_timedwait_ms_def system_wait_time)
    ultimately show ?thesis using 1 [OF _ n [symmetric] _ refl] False w1 by fastforce
  qed
qed

text \<open>The built-in clock keeps the contract.\<close>

lemma real_wait_time:
  assumes "real_wait_ms tok ms w = (rc, w')"
  shows real_wait_mono: "rw_time w \<le> rw_time w'"
    and real_wait_cancelled: "rc \<noteq> 0 \<Longrightarrow> \<exists>f. tok = Some f \<and> f w'"
    and real_wait_full: "rc = 0 \<Longrightarrow> ms < SICHA_WAIT_FOREVER_MS \<Longrightarrow> rw_time w' < clock_range \<Longrightarrow>
      unat (rw_time w) + unat ms \<le> unat (rw_time w')"
proof -
  obtain now w1 where n: "real_now_ms w = (now, w1)" by fastforce
  note w1 = real_now_time [OF n]
  define deadline where "deadline = (if SICHA_WAIT_FOREVER_MS \<le> ms \<or> UINT64_MAX - ms < now then UINT64_MAX else now + ms)"
  have eq: "(case tok of None \<Rightarrow> (0, sleep_loop deadline now w1)
     | Some c \<Rightarrow> (if c (wait_loop c deadline w1) then 1 else 0, wait_loop c deadline w1)) = (rc, w')"
    unfolding assms [symmetric]
    by (cases tok) (simp_all add: real_wait_ms_def n Let_def deadline_def)
  have mono: "rw_time w1 \<le> rw_time w'"
    using eq w1 sleep_loop_time [of now w1 deadline] wait_loop_time [of w1 _ deadline]
    by (auto split: option.splits)
  then show "rw_time w \<le> rw_time w'" using w1 by (auto intro: order.trans)
  show "\<exists>f. tok = Some f \<and> f w'" if "rc \<noteq> 0"
    using eq that by (auto split: option.splits if_splits)
  show "unat (rw_time w) + unat ms \<le> unat (rw_time w')"
    if rc: "rc = 0" and ms: "ms < SICHA_WAIT_FOREVER_MS" and range: "rw_time w' < clock_range"
  proof -
    have late: "deadline = UINT64_MAX \<or> deadline \<le> rw_time w'"
      using eq rc w1 sleep_loop_time [of now w1 deadline] wait_loop_time [of w1 _ deadline]
      by (auto split: option.splits if_splits)
    have "unat ms < 2 ^ 60" using ms by (simp add: SICHA_WAIT_FOREVER_MS_def word_less_nat_alt)
    moreover have "unat now \<le> unat (rw_time w')" using mono w1 by (simp add: word_le_nat_alt)
    moreover have "unat (rw_time w') < 2 ^ 63" using range by (simp add: clock_range_def word_less_nat_alt)
    ultimately have "unat now + unat ms < 2 ^ 64 - 1" by simp
    moreover from this have "unat (now + ms) = unat now + unat ms" by (intro unat_add_lem [THEN iffD1]) simp
    moreover from calculation have "\<not> UINT64_MAX - ms < now" by (simp add: word_less_nat_alt unat_MAX_minus)
    moreover from this have "deadline = now + ms" using ms by (auto simp: deadline_def)
    ultimately have "unat deadline = unat now + unat ms" "deadline \<noteq> UINT64_MAX"
      by (auto simp: unat_MAX dest: arg_cong [of _ _ unat])
    with late w1 show ?thesis by (simp add: word_le_nat_alt)
  qed
qed

text \<open>A wait for ever on a token returns 0 only when the clock is at its end.\<close>

lemma real_wait_forever:
  assumes "real_wait_ms (Some f) ms w = (0, w')" "SICHA_WAIT_FOREVER_MS \<le> ms"
  shows "rw_time w' = UINT64_MAX"
proof -
  obtain now w1 where n: "real_now_ms w = (now, w1)" by fastforce
  from assms have "w' = wait_loop f UINT64_MAX w1" "\<not> f w'"
    by (auto simp: real_wait_ms_def n Let_def split: if_splits)
  with wait_loop_time [of w1 f UINT64_MAX] show ?thesis by (simp add: antisym)
qed

interpretation real: clock sicha_clock_real rw_time
proof unfold_locales
  fix w w' :: "'a real_world_scheme" and t
  assume "ck_now_ms sicha_clock_real w = (t, w')"
  then show "t = rw_time w' \<and> rw_time w \<le> rw_time w'"
    using real_now_time [of w t w'] by (simp add: sicha_clock_real_def)
qed (auto simp: sicha_clock_real_def intro: real_wait_mono real_wait_cancelled real_wait_full [OF _ refl])

end
