(* ===== verification/Script.thy ===== *)
theory Script
  imports Transport Cancel
begin

text \<open>
  The scripted transport (\<open>src/transport_script.c\<close>): responses are answered first in, first
  out, every call is recorded, and delays pass on the clock of the client.
\<close>

section \<open>State\<close>

record sicha_script_response =
  sr_struct_size_ok :: bool
  sr_status :: sicha_transport_status
  sr_http_status :: int
  sr_headers :: "sicha_header list option"
  sr_n_headers :: nat
  sr_body :: "bytes option"
  sr_body_len :: nat
  sr_chunk_size :: nat
  sr_connect_delay_ms :: u64
  sr_first_byte_delay_ms :: u64
  sr_per_chunk_delay_ms :: u64
  sr_fail_after_bytes :: nat

record script_call =
  cl_url :: bytes
  cl_body :: bytes
  cl_body_len :: nat
  cl_headers :: "sicha_header list"
  cl_n_headers :: nat

text \<open>\<open>s_mem\<close> are the outcomes of the coming allocations of the transport.\<close>

record script_state =
  s_queue :: "sicha_script_response list"
  s_q_cap :: nat
  s_calls :: "script_call list"
  s_c_cap :: nat
  s_mem :: mem

section \<open>Deep copies\<close>

definition dup_bytes_n :: "bytes \<Rightarrow> nat \<Rightarrow> mem \<Rightarrow> bytes option \<times> mem" where
  "dup_bytes_n s n m = (let (ok, m) = alloc m in (if ok then Some (take n s) else None, m))"

definition dup_string :: "bytes option \<Rightarrow> mem \<Rightarrow> bytes option \<times> mem" where
  "dup_string s m =
     (case s of None \<Rightarrow> dup_bytes_n [] 0 m | Some s \<Rightarrow> dup_bytes_n s (strlen s) m)"

fun copy_headers :: "sicha_header list \<Rightarrow> mem \<Rightarrow> sicha_header list option \<times> mem" where
  "copy_headers [] m = (Some [], m)"
| "copy_headers (h # hs) m =
     (let (n, m) = dup_string (hd_name h) m; (v, m) = dup_string (hd_value h) m in
      if n = None \<or> v = None then (None, m)
      else case copy_headers hs m of
             (None, m) \<Rightarrow> (None, m)
           | (Some hs', m) \<Rightarrow> (Some (\<lparr>hd_name = n, hd_value = v\<rparr> # hs'), m))"

text \<open>With no header the copy is an empty block, so that it is not NULL.\<close>

definition headers_deep_copy :: "sicha_header list \<Rightarrow> nat \<Rightarrow> mem \<Rightarrow> sicha_header list option \<times> mem" where
  "headers_deep_copy src n m =
     (let (ok, m) = alloc m in
      if n = 0 then (if ok then Some [] else None, m)
      else if \<not> ok then (None, m) else copy_headers (take n src) m)"

section \<open>Deadlines\<close>

definition abs_deadline :: "u64 \<Rightarrow> u32 \<Rightarrow> u64" where
  "abs_deadline start budget_ms =
     (if budget_ms = SICHA_INFINITE then UINT64_MAX
      else if UINT64_MAX - ucast budget_ms < start then UINT64_MAX else start + ucast budget_ms)"

text \<open>
  The loop of \<open>delay_within\<close> ends only when the clock does its part, so its value is
  \<open>None\<close> when it runs forever.
\<close>

definition wait_chunk :: "u64 \<Rightarrow> u64 \<Rightarrow> u64 \<Rightarrow> u64 \<Rightarrow> u64" where
  "wait_chunk target dl_a dl_b now =
     (let until = target;
          until = (if dl_a < until then dl_a else until);
          until = (if dl_b < until then dl_b else until);
          chunk = until - now
      in if 100 < chunk then 100 else chunk)"

partial_function (option) delay_loop :: "'x sicha_clock \<Rightarrow> ('x \<Rightarrow> bool) option \<Rightarrow> u64 \<Rightarrow> u64 \<Rightarrow>
    sicha_transport_status \<Rightarrow> u64 \<Rightarrow> sicha_transport_status \<Rightarrow> 'x \<Rightarrow> (sicha_transport_status \<times> 'x) option" where
  "delay_loop ck cancel target dl_a st_a dl_b st_b x =
     (case ck_now_ms ck x of (now, x) \<Rightarrow>
        if (case cancel of None \<Rightarrow> False | Some cancelled \<Rightarrow> cancelled x) then Some (SICHA_T_E_CANCELLED, x)
        else if dl_a \<le> now then Some (st_a, x)
        else if dl_b \<le> now then Some (st_b, x)
        else if target \<le> now then Some (SICHA_T_OK, x)
        else
          case ck_wait_ms ck cancel (wait_chunk target dl_a dl_b now) x of (rc, x) \<Rightarrow>
            if rc \<noteq> 0 then Some (SICHA_T_E_CANCELLED, x)
            else delay_loop ck cancel target dl_a st_a dl_b st_b x)"

definition delay_within :: "'x sicha_clock \<Rightarrow> ('x \<Rightarrow> bool) option \<Rightarrow> u64 \<Rightarrow> u64 \<Rightarrow>
    sicha_transport_status \<Rightarrow> u64 \<Rightarrow> sicha_transport_status \<Rightarrow> 'x \<Rightarrow> (sicha_transport_status \<times> 'x) option" where
  "delay_within ck cancel delay_ms dl_a st_a dl_b st_b x =
     (case ck_now_ms ck x of (start, x) \<Rightarrow>
        delay_loop ck cancel (if UINT64_MAX - delay_ms < start then UINT64_MAX else start + delay_ms)
          dl_a st_a dl_b st_b x)"

section \<open>perform\<close>

definition call_of :: "sicha_http_request \<Rightarrow> bytes option \<Rightarrow> bytes option \<Rightarrow> sicha_header list option \<Rightarrow>
    script_call" where
  "call_of rq url body headers =
     \<lparr>cl_url = opt_bytes url, cl_body = opt_bytes body,
      cl_body_len = (if hr_body rq = None then 0 else hr_body_len rq),
      cl_headers = (case headers of None \<Rightarrow> [] | Some hs \<Rightarrow> hs), cl_n_headers = length (hr_headers rq)\<rparr>"

definition record_call :: "sicha_http_request \<Rightarrow> script_state \<Rightarrow> bool \<times> script_state" where
  "record_call rq s =
     (let grow = length (s_calls s) = s_c_cap s;
          (ok, m) = (if grow then alloc (s_mem s) else (True, s_mem s)) in
      if \<not> ok then (False, s\<lparr>s_mem := m\<rparr>)
      else
        let s = (if grow then s\<lparr>s_c_cap := (if s_c_cap s = 0 then 8 else s_c_cap s * 2)\<rparr> else s);
            (url, m) = dup_bytes_n (hr_url rq) (strlen (hr_url rq)) m;
            (body, m) = (case hr_body rq of None \<Rightarrow> dup_bytes_n [] 0 m | Some b \<Rightarrow> dup_bytes_n b (hr_body_len rq) m);
            (headers, m) = headers_deep_copy (hr_headers rq) (length (hr_headers rq)) m
        in if url = None \<or> body = None \<or> headers = None then (False, s\<lparr>s_mem := m\<rparr>)
           else (True, s\<lparr>s_calls := s_calls s @ [call_of rq url body headers], s_mem := m\<rparr>))"

definition take_response :: "script_state \<Rightarrow> sicha_script_response option \<times> script_state" where
  "take_response s =
     (case s_queue s of [] \<Rightarrow> (None, s) | r # q \<Rightarrow> (Some r, s\<lparr>s_queue := q\<rparr>))"

text \<open>
  A wait that goes on forever is a transfer that does not end. The type of transfers has no
  value for that, and \<open>SICHA_T_E_OTHER\<close> stands in its place; \<open>delay_within_ends\<close> below says
  that this does not happen with a clock that keeps its contract.
\<close>

definition waited :: "'x \<Rightarrow> (sicha_transport_status \<times> 'x) option \<Rightarrow> sicha_transport_status \<times> 'x" where
  "waited x r = (case r of None \<Rightarrow> (SICHA_T_E_OTHER, x) | Some r \<Rightarrow> r)"

definition chunk_len :: "sicha_script_response \<Rightarrow> nat \<Rightarrow> nat" where
  "chunk_len resp remaining =
     (let n = (if sr_chunk_size resp = 0 then remaining else sr_chunk_size resp)
      in if remaining < n then remaining else n)"

function script_body :: "'x sicha_clock \<Rightarrow> ('x \<Rightarrow> bool) option \<Rightarrow> sicha_http_request \<Rightarrow>
    sicha_script_response \<Rightarrow> u64 \<Rightarrow> nat \<Rightarrow> nat \<Rightarrow> script_state \<times> 'x \<Rightarrow> (script_state \<times> 'x) transfer" where
  "script_body ck cancel rq resp dl_total remaining pos w =
     (if remaining = 0 then T_done (sr_status resp) w
      else
        let n = chunk_len resp remaining;
            (chunk_start, x) = ck_now_ms ck (snd w);
            (st, x) = waited x (delay_within ck cancel (sr_per_chunk_delay_ms resp)
                        (abs_deadline chunk_start (idle_ms (hr_timeouts rq))) SICHA_T_E_TIMEOUT_IDLE
                        dl_total SICHA_T_E_TIMEOUT_TOTAL x)
        in if st \<noteq> SICHA_T_OK then T_done st (fst w, x)
           else T_body (take n (drop pos (opt_bytes (sr_body resp)))) (fst w, x)
             (\<lambda>(rc, w). if rc \<noteq> 0 then T_done SICHA_T_E_ABORTED_BY_SINK w
                        else script_body ck cancel rq resp dl_total (remaining - n) (pos + n) w))"
  by pat_completeness auto

termination script_body
  by (relation "measure (\<lambda>(ck, cancel, rq, resp, dl, remaining, pos, w). remaining)") (auto simp: chunk_len_def Let_def)

declare script_body.simps [simp del]

definition script_respond :: "'x sicha_clock \<Rightarrow> ('x \<Rightarrow> bool) option \<Rightarrow> sicha_http_request \<Rightarrow>
    sicha_script_response \<Rightarrow> script_state \<times> 'x \<Rightarrow> (script_state \<times> 'x) transfer" where
  "script_respond ck cancel rq resp w =
     (let t = hr_timeouts rq;
          (start, x) = ck_now_ms ck (snd w);
          dl_total = abs_deadline start (total_ms t);
          (st, x) = waited x (delay_within ck cancel (sr_connect_delay_ms resp)
                      (abs_deadline start (connect_ms t)) SICHA_T_E_TIMEOUT_CONNECT
                      dl_total SICHA_T_E_TIMEOUT_TOTAL x)
      in if st \<noteq> SICHA_T_OK then T_done st (fst w, x)
         else if sr_status resp \<noteq> SICHA_T_OK \<and> sr_fail_after_bytes resp = 0
         then T_done (sr_status resp) (fst w, x)
         else
           let (st, x) = waited x (delay_within ck cancel (sr_first_byte_delay_ms resp)
                           (abs_deadline start (first_byte_ms t)) SICHA_T_E_TIMEOUT_FIRST_BYTE
                           dl_total SICHA_T_E_TIMEOUT_TOTAL x)
           in if st \<noteq> SICHA_T_OK then T_done st (fst w, x)
              else T_status (sr_http_status resp) (case sr_headers resp of None \<Rightarrow> [] | Some hs \<Rightarrow> hs) (fst w, x)
                (\<lambda>(rc, w). if rc \<noteq> 0 then T_done SICHA_T_E_ABORTED_BY_SINK w
                  else script_body ck cancel rq resp dl_total
                    (let budget = (if sr_status resp \<noteq> SICHA_T_OK then sr_fail_after_bytes resp
                                   else sr_body_len resp)
                     in if budget < sr_body_len resp then budget else sr_body_len resp) 0 w))"

text \<open>\<open>rq\<close> is \<open>None\<close> for a NULL request or one with a wrong \<open>struct_size\<close>.\<close>

definition script_perform :: "'x sicha_clock option \<Rightarrow> sicha_http_request option \<Rightarrow>
    ('x \<Rightarrow> bool) option \<Rightarrow> script_state \<times> 'x \<Rightarrow> (script_state \<times> 'x) transfer" where
  "script_perform clk req cancel w =
     (case (req, clk) of
        (Some rq, Some ck) \<Rightarrow>
          let (ok, s) = record_call rq (fst w) in
          if \<not> ok then T_done SICHA_T_E_NOMEM (s, snd w)
          else
            (case take_response s of
               (None, s) \<Rightarrow> T_done SICHA_T_E_CONNECT (s, snd w)
             | (Some resp, s) \<Rightarrow> script_respond ck cancel rq resp (s, snd w))
      | _ \<Rightarrow> T_done SICHA_T_E_OTHER w)"

section \<open>The public operations\<close>

definition sicha_script_create :: "mem \<Rightarrow> script_state option \<times> mem" where
  "sicha_script_create m =
     (let (ok, m) = alloc m in
      (if ok then Some \<lparr>s_queue = [], s_q_cap = 0, s_calls = [], s_c_cap = 0, s_mem = m\<rparr> else None, m))"

definition SICHA_MAX_HEADERS :: nat where "SICHA_MAX_HEADERS = 256"
definition SICHA_MAX_HEADER_BYTES :: nat where "SICHA_MAX_HEADER_BYTES = 16 * 1024"
definition SICHA_MAX_HEADERS_TOTAL_BYTES :: nat where "SICHA_MAX_HEADERS_TOTAL_BYTES = 64 * 1024"

definition header_bytes :: "sicha_header \<Rightarrow> nat" where
  "header_bytes h =
     (case hd_name h of None \<Rightarrow> 0 | Some n \<Rightarrow> strlen n) + (case hd_value h of None \<Rightarrow> 0 | Some v \<Rightarrow> strlen v)"

fun headers_within_caps :: "sicha_header list \<Rightarrow> nat \<Rightarrow> bool" where
  "headers_within_caps [] acc = (acc \<le> SICHA_MAX_HEADERS_TOTAL_BYTES)"
| "headers_within_caps (h # hs) acc =
     (if SICHA_MAX_HEADER_BYTES < header_bytes h then False
      else headers_within_caps hs (acc + header_bytes h))"

definition push_valid :: "sicha_script_response \<Rightarrow> bool" where
  "push_valid r \<longleftrightarrow>
     sr_struct_size_ok r
     \<and> \<not> (SICHA_MAX_HEADERS < sr_n_headers r \<or> 0 < sr_n_headers r \<and> sr_headers r = None)
     \<and> headers_within_caps (take (sr_n_headers r) (case sr_headers r of None \<Rightarrow> [] | Some hs \<Rightarrow> hs)) 0"

definition push_body_len :: "sicha_script_response \<Rightarrow> nat" where
  "push_body_len r =
     (case sr_body r of None \<Rightarrow> 0
      | Some b \<Rightarrow> if sr_body_len r = SICHA_LEN_CSTR then strlen b else sr_body_len r)"

definition sicha_script_push :: "script_state option \<Rightarrow> sicha_script_response option \<Rightarrow>
    sicha_status \<times> script_state option" where
  "sicha_script_push t r =
     (case (t, r) of
        (Some s, Some r) \<Rightarrow>
          if \<not> push_valid r then (SICHA_E_INVALID_ARG, t)
          else
            let len = push_body_len r;
                (body, m) = dup_bytes_n (opt_bytes (sr_body r)) len (s_mem s);
                (headers, m) = headers_deep_copy (case sr_headers r of None \<Rightarrow> [] | Some hs \<Rightarrow> hs) (sr_n_headers r) m
            in if body = None \<or> headers = None then (SICHA_E_NOMEM, Some (s\<lparr>s_mem := m\<rparr>))
               else
                 let copy = r\<lparr>sr_body := body, sr_body_len := len, sr_headers := headers\<rparr>;
                     grow = length (s_queue s) = s_q_cap s;
                     (ok, m) = (if grow then alloc m else (True, m))
                 in if \<not> ok then (SICHA_E_NOMEM, Some (s\<lparr>s_mem := m\<rparr>))
                    else
                      let s = (if grow then s\<lparr>s_q_cap := (if s_q_cap s = 0 then 8 else s_q_cap s * 2)\<rparr> else s)
                      in (SICHA_OK, Some (s\<lparr>s_queue := s_queue s @ [copy], s_mem := m\<rparr>))
      | _ \<Rightarrow> (SICHA_E_INVALID_ARG, t))"

definition sicha_script_call_count :: "script_state option \<Rightarrow> u32" where
  "sicha_script_call_count t = (case t of None \<Rightarrow> 0 | Some s \<Rightarrow> of_nat (length (s_calls s)))"

definition call_snapshot :: "script_state option \<Rightarrow> u32 \<Rightarrow> script_call option" where
  "call_snapshot t i =
     (case t of None \<Rightarrow> None
      | Some s \<Rightarrow> if unat i < length (s_calls s) then Some (s_calls s ! unat i) else None)"

definition sicha_script_call_url :: "script_state option \<Rightarrow> u32 \<Rightarrow> bytes option" where
  "sicha_script_call_url t i = map_option cl_url (call_snapshot t i)"

definition sicha_script_call_body :: "script_state option \<Rightarrow> u32 \<Rightarrow> nat \<times> bytes option" where
  "sicha_script_call_body t i =
     (case call_snapshot t i of None \<Rightarrow> (0, None) | Some c \<Rightarrow> (cl_body_len c, Some (cl_body c)))"

fun find_header :: "sicha_header list \<Rightarrow> bytes \<Rightarrow> bytes option" where
  "find_header [] name = None"
| "find_header (h # hs) name =
     (if sicha_header_name_eq (opt_bytes (hd_name h)) name then hd_value h else find_header hs name)"

definition sicha_script_call_header :: "script_state option \<Rightarrow> u32 \<Rightarrow> bytes option \<Rightarrow> bytes option" where
  "sicha_script_call_header t i name =
     (case (call_snapshot t i, name) of
        (Some c, Some name) \<Rightarrow> find_header (take (cl_n_headers c) (cl_headers c)) (cstr name)
      | _ \<Rightarrow> None)"

section \<open>Waiting within deadlines\<close>

text \<open>What \<open>delay_within\<close> may answer at a time, for the token at that time.\<close>

definition delay_answer :: "bool \<Rightarrow> u64 \<Rightarrow> u64 \<Rightarrow> u64 \<Rightarrow> sicha_transport_status \<Rightarrow> u64 \<Rightarrow>
    sicha_transport_status \<Rightarrow> sicha_transport_status \<Rightarrow> bool" where
  "delay_answer cancelled now target dl_a st_a dl_b st_b st \<longleftrightarrow>
     st = SICHA_T_E_CANCELLED \<and> cancelled
     \<or> \<not> cancelled \<and> st = (if dl_a \<le> now then st_a else if dl_b \<le> now then st_b else SICHA_T_OK)
         \<and> (dl_a \<le> now \<or> dl_b \<le> now \<or> target \<le> now)"

definition is_set_token :: "('x \<Rightarrow> bool) option \<Rightarrow> 'x \<Rightarrow> bool" where
  "is_set_token cancel x = (case cancel of None \<Rightarrow> False | Some cancelled \<Rightarrow> cancelled x)"

lemma wait_chunk_pos:
  assumes "now < target" "now < dl_a" "now < dl_b"
  shows "0 < wait_chunk target dl_a dl_b now \<and> wait_chunk target dl_a dl_b now \<le> 100"
  using assms sub_pos [of now] by (auto simp: wait_chunk_def Let_def)

lemma chunk_below_forever: "c \<le> 100 \<Longrightarrow> c < SICHA_WAIT_FOREVER_MS"
  by (simp add: SICHA_WAIT_FOREVER_MS_def word_less_nat_alt word_le_nat_alt)

context clock
begin

lemma delay_loop_sound:
  assumes "delay_loop ck cancel target dl_a st_a dl_b st_b x = Some (st, x')"
  shows "delay_answer (is_set_token cancel x') (time x') target dl_a st_a dl_b st_b st"
proof -
  have "ck' = ck \<longrightarrow> delay_answer (is_set_token cancel (snd y)) (time (snd y)) target dl_a st_a dl_b st_b (fst y)"
    if "delay_loop ck' cancel target dl_a st_a dl_b st_b x = Some y" for ck' y
  proof (rule delay_loop.raw_induct [where xa = "(((((((ck', cancel), target), dl_a), st_a), dl_b), st_b), x)"
      and y = y and P = "\<lambda>ck' cancel target dl_a st_a dl_b st_b x y. ck' = ck \<longrightarrow>
        delay_answer (is_set_token cancel (snd y)) (time (snd y)) target dl_a st_a dl_b st_b (fst y)",
      unfolded prod.case, OF _ that])
    fix loop ck' cancel target dl_a st_a dl_b st_b x y
    assume 1: "\<And>ck' cancel target dl_a st_a dl_b st_b x y.
        loop ck' cancel target dl_a st_a dl_b st_b x = Some y \<Longrightarrow> ck' = ck \<longrightarrow>
          delay_answer (is_set_token cancel (snd y)) (time (snd y)) target dl_a st_a dl_b st_b (fst y)"
      "(case ck_now_ms ck' x of (now, x) \<Rightarrow>
        if (case cancel of None \<Rightarrow> False | Some cancelled \<Rightarrow> cancelled x) then Some (SICHA_T_E_CANCELLED, x)
        else if dl_a \<le> now then Some (st_a, x)
        else if dl_b \<le> now then Some (st_b, x)
        else if target \<le> now then Some (SICHA_T_OK, x)
        else
          case ck_wait_ms ck' cancel (wait_chunk target dl_a dl_b now) x of (rc, x) \<Rightarrow>
            if rc \<noteq> 0 then Some (SICHA_T_E_CANCELLED, x)
            else loop ck' cancel target dl_a st_a dl_b st_b x) = Some y"
    show "ck' = ck \<longrightarrow> delay_answer (is_set_token cancel (snd y)) (time (snd y)) target dl_a st_a dl_b st_b (fst y)"
    proof
      assume ck: "ck' = ck"
      obtain now x1 where n: "ck_now_ms ck x = (now, x1)" by fastforce
      have now: "now = time x1" using now_reads [OF n] by simp
      obtain rc x2 where w: "ck_wait_ms ck cancel (wait_chunk target dl_a dl_b now) x1 = (rc, x2)" by fastforce
      show "delay_answer (is_set_token cancel (snd y)) (time (snd y)) target dl_a st_a dl_b st_b (fst y)"
      proof (cases "is_set_token cancel x1 \<or> dl_a \<le> now \<or> dl_b \<le> now \<or> target \<le> now")
        case True
        with 1(2) n now ck show ?thesis
          by (cases cancel) (auto simp: delay_answer_def is_set_token_def split: if_splits)
      next
        case False
        with 1(2) n w ck have "if rc \<noteq> 0 then Some (SICHA_T_E_CANCELLED, x2) = Some y
          else loop ck cancel target dl_a st_a dl_b st_b x2 = Some y"
          by (cases cancel) (auto simp: is_set_token_def split: if_splits)
        note loop = this
        show ?thesis
        proof (cases "rc = 0")
          case True
          with loop 1(1) [of ck] show ?thesis by simp
        next
          case False
          with loop wait_cancelled [OF w] show ?thesis by (auto simp: delay_answer_def is_set_token_def)
        qed
      qed
    qed
  qed
  from this [OF assms] show ?thesis by simp
qed

lemma delay_loop_late:
  assumes "clock_range \<le> time x" "target < clock_range \<or> dl_a < clock_range \<or> dl_b < clock_range"
  shows "delay_loop ck cancel target dl_a st_a dl_b st_b x \<noteq> None"
proof -
  obtain now x1 where n: "ck_now_ms ck x = (now, x1)" by fastforce
  have "clock_range \<le> now" using now_reads [OF n] assms(1) by (metis order.trans)
  then have "target \<le> now \<or> dl_a \<le> now \<or> dl_b \<le> now"
    using assms(2) by (metis order.strict_trans2 less_imp_le)
  then show ?thesis by (subst delay_loop.simps) (auto simp: n)
qed

lemma delay_loop_ends:
  assumes "target < clock_range \<or> dl_a < clock_range \<or> dl_b < clock_range"
  shows "delay_loop ck cancel target dl_a st_a dl_b st_b x \<noteq> None"
proof (induction "unat clock_range - unat (time x)" arbitrary: x rule: less_induct)
  case less
  obtain now x1 where n: "ck_now_ms ck x = (now, x1)" by fastforce
  have now: "now = time x1" "time x \<le> time x1" using now_reads [OF n] by simp_all
  let ?c = "wait_chunk target dl_a dl_b now"
  obtain rc x2 where w: "ck_wait_ms ck cancel ?c x1 = (rc, x2)" by fastforce
  show ?case
  proof (cases "is_set_token cancel x1 \<or> dl_a \<le> now \<or> dl_b \<le> now \<or> target \<le> now \<or> rc \<noteq> 0")
    case True
    then show ?thesis by (subst delay_loop.simps) (auto simp: n w is_set_token_def)
  next
    case False
    then have rc: "rc = 0" and lt: "now < target" "now < dl_a" "now < dl_b" by (auto simp: not_le)
    have loop: "delay_loop ck cancel target dl_a st_a dl_b st_b x = delay_loop ck cancel target dl_a st_a dl_b st_b x2"
      using False by (subst delay_loop.simps) (auto simp: n w is_set_token_def)
    have c: "0 < ?c" "?c < SICHA_WAIT_FOREVER_MS"
      using wait_chunk_pos [OF lt] chunk_below_forever by simp_all
    show ?thesis
    proof (cases "time x2 < clock_range")
      case False
      then show ?thesis using delay_loop_late [OF _ assms, of x2] loop by (simp add: not_less)
    next
      case True
      have x1: "time x1 < clock_range"
        using lt now(1) assms by (metis order.strict_trans)
      have "unat (time x1) + unat ?c \<le> unat (time x2)"
        using wait_full [OF w [unfolded rc] c(2) x1 True] .
      moreover have "0 < unat ?c" using c(1) by (simp add: word_less_nat_alt)
      moreover have "unat (time x2) < unat clock_range" "unat (time x) \<le> unat (time x1)"
        using True now(2) by (simp_all add: word_less_nat_alt word_le_nat_alt)
      ultimately have "unat clock_range - unat (time x2) < unat clock_range - unat (time x)" by linarith
      from less [OF this] loop show ?thesis by simp
    qed
  qed
qed

lemma delay_within_sound:
  assumes "delay_within ck cancel delay_ms dl_a st_a dl_b st_b x = Some (st, x')"
  shows "\<exists>start \<ge> time x. delay_answer (is_set_token cancel x') (time x')
    (if UINT64_MAX - delay_ms < start then UINT64_MAX else start + delay_ms) dl_a st_a dl_b st_b st"
proof -
  obtain start x1 where n: "ck_now_ms ck x = (start, x1)" by fastforce
  have "time x \<le> start" using now_reads [OF n] by simp
  with assms show ?thesis unfolding delay_within_def n prod.case by (blast dest: delay_loop_sound)
qed

lemma delay_within_ends:
  assumes "dl_a < clock_range \<or> dl_b < clock_range"
  shows "delay_within ck cancel delay_ms dl_a st_a dl_b st_b x \<noteq> None"
proof -
  obtain start x1 where n: "ck_now_ms ck x = (start, x1)" by fastforce
  show ?thesis unfolding delay_within_def n prod.case by (rule delay_loop_ends) (use assms in blast)
qed

end

section \<open>The protocol\<close>

lemma script_body_done [simp]: "script_body ck cancel rq resp dl 0 pos w = T_done (sr_status resp) w"
  by (simp add: script_body.simps)

text \<open>One chunk: the wait for it, and then the chunk or the end.\<close>

definition chunk_wait :: "'x sicha_clock \<Rightarrow> ('x \<Rightarrow> bool) option \<Rightarrow> sicha_http_request \<Rightarrow>
    sicha_script_response \<Rightarrow> u64 \<Rightarrow> 'x \<Rightarrow> sicha_transport_status \<times> 'x" where
  "chunk_wait ck cancel rq resp dl x =
     (case ck_now_ms ck x of (chunk_start, x) \<Rightarrow>
        waited x (delay_within ck cancel (sr_per_chunk_delay_ms resp)
          (abs_deadline chunk_start (idle_ms (hr_timeouts rq))) SICHA_T_E_TIMEOUT_IDLE
          dl SICHA_T_E_TIMEOUT_TOTAL x))"

lemma script_body_chunk:
  assumes "0 < remaining" "chunk_wait ck cancel rq resp dl (snd w) = (st, x)"
  shows "script_body ck cancel rq resp dl remaining pos w =
    (if st \<noteq> SICHA_T_OK then T_done st (fst w, x)
     else T_body (take (chunk_len resp remaining) (drop pos (opt_bytes (sr_body resp)))) (fst w, x)
       (\<lambda>(rc, w). if rc \<noteq> 0 then T_done SICHA_T_E_ABORTED_BY_SINK w
          else script_body ck cancel rq resp dl (remaining - chunk_len resp remaining)
                 (pos + chunk_len resp remaining) w))"
proof -
  obtain cs y where "ck_now_ms ck (snd w) = (cs, y)" by fastforce
  with assms show ?thesis by (subst script_body.simps) (simp add: chunk_wait_def Let_def)
qed

lemma chunk_len_bounds: "0 < remaining \<Longrightarrow> 0 < chunk_len resp remaining \<and> chunk_len resp remaining \<le> remaining"
  by (simp add: chunk_len_def Let_def)

lemma script_body_phase: "body_phase (script_body ck cancel rq resp dl remaining pos w)"
proof (induction remaining arbitrary: pos w rule: less_induct)
  case (less remaining)
  show ?case
  proof (cases "0 < remaining")
    case True
    obtain st x where c: "chunk_wait ck cancel rq resp dl (snd w) = (st, x)" by fastforce
    from less [of "remaining - chunk_len resp remaining"] chunk_len_bounds [OF True, of resp]
    show ?thesis by (simp add: script_body_chunk [OF True c] split_def)
  qed simp
qed

lemma script_respond_conforms: "conforms (script_respond ck cancel rq resp w)"
proof -
  obtain start x where "ck_now_ms ck (snd w) = (start, x)" by fastforce
  moreover obtain st x1 where "waited x (delay_within ck cancel (sr_connect_delay_ms resp)
      (abs_deadline start (connect_ms (hr_timeouts rq))) SICHA_T_E_TIMEOUT_CONNECT
      (abs_deadline start (total_ms (hr_timeouts rq))) SICHA_T_E_TIMEOUT_TOTAL x) = (st, x1)" by fastforce
  moreover obtain st' x2 where "waited x1 (delay_within ck cancel (sr_first_byte_delay_ms resp)
      (abs_deadline start (first_byte_ms (hr_timeouts rq))) SICHA_T_E_TIMEOUT_FIRST_BYTE
      (abs_deadline start (total_ms (hr_timeouts rq))) SICHA_T_E_TIMEOUT_TOTAL x1) = (st', x2)" by fastforce
  ultimately show ?thesis by (simp add: script_respond_def Let_def script_body_phase split_def)
qed

lemma script_perform_conforms: "conforms (script_perform clk rq cancel w)"
proof -
  have "conforms (script_perform (Some ck) (Some r) cancel w)" for ck r
  proof -
    obtain ok s where 1: "record_call r (fst w) = (ok, s)" by fastforce
    obtain resp s' where 2: "take_response s = (resp, s')" by fastforce
    show ?thesis by (cases resp) (simp_all add: script_perform_def 1 2 script_respond_conforms)
  qed
  then show ?thesis by (cases clk; cases rq) (simp_all add: script_perform_def)
qed

interpretation script: transport "script_perform clk"
  by unfold_locales (rule script_perform_conforms)

section \<open>What is answered and what is recorded\<close>

definition header_copy :: "sicha_header \<Rightarrow> sicha_header" where
  "header_copy h = \<lparr>hd_name = Some (cstr (opt_bytes (hd_name h))), hd_value = Some (cstr (opt_bytes (hd_value h)))\<rparr>"

definition recorded :: "sicha_http_request \<Rightarrow> script_call" where
  "recorded rq =
     \<lparr>cl_url = cstr (hr_url rq),
      cl_body = (case hr_body rq of None \<Rightarrow> [] | Some b \<Rightarrow> take (hr_body_len rq) b),
      cl_body_len = (if hr_body rq = None then 0 else hr_body_len rq),
      cl_headers = map header_copy (hr_headers rq), cl_n_headers = length (hr_headers rq)\<rparr>"

lemma dup_bytes_n_ok: "all_ok m \<Longrightarrow> dup_bytes_n s n m = (r, m') \<Longrightarrow> r = Some (take n s) \<and> all_ok m'"
  by (auto simp: dup_bytes_n_def split: prod.splits dest: all_ok_alloc)

lemma dup_string_ok: "all_ok m \<Longrightarrow> dup_string s m = (r, m') \<Longrightarrow> r = Some (cstr (opt_bytes s)) \<and> all_ok m'"
  by (cases s) (simp_all add: dup_string_def opt_bytes_def dup_bytes_n_ok take_strlen cstr_def,
      (drule (1) dup_bytes_n_ok, simp add: take_strlen [unfolded cstr_def])+)

lemma copy_headers_ok:
  "all_ok m \<Longrightarrow> copy_headers hs m = (r, m') \<Longrightarrow> r = Some (map header_copy hs) \<and> all_ok m'"
proof (induction hs arbitrary: m r m')
  case (Cons h hs)
  obtain n m1 where 1: "dup_string (hd_name h) m = (n, m1)" by fastforce
  obtain v m2 where 2: "dup_string (hd_value h) m1 = (v, m2)" by fastforce
  obtain r' m3 where 3: "copy_headers hs m2 = (r', m3)" by fastforce
  note n = dup_string_ok [OF Cons.prems(1) 1]
  note v = dup_string_ok [OF conjunct2 [OF n] 2]
  from Cons.IH [OF conjunct2 [OF v] 3] Cons.prems(2) n v show ?case
    by (simp add: 1 2 3 header_copy_def)
qed simp

lemma headers_deep_copy_ok:
  assumes "all_ok m" "headers_deep_copy src n m = (r, m')"
  shows "r = Some (map header_copy (take n src)) \<and> all_ok m'"
proof -
  obtain ok m1 where 1: "alloc m = (ok, m1)" by fastforce
  have "ok \<and> all_ok m1" by (rule all_ok_alloc [OF assms(1) 1])
  with assms(2) copy_headers_ok [of m1] show ?thesis
    by (auto simp: headers_deep_copy_def 1 split: if_splits)
qed

lemma alloc_if_ok:
  "all_ok m \<Longrightarrow> (if c then alloc m else (True, m)) = (ok, m') \<Longrightarrow> ok \<and> all_ok m'"
  by (auto split: if_splits dest: all_ok_alloc)

lemma record_call_ok:
  assumes "all_ok (s_mem s)" "record_call rq s = (ok, s')"
  shows "ok \<and> s_queue s' = s_queue s \<and> s_calls s' = s_calls s @ [recorded rq] \<and> all_ok (s_mem s')"
proof -
  obtain k m1 where 1: "(if length (s_calls s) = s_c_cap s then alloc (s_mem s) else (True, s_mem s)) = (k, m1)"
    by fastforce
  note k = alloc_if_ok [OF assms(1) 1]
  obtain url m2 where 2: "dup_bytes_n (hr_url rq) (strlen (hr_url rq)) m1 = (url, m2)" by fastforce
  note url = dup_bytes_n_ok [OF conjunct2 [OF k] 2]
  obtain body m3 where 3: "(case hr_body rq of None \<Rightarrow> dup_bytes_n [] 0 m2 | Some b \<Rightarrow> dup_bytes_n b (hr_body_len rq) m2) = (body, m3)"
    by fastforce
  have body: "body = Some (case hr_body rq of None \<Rightarrow> [] | Some b \<Rightarrow> take (hr_body_len rq) b) \<and> all_ok m3"
    using 3 dup_bytes_n_ok [OF conjunct2 [OF url]] by (cases "hr_body rq") fastforce+
  obtain hs m4 where 4: "headers_deep_copy (hr_headers rq) (length (hr_headers rq)) m3 = (hs, m4)" by fastforce
  note hs = headers_deep_copy_ok [OF conjunct2 [OF body] 4]
  have "record_call rq s = (True, (if length (s_calls s) = s_c_cap s
      then s\<lparr>s_c_cap := (if s_c_cap s = 0 then 8 else s_c_cap s * 2)\<rparr> else s)
        \<lparr>s_calls := s_calls s @ [call_of rq url body hs], s_mem := m4\<rparr>)"
    using k url body hs by (simp add: record_call_def 1 2 3 4 Let_def)
  moreover have "call_of rq url body hs = recorded rq"
    using url body hs by (simp add: call_of_def recorded_def opt_bytes_def take_strlen)
  ultimately show ?thesis using assms(2) hs by auto
qed

text \<open>The body of a response, cut into chunks and put together again.\<close>

lemma script_body_accepted:
  assumes "accept_all (script_body ck cancel rq resp dl remaining pos w) = (evs, ts, w')"
    "pos + remaining \<le> length (opt_bytes (sr_body resp))"
  shows "\<exists>bs n. evs = map Got_body bs \<and> n \<le> remaining \<and> concat bs = take n (drop pos (opt_bytes (sr_body resp)))
    \<and> fst w' = fst w \<and> (n = remaining \<and> ts = sr_status resp \<or> n < remaining \<and> ts \<noteq> SICHA_T_OK)"
  using assms
proof (induction remaining arbitrary: pos w evs rule: less_induct)
  case (less remaining)
  show ?case
  proof (cases "0 < remaining")
    case False
    with less.prems show ?thesis by (auto intro: exI [of _ "[]"])
  next
    case True
    obtain st x where c: "chunk_wait ck cancel rq resp dl (snd w) = (st, x)" by fastforce
    note b = script_body_chunk [OF True c, of pos]
    show ?thesis
    proof (cases "st = SICHA_T_OK")
      case False
      with less.prems(1) b True show ?thesis by (auto intro!: exI [of _ "[]"] exI [of _ 0])
    next
      case True
      let ?n = "chunk_len resp remaining"
      note n = chunk_len_bounds [OF \<open>0 < remaining\<close>, of resp]
      obtain e' ts' w2 where e: "accept_all (script_body ck cancel rq resp dl (remaining - ?n) (pos + ?n) (fst w, x)) = (e', ts', w2)"
        by (rule prod_cases3)
      have eq: "evs = Got_body (take ?n (drop pos (opt_bytes (sr_body resp)))) # e'" "ts = ts'" "w' = w2"
        using less.prems(1) b True e by simp_all
      from less.IH [OF _ e [folded eq(2,3)]] n less.prems(2)
      obtain bs k where bs: "e' = map Got_body bs" "k \<le> remaining - ?n"
        "concat bs = take k (drop (pos + ?n) (opt_bytes (sr_body resp)))" "fst w' = fst w"
        "k = remaining - ?n \<and> ts = sr_status resp \<or> k < remaining - ?n \<and> ts \<noteq> SICHA_T_OK" by auto
      let ?bs = "take ?n (drop pos (opt_bytes (sr_body resp))) # bs"
      have "concat ?bs = take (?n + k) (drop pos (opt_bytes (sr_body resp)))"
        using bs(3) by (simp add: take_add add.commute [of pos])
      moreover have "evs = map Got_body ?bs" using eq bs(1) by simp
      moreover have "?n + k \<le> remaining" "?n + k = remaining \<and> ts = sr_status resp \<or> ?n + k < remaining \<and> ts \<noteq> SICHA_T_OK"
        using bs(2,5) n by auto
      ultimately show ?thesis using bs(4) by blast
    qed
  qed
qed

text \<open>What a response in the queue looks like, and how far its body goes.\<close>

definition queued :: "sicha_script_response \<Rightarrow> bool" where
  "queued r \<longleftrightarrow> sr_body r \<noteq> None \<and> sr_headers r \<noteq> None \<and> length (opt_bytes (sr_body r)) = sr_body_len r"

definition scripted_bytes :: "sicha_script_response \<Rightarrow> bytes" where
  "scripted_bytes r =
     (if sr_status r = SICHA_T_OK then opt_bytes (sr_body r) else take (sr_fail_after_bytes r) (opt_bytes (sr_body r)))"

lemma script_respond_accepted:
  assumes "accept_all (script_respond ck cancel rq resp w) = (evs, ts, w')" "queued resp"
  shows "fst w' = fst w \<and>
    (evs = [] \<and> ts \<noteq> SICHA_T_OK
     \<or> (\<exists>bs n. evs = Got_status (sr_http_status resp) (case sr_headers resp of None \<Rightarrow> [] | Some hs \<Rightarrow> hs) # map Got_body bs
          \<and> concat bs = take n (scripted_bytes resp)
          \<and> (ts = SICHA_T_OK \<longrightarrow> sr_status resp = SICHA_T_OK \<and> concat bs = opt_bytes (sr_body resp))))"
proof -
  let ?t = "hr_timeouts rq"
  obtain start x where 1: "ck_now_ms ck (snd w) = (start, x)" by fastforce
  let ?dl = "abs_deadline start (total_ms ?t)"
  obtain st x1 where 2: "waited x (delay_within ck cancel (sr_connect_delay_ms resp)
      (abs_deadline start (connect_ms ?t)) SICHA_T_E_TIMEOUT_CONNECT ?dl SICHA_T_E_TIMEOUT_TOTAL x) = (st, x1)" by fastforce
  obtain st' x2 where 3: "waited x1 (delay_within ck cancel (sr_first_byte_delay_ms resp)
      (abs_deadline start (first_byte_ms ?t)) SICHA_T_E_TIMEOUT_FIRST_BYTE ?dl SICHA_T_E_TIMEOUT_TOTAL x1) = (st', x2)"
    by fastforce
  let ?rem = "let budget = (if sr_status resp \<noteq> SICHA_T_OK then sr_fail_after_bytes resp else sr_body_len resp)
    in if budget < sr_body_len resp then budget else sr_body_len resp"
  show ?thesis
  proof (cases "st = SICHA_T_OK \<and> st' = SICHA_T_OK \<and> (sr_status resp = SICHA_T_OK \<or> 0 < sr_fail_after_bytes resp)")
    case False
    with assms(1) show ?thesis by (auto simp: script_respond_def 1 2 3 Let_def split: if_splits)
  next
    case True
    obtain e ts' w2 where e: "accept_all (script_body ck cancel rq resp ?dl ?rem 0 (fst w, x2)) = (e, ts', w2)"
      by (rule prod_cases3)
    have eq: "evs = Got_status (sr_http_status resp) (case sr_headers resp of None \<Rightarrow> [] | Some hs \<Rightarrow> hs) # e"
      "ts = ts'" "w' = w2"
      using assms(1) True e by (auto simp: script_respond_def 1 2 3 Let_def)
    have rem: "0 + ?rem \<le> length (opt_bytes (sr_body resp))" using assms(2) by (simp add: queued_def Let_def)
    from script_body_accepted [OF e [folded eq(2,3)] rem] obtain bs n where bs: "e = map Got_body bs" "n \<le> ?rem"
      "concat bs = take n (opt_bytes (sr_body resp))" "fst w' = fst w"
      "n = ?rem \<and> ts = sr_status resp \<or> n < ?rem \<and> ts \<noteq> SICHA_T_OK" by auto
    have "concat bs = take n (scripted_bytes resp)"
      using bs(2,3) by (auto simp: scripted_bytes_def Let_def min_def split: if_splits)
    moreover have "sr_status resp = SICHA_T_OK \<and> concat bs = opt_bytes (sr_body resp)" if "ts = SICHA_T_OK"
      using bs(3,5) that assms(2) by (auto simp: queued_def Let_def)
    ultimately show ?thesis using eq(1) bs(1,4) by blast
  qed
qed

text \<open>A whole call of the transport.\<close>

theorem script_answers:
  assumes "all_ok (s_mem s)" "s_queue s = r # q" "queued r"
    "accept_all (script_perform (Some ck) (Some rq) cancel (s, x)) = (evs, ts, (s', x'))"
  shows "s_queue s' = q \<and> s_calls s' = s_calls s @ [recorded rq] \<and>
    (evs = [] \<and> ts \<noteq> SICHA_T_OK
     \<or> (\<exists>bs n. evs = Got_status (sr_http_status r) (case sr_headers r of None \<Rightarrow> [] | Some hs \<Rightarrow> hs) # map Got_body bs
          \<and> concat bs = take n (scripted_bytes r)
          \<and> (ts = SICHA_T_OK \<longrightarrow> sr_status r = SICHA_T_OK \<and> concat bs = opt_bytes (sr_body r))))"
proof -
  obtain ok s1 where 1: "record_call rq s = (ok, s1)" by fastforce
  note c = record_call_ok [OF assms(1) 1]
  have "accept_all (script_respond ck cancel rq r (s1\<lparr>s_queue := q\<rparr>, x)) = (evs, ts, (s', x'))"
    using assms(4) c assms(2) by (simp add: script_perform_def 1 take_response_def)
  from script_respond_accepted [OF this assms(3)] c show ?thesis by simp
qed

text \<open>Pushing.\<close>

definition snapshot :: "sicha_script_response \<Rightarrow> sicha_script_response" where
  "snapshot r =
     r\<lparr>sr_body := Some (take (push_body_len r) (opt_bytes (sr_body r))), sr_body_len := push_body_len r,
       sr_headers := Some (map header_copy (take (sr_n_headers r) (case sr_headers r of None \<Rightarrow> [] | Some hs \<Rightarrow> hs)))\<rparr>"

lemma push_cases:
  assumes "sicha_script_push (Some s) (Some r) = (st, t)"
  shows "\<exists>s'. t = Some s' \<and> s_calls s' = s_calls s \<and>
    (if st = SICHA_OK then push_valid r \<and> length (s_queue s') = Suc (length (s_queue s)) \<and> butlast (s_queue s') = s_queue s
     else s_queue s' = s_queue s)"
  using assms by (auto simp: sicha_script_push_def Let_def split: if_splits prod.splits)

theorem push_ok:
  assumes "all_ok (s_mem s)" "push_valid r" "sicha_script_push (Some s) (Some r) = (st, t)"
  shows "st = SICHA_OK \<and> (\<exists>s'. t = Some s' \<and> s_queue s' = s_queue s @ [snapshot r] \<and> s_calls s' = s_calls s
    \<and> all_ok (s_mem s'))"
proof -
  obtain body m1 where 1: "dup_bytes_n (opt_bytes (sr_body r)) (push_body_len r) (s_mem s) = (body, m1)" by fastforce
  note b = dup_bytes_n_ok [OF assms(1) 1]
  obtain hs m2 where 2: "headers_deep_copy (case sr_headers r of None \<Rightarrow> [] | Some hs \<Rightarrow> hs) (sr_n_headers r) m1 = (hs, m2)"
    by fastforce
  note h = headers_deep_copy_ok [OF conjunct2 [OF b] 2]
  obtain ok m3 where 3: "(if length (s_queue s) = s_q_cap s then alloc m2 else (True, m2)) = (ok, m3)" by fastforce
  note k = alloc_if_ok [OF conjunct2 [OF h] 3]
  have "sicha_script_push (Some s) (Some r) = (SICHA_OK, Some ((if length (s_queue s) = s_q_cap s
      then s\<lparr>s_q_cap := (if s_q_cap s = 0 then 8 else s_q_cap s * 2)\<rparr> else s)
        \<lparr>s_queue := s_queue s @ [r\<lparr>sr_body := body, sr_body_len := push_body_len r, sr_headers := hs\<rparr>], s_mem := m3\<rparr>))"
    using assms(2) b h k by (simp add: sicha_script_push_def 1 2 3 Let_def)
  with assms(3) b h k show ?thesis by (auto simp: snapshot_def)
qed

text \<open>The length of the body is within the memory the caller passed.\<close>

lemma snapshot_queued:
  "push_body_len r \<le> length (opt_bytes (sr_body r)) \<Longrightarrow> queued (snapshot r)"
  by (simp add: queued_def snapshot_def opt_bytes_def)

end
