(* ===== verification/Curl.thy ===== *)
theory Curl
  imports Script "HOL-Library.Multiset"
begin

text \<open>
  The libcurl transport (\<open>src/transport_curl.c\<close>) as far as it is sicha's own code: the callbacks
  that collect the response headers and hand the body on, the mapping of libcurl's result, and
  the pool of handles. libcurl itself is not under \<open>src/\<close>.
\<close>

section \<open>Response headers\<close>

record 'w sicha_http_sink =
  sk_on_status :: "(int \<Rightarrow> sicha_header list \<Rightarrow> 'w \<Rightarrow> int \<times> 'w) option"
  sk_on_body :: "(bytes \<Rightarrow> 'w \<Rightarrow> int \<times> 'w) option"

record xfer =
  x_headers :: "sicha_header list"
  x_header_bytes :: nat
  x_http_status :: int
  x_status_delivered :: bool
  x_sink_aborted :: bool
  x_caps_exceeded :: bool
  x_oom :: bool
  x_last_activity_ms :: u64

definition xfer_free_headers :: "xfer \<Rightarrow> xfer" where
  "xfer_free_headers x = x\<lparr>x_headers := [], x_header_bytes := 0\<rparr>"

definition dup_span :: "bytes \<Rightarrow> mem \<Rightarrow> bytes option \<times> mem" where
  "dup_span s m = (let (ok, m) = alloc m in (if ok then Some s else None, m))"

text \<open>The conversion of a \<open>long\<close> to \<open>int32_t\<close>.\<close>

definition int32 :: "int \<Rightarrow> int" where
  "int32 i = sint (of_int i :: 32 word)"

definition xfer_finish_headers :: "'w sicha_http_sink option \<Rightarrow> xfer \<Rightarrow> 'w \<Rightarrow> int \<times> xfer \<times> 'w" where
  "xfer_finish_headers sink x w =
     (if 100 \<le> x_http_status x \<and> x_http_status x \<le> 199 then (0, xfer_free_headers x, w)
      else
        let x = x\<lparr>x_status_delivered := True\<rparr> in
        case sink of
          None \<Rightarrow> (0, x, w)
        | Some sk \<Rightarrow>
            (case sk_on_status sk of
               None \<Rightarrow> (0, x, w)
             | Some f \<Rightarrow>
                 let (rc, w) = f (int32 (x_http_status x)) (x_headers x) w in
                 if rc \<noteq> 0 then (1, x\<lparr>x_sink_aborted := True\<rparr>, w) else (0, x, w)))"

definition memchr :: "byte \<Rightarrow> bytes \<Rightarrow> nat option" where
  "memchr b s = (if b \<in> set s then Some (length (takeWhile (\<lambda>c. c \<noteq> b) s)) else None)"

text \<open>The digits after the first space of a status line, as a number.\<close>

fun status_digits :: "int \<Rightarrow> bytes \<Rightarrow> int" where
  "status_digits code [] = code"
| "status_digits code (b # bs) =
     (if 0x30 \<le> b \<and> b \<le> 0x39 then status_digits (code * 10 + (uint b - 0x30)) bs else code)"

definition status_code :: "bytes \<Rightarrow> int" where
  "status_code buffer =
     (case memchr 0x20 buffer of None \<Rightarrow> 0 | Some sp \<Rightarrow> status_digits 0 (drop (sp + 1) buffer))"

definition is_blank :: "byte \<Rightarrow> bool" where
  "is_blank b \<longleftrightarrow> b = 0x20 \<or> b = 0x09"

definition is_line_end :: "byte \<Rightarrow> bool" where
  "is_line_end b \<longleftrightarrow> b = 0x0D \<or> b = 0x0A \<or> b = 0x20 \<or> b = 0x09"

text \<open>The value of a field: the two loops move \<open>vstart\<close> and \<open>vend\<close> towards each other.\<close>

definition header_value :: "bytes \<Rightarrow> bytes" where
  "header_value rest = rev (dropWhile is_line_end (rev (dropWhile is_blank rest)))"

definition header_field :: "bytes \<Rightarrow> xfer \<Rightarrow> mem \<Rightarrow> nat \<times> xfer \<times> mem" where
  "header_field buffer x m =
     (case memchr 0x3A buffer of
        None \<Rightarrow> (length buffer, x, m)
      | Some nlen \<Rightarrow>
          if SICHA_MAX_HEADERS \<le> length (x_headers x) \<or> SICHA_MAX_HEADER_BYTES < length buffer
             \<or> SICHA_MAX_HEADERS_TOTAL_BYTES < x_header_bytes x + length buffer
          then (0, x\<lparr>x_caps_exceeded := True\<rparr>, m)
          else
            let (n, m) = dup_span (take nlen buffer) m;
                (v, m) = dup_span (header_value (drop (nlen + 1) buffer)) m
            in if n = None \<or> v = None then (0, x\<lparr>x_oom := True\<rparr>, m)
               else (length buffer,
                     x\<lparr>x_headers := x_headers x @ [\<lparr>hd_name = n, hd_value = v\<rparr>],
                       x_header_bytes := x_header_bytes x + length buffer\<rparr>, m))"

text \<open>The result is what the callback returns to libcurl: anything but the length is a failure.\<close>

definition header_cb :: "'w sicha_clock \<Rightarrow> 'w sicha_http_sink option \<Rightarrow> bytes \<Rightarrow> xfer \<Rightarrow> 'w \<Rightarrow> mem \<Rightarrow>
    nat \<times> xfer \<times> 'w \<times> mem" where
  "header_cb ck sink buffer x w m =
     (let (now, w) = ck_now_ms ck w; x = x\<lparr>x_last_activity_ms := now\<rparr>; len = length buffer in
      if x_status_delivered x then (len, x, w, m)
      else if 5 \<le> len \<and> take 5 buffer = lit ''HTTP/''
      then (len, xfer_free_headers (x\<lparr>x_http_status := status_code buffer\<rparr>), w, m)
      else if buffer = [0x0D, 0x0A] \<or> buffer = [0x0A]
      then let (rc, x, w) = xfer_finish_headers sink x w in (if rc \<noteq> 0 then 0 else len, x, w, m)
      else let (n, x, m) = header_field buffer x m in (n, x, w, m))"

definition write_cb :: "'w sicha_clock \<Rightarrow> 'w sicha_http_sink option \<Rightarrow> bytes \<Rightarrow> xfer \<Rightarrow> 'w \<Rightarrow> nat \<times> xfer \<times> 'w" where
  "write_cb ck sink bs x w =
     (let (now, w) = ck_now_ms ck w; x = x\<lparr>x_last_activity_ms := now\<rparr> in
      case sink of
        None \<Rightarrow> (length bs, x, w)
      | Some sk \<Rightarrow>
          (case sk_on_body sk of
             None \<Rightarrow> (length bs, x, w)
           | Some f \<Rightarrow>
               let (rc, w) = f bs w in
               if rc \<noteq> 0 then (0, x\<lparr>x_sink_aborted := True\<rparr>, w) else (length bs, x, w)))"

section \<open>The result of a transfer\<close>

text \<open>The codes of libcurl that the source names, and all others.\<close>

datatype curl_code = CURLE_OK | CURLE_COULDNT_RESOLVE_HOST | CURLE_COULDNT_RESOLVE_PROXY
  | CURLE_COULDNT_CONNECT | CURLE_OPERATION_TIMEDOUT | CURLE_PEER_FAILED_VERIFICATION
  | CURLE_SSL_CONNECT_ERROR | CURLE_SSL_CERTPROBLEM | CURLE_SSL_CIPHER | CURLE_SSL_CACERT_BADFILE
  | CURLE_SSL_ISSUER_ERROR | CURLE_SEND_ERROR | CURLE_RECV_ERROR | CURLE_PARTIAL_FILE
  | CURLE_GOT_NOTHING | CURLE_HTTP2 | CURLE_HTTP2_STREAM | CURLE_WRITE_ERROR | CURLE_OUT_OF_MEMORY
  | CURLE_OTHER nat

definition map_curl_code :: "curl_code \<Rightarrow> xfer \<Rightarrow> u64 \<Rightarrow> u32 \<Rightarrow> sicha_transport_status" where
  "map_curl_code rc x elapsed_ms connect_budget_ms =
     (if x_oom x then SICHA_T_E_NOMEM
      else if x_caps_exceeded x then SICHA_T_E_PROTOCOL
      else if x_sink_aborted x then SICHA_T_E_ABORTED_BY_SINK
      else
        case rc of
          CURLE_OK \<Rightarrow> if x_status_delivered x then SICHA_T_OK else SICHA_T_E_RESET
        | CURLE_COULDNT_RESOLVE_HOST \<Rightarrow> SICHA_T_E_CONNECT
        | CURLE_COULDNT_RESOLVE_PROXY \<Rightarrow> SICHA_T_E_CONNECT
        | CURLE_COULDNT_CONNECT \<Rightarrow> SICHA_T_E_CONNECT
        | CURLE_OPERATION_TIMEDOUT \<Rightarrow>
            if \<not> x_status_delivered x \<and> connect_budget_ms \<noteq> SICHA_INFINITE
               \<and> ucast connect_budget_ms \<le> elapsed_ms + 50
            then SICHA_T_E_TIMEOUT_CONNECT else SICHA_T_E_OTHER
        | CURLE_PEER_FAILED_VERIFICATION \<Rightarrow> SICHA_T_E_TLS
        | CURLE_SSL_CONNECT_ERROR \<Rightarrow> SICHA_T_E_TLS
        | CURLE_SSL_CERTPROBLEM \<Rightarrow> SICHA_T_E_TLS
        | CURLE_SSL_CIPHER \<Rightarrow> SICHA_T_E_TLS
        | CURLE_SSL_CACERT_BADFILE \<Rightarrow> SICHA_T_E_TLS
        | CURLE_SSL_ISSUER_ERROR \<Rightarrow> SICHA_T_E_TLS
        | CURLE_SEND_ERROR \<Rightarrow> SICHA_T_E_RESET
        | CURLE_RECV_ERROR \<Rightarrow> SICHA_T_E_RESET
        | CURLE_PARTIAL_FILE \<Rightarrow> SICHA_T_E_RESET
        | CURLE_GOT_NOTHING \<Rightarrow> SICHA_T_E_RESET
        | CURLE_HTTP2 \<Rightarrow> SICHA_T_E_RESET
        | CURLE_HTTP2_STREAM \<Rightarrow> SICHA_T_E_RESET
        | CURLE_WRITE_ERROR \<Rightarrow> SICHA_T_E_OTHER
        | CURLE_OUT_OF_MEMORY \<Rightarrow> SICHA_T_E_NOMEM
        | CURLE_OTHER _ \<Rightarrow> SICHA_T_E_OTHER)"

section \<open>The pool of handles\<close>

text \<open>
  A handle is a number, \<open>None\<close> is NULL. \<open>cs_live\<close> are the handles that exist: those that
  \<open>curl_easy_init\<close> or \<open>curl_multi_init\<close> returned and that have not been cleaned up.
\<close>

record curl_slot =
  sl_easy :: "nat option"
  sl_multi :: "nat option"
  sl_in_use :: bool

record curl_state =
  cs_slots :: "curl_slot list"
  cs_next :: nat
  cs_live :: "nat set"
  cs_mem :: mem

definition CURL_POOL_CAP :: nat where "CURL_POOL_CAP = 8"

text \<open>\<open>global_ok\<close> says that \<open>curl_global_init\<close> succeeded.\<close>

definition sicha_curl_create :: "bool \<Rightarrow> mem \<Rightarrow> curl_state option" where
  "sicha_curl_create global_ok m =
     (let (ok, m) = alloc m in
      if global_ok \<and> ok then Some \<lparr>cs_slots = replicate CURL_POOL_CAP \<lparr>sl_easy = None, sl_multi = None, sl_in_use = False\<rparr>,
                       cs_next = 0, cs_live = {}, cs_mem = m\<rparr>
      else None)"

definition handle_init :: "curl_state \<Rightarrow> nat option \<times> curl_state" where
  "handle_init s =
     (let (ok, m) = alloc (cs_mem s); s = s\<lparr>cs_mem := m\<rparr> in
      if ok then (Some (cs_next s), s\<lparr>cs_next := Suc (cs_next s), cs_live := insert (cs_next s) (cs_live s)\<rparr>)
      else (None, s))"

definition handle_cleanup :: "nat option \<Rightarrow> curl_state \<Rightarrow> curl_state" where
  "handle_cleanup h s = (case h of None \<Rightarrow> s | Some h \<Rightarrow> s\<lparr>cs_live := cs_live s - {h}\<rparr>)"

fun find_slot :: "(curl_slot \<Rightarrow> bool) \<Rightarrow> curl_slot list \<Rightarrow> nat option" where
  "find_slot P [] = None"
| "find_slot P (x # xs) = (if P x then Some 0 else map_option Suc (find_slot P xs))"

text \<open>A pair of new handles, or none.\<close>

definition handles_init :: "curl_state \<Rightarrow> (nat \<times> nat) option \<times> curl_state" where
  "handles_init s =
     (let (e, s) = handle_init s; (mu, s) = handle_init s in
      case (e, mu) of
        (Some e, Some mu) \<Rightarrow> (Some (e, mu), s)
      | _ \<Rightarrow> (None, handle_cleanup mu (handle_cleanup e s)))"

definition slot_acquire :: "curl_state \<Rightarrow> int \<times> curl_slot option \<times> curl_state" where
  "slot_acquire s =
     (case find_slot (\<lambda>sl. \<not> sl_in_use sl \<and> sl_easy sl \<noteq> None) (cs_slots s) of
        Some i \<Rightarrow>
          let sl = (cs_slots s ! i)\<lparr>sl_in_use := True\<rparr> in (int i, Some sl, s\<lparr>cs_slots := (cs_slots s)[i := sl]\<rparr>)
      | None \<Rightarrow>
          (case find_slot (\<lambda>sl. \<not> sl_in_use sl \<and> sl_easy sl = None) (cs_slots s) of
             Some i \<Rightarrow>
               (case handles_init s of
                  (None, s) \<Rightarrow>
                    (-2, None, s\<lparr>cs_slots := (cs_slots s)[i := (cs_slots s ! i)\<lparr>sl_easy := None, sl_multi := None\<rparr>]\<rparr>)
                | (Some (e, mu), s) \<Rightarrow>
                    let sl = (cs_slots s ! i)\<lparr>sl_easy := Some e, sl_multi := Some mu, sl_in_use := True\<rparr>
                    in (int i, Some sl, s\<lparr>cs_slots := (cs_slots s)[i := sl]\<rparr>))
           | None \<Rightarrow>
               (case handles_init s of
                  (None, s) \<Rightarrow> (-2, None, s)
                | (Some (e, mu), s) \<Rightarrow> (-1, Some \<lparr>sl_easy = Some e, sl_multi = Some mu, sl_in_use = True\<rparr>, s))))"

definition slot_release :: "curl_state \<Rightarrow> int \<Rightarrow> curl_slot \<Rightarrow> curl_state" where
  "slot_release s idx slot =
     (if 0 \<le> idx then s\<lparr>cs_slots := (cs_slots s)[nat idx := (cs_slots s ! nat idx)\<lparr>sl_in_use := False\<rparr>]\<rparr>
      else handle_cleanup (sl_multi slot) (handle_cleanup (sl_easy slot) s))"

section \<open>The callbacks keep the caps and report the status once\<close>

definition within_caps :: "xfer \<Rightarrow> bool" where
  "within_caps x \<longleftrightarrow> length (x_headers x) \<le> SICHA_MAX_HEADERS \<and> x_header_bytes x \<le> SICHA_MAX_HEADERS_TOTAL_BYTES
     \<and> sum_list (map (\<lambda>h. length (opt_bytes (hd_name h)) + length (opt_bytes (hd_value h))) (x_headers x)) \<le> x_header_bytes x"

lemma length_header_value: "length (header_value s) \<le> length s"
  unfolding header_value_def length_rev
  by (metis length_dropWhile_le length_rev order.trans)

lemma memchr_append: "b \<notin> set s \<Longrightarrow> memchr b (s @ b # t) = Some (length s)"
proof -
  assume "b \<notin> set s"
  then have "takeWhile (\<lambda>c. c \<noteq> b) (s @ b # t) = s" by (subst takeWhile_append2) auto
  then show ?thesis by (simp add: memchr_def)
qed

lemma memchr_Some: "memchr b s = Some n \<Longrightarrow> n < length s"
proof -
  assume a: "memchr b s = Some n"
  then have "b \<in> set s" by (simp add: memchr_def split: if_splits)
  then obtain ys zs where "s = ys @ b # zs" "b \<notin> set ys" using split_list_first by metis
  with a memchr_append [of b ys zs] show ?thesis by simp
qed

lemma header_field_caps:
  assumes "within_caps x" "header_field buffer x m = (n, x', m')"
  shows "within_caps x'"
proof (cases "memchr 0x3A buffer")
  case None
  with assms show ?thesis by (simp add: header_field_def)
next
  case (Some nlen)
  have "length (take nlen buffer) + length (header_value (drop (nlen + 1) buffer)) \<le> length buffer"
    using length_header_value [of "drop (nlen + 1) buffer"] memchr_Some [OF Some]
    by (simp add: min_def)
  with assms Some show ?thesis
    by (auto simp: header_field_def within_caps_def dup_span_def opt_bytes_def Let_def split: if_splits prod.splits)
qed

lemma header_cb_caps:
  assumes "within_caps x" "header_cb ck sink buffer x w m = (n, x', w', m')"
  shows "within_caps x'"
proof -
  obtain now w1 where n: "ck_now_ms ck w = (now, w1)" by fastforce
  let ?x = "x\<lparr>x_last_activity_ms := now\<rparr>"
  have c: "within_caps ?x" using assms(1) by (simp add: within_caps_def)
  obtain rc x2 w2 where f: "xfer_finish_headers sink ?x w1 = (rc, x2, w2)" by (metis prod_cases3)
  have 2: "within_caps x2"
    using f c by (auto simp: xfer_finish_headers_def xfer_free_headers_def within_caps_def Let_def
        split: if_splits option.splits prod.splits)
  obtain k x3 m3 where h: "header_field buffer ?x m = (k, x3, m3)" by (metis prod_cases3)
  note 3 = header_field_caps [OF c h]
  show ?thesis using assms(2) c 2 3
    by (auto simp: header_cb_def n f h Let_def xfer_free_headers_def within_caps_def split: if_splits)
qed

text \<open>\<open>told\<close> counts the calls of \<open>on_status\<close>, which alone changes it.\<close>

lemma header_field_status: "header_field b x m = (n, x', m') \<Longrightarrow> x_status_delivered x' = x_status_delivered x"
  by (auto simp: header_field_def Let_def split: option.splits if_splits prod.splits)

lemma header_cb_told:
  assumes "\<And>w. told (snd (ck_now_ms ck w)) = told w"
    and "sk_on_status sk = Some f" "\<And>h hs w. told (snd (f h hs w)) = Suc (told w)"
    and "header_cb ck (Some sk) buffer x w m = (n, x', w', m')" "told w = (if x_status_delivered x then 1 else 0)"
  shows "told w' = (if x_status_delivered x' then 1 else (0 :: nat))"
proof -
  obtain now w1 where n: "ck_now_ms ck w = (now, w1)" by fastforce
  have w1: "told w1 = told w" using assms(1) [of w] n by simp
  let ?x = "x\<lparr>x_last_activity_ms := now\<rparr>"
  obtain rc w2 where f: "f (int32 (x_http_status x)) (x_headers x) w1 = (rc, w2)" by fastforce
  have w2: "told w2 = Suc (told w1)" using assms(3) [of "int32 (x_http_status x)" "x_headers x" w1] f by simp
  obtain k x3 m3 where h: "header_field buffer ?x m = (k, x3, m3)" by (metis prod_cases3)
  note x3 = header_field_status [OF h]
  show ?thesis
    using assms(4,5) w1 w2 x3
    by (auto simp: header_cb_def n h xfer_finish_headers_def xfer_free_headers_def assms(2) f Let_def split: if_splits)
qed

section \<open>Lines that are written are read back\<close>

text \<open>\<open>curl_perform\<close> writes a header as name, colon, space and value.\<close>

definition header_line :: "bytes \<Rightarrow> bytes \<Rightarrow> bytes" where
  "header_line n v = n @ [0x3A, 0x20] @ v"

lemma header_value_trims:
  assumes "v = [] \<or> \<not> is_blank (hd v) \<and> \<not> is_line_end (last v)" "\<forall>b \<in> set pre. is_blank b" "\<forall>b \<in> set post. is_line_end b"
  shows "header_value (pre @ v @ post) = v"
proof (cases "v = []")
  case True
  have "\<forall>b \<in> set (dropWhile is_blank (pre @ post)). is_line_end b"
    using assms(2,3) by (auto simp: is_blank_def is_line_end_def dest!: set_dropWhileD)
  with True show ?thesis by (simp add: header_value_def)
next
  case False
  with assms(1) have v: "\<not> is_blank (hd v)" "\<not> is_line_end (last v)" by auto
  have "dropWhile is_blank (pre @ v @ post) = v @ post"
    using assms(2) v(1) False by (cases v) (simp_all add: dropWhile_append2)
  moreover have "dropWhile is_line_end (rev post @ rev v) = rev v"
    using assms(3) v(2) False by (cases v rule: rev_cases) (simp_all add: dropWhile_append)
  ultimately show ?thesis by (simp add: header_value_def)
qed

section \<open>The pool\<close>

text \<open>
  The invariant of the pool. \<open>T\<close> are the handles that are out as transient ones. A slot has
  both handles or none, a slot in use has them, no handle is in two places, and the handles
  that exist are those of the slots and those of \<open>T\<close>: nothing is leaked.
\<close>

definition slot_handles :: "curl_slot \<Rightarrow> nat list" where
  "slot_handles sl = (case sl_easy sl of None \<Rightarrow> [] | Some e \<Rightarrow> [e]) @ (case sl_multi sl of None \<Rightarrow> [] | Some m \<Rightarrow> [m])"

definition slot_ok :: "curl_slot \<Rightarrow> bool" where
  "slot_ok sl \<longleftrightarrow> (sl_easy sl = None \<longleftrightarrow> sl_multi sl = None) \<and> (sl_in_use sl \<longrightarrow> sl_easy sl \<noteq> None)"

definition held :: "nat list \<Rightarrow> curl_slot list \<Rightarrow> nat multiset" where
  "held T sls = sum_list (map (\<lambda>sl. mset (slot_handles sl)) sls) + mset T"

definition pool_inv :: "nat list \<Rightarrow> curl_state \<Rightarrow> bool" where
  "pool_inv T s \<longleftrightarrow>
     length (cs_slots s) = CURL_POOL_CAP \<and> (\<forall>sl \<in> set (cs_slots s). slot_ok sl)
     \<and> (\<forall>h. count (held T (cs_slots s)) h = (if h \<in> cs_live s then 1 else 0))
     \<and> (\<forall>h \<in> cs_live s. h < cs_next s)"

lemma find_slot_Some: "find_slot P xs = Some i \<Longrightarrow> i < length xs \<and> P (xs ! i)"
  by (induction xs arbitrary: i) (auto split: if_splits)

lemma pool_start: "sicha_curl_create global_ok m = Some s \<Longrightarrow> pool_inv [] s"
  by (auto simp: sicha_curl_create_def pool_inv_def CURL_POOL_CAP_def slot_handles_def held_def slot_ok_def
      Let_def numeral_eq_Suc split: if_splits prod.splits)

lemma held_fill:
  assumes "i < length xs" "slot_handles (xs ! i) = []"
  shows "held T (xs[i := sl]) = held T xs + mset (slot_handles sl)"
proof -
  have xs: "xs = take i xs @ xs ! i # drop (Suc i) xs" using assms(1) by (rule id_take_nth_drop)
  have "xs[i := sl] = take i xs @ sl # drop (Suc i) xs" using assms(1) by (rule upd_conv_take_nth_drop)
  then have "held T (xs[i := sl]) = held T (take i xs @ xs ! i # drop (Suc i) xs) + mset (slot_handles sl)"
    using assms(2) by (simp add: held_def)
  then show ?thesis using xs by simp
qed

lemma held_same:
  assumes "i < length xs" "slot_handles sl = slot_handles (xs ! i)"
  shows "held T (xs[i := sl]) = held T xs"
proof -
  have xs: "xs = take i xs @ xs ! i # drop (Suc i) xs" using assms(1) by (rule id_take_nth_drop)
  have "xs[i := sl] = take i xs @ sl # drop (Suc i) xs" using assms(1) by (rule upd_conv_take_nth_drop)
  then have "held T (xs[i := sl]) = held T (take i xs @ xs ! i # drop (Suc i) xs)"
    using assms(2) by (simp add: held_def)
  then show ?thesis using xs by simp
qed

lemma slots_ok_update: "\<forall>sl \<in> set xs. slot_ok sl \<Longrightarrow> slot_ok sl' \<Longrightarrow> \<forall>sl \<in> set (xs[i := sl']). slot_ok sl"
  using set_update_subset_insert by fastforce

lemma pool_inv_same:
  assumes "pool_inv T s" "i < CURL_POOL_CAP" "slot_handles sl = slot_handles (cs_slots s ! i)" "slot_ok sl"
  shows "pool_inv T (s\<lparr>cs_slots := (cs_slots s)[i := sl]\<rparr>)"
  using assms slots_ok_update [of "cs_slots s" sl i] held_same [of i "cs_slots s" sl T]
  by (simp add: pool_inv_def)

lemma handles_init_cases:
  assumes "handles_init s = (r, s')" "\<forall>h \<in> cs_live s. h < cs_next s"
  obtains (made) e where "r = Some (e, Suc e)" "e = cs_next s" "cs_live s' = insert e (insert (Suc e) (cs_live s))"
      "cs_next s' = Suc (Suc e)" "cs_slots s' = cs_slots s"
  | (failed) "r = None" "cs_live s' = cs_live s" "cs_next s \<le> cs_next s'" "cs_slots s' = cs_slots s"
proof -
  obtain k1 m1 where 1: "alloc (cs_mem s) = (k1, m1)" by fastforce
  obtain k2 m2 where 2: "alloc m1 = (k2, m2)" by fastforce
  have f: "cs_next s \<notin> cs_live s" using assms(2) by blast
  show thesis
    using assms(1) f
    by (cases k1; cases k2)
      (auto simp: handles_init_def handle_init_def handle_cleanup_def 1 2 Let_def intro: made failed)
qed

text \<open>A slot that is free, with its handles or without.\<close>

definition acquired :: "nat list \<Rightarrow> curl_state \<Rightarrow> int \<Rightarrow> curl_slot \<Rightarrow> curl_state \<Rightarrow> bool" where
  "acquired T s idx sl s' \<longleftrightarrow>
     sl_easy sl \<noteq> None \<and> sl_multi sl \<noteq> None \<and>
     (if idx = -1 then pool_inv (slot_handles sl @ T) s' \<and> set (slot_handles sl) \<inter> cs_live s = {} \<and> cs_slots s' = cs_slots s
      else 0 \<le> idx \<and> nat idx < CURL_POOL_CAP \<and> pool_inv T s' \<and> \<not> sl_in_use (cs_slots s ! nat idx)
         \<and> sl_in_use sl \<and> cs_slots s' = (cs_slots s)[nat idx := sl])"

lemma acquire_keeps:
  assumes "pool_inv T s" "slot_acquire s = (idx, out, s')"
  shows "idx = -2 \<and> out = None \<and> pool_inv T s' \<and> cs_live s' = cs_live s \<or> (\<exists>sl. out = Some sl \<and> acquired T s idx sl s')"
proof -
  note I = assms(1) [unfolded pool_inv_def]
  let ?free = "\<lambda>sl. \<not> sl_in_use sl \<and> sl_easy sl \<noteq> None" and ?empty = "\<lambda>sl. \<not> sl_in_use sl \<and> sl_easy sl = None"
  show ?thesis
  proof (cases "find_slot ?free (cs_slots s)")
    case (Some i)
    note i = find_slot_Some [OF Some]
    let ?sl = "(cs_slots s ! i)\<lparr>sl_in_use := True\<rparr>"
    have ok: "slot_ok (cs_slots s ! i)" "i < CURL_POOL_CAP" using I i by auto
    have "pool_inv T (s\<lparr>cs_slots := (cs_slots s)[i := ?sl]\<rparr>)"
      using ok i by (intro pool_inv_same [OF assms(1)]) (auto simp: slot_handles_def slot_ok_def)
    moreover have "slot_acquire s = (int i, Some ?sl, s\<lparr>cs_slots := (cs_slots s)[i := ?sl]\<rparr>)"
      by (simp add: slot_acquire_def Some Let_def del: not_None_eq)
    ultimately show ?thesis using assms(2) i ok by (auto simp: acquired_def slot_ok_def)
  next
    case none: None
    obtain r s1 where r: "handles_init s = (r, s1)" by fastforce
    have lt: "\<forall>h \<in> cs_live s. h < cs_next s" using I by simp
    show ?thesis
    proof (cases "find_slot ?empty (cs_slots s)")
      case (Some i)
      note i = find_slot_Some [OF Some]
      have ok: "slot_ok (cs_slots s ! i)" "i < CURL_POOL_CAP" using I i by auto
      have nil: "slot_handles (cs_slots s ! i) = []" using ok i by (auto simp: slot_handles_def slot_ok_def)
      from r lt show ?thesis
      proof (cases rule: handles_init_cases)
        case (made e)
        let ?sl = "(cs_slots s ! i)\<lparr>sl_easy := Some e, sl_multi := Some (Suc e), sl_in_use := True\<rparr>"
        have "e \<notin> cs_live s" "Suc e \<notin> cs_live s" using lt made(2) by fastforce+
        moreover have "held T ((cs_slots s)[i := ?sl]) = held T (cs_slots s) + {#e, Suc e#}"
          using held_fill [OF conjunct1 [OF i] nil, of T ?sl] by (simp add: slot_handles_def)
        moreover have "\<forall>sl \<in> set ((cs_slots s)[i := ?sl]). slot_ok sl"
          using I by (intro slots_ok_update) (simp, simp add: slot_ok_def)
        ultimately have "pool_inv T (s1\<lparr>cs_slots := (cs_slots s)[i := ?sl]\<rparr>)"
          using I made by (auto simp: pool_inv_def less_Suc_eq)
        moreover have "slot_acquire s = (int i, Some ?sl, s1\<lparr>cs_slots := (cs_slots s)[i := ?sl]\<rparr>)"
          using made by (simp add: slot_acquire_def none Some r Let_def del: not_None_eq)
        ultimately show ?thesis using assms(2) i ok by (auto simp: acquired_def)
      next
        case failed
        let ?sl = "(cs_slots s ! i)\<lparr>sl_easy := None, sl_multi := None\<rparr>"
        have "pool_inv T s1" using I failed by (auto simp: pool_inv_def)
        then have "pool_inv T (s1\<lparr>cs_slots := (cs_slots s1)[i := ?sl]\<rparr>)"
          using i ok nil failed by (intro pool_inv_same) (auto simp: slot_handles_def slot_ok_def)
        moreover have "slot_acquire s = (-2, None, s1\<lparr>cs_slots := (cs_slots s1)[i := (cs_slots s1 ! i)\<lparr>sl_easy := None, sl_multi := None\<rparr>]\<rparr>)"
          using failed by (simp add: slot_acquire_def none Some r del: not_None_eq)
        ultimately show ?thesis using assms(2) failed by auto
      qed
    next
      case None
      from r lt show ?thesis
      proof (cases rule: handles_init_cases)
        case (made e)
        have "e \<notin> cs_live s" "Suc e \<notin> cs_live s" using lt made(2) by fastforce+
        with I made have "pool_inv ([e, Suc e] @ T) s1" by (auto simp: pool_inv_def held_def less_Suc_eq)
        moreover have "slot_acquire s = (-1, Some \<lparr>sl_easy = Some e, sl_multi = Some (Suc e), sl_in_use = True\<rparr>, s1)"
          using made by (simp add: slot_acquire_def none None r del: not_None_eq)
        ultimately show ?thesis using assms(2) made \<open>e \<notin> cs_live s\<close> \<open>Suc e \<notin> cs_live s\<close>
          by (auto simp: acquired_def slot_handles_def)
      next
        case failed
        with I have "pool_inv T s1" by (auto simp: pool_inv_def)
        moreover have "slot_acquire s = (-2, None, s1)"
          using failed by (simp add: slot_acquire_def none None r del: not_None_eq)
        ultimately show ?thesis using assms(2) failed by auto
      qed
    qed
  qed
qed

lemma release_keeps:
  assumes "acquired T s idx sl s1" "pool_inv (if idx = -1 then slot_handles sl @ T else T) s2"
    "0 \<le> idx \<longrightarrow> cs_slots s2 ! nat idx = sl"
  shows "pool_inv T (slot_release s2 idx sl)"
proof (cases "idx = -1")
  case True
  obtain e mu where h: "sl_easy sl = Some e" "sl_multi sl = Some mu" using assms(1) by (auto simp: acquired_def)
  with assms(2) True have inv: "pool_inv (e # mu # T) s2" by (simp add: slot_handles_def)
  have "count (held T (cs_slots s2)) x = (if x \<in> cs_live s2 - {e} - {mu} then 1 else 0)" for x
  proof -
    have "count (held T (cs_slots s2) + {#e#} + {#mu#}) x = (if x \<in> cs_live s2 then 1 else 0)"
      using inv by (simp add: pool_inv_def held_def add_ac)
    then show ?thesis by (auto split: if_splits)
  qed
  with inv h True show ?thesis
    by (auto simp: slot_release_def handle_cleanup_def pool_inv_def)
next
  case False
  with assms have i: "0 \<le> idx" "nat idx < CURL_POOL_CAP" "pool_inv T s2" "cs_slots s2 ! nat idx = sl"
    by (auto simp: acquired_def)
  then have ok: "slot_ok sl" by (auto simp: pool_inv_def)
  have "pool_inv T (s2\<lparr>cs_slots := (cs_slots s2)[nat idx := (cs_slots s2 ! nat idx)\<lparr>sl_in_use := False\<rparr>]\<rparr>)"
    using i ok by (intro pool_inv_same) (auto simp: slot_handles_def slot_ok_def)
  with i show ?thesis by (simp add: slot_release_def)
qed

end
