(* ===== verification/Curl_Perform.thy ===== *)
theory Curl_Perform
  imports Curl
begin

text \<open>
  A transfer of the libcurl transport (\<open>curl_perform\<close> in \<open>src/transport_curl.c\<close>): the options,
  the headers, the loop over \<open>curl_multi_perform\<close> with its deadlines, and the way out, which
  gives the slot back. libcurl is a parameter.
\<close>

section \<open>libcurl\<close>

datatype curlm_code = CURLM_OK | CURLM_OUT_OF_MEMORY | CURLM_OTHER nat

text \<open>
  One call of \<open>curl_multi_perform\<close>: it calls the header callback and the write callback, goes
  on with what they answer, and returns its code and the number of running transfers.
\<close>

datatype 'w multi =
    M_return curlm_code nat 'w
  | M_header bytes 'w "nat \<times> 'w \<Rightarrow> 'w multi"
  | M_data bytes 'w "nat \<times> 'w \<Rightarrow> 'w multi"

text \<open>The options that are set on the handle.\<close>

datatype curl_method = CO_POST bytes nat | CO_GET | CO_CUSTOM bytes

record curl_setup =
  co_url :: bytes
  co_http_1_1 :: bool
  co_nosignal :: bool
  co_followlocation :: bool
  co_method :: curl_method
  co_connecttimeout_ms :: "u32 option"
  co_headers :: "bytes list"

text \<open>\<open>lc_info_read\<close> is the code of a \<open>CURLMSG_DONE\<close> message, or \<open>None\<close>.\<close>

record 'w libcurl =
  lc_add_handle :: "curl_setup \<Rightarrow> 'w \<Rightarrow> bool \<times> 'w"
  lc_perform :: "curl_setup \<Rightarrow> 'w \<Rightarrow> 'w multi"
  lc_info_read :: "'w \<Rightarrow> curl_code option \<times> 'w"
  lc_poll :: "'w \<Rightarrow> 'w"
  lc_remove_handle :: "'w \<Rightarrow> 'w"

primrec run_multi :: "'w sicha_clock \<Rightarrow> 'w sicha_http_sink option \<Rightarrow> 'w multi \<Rightarrow> xfer \<Rightarrow> mem \<Rightarrow>
    curlm_code \<times> nat \<times> xfer \<times> 'w \<times> mem" where
  "run_multi ck sink (M_return mrc running w) x m = (mrc, running, x, w, m)"
| "run_multi ck sink (M_header buffer w k) x m =
     (case header_cb ck sink buffer x w m of (n, x, w, m) \<Rightarrow> run_multi ck sink (k (n, w)) x m)"
| "run_multi ck sink (M_data bs w k) x m =
     (case write_cb ck sink bs x w of (n, x, w) \<Rightarrow> run_multi ck sink (k (n, w)) x m)"

section \<open>The request\<close>

definition easy_setup :: "sicha_http_request \<Rightarrow> bytes list \<Rightarrow> curl_setup" where
  "easy_setup rq hdrs =
     \<lparr>co_url = cstr (hr_url rq), co_http_1_1 = True, co_nosignal = True, co_followlocation = False,
      co_method = (case hr_body rq of
                     Some body \<Rightarrow> CO_POST body (hr_body_len rq)
                   | None \<Rightarrow> if cstr (hr_method rq) = lit ''GET'' then CO_GET else CO_CUSTOM (cstr (hr_method rq))),
      co_connecttimeout_ms = (if connect_ms (hr_timeouts rq) \<noteq> SICHA_INFINITE
                              then Some (connect_ms (hr_timeouts rq)) else None),
      co_headers = hdrs\<rparr>"

text \<open>A line for each header, allocated and then copied into the list of libcurl.\<close>

fun header_lines :: "sicha_header list \<Rightarrow> bytes list \<Rightarrow> mem \<Rightarrow> bytes list option \<times> mem" where
  "header_lines [] hdrs m =
     (let (ok, m) = alloc m in (if ok then Some (hdrs @ [lit ''Expect:'']) else None, m))"
| "header_lines (h # hs) hdrs m =
     (let (ok, m) = alloc m in
      if \<not> ok then (None, m)
      else
        let (ok, m) = alloc m in
        if \<not> ok then (None, m)
        else header_lines hs (hdrs @ [header_line (cstr (opt_bytes (hd_name h))) (cstr (opt_bytes (hd_value h)))]) m)"

section \<open>The loop\<close>

text \<open>The checks of a round that has left the transfer running, in the order of the source.\<close>

definition round_verdict :: "u64 \<Rightarrow> u64 \<Rightarrow> bool \<Rightarrow> sicha_timeouts \<Rightarrow> xfer \<Rightarrow> sicha_transport_status option" where
  "round_verdict start now cancelled t x =
     (if cancelled then Some SICHA_T_E_CANCELLED
      else if x_oom x then Some SICHA_T_E_NOMEM
      else if x_caps_exceeded x then Some SICHA_T_E_PROTOCOL
      else if x_sink_aborted x then Some SICHA_T_E_ABORTED_BY_SINK
      else if total_ms t \<noteq> SICHA_INFINITE \<and> ucast (total_ms t) \<le> now - start
      then Some SICHA_T_E_TIMEOUT_TOTAL
      else if \<not> x_status_delivered x \<and> first_byte_ms t \<noteq> SICHA_INFINITE \<and> ucast (first_byte_ms t) \<le> now - start
      then Some SICHA_T_E_TIMEOUT_FIRST_BYTE
      else if x_status_delivered x \<and> idle_ms t \<noteq> SICHA_INFINITE \<and> ucast (idle_ms t) \<le> now - x_last_activity_ms x
      then Some SICHA_T_E_TIMEOUT_IDLE
      else None)"

text \<open>
  The loop ends only when libcurl or the clock does its part, so its value is \<open>None\<close> when it
  runs forever.
\<close>

partial_function (option) multi_loop :: "'w libcurl \<Rightarrow> 'w sicha_clock \<Rightarrow> 'w sicha_http_sink option \<Rightarrow>
    ('w \<Rightarrow> bool) option \<Rightarrow> curl_setup \<Rightarrow> sicha_timeouts \<Rightarrow> u64 \<Rightarrow> xfer \<Rightarrow> 'w \<Rightarrow> mem \<Rightarrow>
    (sicha_transport_status \<times> xfer \<times> 'w \<times> mem) option" where
  "multi_loop lc ck sink cancel su t start x w m =
     (case run_multi ck sink (lc_perform lc su w) x m of (mrc, running, x, w, m) \<Rightarrow>
        if mrc \<noteq> CURLM_OK
        then Some (if mrc = CURLM_OUT_OF_MEMORY then SICHA_T_E_NOMEM else SICHA_T_E_OTHER, x, w, m)
        else
          case lc_info_read lc w of (msg, w) \<Rightarrow>
            (case msg of
               Some rc \<Rightarrow>
                 (case ck_now_ms ck w of (now, w) \<Rightarrow>
                    Some (map_curl_code rc x (now - start) (connect_ms t), x, w, m))
             | None \<Rightarrow>
                 if running = 0 then multi_loop lc ck sink cancel su t start x w m
                 else
                   case ck_now_ms ck w of (now, w) \<Rightarrow>
                     (case round_verdict start now (is_set_token cancel w) t x of
                        Some st \<Rightarrow> Some (st, x, w, m)
                      | None \<Rightarrow> multi_loop lc ck sink cancel su t start x (lc_poll lc w) m)))"

section \<open>perform\<close>

definition xfer_start :: xfer where
  "xfer_start = \<lparr>x_headers = [], x_header_bytes = 0, x_http_status = 0, x_status_delivered = False,
     x_sink_aborted = False, x_caps_exceeded = False, x_oom = False, x_last_activity_ms = 0\<rparr>"

text \<open>
  The transfer on a slot that has been acquired, up to \<open>out_headers\<close>: the status, the world and
  the allocations that are left.
\<close>

definition slot_transfer :: "'w libcurl \<Rightarrow> 'w sicha_clock \<Rightarrow> sicha_http_request \<Rightarrow> 'w sicha_http_sink option \<Rightarrow>
    ('w \<Rightarrow> bool) option \<Rightarrow> 'w \<Rightarrow> mem \<Rightarrow> (sicha_transport_status \<times> 'w \<times> mem) option" where
  "slot_transfer lc ck rq sink cancel w m =
     (case header_lines (hr_headers rq) [] m of (hdrs, m) \<Rightarrow>
        (case hdrs of
           None \<Rightarrow> Some (SICHA_T_E_NOMEM, w, m)
         | Some hdrs \<Rightarrow>
             let su = easy_setup rq hdrs; (ok, w) = lc_add_handle lc su w in
             if \<not> ok then Some (SICHA_T_E_OTHER, w, m)
             else
               let (start, w) = ck_now_ms ck w in
               map_option (\<lambda>(st, x, w, m). (st, w, m))
                 (multi_loop lc ck sink cancel su (hr_timeouts rq) start
                    (xfer_start\<lparr>x_last_activity_ms := start\<rparr>) w m)))"

text \<open>\<open>req\<close> is \<open>None\<close> for a request that is NULL or has a wrong \<open>struct_size\<close>.\<close>

definition curl_perform :: "'w libcurl \<Rightarrow> 'w sicha_clock option \<Rightarrow> sicha_http_request option \<Rightarrow>
    'w sicha_http_sink option \<Rightarrow> ('w \<Rightarrow> bool) option \<Rightarrow> curl_state \<Rightarrow> 'w \<Rightarrow>
    (sicha_transport_status \<times> curl_state \<times> 'w) option" where
  "curl_perform lc clk req sink cancel s w =
     (case (req, clk) of
        (Some rq, Some ck) \<Rightarrow>
          (case slot_acquire s of
             (idx, Some slot, s) \<Rightarrow>
               (case slot_transfer lc ck rq sink cancel w (cs_mem s) of
                  None \<Rightarrow> None
                | Some (st, w, m) \<Rightarrow>
                    Some (st, slot_release (s\<lparr>cs_mem := m\<rparr>) idx slot, lc_remove_handle lc w))
           | (_, None, s) \<Rightarrow> Some (SICHA_T_E_NOMEM, s, w))
      | _ \<Rightarrow> Some (SICHA_T_E_OTHER, s, w))"

section \<open>A rule for the loop\<close>

text \<open>
  \<open>I\<close> is kept by what happens in a round, and \<open>Q\<close> holds at each of the three ways out: an
  error of \<open>curl_multi_perform\<close>, a finished transfer, and a check of the round.
\<close>

lemma multi_loop_rule:
  assumes loop: "multi_loop lc ck sink cancel su t start x w m = Some (st, x', w', m')" and start: "I x w"
    and run: "\<And>x w m mrc r x' w' m'. I x w \<Longrightarrow> run_multi ck sink (lc_perform lc su w) x m = (mrc, r, x', w', m') \<Longrightarrow> I x' w'"
    and info: "\<And>x w. I x w \<Longrightarrow> I x (snd (lc_info_read lc w))"
    and now: "\<And>x w. I x w \<Longrightarrow> I x (snd (ck_now_ms ck w))"
    and poll: "\<And>x w. I x w \<Longrightarrow> I x (lc_poll lc w)"
    and failed: "\<And>x w st. I x w \<Longrightarrow> st = SICHA_T_E_NOMEM \<or> st = SICHA_T_E_OTHER \<Longrightarrow> Q st x w"
    and finished: "\<And>x w0 now w rc. ck_now_ms ck w0 = (now, w) \<Longrightarrow> I x w \<Longrightarrow>
      Q (map_curl_code rc x (now - start) (connect_ms t)) x w"
    and checked: "\<And>x w0 now w st. ck_now_ms ck w0 = (now, w) \<Longrightarrow> I x w \<Longrightarrow> round_verdict start now (is_set_token cancel w) t x = Some st \<Longrightarrow> Q st x w"
  shows "Q st x' w'"
proof -
  let ?P = "\<lambda>lc' ck' sink' cancel' su' t' start' x w m (y :: sicha_transport_status \<times> xfer \<times> 'a \<times> mem).
    lc' = lc \<and> ck' = ck \<and> sink' = sink \<and> cancel' = cancel \<and> su' = su \<and> t' = t \<and> start' = start \<and> I x w \<longrightarrow>
      Q (fst y) (fst (snd y)) (fst (snd (snd y)))"
  have "?P lc ck sink cancel su t start x w m (st, x', w', m')"
  proof (rule multi_loop.raw_induct [where P = ?P
      and xa = "(((((((((lc, ck), sink), cancel), su), t), start), x), w), m)", unfolded prod.case, OF _ loop])
    fix rec lc' ck' sink' cancel' su' t' start' x w m and y :: "sicha_transport_status \<times> xfer \<times> 'a \<times> mem"
    assume IH: "\<And>lc' ck' sink' cancel' su' t' start' x w m y.
        rec lc' ck' sink' cancel' su' t' start' x w m = Some y \<Longrightarrow> ?P lc' ck' sink' cancel' su' t' start' x w m y"
      and body: "(case run_multi ck' sink' (lc_perform lc' su' w) x m of (mrc, running, x, w, m) \<Rightarrow>
        if mrc \<noteq> CURLM_OK
        then Some (if mrc = CURLM_OUT_OF_MEMORY then SICHA_T_E_NOMEM else SICHA_T_E_OTHER, x, w, m)
        else
          case lc_info_read lc' w of (msg, w) \<Rightarrow>
            (case msg of
               Some rc \<Rightarrow>
                 (case ck_now_ms ck' w of (now, w) \<Rightarrow>
                    Some (map_curl_code rc x (now - start') (connect_ms t'), x, w, m))
             | None \<Rightarrow>
                 if running = 0 then rec lc' ck' sink' cancel' su' t' start' x w m
                 else
                   case ck_now_ms ck' w of (now, w) \<Rightarrow>
                     (case round_verdict start' now (is_set_token cancel' w) t' x of
                        Some st \<Rightarrow> Some (st, x, w, m)
                      | None \<Rightarrow> rec lc' ck' sink' cancel' su' t' start' x (lc_poll lc' w) m))) = Some y"
    show "?P lc' ck' sink' cancel' su' t' start' x w m y"
    proof
      assume "lc' = lc \<and> ck' = ck \<and> sink' = sink \<and> cancel' = cancel \<and> su' = su \<and> t' = t \<and> start' = start \<and> I x w"
      then have [simp]: "lc' = lc" "ck' = ck" "sink' = sink" "cancel' = cancel" "su' = su" "t' = t" "start' = start"
        and I0: "I x w" by simp_all
      obtain mrc r x1 w1 m1 where 1: "run_multi ck sink (lc_perform lc su w) x m = (mrc, r, x1, w1, m1)" by (metis prod_cases5)
      note I1 = run [OF I0 1]
      obtain msg w2 where 2: "lc_info_read lc w1 = (msg, w2)" by fastforce
      have I2: "I x1 w2" using info [OF I1] 2 by simp
      obtain t0 w3 where 3: "ck_now_ms ck w2 = (t0, w3)" by fastforce
      have I3: "I x1 w3" using now [OF I2] 3 by simp
      show "Q (fst y) (fst (snd y)) (fst (snd (snd y)))"
      proof (cases "mrc = CURLM_OK")
        case False
        have y: "y = (if mrc = CURLM_OUT_OF_MEMORY then SICHA_T_E_NOMEM else SICHA_T_E_OTHER, x1, w1, m1)"
          using body False by (simp add: 1)
        show ?thesis unfolding y using failed [OF I1] by simp
      next
        case True
        show ?thesis
        proof (cases msg)
          case (Some rc)
          have "y = (map_curl_code rc x1 (t0 - start) (connect_ms t), x1, w3, m1)"
            using body True Some by (simp add: 1 2 3)
          with finished [OF 3 I3] show ?thesis by simp
        next
          case None
          show ?thesis
          proof (cases "r = 0")
            case r: True
            have "rec lc ck sink cancel su t start x1 w2 m1 = Some y" using body True None r by (simp add: 1 2)
            from IH [OF this] I2 show ?thesis by simp
          next
            case r: False
            show ?thesis
            proof (cases "round_verdict start t0 (is_set_token cancel w3) t x1")
              case v: None
              have "rec lc ck sink cancel su t start x1 (lc_poll lc w3) m1 = Some y"
                using body True None r v by (simp add: 1 2 3)
              from IH [OF this] poll [OF I3] show ?thesis by simp
            next
              case v: (Some verdict)
              have "y = (verdict, x1, w3, m1)" using body True None r v by (simp add: 1 2 3)
              with checked [OF 3 I3 v] show ?thesis by simp
            qed
          qed
        qed
      qed
    qed
  qed
  with start show ?thesis by simp
qed

section \<open>The caps\<close>

lemma write_cb_fields:
  "write_cb ck sink bs x w = (n, x', w') \<Longrightarrow> within_caps x' = within_caps x \<and> x_status_delivered x' = x_status_delivered x"
  by (auto simp: write_cb_def within_caps_def Let_def split: option.splits prod.splits if_splits)

lemma run_multi_caps: "within_caps x \<Longrightarrow> run_multi ck sink t x m = (mrc, r, x', w', m') \<Longrightarrow> within_caps x'"
proof (induction t arbitrary: x m)
  case (M_header b w k)
  obtain n x1 w1 m1 where h: "header_cb ck sink b x w m = (n, x1, w1, m1)" by (metis prod_cases4)
  from M_header.IH [OF _ header_cb_caps [OF M_header.prems(1) h], of "k (n, w1)"] M_header.prems(2) h show ?case by simp
next
  case (M_data bs w k)
  obtain n x1 w1 where h: "write_cb ck sink bs x w = (n, x1, w1)" by (metis prod_cases3)
  have c: "within_caps x1" using M_data.prems(1) write_cb_fields [OF h] by simp
  from M_data.IH [OF _ c, of "k (n, w1)"] M_data.prems(2) h show ?case by simp
qed simp

lemma within_caps_start: "within_caps (xfer_start\<lparr>x_last_activity_ms := now\<rparr>)"
  by (simp add: within_caps_def xfer_start_def)

section \<open>The status is told once, and before success\<close>

text \<open>
  \<open>told\<close> counts the calls of \<open>on_status\<close>: nothing else changes it, neither libcurl nor the
  clock nor \<open>on_body\<close>.
\<close>

primrec undisturbed :: "('w \<Rightarrow> nat) \<Rightarrow> 'w multi \<Rightarrow> nat \<Rightarrow> bool" where
  "undisturbed told (M_return mrc r w) n = (told w = n)"
| "undisturbed told (M_header b w k) n = (told w = n \<and> (\<forall>y. undisturbed told (k y) (told (snd y))))"
| "undisturbed told (M_data bs w k) n = (told w = n \<and> (\<forall>y. undisturbed told (k y) (told (snd y))))"

definition counts_status :: "('w \<Rightarrow> nat) \<Rightarrow> 'w libcurl \<Rightarrow> 'w sicha_clock \<Rightarrow> 'w sicha_http_sink \<Rightarrow> bool" where
  "counts_status told lc ck sk \<longleftrightarrow>
     (\<exists>f. sk_on_status sk = Some f \<and> (\<forall>h hs w. told (snd (f h hs w)) = Suc (told w)))
     \<and> (\<forall>f bs w. sk_on_body sk = Some f \<longrightarrow> told (snd (f bs w)) = told w)
     \<and> (\<forall>w. told (snd (ck_now_ms ck w)) = told w)
     \<and> (\<forall>su w. undisturbed told (lc_perform lc su w) (told w))
     \<and> (\<forall>su w. told (snd (lc_add_handle lc su w)) = told w)
     \<and> (\<forall>w. told (snd (lc_info_read lc w)) = told w)
     \<and> (\<forall>w. told (lc_poll lc w) = told w) \<and> (\<forall>w. told (lc_remove_handle lc w) = told w)"

definition told_right :: "('w \<Rightarrow> nat) \<Rightarrow> xfer \<Rightarrow> 'w \<Rightarrow> bool" where
  "told_right told x w \<longleftrightarrow> told w = (if x_status_delivered x then 1 else 0)"

lemma run_multi_told:
  assumes C: "counts_status told lc ck sk"
  shows "told_right told x w0 \<Longrightarrow> undisturbed told t (told w0) \<Longrightarrow>
    run_multi ck (Some sk) t x m = (mrc, r, x', w', m') \<Longrightarrow> told_right told x' w'"
proof (induction t arbitrary: x m w0)
  case (M_return mrc0 r0 w)
  then show ?case by (simp add: told_right_def)
next
  case (M_header b w k)
  from C obtain f where f: "sk_on_status sk = Some f" "\<And>h hs w. told (snd (f h hs w)) = Suc (told w)"
    by (auto simp: counts_status_def)
  have ck: "\<And>w. told (snd (ck_now_ms ck w)) = told w" using C by (simp add: counts_status_def)
  obtain n x1 w1 m1 where h: "header_cb ck (Some sk) b x w m = (n, x1, w1, m1)" by (metis prod_cases4)
  have "told w = (if x_status_delivered x then 1 else 0)" using M_header.prems(1,2) by (simp add: told_right_def)
  then have t: "told_right told x1 w1"
    unfolding told_right_def by (rule header_cb_told [where told = told, OF ck f(1) f(2) h])
  have "undisturbed told (k (n, w1)) (told w1)" using M_header.prems(2) by (metis snd_conv undisturbed.simps(2))
  from M_header.IH [OF _ t this, of m1] M_header.prems(3) h show ?case by auto
next
  case (M_data bs w k)
  obtain n x1 w1 where h: "write_cb ck (Some sk) bs x w = (n, x1, w1)" by (metis prod_cases3)
  have "told w1 = told w"
    using C h by (auto simp: counts_status_def write_cb_def Let_def split: option.splits prod.splits if_splits) (metis snd_conv)+
  then have t: "told_right told x1 w1"
    using M_data.prems(1,2) write_cb_fields [OF h] by (simp add: told_right_def)
  have "undisturbed told (k (n, w1)) (told w1)" using M_data.prems(2) by (metis snd_conv undisturbed.simps(3))
  from M_data.IH [OF _ t this, of m] M_data.prems(3) h show ?case by auto
qed

lemma map_curl_code_OK: "map_curl_code rc x elapsed budget = SICHA_T_OK \<Longrightarrow> x_status_delivered x"
  by (auto simp: map_curl_code_def split: if_splits curl_code.splits)

lemma round_verdict_not_OK: "round_verdict start now cancelled t x \<noteq> Some SICHA_T_OK"
  by (simp add: round_verdict_def)

lemma multi_loop_told:
  assumes C: "counts_status told lc ck sk" and "told_right told x w"
    and loop: "multi_loop lc ck (Some sk) cancel su t start x w m = Some (st, x', w', m')"
  shows "told w' \<le> 1 \<and> (st = SICHA_T_OK \<longrightarrow> told w' = 1)"
proof -
  let ?I = "told_right told" and ?Q = "\<lambda>st x w. told_right told x w \<and> (st = SICHA_T_OK \<longrightarrow> x_status_delivered x)"
  from C have u: "\<And>w. undisturbed told (lc_perform lc su w) (told w)" by (simp add: counts_status_def)
  have q: "\<And>w. told (snd (ck_now_ms ck w)) = told w" "\<And>w. told (snd (lc_info_read lc w)) = told w"
    "\<And>w. told (lc_poll lc w) = told w" using C by (simp_all add: counts_status_def)
  have "?Q st x' w'"
  proof (rule multi_loop_rule [where I = ?I and Q = ?Q, OF loop assms(2)])
    fix x w m mrc r x' w' m'
    assume "?I x w" "run_multi ck (Some sk) (lc_perform lc su w) x m = (mrc, r, x', w', m')"
    then show "?I x' w'" by (rule run_multi_told [OF C _ u])
  qed (use map_curl_code_OK round_verdict_not_OK in \<open>auto simp: told_right_def q\<close>)
  then show ?thesis by (auto simp: told_right_def)
qed

lemma slot_transfer_told:
  assumes C: "counts_status told lc ck sk" and "told w = 0"
    and "slot_transfer lc ck rq (Some sk) cancel w m = Some (st, w', m')"
  shows "told w' \<le> 1 \<and> (st = SICHA_T_OK \<longrightarrow> told w' = 1)"
proof -
  obtain hdrs m1 where 1: "header_lines (hr_headers rq) [] m = (hdrs, m1)" by fastforce
  show ?thesis
  proof (cases hdrs)
    case None
    with assms(2,3) show ?thesis by (auto simp: slot_transfer_def 1)
  next
    case (Some hs)
    obtain ok w1 where 2: "lc_add_handle lc (easy_setup rq hs) w = (ok, w1)" by fastforce
    obtain start w2 where 3: "ck_now_ms ck w1 = (start, w2)" by fastforce
    have w: "told w1 = 0" "told w2 = 0"
      using C assms(2) 2 3 unfolding counts_status_def by (metis snd_conv)+
    have "told_right told (xfer_start\<lparr>x_last_activity_ms := start\<rparr>) w2"
      using w by (simp add: told_right_def xfer_start_def)
    note L = multi_loop_told [OF C this]
    show ?thesis
    proof (cases ok)
      case False
      with assms(3) Some w show ?thesis by (auto simp: slot_transfer_def 1 2)
    next
      case True
      with assms(3) Some obtain x' where "multi_loop lc ck (Some sk) cancel (easy_setup rq hs) (hr_timeouts rq) start
          (xfer_start\<lparr>x_last_activity_ms := start\<rparr>) w2 m1 = Some (st, x', w', m')"
        by (auto simp: slot_transfer_def 1 2 3)
      from L [OF this] show ?thesis .
    qed
  qed
qed

section \<open>The way out\<close>

text \<open>Every way out gives the slot back, and the same slots are in use as before.\<close>

lemma curl_perform_cases:
  assumes "curl_perform lc clk req sink cancel s w = Some (st, s', w')"
  obtains (rejected) "req = None \<or> clk = None" "st = SICHA_T_E_OTHER" "s' = s" "w' = w"
  | (no_handles) idx where "slot_acquire s = (idx, None, s')" "st = SICHA_T_E_NOMEM" "w' = w"
  | (transferred) rq ck idx sl s1 w1 m1 where "req = Some rq" "clk = Some ck" "slot_acquire s = (idx, Some sl, s1)"
      "slot_transfer lc ck rq sink cancel w (cs_mem s1) = Some (st, w1, m1)"
      "s' = slot_release (s1\<lparr>cs_mem := m1\<rparr>) idx sl" "w' = lc_remove_handle lc w1"
proof -
  obtain idx out s1 where a: "slot_acquire s = (idx, out, s1)" by (metis prod_cases3)
  show thesis
  proof (cases "req = None \<or> clk = None")
    case True
    with assms show thesis by (intro rejected) (auto simp: curl_perform_def split: option.splits)
  next
    case False
    then obtain rq ck where rc: "req = Some rq" "clk = Some ck" by auto
    show thesis
    proof (cases out)
      case None
      with assms rc a show thesis by (intro no_handles) (auto simp: curl_perform_def)
    next
      case (Some sl)
      with assms rc a show thesis
        by (auto simp: curl_perform_def split: option.splits prod.splits intro!: transferred)
    qed
  qed
qed

theorem curl_perform_told:
  assumes C: "counts_status told lc ck sk" and "told w = 0"
    and "curl_perform lc (Some ck) req (Some sk) cancel s w = Some (st, s', w')"
  shows "told w' \<le> 1 \<and> (st = SICHA_T_OK \<longrightarrow> told w' = 1)"
  using assms(3)
proof (cases rule: curl_perform_cases)
  case (transferred rq ck' idx sl s1 w1 m1)
  have "told (lc_remove_handle lc w1) = told w1" using C by (simp add: counts_status_def)
  with slot_transfer_told [OF C assms(2), of rq cancel "cs_mem s1" st w1 m1] transferred show ?thesis by simp
qed (use assms(2) in simp_all)

lemma release_slots:
  assumes "acquired T s idx sl s1" "pool_inv T s"
  shows "map sl_in_use (cs_slots (slot_release (s1\<lparr>cs_mem := m\<rparr>) idx sl)) = map sl_in_use (cs_slots s)"
proof (cases "idx = -1")
  case True
  with assms(1) show ?thesis
    by (auto simp: acquired_def slot_release_def handle_cleanup_def split: option.split)
next
  case False
  have "length (cs_slots s) = CURL_POOL_CAP" using assms(2) by (simp add: pool_inv_def)
  with False assms(1) have i: "0 \<le> idx" "nat idx < length (cs_slots s)" "\<not> sl_in_use (cs_slots s ! nat idx)"
    "cs_slots s1 = (cs_slots s)[nat idx := sl]" by (simp_all add: acquired_def)
  have "slot_release (s1\<lparr>cs_mem := m\<rparr>) idx sl =
      s1\<lparr>cs_mem := m, cs_slots := (cs_slots s)[nat idx := sl\<lparr>sl_in_use := False\<rparr>]\<rparr>"
    using i(1,2,4) by (simp add: slot_release_def)
  moreover have "map sl_in_use ((cs_slots s)[nat idx := sl\<lparr>sl_in_use := False\<rparr>]) = map sl_in_use (cs_slots s)"
    using i(2,3) by (simp add: list_eq_iff_nth_eq nth_list_update)
  ultimately show ?thesis by simp
qed

lemma acquire_none_slots:
  assumes "slot_acquire s = (idx, None, s')"
  shows "map sl_in_use (cs_slots s') = map sl_in_use (cs_slots s)"
proof -
  obtain r s1 where r: "handles_init s = (r, s1)" by fastforce
  have same: "(map sl_in_use xs)[i := sl_in_use (xs ! i)] = map sl_in_use xs" for xs i
    by (metis list_update_beyond list_update_id map_update not_less)
  have "cs_slots s1 = cs_slots s"
    using r by (auto simp: handles_init_def handle_init_def handle_cleanup_def Let_def split: prod.splits option.splits if_splits)
  with assms r show ?thesis
    by (auto simp: slot_acquire_def Let_def map_update same split: option.splits prod.splits)
qed

theorem curl_perform_pool:
  assumes inv: "pool_inv T s" and "curl_perform lc clk req sink cancel s w = Some (st, s', w')"
  shows "pool_inv T s' \<and> map sl_in_use (cs_slots s') = map sl_in_use (cs_slots s)"
  using assms(2)
proof (cases rule: curl_perform_cases)
  case (no_handles idx)
  from acquire_keeps [OF inv no_handles(1)] acquire_none_slots [OF no_handles(1)] show ?thesis by auto
next
  case (transferred rq ck idx sl s1 w1 m1)
  from acquire_keeps [OF inv transferred(3)] have a: "acquired T s idx sl s1" by auto
  have "pool_inv (if idx = -1 then slot_handles sl @ T else T) (s1\<lparr>cs_mem := m1\<rparr>)"
    "0 \<le> idx \<longrightarrow> cs_slots (s1\<lparr>cs_mem := m1\<rparr>) ! nat idx = sl"
    using a inv by (auto simp: acquired_def pool_inv_def split: if_splits)
  from release_keeps [OF a this] release_slots [OF a inv] transferred(5) show ?thesis by simp
qed (use inv in simp)

end
