(* ===== verification/Examples.thy ===== *)
theory Examples
  imports Engine_Commit Engine_Success Client_Facts Curl_Perform Response_Stream
begin

text \<open>
  Concrete inputs at which the properties of the root theory are applied: a reader that knows
  a few documents, a backend, a request, a policy, a client and a transport that answers.
\<close>

definition ex_reply :: json where
  "ex_reply = JObj [(lit ''choices'', JArr [JObj
     [(lit ''message'', JObj [(lit ''content'', JStr (lit ''ok''))]),
      (lit ''finish_reason'', JStr (lit ''stop''))]])]"

definition ex_chunk :: json where
  "ex_chunk = JObj [(lit ''choices'', JArr [JObj [(lit ''delta'', JObj [(lit ''content'', JStr (lit ''ok''))])]])]"

definition ex_reader :: json_reader where
  "ex_reader s =
     (if s = lit ''{}'' then Some (JObj [])
      else if s = lit ''R'' then Some ex_reply
      else if s = lit ''C'' then Some ex_chunk
      else None)"

definition ex_desc :: sicha_backend_desc where
  "ex_desc = \<lparr>d_struct_size_ok = True, d_base_url = Some (lit ''http://h/v1/''), d_api_key = Some (lit ''key''),
     d_model = Some (lit ''m''), d_extra_headers = None, d_n_extra_headers = 0,
     d_extra_body_json = Some (lit ''{}''), d_timeouts = zero_timeouts,
     d_flags = SICHA_BACKEND_KOBOLD_CANCEL_ASSIST\<rparr>"

definition ex_backend :: sicha_backend where
  "ex_backend = fst (snd (sicha_backend_init ex_reader ex_desc []))"

lemma ex_backend_init: "sicha_backend_init ex_reader ex_desc [] = (SICHA_OK, ex_backend, [])"
  by code_simp

lemma ex_backend_wf: "backend_wf ex_reader ex_backend"
  by (rule sicha_backend_init_wf [OF ex_backend_init])

lemma ex_headers:
  "sicha_build_headers ex_backend True (lit ''ua'') [] =
     (SICHA_OK, Some (generated_headers ex_backend True (lit ''ua'')), [])"
  by code_simp

definition ex_request :: sicha_request where
  "ex_request = \<lparr>rq_struct_size_ok = True,
     rq_messages = Some [\<lparr>msg_role = 1, msg_content = Some (lit ''hi''), msg_content_len = 2, msg_tool_call_id = None\<rparr>],
     rq_n_messages = 1, rq_messages_json = None, rq_set_mask = 0, rq_max_tokens = 0, rq_temperature = 0,
     rq_top_p = 0, rq_top_k = 0, rq_presence_penalty = 0, rq_frequency_penalty = 0, rq_stop = None,
     rq_n_stop = 0, rq_response_format_json = None, rq_flags = 0\<rparr>"

lemma ex_request_valid: "sicha_request_validate ex_reader ex_request [] = (SICHA_OK, [])"
  by (simp add: sicha_request_validate_def request_shape_ok_def ex_request_def is_set_def messages_of_def
      message_ok_def content_bytes_def SICHA_LEN_CSTR_def SIZE_MAX_def role_str_def opt_bytes_def stop_of_def Let_def)

definition ex_policy :: sicha_retry_policy where
  "ex_policy = \<lparr>max_tries = 2, validation_retries = 1, backoff_base_ms = 1000, backoff_cap_ms = 30000,
     backoff_jitter_ms = 500, retry_after_cap_ms = 120000, pol_flags = 0, overrides = None, n_overrides = 0\<rparr>"

lemma ex_policy_valid: "validate_overrides (override_list ex_policy) = SICHA_OK"
  by (simp add: ex_policy_def override_list_def)

definition ex_writer :: json_writer where
  "ex_writer v = Some (lit ''body'')"

definition ex_client :: sicha_client where
  "ex_client = \<lparr>c_backends = [ex_backend], c_policy = ex_policy, c_prng_seed = 1, c_req_counter = 0,
     c_max_response_bytes = 1000, c_max_event_bytes = 1000, c_user_agent = lit ''ua'', c_debug = False\<rparr>"

lemma ex_client_ok: "client_ok ex_reader ex_client"
  using ex_backend_wf ex_policy_valid
  by (simp add: client_ok_def ex_client_def policy_resolved_def safe_value_def cstr_def)
    (simp add: ex_policy_def)

text \<open>The scripted transport on the built-in clock, with one response in its queue.\<close>

type_synonym ex_world = "script_state \<times> real_world"

definition ex_response :: sicha_script_response where
  "ex_response = \<lparr>sr_struct_size_ok = True, sr_status = SICHA_T_OK, sr_http_status = 200, sr_headers = Some [],
     sr_n_headers = 0, sr_body = Some (lit ''R''), sr_body_len = 1, sr_chunk_size = 0, sr_connect_delay_ms = 0,
     sr_first_byte_delay_ms = 0, sr_per_chunk_delay_ms = 0, sr_fail_after_bytes = 0\<rparr>"

definition ex_script :: script_state where
  "ex_script = \<lparr>s_queue = [ex_response], s_q_cap = 8, s_calls = [], s_c_cap = 0, s_mem = []\<rparr>"

definition ex_time :: real_world where
  "ex_time = \<lparr>rw_time = 0, rw_flag = False, rw_lags = [], rw_waits = []\<rparr>"

definition ex_env :: "ex_world client_env" where
  "ex_env = \<lparr>env_now_ms = (\<lambda>(s, x). case real_now_ms x of (t, x) \<Rightarrow> (t, (s, x))),
     env_wait_ms = (\<lambda>ms (s, x). case real_wait_ms None ms x of (rc, x) \<Rightarrow> (rc, (s, x))),
     env_cancelled = None,
     env_perform = (\<lambda>rq tok w. script_perform (Some sicha_clock_real) (Some rq) None w),
     env_log = (\<lambda>text w. w)\<rparr>"

lemma ex_now: "ck_now_ms sicha_clock_real ex_time = (0, ex_time)"
  by (simp add: real_now_ms_time ex_time_def sicha_clock_real_def)

lemma ex_no_delay:
  assumes "0 < dl_a" "0 < dl_b"
  shows "delay_within sicha_clock_real None 0 dl_a st_a dl_b st_b ex_time = Some (SICHA_T_OK, ex_time)"
  using assms unfolding delay_within_def ex_now prod.case by (subst delay_loop.simps) (auto simp: ex_now)

lemma abs_deadline_pos: "b \<noteq> 0 \<Longrightarrow> 0 < abs_deadline 0 b"
  by (auto simp: abs_deadline_def UINT64_MAX_def word_greater_zero_iff simp flip: unat_eq_0)

lemma ex_response_sel:
  "sr_status ex_response = SICHA_T_OK" "sr_http_status ex_response = 200" "sr_headers ex_response = Some []"
  "sr_body ex_response = Some (lit ''R'')" "sr_body_len ex_response = 1" "sr_chunk_size ex_response = 0"
  "sr_connect_delay_ms ex_response = 0" "sr_first_byte_delay_ms ex_response = 0" "sr_per_chunk_delay_ms ex_response = 0"
  by (simp_all add: ex_response_def)

lemma ex_answer:
  assumes "connect_ms (hr_timeouts rq) \<noteq> 0" "first_byte_ms (hr_timeouts rq) \<noteq> 0" "idle_ms (hr_timeouts rq) \<noteq> 0"
    "total_ms (hr_timeouts rq) \<noteq> 0"
  shows "\<exists>s. accept_all (script_perform (Some sicha_clock_real) (Some rq) None (ex_script, ex_time))
    = ([Got_status 200 [], Got_body (lit ''R'')], SICHA_T_OK, (s, ex_time))"
proof -
  obtain ok s where c: "record_call rq ex_script = (ok, s)" by fastforce
  have C: "ok" "s_queue s = [ex_response]"
    using record_call_ok [OF _ c] by (simp_all add: ex_script_def)
  let ?s = "s\<lparr>s_queue := []\<rparr>"
  let ?dl = "abs_deadline 0 (total_ms (hr_timeouts rq))"
  have w: "chunk_wait sicha_clock_real None rq ex_response ?dl ex_time = (SICHA_T_OK, ex_time)"
    by (simp add: chunk_wait_def waited_def ex_now ex_no_delay abs_deadline_pos assms ex_response_sel)
  have r: "script_perform (Some sicha_clock_real) (Some rq) None (ex_script, ex_time)
      = script_respond sicha_clock_real None rq ex_response (?s, ex_time)"
    by (simp add: script_perform_def c C take_response_def)
  have "accept_all (script_body sicha_clock_real None rq ex_response ?dl 1 0 (?s, ex_time))
      = ([Got_body (lit ''R'')], SICHA_T_OK, (?s, ex_time))"
    using script_body_chunk [of 1 sicha_clock_real None rq ex_response ?dl "(?s, ex_time)" SICHA_T_OK ex_time 0] w
    by (simp add: chunk_len_def Let_def ex_response_sel opt_bytes_def)
  then show ?thesis unfolding r
    by (simp add: script_respond_def ex_now waited_def ex_no_delay abs_deadline_pos assms ex_response_sel Let_def)
qed

lemma ex_answers: "answers ex_env ex_client ex_backend 200 (lit ''R'') (ex_script, ex_time)"
proof -
  have t: "connect_ms (b_timeouts ex_backend) \<noteq> 0" "first_byte_ms (b_timeouts ex_backend) \<noteq> 0"
    "idle_ms (b_timeouts ex_backend) \<noteq> 0" "total_ms (b_timeouts ex_backend) \<noteq> 0"
    using ex_backend_wf by (simp_all add: backend_wf_def)
  have n: "env_now_ms ex_env (debug_request ex_env ex_client rq (ex_script, ex_time)) = (0, (ex_script, ex_time))" for rq
    using ex_now by (simp add: ex_env_def debug_request_def ex_client_def sicha_clock_real_def)
  have e: "\<exists>s. accept_all (env_perform ex_env (chat_http_request ex_backend bd hds) tok (ex_script, ex_time))
      = ([Got_status 200 [], Got_body (lit ''R'')], SICHA_T_OK, (s, ex_time))" for bd hds tok
    using ex_answer [of "chat_http_request ex_backend bd hds"] t by (simp add: ex_env_def chat_http_request_def)
  show ?thesis unfolding answers_def n
  proof (intro allI impI)
    fix bd hds t0 w1
    assume "(0, (ex_script, ex_time)) = (t0, w1)"
    then have w: "w1 = (ex_script, ex_time)" by simp
    from e [of bd hds "env_cancelled ex_env \<noteq> None"] obtain s where
      "accept_all (env_perform ex_env (chat_http_request ex_backend bd hds) (env_cancelled ex_env \<noteq> None) w1)
        = (Got_status 200 [] # map Got_body [lit ''R''], SICHA_T_OK, (s, ex_time))"
      unfolding w list.map by blast
    then show "\<exists>hs bs w'. accept_all (env_perform ex_env (chat_http_request ex_backend bd hds)
        (env_cancelled ex_env \<noteq> None) w1) = (Got_status 200 hs # map Got_body bs, SICHA_T_OK, w') \<and> concat bs = lit ''R''"
      by (metis concat.simps append_Nil2)
  qed
qed

lemma ex_reply_of:
  "reply_of ex_reader (lit ''R'') = Some \<lparr>rp_root = ex_reply, rp_content = Some (lit ''ok''),
     rp_reasoning = None, rp_finish = Some (lit ''stop'')\<rparr>"
proof -
  have r: "ex_reader (lit ''R'') = Some ex_reply" by (simp add: ex_reader_def)
  show ?thesis
    unfolding reply_of_def r by (simp add: ex_reply_def first_choice_def message_of_def
      str_member_def reply_in_def first_some_def)
qed

lemma ex_good_reply:
  "good_reply ex_reader ex_client (lit ''R'') \<lparr>rp_root = ex_reply, rp_content = Some (lit ''ok''),
     rp_reasoning = None, rp_finish = Some (lit ''stop'')\<rparr>"
  unfolding good_reply_def ex_reply_of
  by (simp add: ex_client_def SIZE_MAX_def opt_bytes_def finish_policed_def finish_named_def
      ex_policy_def)

lemma ex_reader_ok: "ex_reader s = Some v \<Longrightarrow> json_ok v"
  by (auto simp: ex_reader_def ex_reply_def ex_chunk_def split: if_splits)

text \<open>A transport that streams two events, over what the callbacks have seen.\<close>

definition ex_stream_env :: "bytes client_env" where
  "ex_stream_env = \<lparr>env_now_ms = (\<lambda>w. (0, w)), env_wait_ms = (\<lambda>ms w. (0, w)), env_cancelled = None,
     env_perform = (\<lambda>rq tok w. T_status 200 [] w (\<lambda>(rc, w).
        T_body (lit ''data: C'' @ [10, 10] @ lit ''data: [DONE]'' @ [10, 10]) w (\<lambda>(rc, w). T_done SICHA_T_OK w))),
     env_log = (\<lambda>text w. w)\<rparr>"

definition ex_callbacks :: "bytes sicha_callbacks" where
  "ex_callbacks = \<lparr>cb_struct_size_ok = True, cb_on_delta = Some (\<lambda>bs w. (0, w @ bs)), cb_on_reasoning = None,
     cb_on_raw_chunk = None, cb_on_attempt = None, cb_validate = None\<rparr>"

text \<open>
  A libcurl that gets one response at once, and a sink that counts the status lines; the world
  is their number.
\<close>

definition ex_curl :: "nat libcurl" where
  "ex_curl = \<lparr>lc_add_handle = (\<lambda>su w. (True, w)),
     lc_perform = (\<lambda>su w. M_header (lit ''HTTP/1.1 200'') w (\<lambda>(n, w). M_header [10] w (\<lambda>(n, w).
        M_data (lit ''x'') w (\<lambda>(n, w). M_return CURLM_OK 0 w)))),
     lc_info_read = (\<lambda>w. (Some CURLE_OK, w)), lc_poll = (\<lambda>w. w), lc_remove_handle = (\<lambda>w. w)\<rparr>"

definition ex_count_clock :: "nat sicha_clock" where
  "ex_count_clock = \<lparr>ck_now_ms = (\<lambda>w. (0, w)), ck_wait_ms = (\<lambda>tok ms w. (0, w))\<rparr>"

definition ex_count_sink :: "nat sicha_http_sink" where
  "ex_count_sink = \<lparr>sk_on_status = Some (\<lambda>h hs w. (0, Suc w)), sk_on_body = None\<rparr>"

lemma ex_counts: "counts_status (\<lambda>w. w) ex_curl ex_count_clock ex_count_sink"
  by (simp add: counts_status_def ex_curl_def ex_count_clock_def ex_count_sink_def)

lemma ex_multi_loop: "\<exists>st x' w' m'. multi_loop ex_curl ex_count_clock (Some ex_count_sink) None su t start x w m = Some (st, x', w', m')"
proof -
  obtain mrc r x1 w1 m1 where 1: "run_multi ex_count_clock (Some ex_count_sink) (lc_perform ex_curl su w) x m = (mrc, r, x1, w1, m1)"
    by (metis prod_cases5)
  show ?thesis
    by (subst multi_loop.simps, cases "mrc = CURLM_OK")
      (simp_all only: 1 prod.case if_True if_False not_True_eq_False not_False_eq_True, simp_all add: ex_curl_def ex_count_clock_def)
qed

definition ex_pool :: curl_state where
  "ex_pool = the (sicha_curl_create True [])"

lemma ex_pool_inv: "pool_inv [] ex_pool"
proof -
  have "sicha_curl_create True [] = Some ex_pool" by (simp add: ex_pool_def sicha_curl_create_def)
  then show ?thesis by (rule pool_start)
qed

lemma ex_curl_perform:
  "\<exists>st s' w'. curl_perform ex_curl (Some ex_count_clock) (Some (chat_http_request ex_backend [] [])) (Some ex_count_sink)
     None ex_pool 0 = Some (st, s', w')"
proof -
  let ?rq = "chat_http_request ex_backend [] []"
  have t: "\<exists>st w' m'. slot_transfer ex_curl ex_count_clock ?rq (Some ex_count_sink) None 0 m = Some (st, w', m')" for m
  proof -
    obtain hdrs m1 where h: "header_lines (hr_headers ?rq) [] m = (hdrs, m1)" by fastforce
    obtain st x' w' m' where "multi_loop ex_curl ex_count_clock (Some ex_count_sink) None (easy_setup ?rq (the hdrs))
        (hr_timeouts ?rq) 0 (xfer_start\<lparr>x_last_activity_ms := 0\<rparr>) 0 m1 = Some (st, x', w', m')"
      using ex_multi_loop by blast
    moreover have "lc_add_handle ex_curl su w = (True, w)" "ck_now_ms ex_count_clock w = (0, w)" for su w
      by (simp_all add: ex_curl_def ex_count_clock_def)
    ultimately show ?thesis by (cases hdrs) (simp_all add: slot_transfer_def h)
  qed
  obtain idx out s1 where a: "slot_acquire ex_pool = (idx, out, s1)" by (metis prod_cases3)
  show ?thesis
    using t [of "cs_mem s1"] by (cases out) (auto simp: curl_perform_def a)
qed

end
