(* ===== verification/Engine_Fallback.thy ===== *)
theory Engine_Fallback
  imports Engine_Success
begin

text \<open>
  The fallback chain: backends that are down are retried and left, in the order of the client,
  and the first backend that answers serves the call.
\<close>

section \<open>A backend that is down\<close>

text \<open>
  A transport status after which the engine tries again or goes on. A backend refuses when
  every transfer to it ends with such a status before anything has arrived.
\<close>

definition outage :: "sicha_transport_status \<Rightarrow> bool" where
  "outage ts \<longleftrightarrow> ts \<notin> {SICHA_T_OK, SICHA_T_E_CANCELLED, SICHA_T_E_ABORTED_BY_SINK, SICHA_T_E_NOMEM}"

definition refuses :: "'w client_env \<Rightarrow> sicha_backend \<Rightarrow> bool" where
  "refuses env b \<longleftrightarrow>
     (\<forall>bd hds w. \<exists>ts w'. env_perform env (chat_http_request b bd hds) (env_cancelled env \<noteq> None) w = T_done ts w'
        \<and> outage ts)"

text \<open>A backend errs when it answers with a status that is not 2xx and does not abort the call.\<close>

definition errs :: "'w client_env \<Rightarrow> sicha_client \<Rightarrow> sicha_backend \<Rightarrow> bool" where
  "errs env c b \<longleftrightarrow>
     (\<exists>http body. (\<forall>w. answers env c b http body w) \<and> \<not> http_success http
        \<and> (case lookup_override (override_list (c_policy c)) http of Some k \<Rightarrow> k | None \<Rightarrow> status_class http)
             \<noteq> SICHA_CLASS_ABORT
        \<and> length body < SIZE_MAX \<and> length body \<le> c_max_response_bytes c)"

text \<open>With a streaming call only the first kind is considered.\<close>

definition down :: "'w client_env \<Rightarrow> sicha_client \<Rightarrow> bool \<Rightarrow> sicha_backend \<Rightarrow> bool" where
  "down env c stream b \<longleftrightarrow> refuses env b \<or> \<not> stream \<and> errs env c b"

lemma sicha_classify_outage:
  "outage ts \<Longrightarrow> repeats (sicha_classify p ts http bs fin) \<or> sicha_classify p ts http bs fin = SICHA_CLASS_ADVANCE"
  by (cases ts) (simp_all add: outage_def sicha_classify_def repeats_def)

lemma run_attempt_refused:
  assumes "refuses env b" "run_attempt rd env c b bd hs cbs r stream acc w m = (out, r', w', m')"
  shows "ao_terminal out = SICHA_OK \<and> outage (ao_ts out) \<and> \<not> ao_delivered out \<and> r' = r \<and> m' = m"
proof -
  let ?rq = "chat_http_request b bd hs" and ?io = "attempt_io_init c r stream acc"
  obtain t0 w1 where t0: "env_now_ms env (debug_request env c ?rq w) = (t0, w1)" by fastforce
  obtain ts w2 where p: "env_perform env ?rq (env_cancelled env \<noteq> None) w1 = T_done ts w2" and ts: "outage ts"
    using assms(1) unfolding refuses_def by blast
  obtain t1 w3 where t1: "env_now_ms env w2 = (t1, w3)" by fastforce
  have o: "ts \<noteq> SICHA_T_OK" "ts \<noteq> SICHA_T_E_ABORTED_BY_SINK" "ts \<noteq> SICHA_T_E_NOMEM"
    using ts by (simp_all add: outage_def)
  let ?o = "outcome_start ?io ts (t1 - t0)"
  have "ao_ts ?o = ts" "ao_terminal ?o = SICHA_OK" by (simp_all add: outcome_start_def)
  with o have u: "untangle ?io ?o = ?o" and f: "finish_response rd cbs ?io ?o w3 m = (?o, ?io, w3, m)"
    and e: "attempt_excerpt ?io ?o = ?o"
    by (simp_all add: untangle_def finish_response_def attempt_excerpt_def Let_def)
  have d: "\<not> sc_delivered (io_sctx ?io)" "sc_r (io_sctx ?io) = r"
    by (simp_all add: attempt_io_init_def sicha_stream_ctx_init_def)
  have "out = outcome_message (?o\<lparr>ao_delivered := False\<rparr>) \<and> r' = r \<and> m' = m"
    using assms(2) d by (auto simp: run_attempt_def Let_def t0 p t1 u f e simp del: not_None_eq)
  with ts show ?thesis by (simp add: outcome_message_def outcome_start_def)
qed

lemma run_attempt_erred:
  assumes "answers env c b http body w" "\<not> http_success http" "length body < SIZE_MAX"
    "length body \<le> c_max_response_bytes c" "all_ok m"
    and "run_attempt rd env c b bd hs cbs r False acc w m = (out, r', w', m')"
  shows "ao_terminal out = SICHA_OK \<and> ao_ts out = SICHA_T_OK \<and> ao_http_status out = http \<and> \<not> ao_delivered out
    \<and> r' = r \<and> all_ok m'"
proof -
  let ?rq = "chat_http_request b bd hs" and ?io = "attempt_io_init c r False acc"
  let ?w = "debug_request env c ?rq w"
  obtain t0 w1 where t0: "env_now_ms env ?w = (t0, w1)" by fastforce
  obtain hdrs bs w2 where a: "accept_all (env_perform env ?rq (env_cancelled env \<noteq> None) w1)
      = (Got_status http hdrs # map Got_body bs, SICHA_T_OK, w2)" "concat bs = body"
    using assms(1) t0 unfolding answers_def by blast
  have "takes ?io (length (concat bs))"
    using a(2) assms(3,4) by (simp add: takes_def attempt_io_init_def)
  from run_transfer_takes [OF a(1) this assms(5), of rd cbs] obtain io m1 where
    T: "run_transfer rd cbs (env_perform env ?rq (env_cancelled env \<noteq> None) w1) ?io m = (SICHA_T_OK, io, w2, m1)"
    and io: "all_ok m1" "takes io 0" "io_sctx io = io_sctx ?io" "io_http_status io = http"
    by auto
  obtain t1 w3 where t1: "env_now_ms env w2 = (t1, w3)" by fastforce
  let ?out = "untangle io (outcome_start io SICHA_T_OK (t1 - t0))"
  have o: "ao_ts ?out = SICHA_T_OK" "ao_terminal ?out = SICHA_OK" "ao_http_status ?out = http"
    by (simp_all add: untangle_def outcome_start_def io(4))
  have nok: "\<not> http_ok http" using assms(2) by (simp add: http_ok_def http_success_def)
  have "finish_response rd cbs io ?out w3 m1 = (?out, io, w3, m1)" using o nok by (simp add: finish_response_def)
  moreover have "sc_r (io_sctx io) = r" "\<not> io_stream io"
    using io by (simp_all add: attempt_io_init_def sicha_stream_ctx_init_def takes_def)
  moreover have "ao_terminal (attempt_excerpt io ?out) = SICHA_OK \<and> ao_ts (attempt_excerpt io ?out) = SICHA_T_OK
      \<and> ao_http_status (attempt_excerpt io ?out) = http"
    using o by (simp add: attempt_excerpt_def outcome_borrow_excerpt_def Let_def)
  ultimately show ?thesis
    using assms(6) io(1) by (auto simp: run_attempt_def Let_def t0 T t1 outcome_message_def simp del: not_None_eq)
qed

section \<open>Going on\<close>

lemma request_validate_mono:
  assumes "backend_wf rd b" "sicha_request_validate rd req mv = (SICHA_OK, mv')" "all_ok m"
    and "sicha_request_validate rd req m = (st, m')"
  shows "st = SICHA_OK \<and> all_ok m'"
  using request_validate_cases(2,3) [OF assms(4,3)] request_validate_OK(1) [OF assms(2)] json_fields_okI [OF assms(1,2)]
  by blast

text \<open>The state between two round trips of a call in which everything has gone down so far.\<close>

definition ready :: "sicha_client \<Rightarrow> 'w chat_state \<Rightarrow> bool" where
  "ready c s \<longleftrightarrow> all_ok (ch_mem s) \<and> clean (ch_r s) \<and> \<not> ch_delivered s
     \<and> buf_max_len (r_text (ch_r s)) = c_max_response_bytes c
     \<and> buf_max_len (r_reasoning (ch_r s)) = c_max_response_bytes c"

lemma clean_reset:
  "clean r \<Longrightarrow> clean ((sicha_result_reset_content r)\<lparr>r_backend := i\<rparr>)"
  by (simp add: clean_def sicha_result_reset_content_def sicha_buf_reset_wf)

lemma add_attempt_mem: "sicha_result_add_attempt r a m = (st, r', m') \<Longrightarrow> all_ok m \<Longrightarrow> all_ok m'"
proof -
  assume A: "sicha_result_add_attempt r a m = (st, r', m')" and m: "all_ok m"
  let ?full = "of_nat (length (r_attempts r)) = r_cap_attempts r"
  let ?e = "if at_raw_body_excerpt a \<noteq> None then at_raw_body_excerpt_len a else 0"
  obtain ok m0 where 0: "(if ?full then alloc m else (True, m)) = (ok, m0)" by fastforce
  have k: "ok \<and> all_ok m0" using 0 m by (auto split: if_splits dest: all_ok_alloc)
  obtain x m1 where 1: "dup_bytes (cstr (opt_bytes (at_model a))) m0 = (x, m1)" by fastforce
  obtain y m2 where 2: "dup_bytes (cstr (opt_bytes (at_message a))) m1 = (y, m2)" by fastforce
  obtain z m3 where 3: "dup_bytes (take (if SICHA_EXCERPT_MAX < ?e then SICHA_EXCERPT_MAX else ?e)
    (opt_bytes (at_raw_body_excerpt a))) m2 = (z, m3)" by fastforce
  have "m' = m3" using A k by (auto simp: sicha_result_add_attempt_def 0 1 2 3 Let_def simp del: not_None_eq split: if_splits)
  with k show "all_ok m'" using dup_bytes_mem [OF 1] dup_bytes_mem [OF 2] dup_bytes_mem [OF 3] by simp
qed

lemma attempt_record_ok:
  assumes "attempt_record env c i b cbs out cls s = (st, s')" "all_ok (ch_mem s)"
  shows "st = SICHA_OK \<and> all_ok (ch_mem s') \<and> ch_delivered s' = ch_delivered s
    \<and> r_text (ch_r s') = r_text (ch_r s) \<and> r_reasoning (ch_r s') = r_reasoning (ch_r s)"
proof -
  obtain st0 r m where 1: "sicha_result_add_attempt (ch_r s) (attempt_of i b out cls s) (ch_mem s) = (st0, r, m)"
    by (metis prod_cases3)
  have "all_ok (ch_mem s')" using assms add_attempt_mem [OF 1] by (auto simp: attempt_record_def 1 Let_def split: if_splits)
  with assms show ?thesis by (cases rule: attempt_record_cases) auto
qed

text \<open>What the engine needs to make a round trip.\<close>

definition able :: "json_reader \<Rightarrow> json_writer \<Rightarrow> 'w client_env \<Rightarrow> sicha_client \<Rightarrow> sicha_request \<Rightarrow> bool" where
  "able rd wr env c req \<longleftrightarrow> client_ok rd c \<and> (\<exists>m m'. sicha_request_validate rd req m = (SICHA_OK, m'))
     \<and> (\<forall>s v. rd s = Some v \<longrightarrow> json_ok v) \<and> (\<forall>v. json_ok v \<longrightarrow> wr v \<noteq> None)
     \<and> (\<forall>f w. env_cancelled env = Some f \<longrightarrow> \<not> f w)"

lemma attempt_prepare_ok:
  assumes "able rd wr env c req" "backend_wf rd b" "all_ok (ch_mem s)"
    "attempt_prepare rd wr env c b req stream s = (st, s')"
  shows "st = SICHA_OK \<and> all_ok (ch_mem s')"
proof -
  from assms(1) obtain mv mv' where v: "sicha_request_validate rd req mv = (SICHA_OK, mv')" by (auto simp: able_def)
  have rw: "\<forall>s v. rd s = Some v \<longrightarrow> json_ok v" "\<forall>v. json_ok v \<longrightarrow> wr v \<noteq> None"
    using assms(1) by (simp_all add: able_def)
  obtain st1 s1 where 1: "prepare_body rd wr b req stream s = (st1, s1)" by fastforce
  have B: "st1 = SICHA_OK \<and> all_ok (ch_mem s1)"
  proof (cases "ch_body s = None")
    case False
    with 1 assms(3) show ?thesis by (auto simp: prepare_body_def)
  next
    case True
    obtain x bd m1 where b: "sicha_build_chat_body rd wr b req stream (ch_mem s) = (x, bd, m1)" by (metis prod_cases3)
    with build_chat_body_ok [OF assms(2) v assms(3) rw b] 1 True show ?thesis by (auto simp: prepare_body_def)
  qed
  obtain st2 s2 where 2: "prepare_headers c b stream s1 = (st2, s2)" by fastforce
  have H: "st2 = SICHA_OK \<and> all_ok (ch_mem s2)"
  proof (cases "ch_headers s1 = None")
    case False
    with 2 B show ?thesis by (auto simp: prepare_headers_def)
  next
    case True
    obtain x hs m1 where h: "sicha_build_headers b stream (c_user_agent c) (ch_mem s1) = (x, hs, m1)" by (metis prod_cases3)
    with build_headers_ok [OF conjunct2 [OF B] h] 2 True show ?thesis by (auto simp: prepare_headers_def)
  qed
  have "\<not> (case env_cancelled env of None \<Rightarrow> False | Some f \<Rightarrow> f (ch_w s))"
    using assms(1) by (auto simp: able_def split: option.split)
  with assms(4) B H show ?thesis by (simp add: attempt_prepare_def 1 2)
qed

lemma attempt_run_down:
  assumes "down env c stream b" "ready c s" "validate_overrides (override_list (c_policy c)) = SICHA_OK"
    "attempt_run rd env c i b req cbs stream s = (out, cls, s')"
  shows "ready c s' \<and> ao_terminal out = SICHA_OK \<and> (repeats cls \<or> cls = SICHA_CLASS_ADVANCE)"
proof -
  let ?r = "(sicha_result_reset_content (ch_r s))\<lparr>r_backend := int i\<rparr>"
  from assms(4) obtain out0 r w m w' where R:
    "run_attempt rd env c b (opt_bytes (ch_body s)) (case ch_headers s of None \<Rightarrow> [] | Some hs \<Rightarrow> hs) cbs ?r stream
       (rq_flags req AND SICHA_REQ_NO_ACCUMULATE = 0) (ch_w s) (ch_mem s) = (out0, r, w, m)"
    "validate_attempt cbs r out0 (outcome_class c out0 r) w = (out, cls, w')"
    "s' = s\<lparr>ch_r := r, ch_w := w', ch_mem := m, ch_delivered := ch_delivered s \<or> ao_delivered out0\<rparr>"
    by (rule attempt_run_cases)
  have m: "all_ok (ch_mem s)" using assms(2) by (simp add: ready_def)
  have X: "ao_terminal out0 = SICHA_OK \<and> \<not> ao_delivered out0 \<and> r = ?r \<and> all_ok m
    \<and> (repeats (outcome_class c out0 r) \<or> outcome_class c out0 r = SICHA_CLASS_ADVANCE)"
  proof (cases "refuses env b")
    case True
    from run_attempt_refused [OF True R(1)] m show ?thesis
      by (auto simp: outcome_class_def dest!: sicha_classify_outage)
  next
    case False
    with assms(1) obtain http body where e: "\<And>w. answers env c b http body w" "\<not> http_success http"
      "(case lookup_override (override_list (c_policy c)) http of Some k \<Rightarrow> k | None \<Rightarrow> status_class http) \<noteq> SICHA_CLASS_ABORT"
      "length body < SIZE_MAX" "length body \<le> c_max_response_bytes c" "\<not> stream"
      by (auto simp: down_def errs_def)
    have R1: "run_attempt rd env c b (opt_bytes (ch_body s)) (case ch_headers s of None \<Rightarrow> [] | Some hs \<Rightarrow> hs) cbs ?r False
        (rq_flags req AND SICHA_REQ_NO_ACCUMULATE = 0) (ch_w s) (ch_mem s) = (out0, r, w, m)"
      using R(1) e(6) by simp
    from run_attempt_erred [OF e(1,2,4,5) m R1]
    have "ao_terminal out0 = SICHA_OK" "ao_ts out0 = SICHA_T_OK" "ao_http_status out0 = http" "\<not> ao_delivered out0"
      "r = ?r" "all_ok m" by simp_all
    moreover from this e(2,3) classify_override_class [OF assms(3), of http]
    have "outcome_class c out0 r \<in> {SICHA_CLASS_RETRY_SAME, SICHA_CLASS_ADVANCE}"
      by (auto simp: outcome_class_def sicha_classify_def classify_http_eq)
    ultimately show ?thesis by (auto simp: repeats_def)
  qed
  then have "outcome_class c out0 r \<noteq> SICHA_CLASS_NONE" by (auto simp: repeats_def)
  with R(2) have "cls = outcome_class c out0 r \<and> out = out0"
    by (auto simp: validate_attempt_def)
  with X R(3) assms(2) clean_reset [of "ch_r s" "int i"] show ?thesis
    by (auto simp: ready_def sicha_result_reset_content_def)
qed

lemma attempt_step_down:
  assumes A: "able rd wr env c req" and b: "backend_wf rd b" "down env c stream b"
    and w: "\<forall>ms w. fst (env_wait_ms env ms w) = 0" and R: "ready c s"
    and step: "attempt_step rd wr env c i b req cbs stream s = (v, s')"
  shows "(v = Again \<or> v = Advance) \<and> ready c s'"
proof -
  have ov: "validate_overrides (override_list (c_policy c)) = SICHA_OK"
    using A by (simp add: able_def client_ok_def)
  obtain st1 s1 where 1: "attempt_prepare rd wr env c b req stream s = (st1, s1)" by fastforce
  have p: "st1 = SICHA_OK \<and> ready c s1"
    using attempt_prepare_ok [OF A b(1) _ 1] attempt_prepare_frame [OF 1] R by (simp add: ready_def)
  obtain out cls s2 where 2: "attempt_run rd env c i b req cbs stream s1 = (out, cls, s2)" by (metis prod_cases3)
  note run = attempt_run_down [OF b(2) conjunct2 [OF p] ov 2]
  obtain st3 s3 where 3: "attempt_record env c i b cbs out cls s2 = (st3, s3)" by fastforce
  have rec: "st3 = SICHA_OK \<and> ready c s3"
    using attempt_record_ok [OF 3] run by (auto simp: ready_def clean_def)
  have d: "attempt_decide env c b out cls s3 = (v, s')"
    using step p run rec by (simp add: attempt_step_def 1 2 3)
  have "ch_mem s' = ch_mem s3"
    using d by (cases cls) (auto simp: attempt_decide_def Let_def split: if_splits prod.splits)
  with attempt_decide_frame [OF d] rec have "ready c s'" by (simp add: ready_def)
  moreover have "\<not> committed c s3" using rec by (simp add: committed_def ready_def)
  with d run w have "v = Again \<or> v = Advance"
    by (auto simp: attempt_decide_def repeats_def Let_def split: if_splits prod.splits) (metis fst_conv)+
  ultimately show ?thesis by simp
qed

lemma backend_loop_down:
  assumes A: "able rd wr env c req" and b: "backend_wf rd b" "down env c stream b"
    and w: "\<forall>ms w. fst (env_wait_ms env ms w) = 0" and R: "ready c s"
    and run: "backend_loop rd wr env c i b req cbs stream s = (res, s')"
  shows "res = None \<and> ready c s'"
proof -
  have "case res of None \<Rightarrow> ready c s' | Some st \<Rightarrow> False"
  proof (rule backend_loop_rule [where I = "ready c" and A = "ready c" and F = "\<lambda>_ _. False", OF _ R run])
    fix s v s' assume "ready c s" "attempt_step rd wr env c i b req cbs stream s = (v, s')"
    from attempt_step_down [OF A b w this]
    show "case v of Again \<Rightarrow> ready c s' | Advance \<Rightarrow> ready c s' | Finish st \<Rightarrow> False" by auto
  qed
  then show ?thesis by (cases res) auto
qed

lemma ready_enter: "ready c (enter_backend s) = ready c s"
  by (simp add: ready_def enter_backend_def)

lemma chat_backends_down:
  assumes A: "able rd wr env c req" and w: "\<forall>ms w. fst (env_wait_ms env ms w) = 0"
  shows "(\<forall>b \<in> set ds. backend_wf rd b \<and> down env c stream b) \<Longrightarrow> ready c s \<Longrightarrow>
    \<exists>s'. ready c s' \<and> chat_backends rd wr env c i (ds @ bs) req cbs stream s =
      chat_backends rd wr env c (i + length ds) bs req cbs stream s'"
proof (induction ds arbitrary: i s)
  case (Cons d ds)
  obtain res s1 where l: "backend_loop rd wr env c i d req cbs stream (enter_backend s) = (res, s1)" by fastforce
  have "res = None \<and> ready c s1"
    using Cons.prems by (intro backend_loop_down [OF A _ _ w _ l]) (simp_all add: ready_enter)
  with Cons.IH [of s1 "Suc i"] Cons.prems(1) l show ?case by simp
qed auto

text \<open>
  The call: the backends before \<open>b\<close> are down, and every first round trip to \<open>b\<close> ends the
  call well.
\<close>

lemma chat_finishes:
  assumes A: "able rd wr env c req" and m: "all_ok m" and w: "\<forall>ms w. fst (env_wait_ms env ms w) = 0"
    and bs: "c_backends c = ds @ b # rest" "\<forall>d \<in> set ds. down env c stream d"
    and cbs: "case cbs of None \<Rightarrow> True | Some k \<Rightarrow> cb_struct_size_ok k"
    and good: "\<And>s x s'. ready c s \<Longrightarrow> ch_body s = None \<Longrightarrow> ch_headers s = None \<Longrightarrow>
      attempt_step rd wr env c (length ds) b req cbs stream s = (x, s') \<Longrightarrow> x = Finish SICHA_OK \<and> Q (ch_r s')"
  shows "\<exists>r c' w' m'. chat_common rd wr env (Some c) (Some req) cbs True stream w0 m
      = (SICHA_OK, Some (r\<lparr>r_status := SICHA_OK\<rparr>), c', w', m') \<and> Q r"
proof -
  have C: "client_ok rd c" using A by (simp add: able_def)
  from A obtain mv mv' where v: "sicha_request_validate rd req mv = (SICHA_OK, mv')" by (auto simp: able_def)
  obtain st0 m0 where v0: "sicha_request_validate rd req m = (st0, m0)" by fastforce
  have "backend_wf rd b" using C bs(1) by (simp add: client_ok_def)
  note vm = request_validate_mono [OF this v m v0]
  have st0: "st0 = SICHA_OK" and m0: "all_ok m0" using vm by simp_all
  obtain k m1 where 1: "alloc m0 = (k, m1)" by fastforce
  note k = all_ok_alloc [OF m0 1]
  obtain ok m2 where 2: "alloc4 m1 = (ok, m2)" by fastforce
  note k2 = alloc4_ok [OF conjunct2 [OF k] 2]
  let ?start = "chat_start c (fresh_result (c_max_response_bytes c)) w0 m2"
  have "ready c ?start" using k2 by (simp add: ready_def chat_start_def clean_def fresh_result_def)
  moreover have wf: "\<forall>d \<in> set (c_backends c). backend_wf rd d" using C by (simp add: client_ok_def)
  ultimately obtain s1 where s1: "ready c s1" "chat_backends rd wr env c 0 (c_backends c) req cbs stream ?start =
      chat_backends rd wr env c (length ds) (b # rest) req cbs stream s1"
    using chat_backends_down [OF A w, of ds stream ?start 0 "b # rest" cbs] bs by auto
  let ?s = "enter_backend s1"
  obtain x s' where st: "attempt_step rd wr env c (length ds) b req cbs stream ?s = (x, s')" by fastforce
  have step: "x = Finish SICHA_OK \<and> Q (ch_r s')"
    by (rule good [OF _ _ _ st]) (use s1(1) in \<open>simp_all add: ready_enter, simp_all add: enter_backend_def\<close>)
  have "backend_loop rd wr env c (length ds) b req cbs stream ?s = (Some SICHA_OK, s')"
    using step st by (simp add: backend_loop.simps)
  then have run: "chat_backends rd wr env c 0 (c_backends c) req cbs stream ?start = (SICHA_OK, s')"
    using s1(2) by simp
  have cb: "\<not> (case cbs of None \<Rightarrow> False | Some k \<Rightarrow> \<not> cb_struct_size_ok k)"
    using cbs by (cases cbs) simp_all
  have "chat_common rd wr env (Some c) (Some req) cbs True stream w0 m =
      (SICHA_OK, Some ((ch_r s')\<lparr>r_status := SICHA_OK\<rparr>), Some (c\<lparr>c_req_counter := c_req_counter c + 1\<rparr>), ch_w s', ch_mem s')"
    using cb k k2
    by (simp add: chat_common_def v0 st0 sicha_result_create_def 1 2 run Let_def)
  with step show ?thesis by blast
qed

theorem chat_falls_back:
  assumes A: "able rd wr env c req" and "all_ok m" "\<forall>ms w. fst (env_wait_ms env ms w) = 0"
    and bs: "c_backends c = ds @ b # rest" "\<forall>d \<in> set ds. down env c False d"
    and good: "\<forall>w. answers env c b http body w" "200 \<le> http" "http \<le> 299" "good_reply rd c body rp"
    and cbs: "\<forall>f r w. cb_of cbs cb_validate = Some f \<longrightarrow> fst (f r w) = 0"
      "case cbs of None \<Rightarrow> True | Some k \<Rightarrow> cb_struct_size_ok k"
  shows "\<exists>r c' w' m'. sicha_chat rd wr env (Some c) (Some req) cbs True w0 m = (SICHA_OK, Some r, c', w', m')
    \<and> r_backend r = int (length ds) \<and> buf_bytes (r_text r) = opt_bytes (rp_content rp)
    \<and> buf_bytes (r_reasoning r) = opt_bytes (rp_reasoning rp)
    \<and> take (r_raw_body_len r) (opt_bytes (r_raw_body r)) = body"
proof -
  let ?Q = "\<lambda>r. r_backend r = int (length ds) \<and> buf_bytes (r_text r) = opt_bytes (rp_content rp)
    \<and> buf_bytes (r_reasoning r) = opt_bytes (rp_reasoning rp)
    \<and> take (r_raw_body_len r) (opt_bytes (r_raw_body r)) = body"
  from A obtain mv mv' where v: "sicha_request_validate rd req mv = (SICHA_OK, mv')" by (auto simp: able_def)
  have c: "c_max_response_bytes c \<noteq> 0" "validate_overrides (override_list (c_policy c)) = SICHA_OK" "backend_wf rd b"
    using A bs(1) by (simp_all add: able_def client_ok_def)
  have rw: "\<forall>s v. rd s = Some v \<longrightarrow> json_ok v" "\<forall>v. json_ok v \<longrightarrow> wr v \<noteq> None"
    "\<forall>f w. env_cancelled env = Some f \<longrightarrow> \<not> f w" using A unfolding able_def by blast+
  have "\<exists>r c' w' m'. chat_common rd wr env (Some c) (Some req) cbs True False w0 m
      = (SICHA_OK, Some (r\<lparr>r_status := SICHA_OK\<rparr>), c', w', m') \<and> ?Q r"
  proof (rule chat_finishes [OF assms(1-5) cbs(2)])
    fix s x s'
    assume s: "ready c s" "ch_body s = None" "ch_headers s = None"
      and st: "attempt_step rd wr env c (length ds) b req cbs False s = (x, s')"
    have S: "answers env c b http body (ch_w s)" "all_ok (ch_mem s)" "clean (ch_r s)"
      "buf_max_len (r_text (ch_r s)) = c_max_response_bytes c"
      "buf_max_len (r_reasoning (ch_r s)) = c_max_response_bytes c"
      using good(1) s(1) by (simp_all add: ready_def)
    from step_succeeds [OF S(1) good(2-4) S(2) c(1) S(3) c(2) S(4,5) c(3) v rw cbs(1) s(2,3) st]
    show "x = Finish SICHA_OK \<and> ?Q (ch_r s')" by simp
  qed
  then show ?thesis unfolding sicha_chat_def by fastforce
qed

end
