(* ===== verification/Stream_Accept.thy ===== *)
theory Stream_Accept
  imports Response_Stream
begin

text \<open>
  A stream whose callbacks always let it go on: the callbacks make no difference to what the
  parser does and to what is accumulated, and within the caps the stream is read to its end.
\<close>

section \<open>Two callbacks that move together\<close>

text \<open>
  \<open>g\<close> does on the image of a state under \<open>h\<close> what \<open>f\<close> does on the state. Then so does the
  parser with \<open>g\<close> and with \<open>f\<close>.
\<close>

definition follows :: "('s \<Rightarrow> 't) \<Rightarrow> 's on_event \<Rightarrow> 't on_event \<Rightarrow> bool" where
  "follows h f g \<longleftrightarrow> (\<forall>d s m rc s' m'. f d s m = (rc, s', m') \<longrightarrow> g d (h s) m = (rc, h s', m'))"

lemma followsD: "follows h f g \<Longrightarrow> f d s m = (rc, s', m') \<Longrightarrow> g d (h s) m = (rc, h s', m')"
  by (simp add: follows_def)

lemma sse_dispatch_follows:
  assumes "follows h f g" "sse_dispatch (Some f) p s m = (rc, p', s', m')"
  shows "sse_dispatch (Some g) p (h s) m = (rc, p', h s', m')"
proof -
  obtain rc1 s1 m1 where f: "f (buf_bytes (sse_data_buf p)) s m = (rc1, s1, m1)" by (metis prod_cases3)
  from assms(2) f followsD [OF assms(1) f] show ?thesis by (auto simp: sse_dispatch_def split: if_splits)
qed

lemma sse_line_follows:
  assumes "follows h f g" "sse_line (Some f) p line s m = (rc, p', s', m')"
  shows "sse_line (Some g) p line (h s) m = (rc, p', h s', m')"
  using assms(2) sse_dispatch_follows [OF assms(1)]
  by (auto simp: sse_line_def split: if_splits prod.splits simp del: lit_simps)

lemma sse_eol_follows:
  assumes "follows h f g" "sse_eol (Some f) p b s m = (rc, p', s', m')"
  shows "sse_eol (Some g) p b (h s) m = (rc, p', h s', m')"
proof -
  obtain rc1 p1 s1 m1 where l: "sse_line (Some f) p (buf_bytes (sse_line_buf p)) s m = (rc1, p1, s1, m1)"
    by (metis prod_cases4)
  from assms(2) sse_line_follows [OF assms(1) l] l show ?thesis by (auto simp: sse_eol_def Let_def split: if_splits)
qed

lemma sse_byte_follows:
  assumes "follows h f g" "sse_byte (Some f) p b s m = (rc, p', s', m')"
  shows "sse_byte (Some g) p b (h s) m = (rc, p', h s', m')"
  using assms(2) sse_eol_follows [OF assms(1)] by (auto simp: sse_byte_def Let_def split: if_splits prod.splits)

lemma sse_bytes_follows:
  "follows h f g \<Longrightarrow> sse_bytes (Some f) p bs s m = (rc, p', s', m') \<Longrightarrow>
    sse_bytes (Some g) p bs (h s) m = (rc, p', h s', m')"
proof (induction bs arbitrary: p s m)
  case (Cons b bs)
  obtain rc1 p1 s1 m1 where b: "sse_byte (Some f) p b s m = (rc1, p1, s1, m1)" by (metis prod_cases4)
  from Cons b sse_byte_follows [OF Cons.prems(1) b] show ?case by (auto split: if_splits)
qed simp

lemma sicha_sse_feed_follows:
  assumes "follows h f g" "sicha_sse_feed (Some f) p bs s m = (rc, p', s', m')"
  shows "sicha_sse_feed (Some g) p bs (h s) m = (rc, p', h s', m')"
  using assms(2) sse_bytes_follows [OF assms(1)]
  by (auto simp: sicha_sse_feed_def Let_def split: if_splits prod.splits)

lemma sicha_sse_finish_follows:
  assumes F: "follows h f g" "sicha_sse_finish (Some f) p s m = (rc, p', s', m')"
  shows "sicha_sse_finish (Some g) p (h s) m = (rc, p', h s', m')"
proof -
  obtain q m1 where q: "(if \<not> sse_bom_decided p \<and> 0 < sse_bom_seen p then
       let (l, m) = sicha_buf_append (sse_line_buf p) (take (sse_bom_seen p) bom) m
       in (p\<lparr>sse_line_buf := l, sse_bom_seen := 0\<rparr>, m) else (p, m)) = (q, m1)" by fastforce
  let ?q = "q\<lparr>sse_bom_decided := True\<rparr>"
  obtain rc1 p1 s1 m2 where l1: "sse_line (Some f) ?q (buf_bytes (sse_line_buf ?q)) s m1 = (rc1, p1, s1, m2)"
    by (metis prod_cases4)
  note L1 = sse_line_follows [OF F(1) l1]
  let ?r = "if 0 < buf_len (sse_line_buf ?q) then p1\<lparr>sse_line_buf := sicha_buf_reset (sse_line_buf p1)\<rparr> else ?q"
  let ?s = "if 0 < buf_len (sse_line_buf ?q) then s1 else s"
  let ?m = "if 0 < buf_len (sse_line_buf ?q) then m2 else m1"
  obtain rc2 p2 s2 m3 where l2: "sse_line (Some f) ?r [] ?s ?m = (rc2, p2, s2, m3)" by (metis prod_cases4)
  note L2 = sse_line_follows [OF F(1) l2]
  show ?thesis
    using F(2) unfolding sicha_sse_finish_def q
    by (cases "0 < buf_len (sse_line_buf ?q)") (use l1 L1 l2 L2 in \<open>auto simp: Let_def split: if_splits\<close>)
qed

section \<open>Callbacks that let the stream go on\<close>

definition accepts :: "'w sicha_callbacks option \<Rightarrow> bool" where
  "accepts cbs \<longleftrightarrow>
     (\<forall>f bs w. cb_of cbs cb_on_delta = Some f \<or> cb_of cbs cb_on_reasoning = Some f
        \<or> cb_of cbs cb_on_raw_chunk = Some f \<longrightarrow> fst (f bs w) = 0)"

lemma call_cb_accepts:
  assumes "accepts cbs" "cb = cb_of cbs cb_on_delta \<or> cb = cb_of cbs cb_on_reasoning \<or> cb = cb_of cbs cb_on_raw_chunk"
  shows "fst (call_cb cb bs w) = 0"
  using assms by (auto simp: accepts_def call_cb_def split: option.split prod.split) (metis fst_conv)+

text \<open>The stream context without the mark that a callback has been called.\<close>

definition forget :: "sicha_stream_ctx \<Rightarrow> sicha_stream_ctx" where
  "forget ctx = ctx\<lparr>sc_delivered := False\<rparr>"

definition muted :: "sicha_stream_ctx \<times> 'w \<Rightarrow> sicha_stream_ctx \<times> unit" where
  "muted s = (forget (fst s), ())"

lemma forget_simps [simp]:
  "sc_r (forget c) = sc_r c" "sc_accumulate (forget c) = sc_accumulate c" "sc_done (forget c) = sc_done c"
  "sc_saw_event (forget c) = sc_saw_event c" "sc_err (forget c) = sc_err c" "sc_last_raw (forget c) = sc_last_raw c"
  "(forget c)\<lparr>sc_last_raw := b\<rparr> = forget (c\<lparr>sc_last_raw := b\<rparr>)" "(forget c)\<lparr>sc_err := e\<rparr> = forget (c\<lparr>sc_err := e\<rparr>)"
  "(forget c)\<lparr>sc_r := r\<rparr> = forget (c\<lparr>sc_r := r\<rparr>)" "(forget c)\<lparr>sc_done := x\<rparr> = forget (c\<lparr>sc_done := x\<rparr>)"
  "(forget c)\<lparr>sc_saw_event := x\<rparr> = forget (c\<lparr>sc_saw_event := x\<rparr>)" "forget (c\<lparr>sc_delivered := x\<rparr>) = forget c"
  by (simp_all add: forget_def)

lemma cb_of_None [simp]: "cb_of None sel = None"
  by (simp add: cb_of_def)

lemma raw_chunk_quiet:
  assumes "accepts cbs" "raw_chunk cbs ctx data w m = (rc, ctx', w', m')"
  shows "raw_chunk None (forget ctx) data () m = (rc, forget ctx', (), m')"
proof -
  obtain lr m1 where a: "sicha_buf_append (sicha_buf_reset (sc_last_raw ctx)) (take SICHA_EXCERPT_MAX data) m = (lr, m1)"
    by fastforce
  obtain c w1 where c: "call_cb (cb_of cbs cb_on_raw_chunk) data w = (c, w1)" by fastforce
  have "c = 0" using call_cb_accepts [OF assms(1), of "cb_of cbs cb_on_raw_chunk" data w] c by simp
  with assms(2) a c show ?thesis by (auto simp: raw_chunk_def call_cb_None Let_def split: if_splits)
qed

lemma deliver_quiet:
  assumes "fst (call_cb cb bs w) = 0" "deliver ctx b cb bs w m = (rc, ctx', b', w', m')"
  shows "deliver (forget ctx) b None bs () m = (rc, forget ctx', b', (), m')"
proof -
  obtain b1 m1 where a: "sicha_buf_append b bs m = (b1, m1)" by fastforce
  obtain c w1 where c: "call_cb cb bs w = (c, w1)" by fastforce
  with assms a show ?thesis by (auto simp: deliver_def call_cb_None Let_def split: if_splits)
qed

lemma deliver_text_quiet:
  assumes "accepts cbs" "deliver_text cbs ctx content w m = (rc, ctx', w', m')"
  shows "deliver_text None (forget ctx) content () m = (rc, forget ctx', (), m')"
  using assms(2) deliver_quiet [OF call_cb_accepts [OF assms(1)]]
  by (fastforce simp: deliver_text_def split: option.splits prod.splits)

lemma deliver_reasoning_quiet:
  assumes "accepts cbs" "deliver_reasoning cbs ctx reas w m = (rc, ctx', w', m')"
  shows "deliver_reasoning None (forget ctx) reas () m = (rc, forget ctx', (), m')"
  using assms(2) deliver_quiet [OF call_cb_accepts [OF assms(1)]]
  by (fastforce simp: deliver_reasoning_def split: option.splits prod.splits)

lemma delta_stage_quiet:
  assumes "accepts cbs" "delta_stage cbs ctx data delta w m = (rc, ctx', w', m')"
  shows "delta_stage None (forget ctx) data delta () m = (rc, forget ctx', (), m')"
proof -
  let ?s = "case str_member delta ''reasoning'' of
    Some s \<Rightarrow> Some s | None \<Rightarrow> str_member delta ''reasoning_content''"
  obtain rc1 c1 w1 m1 where t: "deliver_text cbs ctx (str_member delta ''content'') w m = (rc1, c1, w1, m1)"
    by (metis prod_cases4)
  obtain rc2 c2 w2 m2 where u: "deliver_reasoning cbs c1 ?s w1 m1 = (rc2, c2, w2, m2)" by (metis prod_cases4)
  show ?thesis
    using assms(2) raw_chunk_quiet [OF assms(1)] deliver_text_quiet [OF assms(1) t] deliver_reasoning_quiet [OF assms(1) u]
    unfolding delta_stage_def Let_def t prod.case u by (auto split: if_splits)
qed

lemma stream_finish_stage_quiet:
  "stream_finish_stage ctx c0 m = (rc, ctx', m') \<Longrightarrow> stream_finish_stage (forget ctx) c0 m = (rc, forget ctx', m')"
  by (auto simp: stream_finish_stage_def Let_def split: option.splits prod.splits if_splits)

lemma meta_stage_quiet:
  "meta_stage ctx root m = (rc, ctx', m') \<Longrightarrow> meta_stage (forget ctx) root m = (rc, forget ctx', m')"
  by (auto simp: meta_stage_def Let_def split: prod.splits if_splits)

lemma choices_stage_quiet:
  assumes "accepts cbs" "choices_stage cbs ctx data root w m = (go, rc, ctx', w', m')"
  shows "choices_stage None (forget ctx) data root () m = (go, rc, forget ctx', (), m')"
proof (cases "first_elem root")
  case None
  with assms(2) show ?thesis by (simp add: choices_stage_eq)
next
  case (Some c)
  obtain rc1 c1 w1 m1 where d: "(case delta_of c of None \<Rightarrow> (0, ctx, w, m)
      | Some delta \<Rightarrow> delta_stage cbs ctx data delta w m) = (rc1, c1, w1, m1)" by (metis prod_cases4)
  have d0: "(case delta_of c of None \<Rightarrow> (0, forget ctx, (), m)
      | Some delta \<Rightarrow> delta_stage None (forget ctx) data delta () m) = (rc1, forget c1, (), m1)"
    using d delta_stage_quiet [OF assms(1)] by (auto split: option.splits)
  obtain rc2 c2 w2 m2 where r: "raw_chunk cbs ctx data w m = (rc2, c2, w2, m2)" by (metis prod_cases4)
  obtain rc3 c3 m3 where f: "stream_finish_stage c1 c m1 = (rc3, c3, m3)" by (metis prod_cases3)
  from assms(2) show ?thesis
    using raw_chunk_quiet [OF assms(1) r] stream_finish_stage_quiet [OF f] r f
    by (auto simp: choices_stage_eq Some d d0 split: if_splits)
qed

lemma on_event_quiet:
  assumes "accepts cbs"
  shows "follows muted (sicha_stream_on_event rd cbs) (sicha_stream_on_event rd None)"
  unfolding follows_def
proof (intro allI impI)
  fix d s m rc s' m'
  assume E: "sicha_stream_on_event rd cbs d s m = (rc, s', m')"
  obtain ctx w where s: "s = (ctx, w)" by fastforce
  obtain v m1 where y: "yyjson_read rd d m = (v, m1)" by fastforce
  obtain rc1 c1 w1 m2 where r: "raw_chunk cbs ctx d w m1 = (rc1, c1, w1, m2)" by (metis prod_cases4)
  show "sicha_stream_on_event rd None d (muted s) m = (rc, muted s', m')"
  proof (cases "\<exists>root. v = Some root \<and> yyjson_is_obj root \<and> yyjson_obj_get root (lit ''error'') = None")
    case False
    with E y r raw_chunk_quiet [OF assms r] show ?thesis
      by (cases v) (auto simp: sicha_stream_on_event_def s muted_def simp del: lit_simps split: if_splits)
  next
    case True
    then obtain root where v: "v = Some root" "yyjson_is_obj root" "yyjson_obj_get root (lit ''error'') = None"
      by blast
    obtain go rc2 c2 w2 m3 where c: "choices_stage cbs (ctx\<lparr>sc_saw_event := True\<rparr>) d root w m1 = (go, rc2, c2, w2, m3)"
      by (metis prod_cases5)
    obtain rc3 c3 m4 where e: "meta_stage c2 root m3 = (rc3, c3, m4)" by (metis prod_cases3)
    note C = choices_stage_quiet [OF assms c] meta_stage_quiet [OF e]
    show ?thesis
      using E v y c e C by (auto simp: sicha_stream_on_event_def s muted_def simp del: lit_simps split: if_splits)
  qed
qed

section \<open>A stream that fits\<close>

text \<open>
  A buffer in which \<open>n\<close> more bytes fit, and a context in which so much text and reasoning fits
  and whose finish reason is the one of its raw string.
\<close>

definition finish_of :: "bytes option \<Rightarrow> sicha_finish_reason" where
  "finish_of raw = (case raw of None \<Rightarrow> SICHA_FINISH_UNKNOWN | Some f \<Rightarrow> finish_named f)"

definition fits :: "sicha_buf \<Rightarrow> nat \<Rightarrow> bool" where
  "fits b n \<longleftrightarrow> buf_wf b \<and> buf_err b = SICHA_OK \<and> length (buf_bytes b) + n < SIZE_MAX
     \<and> (buf_max_len b = 0 \<or> length (buf_bytes b) + n \<le> buf_max_len b)"

definition room :: "sicha_stream_ctx \<Rightarrow> nat \<Rightarrow> nat \<Rightarrow> bool" where
  "room ctx t r \<longleftrightarrow> sc_err ctx = SICHA_OK \<and> fits (r_text (sc_r ctx)) t \<and> fits (r_reasoning (sc_r ctx)) r
     \<and> buf_wf (sc_last_raw ctx) \<and> buf_err (sc_last_raw ctx) = SICHA_OK
     \<and> buf_max_len (sc_last_raw ctx) = SICHA_EXCERPT_MAX
     \<and> r_finish (sc_r ctx) = finish_of (r_finish_raw (sc_r ctx))"

lemma append_fits:
  assumes "fits b (length s + n)" "all_ok m" "sicha_buf_append b s m = (b', m')"
  shows "fits b' n \<and> all_ok m'"
proof -
  from assms(1) have b: "buf_wf b" "buf_err b = SICHA_OK" by (simp_all add: fits_def)
  have "length (buf_bytes b) + length s < SIZE_MAX"
    "buf_max_len b \<noteq> 0 \<Longrightarrow> length (buf_bytes b) + length s \<le> buf_max_len b"
    using assms(1) by (auto simp: fits_def)
  from sicha_buf_append_fits [OF b assms(2) this] obtain b1 m1 where
    "sicha_buf_append b s m = (b1, m1)" "buf_wf b1" "buf_bytes b1 = buf_bytes b @ s" "buf_err b1 = SICHA_OK"
    "buf_max_len b1 = buf_max_len b" "all_ok m1" by blast
  with assms show ?thesis by (auto simp: fits_def)
qed

lemma fits_less: "fits b (k + n) \<Longrightarrow> fits b n"
  by (auto simp: fits_def)

lemma raw_chunk_room:
  assumes "room ctx t r" "all_ok m" "raw_chunk None ctx data w m = (rc, c, w', m')"
  shows "rc = 0 \<and> room c t r \<and> all_ok m'"
proof -
  let ?d = "take SICHA_EXCERPT_MAX data" and ?b = "sicha_buf_reset (sc_last_raw ctx)"
  have b: "buf_wf ?b" "buf_err ?b = SICHA_OK" "buf_bytes ?b = []" "buf_max_len ?b = SICHA_EXCERPT_MAX"
    using assms(1) by (simp_all add: room_def sicha_buf_reset_wf)
  have "length (buf_bytes ?b) + length ?d < SIZE_MAX"
    "buf_max_len ?b \<noteq> 0 \<Longrightarrow> length (buf_bytes ?b) + length ?d \<le> buf_max_len ?b"
    using b(3,4) by (simp_all add: SICHA_EXCERPT_MAX_def SIZE_MAX_def)
  from sicha_buf_append_fits [OF b(1,2) assms(2) this] obtain b1 m1 where
    "sicha_buf_append ?b ?d m = (b1, m1)" "buf_wf b1" "buf_err b1 = SICHA_OK"
    "buf_max_len b1 = buf_max_len ?b" "all_ok m1" by blast
  with assms b(4) show ?thesis
    by (auto simp: raw_chunk_def call_cb_None sicha_buf_status_def room_def)
qed

lemma deliver_room:
  assumes "fits b (length bs + n)" "all_ok m" "deliver ctx b None bs w m = (rc, ctx', b', w', m')"
  shows "rc = 0 \<and> ctx' = ctx \<and> fits b' n \<and> all_ok m'"
proof (cases "bs = []")
  case True
  with assms show ?thesis by (simp add: deliver_def)
next
  case False
  obtain b1 m1 where a: "sicha_buf_append b bs m = (b1, m1)" by fastforce
  note A = append_fits [OF assms(1,2) a]
  then have "buf_err b1 = SICHA_OK" by (simp add: fits_def)
  with assms False a A fits_less [OF assms(1)] show ?thesis
    by (auto simp: deliver_def call_cb_None sicha_buf_status_def split: if_splits)
qed

lemma deliver_text_room:
  assumes "room ctx (length (opt_bytes content) + t) r" "all_ok m"
    "deliver_text None ctx content w m = (rc, ctx', w', m')"
  shows "rc = 0 \<and> room ctx' t r \<and> all_ok m'"
proof (cases content)
  case None
  with assms show ?thesis by (simp add: deliver_text_def opt_bytes_def)
next
  case (Some bs)
  obtain c1 b1 where d: "deliver ctx (r_text (sc_r ctx)) None bs w m = (rc, c1, b1, w', m')"
    and c': "ctx' = c1\<lparr>sc_r := (sc_r c1)\<lparr>r_text := b1\<rparr>\<rparr>"
    using assms(3) Some by (auto simp: deliver_text_def split: prod.splits)
  have "fits (r_text (sc_r ctx)) (length bs + t)" using assms(1) Some by (simp add: room_def opt_bytes_def)
  from deliver_room [OF this assms(2) d] c' assms(1) show ?thesis by (simp add: room_def)
qed

lemma deliver_reasoning_room:
  assumes "room ctx t (length (opt_bytes reas) + r)" "all_ok m"
    "deliver_reasoning None ctx reas w m = (rc, ctx', w', m')"
  shows "rc = 0 \<and> room ctx' t r \<and> all_ok m'"
proof (cases reas)
  case None
  with assms show ?thesis by (simp add: deliver_reasoning_def opt_bytes_def)
next
  case (Some bs)
  obtain c1 b1 where d: "deliver ctx (r_reasoning (sc_r ctx)) None bs w m = (rc, c1, b1, w', m')"
    and c': "ctx' = c1\<lparr>sc_r := (sc_r c1)\<lparr>r_reasoning := b1\<rparr>\<rparr>"
    using assms(3) Some by (auto simp: deliver_reasoning_def split: prod.splits)
  have "fits (r_reasoning (sc_r ctx)) (length bs + r)" using assms(1) Some by (simp add: room_def opt_bytes_def)
  from deliver_room [OF this assms(2) d] c' assms(1) show ?thesis by (simp add: room_def)
qed

lemma delta_stage_room:
  assumes "room ctx (length (opt_bytes (delta_text delta)) + t) (length (opt_bytes (delta_reasoning delta)) + r)"
    "all_ok m" "delta_stage None ctx data delta w m = (rc, ctx', w', m')"
  shows "rc = 0 \<and> room ctx' t r \<and> all_ok m'"
proof -
  obtain rc1 c1 w1 m1 where d: "deliver_text None ctx (delta_text delta) w m = (rc1, c1, w1, m1)"
    by (metis prod_cases4)
  note D = deliver_text_room [OF assms(1,2) d]
  obtain rc2 c2 w2 m2 where u: "deliver_reasoning None c1 (delta_reasoning delta) w1 m1 = (rc2, c2, w2, m2)"
    by (metis prod_cases4)
  have U: "rc2 = 0 \<and> room c2 t r \<and> all_ok m2" using D by (intro deliver_reasoning_room [OF _ _ u]) simp_all
  from assms(3) [unfolded delta_stage_def Let_def delta_text_def [symmetric] delta_reasoning_def [symmetric]
      d prod.case u] D U show ?thesis
    using raw_chunk_room [of c2 t r m2 data w2 rc ctx' w' m'] by (auto split: if_splits)
qed

lemma with_meta_room:
  "room ctx t r \<Longrightarrow> room (ctx\<lparr>sc_r := with_finish f (sc_r ctx)\<rparr>) t r"
  "room (ctx\<lparr>sc_r := with_model root (lift_usage (sc_r ctx) root)\<rparr>) t r = room ctx t r"
  by (auto simp: room_def with_finish_def with_model_def lift_usage_def finish_of_def Let_def split: option.split)

lemma choices_stage_room:
  assumes "room ctx (length (case first_elem root of None \<Rightarrow> [] | Some c \<Rightarrow> if yyjson_is_obj c
        then (case delta_of c of None \<Rightarrow> [] | Some d \<Rightarrow> opt_bytes (delta_text d)) else []) + t)
      (length (case first_elem root of None \<Rightarrow> [] | Some c \<Rightarrow> if yyjson_is_obj c
        then (case delta_of c of None \<Rightarrow> [] | Some d \<Rightarrow> opt_bytes (delta_reasoning d)) else []) + r)"
    "all_ok m" "choices_stage None ctx data root w m = (go, rc, ctx', w', m')"
  shows "rc = 0 \<and> room ctx' t r \<and> all_ok m'"
proof (cases "first_elem root")
  case None
  with assms show ?thesis by (simp add: choices_stage_eq)
next
  case (Some c)
  show ?thesis
  proof (cases "yyjson_is_obj c")
    case False
    obtain rc1 c1 w1 m1 where r: "raw_chunk None ctx data w m = (rc1, c1, w1, m1)" by (metis prod_cases4)
    have "room ctx t r" using assms(1) False Some by simp
    from raw_chunk_room [OF this assms(2) r] assms(3) r False Some show ?thesis by (simp add: choices_stage_eq)
  next
    case True
    obtain rc1 c1 w1 m1 where d: "(case delta_of c of None \<Rightarrow> (0, ctx, w, m)
        | Some delta \<Rightarrow> delta_stage None ctx data delta w m) = (rc1, c1, w1, m1)" by (metis prod_cases4)
    have D: "rc1 = 0 \<and> room c1 t r \<and> all_ok m1"
    proof (cases "delta_of c")
      case None
      with d assms(1,2) Some True show ?thesis by simp
    next
      case (Some dl)
      with d have "delta_stage None ctx data dl w m = (rc1, c1, w1, m1)" by simp
      with delta_stage_room [of ctx dl t r] assms(1,2) \<open>first_elem root = Some c\<close> True Some show ?thesis by simp
    qed
    obtain rc3 c3 m3 where f: "stream_finish_stage c1 c m1 = (rc3, c3, m3)" by (metis prod_cases3)
    have "rc3 = 0 \<and> room c3 t r \<and> all_ok m3"
      using stream_finish_stage_cases [OF f] D by (auto simp: with_meta_room)
    with assms(3) D True show ?thesis by (auto simp: choices_stage_eq Some d f)
  qed
qed

lemma on_event_room:
  assumes "room ctx (length (chunk_text rd d) + t) (length (chunk_reasoning rd d) + r)" "all_ok m"
    "d \<noteq> lit ''[DONE]''" "sicha_stream_on_event rd None d (ctx, w) m = (rc, (ctx', w'), m')"
  shows "rc = 0 \<and> room ctx' t r"
proof -
  obtain v m1 where y: "yyjson_read rd d m = (v, m1)" by fastforce
  have m1: "all_ok m1" and v: "v = rd d" using yyjson_read_ok [OF assms(2), of rd d] y by auto
  have less: "room ctx t r" using assms(1) fits_less by (auto simp: room_def)
  obtain rc1 c1 w1 m2 where r: "raw_chunk None ctx d w m1 = (rc1, c1, w1, m2)" by (metis prod_cases4)
  note R = raw_chunk_room [OF less m1 r]
  show ?thesis
  proof (cases "\<exists>root. v = Some root \<and> yyjson_is_obj root \<and> yyjson_obj_get root (lit ''error'') = None")
    case False
    with assms(3,4) y r R show ?thesis
      by (cases v) (auto simp: sicha_stream_on_event_def simp del: lit_simps split: if_splits)
  next
    case True
    then obtain root where v': "v = Some root" "yyjson_is_obj root" "yyjson_obj_get root (lit ''error'') = None"
      by blast
    let ?ctx = "ctx\<lparr>sc_saw_event := True\<rparr>"
    obtain go rc2 c2 w2 m3 where c: "choices_stage None ?ctx d root w m1 = (go, rc2, c2, w2, m3)"
      by (metis prod_cases5)
    have "rd d = Some root" using v v'(1) by simp
    then have "usable_root rd d = Some root" using v'(2,3) by (simp add: usable_root_def del: lit_simps)
    then have "chunk_text rd d = (case first_elem root of None \<Rightarrow> [] | Some c \<Rightarrow> if yyjson_is_obj c
        then (case delta_of c of None \<Rightarrow> [] | Some d \<Rightarrow> opt_bytes (delta_text d)) else [])"
      "chunk_reasoning rd d = (case first_elem root of None \<Rightarrow> [] | Some c \<Rightarrow> if yyjson_is_obj c
        then (case delta_of c of None \<Rightarrow> [] | Some d \<Rightarrow> opt_bytes (delta_reasoning d)) else [])"
      using assms(3)
      by (auto simp: chunk_text_def chunk_reasoning_def chunk_delta_def chunk_choice_def split: option.split
          simp del: lit_simps)
    then have "room ?ctx (length (case first_elem root of None \<Rightarrow> [] | Some c \<Rightarrow> if yyjson_is_obj c
        then (case delta_of c of None \<Rightarrow> [] | Some d \<Rightarrow> opt_bytes (delta_text d)) else []) + t)
      (length (case first_elem root of None \<Rightarrow> [] | Some c \<Rightarrow> if yyjson_is_obj c
        then (case delta_of c of None \<Rightarrow> [] | Some d \<Rightarrow> opt_bytes (delta_reasoning d)) else []) + r)"
      using assms(1) by (simp add: room_def)
    note C = choices_stage_room [OF this m1 c]
    obtain rc3 c3 m4 where e: "meta_stage c2 root m3 = (rc3, c3, m4)" by (metis prod_cases3)
    have "rc3 = 0 \<and> room c3 t r" using meta_stage_cases [OF e] C by (auto simp: with_meta_room)
    with assms(3,4) v' y c e C show ?thesis
      by (auto simp: sicha_stream_on_event_def simp del: lit_simps split: if_splits)
  qed
qed

text \<open>Hence the whole stream, and its finish reason: the last one a chunk gives.\<close>

definition stream_finish :: "json_reader \<Rightarrow> bytes list \<Rightarrow> bytes option" where
  "stream_finish rd evs = fold (\<lambda>e. last_finish (chunk_finish rd e)) (before_done evs) None"

lemma processed_room:
  assumes "processed True (sicha_stream_on_event rd None) s evs s' rc"
    "room (fst s) (length (stream_text rd evs)) (length (stream_reasoning rd evs))"
  shows "(rc = 0 \<or> rc = SICHA_STREAM_STOP) \<and> sc_err (fst s') = SICHA_OK
    \<and> r_finish (sc_r (fst s')) = finish_of (r_finish_raw (sc_r (fst s')))"
  using assms
proof (induction rule: processed.induct)
  case (stop s)
  then show ?case by (simp add: room_def)
next
  case (last d s m rc s' m')
  obtain ctx w ctx' w' where s: "s = (ctx, w)" "s' = (ctx', w')" by fastforce
  show ?case
  proof (cases "d = lit ''[DONE]''")
    case True
    with last s on_event_done [of rd None ctx w m] show ?thesis by (auto simp: room_def simp del: lit_simps)
  next
    case False
    with last s on_event_room [of ctx rd d 0 0 m w rc ctx' w' m'] show ?thesis
      by (simp add: stream_text_def stream_reasoning_def before_done_def del: lit_simps)
  qed
next
  case (step d s m s1 m' ds s' rc)
  obtain ctx w ctx1 w1 where s: "s = (ctx, w)" "s1 = (ctx1, w1)" by fastforce
  have d: "d \<noteq> lit ''[DONE]''"
    using step(1) s on_event_done [of rd None ctx w m] by (auto simp del: lit_simps)
  with step(1,2,5) s on_event_room [of ctx rd d "length (stream_text rd ds)" "length (stream_reasoning rd ds)" m w 0 ctx1 w1 m']
  have "room ctx1 (length (stream_text rd ds)) (length (stream_reasoning rd ds))"
    by (simp add: stream_text_def stream_reasoning_def before_done_def del: lit_simps)
  with step(4) s show ?case by simp
qed

lemma processed_finish:
  assumes "processed True (sicha_stream_on_event rd cbs) s evs s' rc" "ctx_live (fst s)"
    "rc = 0 \<or> rc = SICHA_STREAM_STOP"
  shows "r_finish_raw (sc_r (fst s')) =
    fold (\<lambda>e. last_finish (chunk_finish rd e)) (before_done evs) (r_finish_raw (sc_r (fst s)))"
  using assms
proof (induction rule: processed.induct)
  case (stop s)
  then show ?case by (simp add: before_done_def)
next
  case (last d s m rc s' m')
  obtain ctx w ctx' w' where s: "s = (ctx, w)" "s' = (ctx', w')" by fastforce
  show ?case
  proof (cases "d = lit ''[DONE]''")
    case True
    with last s on_event_done [of rd cbs ctx w m] show ?thesis
      by (auto simp: before_done_def simp del: lit_simps)
  next
    case False
    from on_event_adds [OF _ False last(1) [unfolded s]] last s have False by (auto simp: adds_def)
    then show ?thesis ..
  qed
next
  case (step d s m s1 m' ds s' rc)
  obtain ctx w ctx1 w1 where s: "s = (ctx, w)" "s1 = (ctx1, w1)" by fastforce
  have d: "d \<noteq> lit ''[DONE]''"
    using step(1) s on_event_done [of rd cbs ctx w m] by (auto simp del: lit_simps)
  from on_event_adds [OF _ d step(1) [unfolded s]] step(2,5) s
  have A: "adds (chunk_text rd d) (chunk_reasoning rd d) (chunk_finish rd d) 0 ctx ctx1" by simp
  with step(4) [OF _ step(6)] d s show ?case by (simp add: adds_def before_done_def del: lit_simps)
qed

text \<open>The code -1 comes with an error in the context.\<close>

lemma raw_chunk_err: "raw_chunk None ctx data w m = (rc, c, w', m') \<Longrightarrow> rc = -1 \<Longrightarrow> sc_err c \<noteq> SICHA_OK"
  by (auto simp: raw_chunk_def call_cb_None Let_def split: prod.splits if_splits)

lemma deliver_err: "deliver ctx b None bs w m = (rc, c, b', w', m') \<Longrightarrow> rc = -1 \<Longrightarrow> sc_err c \<noteq> SICHA_OK"
  by (auto simp: deliver_def call_cb_None Let_def split: prod.splits if_splits)

lemma deliver_stage_err:
  "deliver_text None ctx x w m = (rc, c, w', m') \<Longrightarrow> rc = -1 \<Longrightarrow> sc_err c \<noteq> SICHA_OK"
  "deliver_reasoning None ctx x w m = (rc, c, w', m') \<Longrightarrow> rc = -1 \<Longrightarrow> sc_err c \<noteq> SICHA_OK"
  by (auto simp: deliver_text_def deliver_reasoning_def split: option.splits prod.splits dest: deliver_err)

lemma delta_stage_err:
  assumes "delta_stage None ctx data delta w m = (rc, c, w', m')" "rc = -1"
  shows "sc_err c \<noteq> SICHA_OK"
proof -
  obtain rc1 c1 w1 m1 where t: "deliver_text None ctx (delta_text delta) w m = (rc1, c1, w1, m1)"
    by (metis prod_cases4)
  obtain rc2 c2 w2 m2 where u: "deliver_reasoning None c1 (delta_reasoning delta) w1 m1 = (rc2, c2, w2, m2)"
    by (metis prod_cases4)
  obtain rc3 c3 w3 m3 where r: "raw_chunk None c2 data w2 m2 = (rc3, c3, w3, m3)" by (metis prod_cases4)
  from assms(1) [unfolded delta_stage_def Let_def delta_text_def [symmetric] delta_reasoning_def [symmetric]
      t prod.case u r] deliver_stage_err(1) [OF t] deliver_stage_err(2) [OF u] raw_chunk_err [OF r] assms(2)
  show ?thesis by (auto split: if_splits)
qed

lemma choices_stage_err:
  assumes "choices_stage None ctx data root w m = (go, rc, c, w', m')" "rc = -1"
  shows "sc_err c \<noteq> SICHA_OK"
proof (cases "first_elem root")
  case (Some c0)
  obtain rc1 c1 w1 m1 where d: "(case delta_of c0 of None \<Rightarrow> (0, ctx, w, m)
      | Some delta \<Rightarrow> delta_stage None ctx data delta w m) = (rc1, c1, w1, m1)" by (metis prod_cases4)
  obtain rc2 c2 w2 m2 where r: "raw_chunk None ctx data w m = (rc2, c2, w2, m2)" by (metis prod_cases4)
  obtain rc3 c3 m3 where f: "stream_finish_stage c1 c0 m1 = (rc3, c3, m3)" by (metis prod_cases3)
  have "rc1 = -1 \<Longrightarrow> sc_err c1 \<noteq> SICHA_OK"
    using d delta_stage_err [of ctx data _ w m rc1 c1 w1 m1] by (cases "delta_of c0") auto
  with assms raw_chunk_err [OF r] stream_finish_stage_cases [OF f] show ?thesis
    by (auto simp: choices_stage_eq Some d f r split: if_splits)
qed (use assms in \<open>simp add: choices_stage_eq\<close>)

lemma on_event_err:
  assumes "sicha_stream_on_event rd None d s m = (-1, s', m')"
  shows "sc_err (fst s') \<noteq> SICHA_OK"
proof -
  obtain ctx w where s: "s = (ctx, w)" by fastforce
  have stop: "SICHA_STREAM_STOP \<noteq> -1" by simp
  obtain v m1 where y: "yyjson_read rd d m = (v, m1)" by fastforce
  obtain rc1 c1 w1 m2 where r: "raw_chunk None ctx d w m1 = (rc1, c1, w1, m2)" by (metis prod_cases4)
  show ?thesis
  proof (cases "\<exists>root. v = Some root \<and> yyjson_is_obj root \<and> yyjson_obj_get root (lit ''error'') = None")
    case False
    with assms y r raw_chunk_err [OF r] show ?thesis
      by (cases v) (auto simp: sicha_stream_on_event_def s simp del: lit_simps split: if_splits)
  next
    case True
    then obtain root where v: "v = Some root" "yyjson_is_obj root" "yyjson_obj_get root (lit ''error'') = None"
      by blast
    obtain go rc2 c2 w2 m3 where c: "choices_stage None (ctx\<lparr>sc_saw_event := True\<rparr>) d root w m1 = (go, rc2, c2, w2, m3)"
      by (metis prod_cases5)
    obtain rc3 c3 m4 where e: "meta_stage c2 root m3 = (rc3, c3, m4)" by (metis prod_cases3)
    from v assms y c e choices_stage_err [OF c] meta_stage_cases [OF e] show ?thesis
      by (auto simp: sicha_stream_on_event_def s simp del: lit_simps split: if_splits)
  qed
qed

lemma room_less: "room ctx t r \<Longrightarrow> t' \<le> t \<Longrightarrow> r' \<le> r \<Longrightarrow> room ctx t' r'"
  by (auto simp: room_def fits_def)

lemma before_done_append: "\<exists>r. before_done (evs @ rest) = before_done evs @ r"
  by (induction evs) (auto simp: before_done_def simp del: lit_simps)

lemma stream_prefix_length:
  "length (stream_text rd evs) \<le> length (stream_text rd (evs @ rest))"
  "length (stream_reasoning rd evs) \<le> length (stream_reasoning rd (evs @ rest))"
proof -
  obtain r where "before_done (evs @ rest) = before_done evs @ r" using before_done_append by blast
  then show "length (stream_text rd evs) \<le> length (stream_text rd (evs @ rest))"
    "length (stream_reasoning rd evs) \<le> length (stream_reasoning rd (evs @ rest))"
    by (simp_all add: stream_text_def stream_reasoning_def)
qed

theorem stream_run_fits:
  assumes "length bs < SIZE_MAX" "max_ev = 0 \<or> length bs \<le> max_ev" "all_ok m" "ctx_live ctx" "sc_accumulate ctx"
    and "room ctx (length (stream_text rd (sse_events bs))) (length (stream_reasoning rd (sse_events bs)))"
    and R: "sse_run (Some (sicha_stream_on_event rd None)) (sicha_sse_init max_ev) bs (ctx, w) m = (rc, p', s', m')"
  shows "(rc = 0 \<or> rc = SICHA_STREAM_STOP)
    \<and> (r_finish_raw (sc_r ctx) = None \<longrightarrow>
        r_finish_raw (sc_r (fst s')) = stream_finish rd (sse_events bs)
        \<and> r_finish (sc_r (fst s')) = finish_of (stream_finish rd (sse_events bs)))"
proof -
  let ?f = "sicha_stream_on_event rd None"
  have "part_of True ?f rc (ctx, w) s' (sse_events bs)"
    by (rule sse_run_part [OF R _ on_event_mem]) (simp add: assms(3))
  then obtain evs rest rc' where E: "sse_events bs = evs @ rest" "processed True ?f (ctx, w) evs s' rc'"
    "rc' \<noteq> 0 \<longrightarrow> rc = rc'" "rc' = 0 \<longrightarrow> rc = 0 \<or> rc = -1" "rc = 0 \<longrightarrow> rest = []" by (auto simp: part_of_def)
  have "room ctx (length (stream_text rd evs)) (length (stream_reasoning rd evs))"
    using room_less [OF assms(6)] stream_prefix_length [of rd evs rest] E(1) by simp
  with processed_room [OF E(2)] have P: "rc' = 0 \<or> rc' = SICHA_STREAM_STOP" "sc_err (fst s') = SICHA_OK"
    "r_finish (sc_r (fst s')) = finish_of (r_finish_raw (sc_r (fst s')))" by simp_all
  have "rc \<noteq> -1"
  proof
    assume "rc = -1"
    with sse_run_alive [OF assms(1-3) on_event_mem R] obtain d s m0 m1 where "?f d s m0 = (-1, s', m1)"
      by (auto simp: stopped_by_def)
    from on_event_err [OF this] P(2) show False by simp
  qed
  with P(1) E(3,4) have rc: "rc = rc'" by auto
  have "before_done (sse_events bs) = before_done evs"
  proof (cases "rc' = 0")
    case True
    with rc E(1,5) show ?thesis by simp
  next
    case False
    with P(1) have "rc' = SICHA_STREAM_STOP" by simp
    with processed_text [OF E(2)] assms(4,5) E(1) show ?thesis by (simp add: before_done_prefix)
  qed
  with processed_finish [OF E(2)] P assms(4) rc show ?thesis by (auto simp: stream_finish_def)
qed

end
