(* ===== verification/Engine_Stream.thy ===== *)
theory Engine_Stream
  imports Engine_Fallback Stream_Accept
begin

text \<open>
  A streaming call that succeeds: the transport delivers a 2xx response whose body is a
  complete stream within the caps, and the callbacks let it go on. Then the call succeeds, and
  the result holds what the reference semantics of the stream says.
\<close>

section \<open>A feed that goes on\<close>

text \<open>What every call that returns 0 keeps is kept by a feed that returns 0.\<close>

definition zero_keeps :: "'s on_event \<Rightarrow> ('s \<Rightarrow> bool) \<Rightarrow> bool" where
  "zero_keeps f Q \<longleftrightarrow> (\<forall>d s m s' m'. f d s m = (0, s', m') \<longrightarrow> Q s \<longrightarrow> Q s')"

lemma zero_keepsD: "zero_keeps f Q \<Longrightarrow> f d s m = (0, s', m') \<Longrightarrow> Q s \<Longrightarrow> Q s'"
  unfolding zero_keeps_def by blast

lemma sse_line_zero:
  assumes "zero_keeps f Q" "sse_line (Some f) p line s m = (0, p', s', m')" "Q s"
  shows "Q s'"
  using assms(2,3)
  by (auto simp: sse_line_def sse_dispatch_def Let_def split: if_splits prod.splits simp del: lit_simps
      dest: zero_keepsD [OF assms(1)])

lemma sse_byte_zero:
  assumes "zero_keeps f Q" "sse_byte (Some f) p b s m = (0, p', s', m')" "Q s"
  shows "Q s'"
  using assms(2,3) sse_line_zero [OF assms(1)]
  by (auto simp: sse_byte_def sse_eol_def Let_def split: if_splits prod.splits)

lemma sse_bytes_zero:
  "zero_keeps f Q \<Longrightarrow> sse_bytes (Some f) p bs s m = (0, p', s', m') \<Longrightarrow> Q s \<Longrightarrow> Q s'"
proof (induction bs arbitrary: p s m)
  case (Cons b bs)
  obtain rc1 p1 s1 m1 where b: "sse_byte (Some f) p b s m = (rc1, p1, s1, m1)" by (metis prod_cases4)
  with Cons.prems(2) have "rc1 = 0" "sse_bytes (Some f) p1 bs s1 m1 = (0, p', s', m')" by (auto split: if_splits)
  with Cons b sse_byte_zero show ?case by metis
qed simp

lemma sicha_sse_feed_zero:
  "zero_keeps f Q \<Longrightarrow> sicha_sse_feed (Some f) p bs s m = (0, p', s', m') \<Longrightarrow> Q s \<Longrightarrow> Q s'"
  by (auto simp: sicha_sse_feed_def Let_def split: if_splits prod.splits dest: sse_bytes_zero)

lemma on_event_zero: "zero_keeps (sicha_stream_on_event rd cbs) (\<lambda>s. ctx_live (fst s) \<and> \<not> sc_done (fst s))"
  unfolding zero_keeps_def
proof (intro allI impI)
  fix d s m s' m'
  assume E: "sicha_stream_on_event rd cbs d s m = (0, s', m')" and Q: "ctx_live (fst s) \<and> \<not> sc_done (fst s)"
  obtain ctx w ctx' w' where s: "s = (ctx, w)" "s' = (ctx', w')" by fastforce
  have "d \<noteq> lit ''[DONE]''" using E s on_event_done [of rd cbs ctx w m] by (auto simp del: lit_simps)
  from on_event_adds [OF _ this E [unfolded s]] Q s show "ctx_live (fst s') \<and> \<not> sc_done (fst s')"
    by (auto simp: adds_def)
qed

section \<open>A transfer that delivers a stream\<close>

text \<open>
  The transport delivers the bytes of a body, in pieces of its choice, as long as the sink
  answers 0, whatever the callbacks do to the world, and ends as aborted by the sink when it
  does not.
\<close>

primrec delivers :: "'w transfer \<Rightarrow> bytes \<Rightarrow> bool" where
  "delivers (T_done ts w) = (\<lambda>body. body = [] \<and> ts = SICHA_T_OK)"
| "delivers (T_status http hs w k) = (\<lambda>body. False)"
| "delivers (T_body b w k) = (\<lambda>body. \<exists>rest. body = b @ rest \<and> (\<forall>w'. delivers (k (0, w')) rest)
     \<and> (\<forall>rc w'. rc \<noteq> 0 \<longrightarrow> (\<exists>w''. k (rc, w') = T_done SICHA_T_E_ABORTED_BY_SINK w'')))"

definition streams :: "'w client_env \<Rightarrow> sicha_backend \<Rightarrow> int \<Rightarrow> bytes \<Rightarrow> bool" where
  "streams env b http body \<longleftrightarrow>
     (\<forall>bd hds w. \<exists>hs w' k. env_perform env (chat_http_request b bd hds) (env_cancelled env \<noteq> None) w = T_status http hs w' k
        \<and> (\<forall>w''. delivers (k (0, w'')) body))"

text \<open>The parser then goes through what one feed of the body would do without the callbacks.\<close>

lemma run_transfer_delivers:
  assumes "accepts cbs"
  shows "delivers t body \<Longrightarrow> io_stream io \<Longrightarrow> sse_err (io_sse io) = SICHA_OK \<Longrightarrow>
    run_transfer rd cbs t io m = (ts, io', w', m') \<Longrightarrow>
    \<exists>rc. sicha_sse_feed (Some (sicha_stream_on_event rd None)) (io_sse io) body (forget (io_sctx io), ()) m
        = (rc, io_sse io', (forget (io_sctx io'), ()), m')
      \<and> ts = (if rc = 0 then SICHA_T_OK else SICHA_T_E_ABORTED_BY_SINK)
      \<and> io_stream io' \<and> io_http_status io' = io_http_status io"
proof (induction t arbitrary: body io m)
  case (T_done x1 x2)
  then show ?case by (auto simp: sicha_sse_feed_def)
next
  case (T_status x1 x2 x3 x4)
  then show ?case by simp
next
  case (T_body b w k)
  let ?f = "sicha_stream_on_event rd cbs" and ?g = "sicha_stream_on_event rd None"
  from T_body.prems(1) obtain rest where rest: "body = b @ rest" "\<And>w'. delivers (k (0, w')) rest"
    "\<And>rc w'. rc \<noteq> 0 \<Longrightarrow> \<exists>w''. k (rc, w') = T_done SICHA_T_E_ABORTED_BY_SINK w''" by auto
  obtain rc1 p1 s1 m1 where f0: "sicha_sse_feed (Some ?f) (io_sse io) b (io_sctx io, w) m = (rc1, p1, s1, m1)"
    by (metis prod_cases4)
  obtain c1 w1 where "s1 = (c1, w1)" by fastforce
  note f = f0 [unfolded this]
  have g: "sicha_sse_feed (Some ?g) (io_sse io) b (forget (io_sctx io), ()) m = (rc1, p1, (forget c1, ()), m1)"
    using sicha_sse_feed_follows [OF on_event_quiet [OF assms] f] by (simp add: muted_def)
  show ?case
  proof (cases "rc1 = 0")
    case False
    then obtain w2 where w2: "k (1, w1) = T_done SICHA_T_E_ABORTED_BY_SINK w2" using rest(3) [of 1] by auto
    from T_body.prems f False have "ts = SICHA_T_E_ABORTED_BY_SINK" "m' = m1"
      "io' = io\<lparr>io_sse := p1, io_sctx := c1, io_sse_rc := rc1\<rparr>"
      by (auto simp: attempt_on_body_def Let_def w2)
    with False T_body.prems(2,3) g rest(1) show ?thesis by (simp add: sicha_sse_feed_append)
  next
    case True
    let ?io = "io\<lparr>io_sse := p1, io_sctx := c1\<rparr>"
    from T_body.prems f True have run: "run_transfer rd cbs (k (0, w1)) ?io m1 = (ts, io', w', m')"
      by (simp add: attempt_on_body_def Let_def)
    have "sse_err (io_sse ?io) = SICHA_OK"
      using sicha_sse_feed_ready [OF f [unfolded True]] T_body.prems(3) by simp
    from T_body.IH [OF rangeI rest(2) _ this run] T_body.prems(2,3) g True rest(1) show ?thesis
      by (simp add: sicha_sse_feed_append)
  qed
qed

section \<open>The round trip\<close>

text \<open>
  A stream within the caps that is complete: it has the end marker or a finish reason, which
  the policy does not reject.
\<close>

definition good_stream :: "json_reader \<Rightarrow> sicha_client \<Rightarrow> bytes \<Rightarrow> bool" where
  "good_stream rd c body \<longleftrightarrow>
     length body < SIZE_MAX \<and> length body \<le> c_max_event_bytes c
     \<and> length (stream_text rd (sse_events body)) < SIZE_MAX
     \<and> length (stream_text rd (sse_events body)) \<le> c_max_response_bytes c
     \<and> length (stream_reasoning rd (sse_events body)) < SIZE_MAX
     \<and> length (stream_reasoning rd (sse_events body)) \<le> c_max_response_bytes c
     \<and> (lit ''[DONE]'' \<in> set (sse_events body) \<or> stream_finish rd (sse_events body) \<noteq> None)
     \<and> \<not> finish_policed (c_policy c) (finish_of (stream_finish rd (sse_events body)))"

definition holds_stream :: "json_reader \<Rightarrow> bytes \<Rightarrow> sicha_result \<Rightarrow> bool" where
  "holds_stream rd body r \<longleftrightarrow>
     buf_bytes (r_text r) = stream_text rd (sse_events body)
     \<and> buf_bytes (r_reasoning r) = stream_reasoning rd (sse_events body)
     \<and> r_finish_raw r = stream_finish rd (sse_events body)
     \<and> r_finish r = finish_of (stream_finish rd (sse_events body))"

lemma sse_run_mem:
  assumes "mem_keeps f" "sse_run (Some f) p bs s m = (rc, p', s', m')" "all_ok m"
  shows "all_ok m'"
proof -
  have fin: "sicha_sse_finish (Some f) p s m = (rc, p', s', m') \<Longrightarrow> all_ok m \<Longrightarrow> all_ok m'" for p s m rc p' s' m'
    by (auto simp: sicha_sse_finish_def Let_def split: if_splits prod.splits dest: append_mem sse_line_mem [OF assms(1)])
  have bom: "sse_bom_loop p bs m = (ok, p', r, m') \<Longrightarrow> all_ok m \<Longrightarrow> all_ok m'" for p bs m ok p' r m'
    by (induction p bs m rule: sse_bom_loop.induct) (auto simp: Let_def split: if_splits prod.splits dest: append_mem)
  have feed: "sicha_sse_feed (Some f) p bs s m = (rc, p', s', m') \<Longrightarrow> all_ok m \<Longrightarrow> all_ok m'" for rc p' s' m'
    by (auto simp: sicha_sse_feed_def Let_def split: if_splits prod.splits dest: bom sse_bytes_mem [OF assms(1)])
  show ?thesis using assms(2,3) by (auto simp: sse_run_def split: prod.splits if_splits dest: feed fin)
qed

lemma stream_start:
  assumes "good_stream rd c body" "clean r" "buf_bytes (r_text r) = []" "buf_bytes (r_reasoning r) = []"
    "buf_max_len (r_text r) = c_max_response_bytes c" "buf_max_len (r_reasoning r) = c_max_response_bytes c"
    "r_finish r = SICHA_FINISH_UNKNOWN" "r_finish_raw r = None"
  shows "ctx_live (sicha_stream_ctx_init r True)"
    and "room (sicha_stream_ctx_init r True) (length (stream_text rd (sse_events body)))
      (length (stream_reasoning rd (sse_events body)))"
  using assms by (simp_all add: ctx_live_def room_def fits_def sicha_stream_ctx_init_def clean_def buf_live_def
      good_stream_def finish_of_def)

text \<open>What the whole stream leaves behind, whichever way it ended.\<close>

lemma stream_run_good:
  assumes G: "good_stream rd c body" "all_ok m" "c_max_event_bytes c = max_ev"
    and C: "ctx_live ctx" "sc_accumulate ctx" "\<not> sc_done ctx" "r_finish_raw (sc_r ctx) = None"
      "room ctx (length (stream_text rd (sse_events body))) (length (stream_reasoning rd (sse_events body)))"
      "buf_bytes (r_text (sc_r ctx)) = []" "buf_bytes (r_reasoning (sc_r ctx)) = []"
    and R: "sse_run (Some (sicha_stream_on_event rd None)) (sicha_sse_init max_ev) body (ctx, ()) m
      = (rc, p', (ctx', ()), m')"
  shows "(rc = 0 \<or> rc = SICHA_STREAM_STOP) \<and> all_ok m' \<and> holds_stream rd body (sc_r ctx')
    \<and> sc_done ctx' = (rc = SICHA_STREAM_STOP) \<and> (sc_done ctx' \<or> r_finish_raw (sc_r ctx') \<noteq> None)"
proof -
  have len: "length body < SIZE_MAX" "max_ev = 0 \<or> length body \<le> max_ev" using G by (simp_all add: good_stream_def)
  note F = stream_run_fits [OF len G(2) C(1,2,5) R]
  note T = stream_run_text [OF R G(2) C(1,2)]
  have "all_ok m'" by (rule sse_run_mem [OF on_event_mem R G(2)])
  with F T C(3,4,6,7) G(1) show ?thesis
    by (auto simp: holds_stream_def good_stream_def simp del: not_None_eq lit_simps)
qed

lemma run_attempt_streams:
  assumes "streams env b http body" "200 \<le> http" "http \<le> 299" "good_stream rd c body" "all_ok m" "accepts cbs"
    and "r = (sicha_result_reset_content r0)\<lparr>r_backend := i\<rparr>" "clean r0"
    and "buf_max_len (r_text r0) = c_max_response_bytes c" "buf_max_len (r_reasoning r0) = c_max_response_bytes c"
    and "run_attempt rd env c b bd hds cbs r True True w m = (out, r', w', m')"
  shows "ends_well c out r' \<and> all_ok m' \<and> holds_stream rd body r'"
proof -
  let ?rq = "chat_http_request b bd hds" and ?io = "attempt_io_init c r True True"
  let ?f = "sicha_stream_on_event rd cbs" and ?g = "sicha_stream_on_event rd None" and ?p = "sicha_sse_init (c_max_event_bytes c)"
  let ?ctx = "sicha_stream_ctx_init r True"
  obtain t0 w1 where t0: "env_now_ms env (debug_request env c ?rq w) = (t0, w1)" by fastforce
  obtain hs w2 k where pf: "env_perform env ?rq (env_cancelled env \<noteq> None) w1 = T_status http hs w2 k"
    "\<And>w. delivers (k (0, w)) body" using assms(1) unfolding streams_def by blast
  let ?io1 = "scan_retry_after hs (?io\<lparr>io_http_status := http\<rparr>)"
  obtain ts io w3 m1 where tr: "run_transfer rd cbs (k (0, w2)) ?io1 m = (ts, io, w3, m1)" by (metis prod_cases4)
  have i1: "io_sse ?io1 = ?p" "io_sctx ?io1 = ?ctx" "io_stream ?io1" "io_http_status ?io1 = http"
    by (simp_all add: attempt_io_init_def)
  have "sse_err (io_sse ?io1) = SICHA_OK" by (simp add: attempt_io_init_def sicha_sse_init_def)
  from run_transfer_delivers [OF assms(6) pf(2) i1(3) this tr, unfolded i1(1,2)] obtain rc where
    D: "sicha_sse_feed (Some ?g) ?p body (forget ?ctx, ()) m = (rc, io_sse io, (forget (io_sctx io), ()), m1)"
      "ts = (if rc = 0 then SICHA_T_OK else SICHA_T_E_ABORTED_BY_SINK)" "io_stream io" "io_http_status io = http"
    using i1(4) by auto
  have fg: "forget ?ctx = ?ctx" by (simp add: forget_def sicha_stream_ctx_init_def)
  have r: "clean r" "buf_bytes (r_text r) = []" "buf_bytes (r_reasoning r) = []"
    "buf_max_len (r_text r) = c_max_response_bytes c" "buf_max_len (r_reasoning r) = c_max_response_bytes c"
    "r_finish r = SICHA_FINISH_UNKNOWN" "r_finish_raw r = None"
    using assms(7-10) by (simp_all add: clean_def sicha_result_reset_content_def sicha_buf_reset_wf)
  note S = stream_start [OF assms(4) r]
  have c0: "sc_accumulate ?ctx" "\<not> sc_done ?ctx" "sc_r ?ctx = r" by (simp_all add: sicha_stream_ctx_init_def)
  have good: "(rc' = 0 \<or> rc' = SICHA_STREAM_STOP) \<and> all_ok m'' \<and> holds_stream rd body (sc_r ctx')
    \<and> sc_done ctx' = (rc' = SICHA_STREAM_STOP) \<and> (sc_done ctx' \<or> r_finish_raw (sc_r ctx') \<noteq> None)"
    if "sse_run (Some ?g) ?p body (?ctx, ()) m = (rc', p', (ctx', ()), m'')" for rc' p' ctx' m''
    by (rule stream_run_good [OF assms(4,5) refl S(1) c0(1,2) _ S(2) _ _ that]) (simp_all add: c0(3) r)
  obtain t1 w4 where t1: "env_now_ms env w3 = (t1, w4)" by fastforce
  let ?out = "outcome_start io ts (t1 - t0)"
  let ?ok = "?out\<lparr>ao_ts := SICHA_T_OK\<rparr>"
  have o: "ao_ts ?out = ts" "ao_terminal ?out = SICHA_OK" "ao_http_status ?out = http" "ao_body_state ?out = SICHA_BODY_OK"
    by (simp_all add: outcome_start_def D(4))
  have ok: "http_ok http" using assms(2,3) by (simp add: http_ok_def)
  have "\<exists>io' w5 m2. untangle io ?out = ?ok \<and> finish_response rd cbs io ?ok w4 m1 = (?ok, io', w5, m2)
    \<and> all_ok m2 \<and> holds_stream rd body (sc_r (io_sctx io'))"
  proof (cases "rc = 0")
    case False
    with D(1) have "sse_run (Some ?g) ?p body (?ctx, ()) m = (rc, io_sse io, (forget (io_sctx io), ()), m1)"
      by (simp add: sse_run_def fg)
    from good [OF this] False have g: "all_ok m1" "holds_stream rd body (sc_r (io_sctx io))" "sc_done (io_sctx io)"
      by auto
    with False D(2,3) o have "untangle io ?out = ?ok" by (simp add: untangle_def)
    moreover have "finish_response rd cbs io ?ok w4 m1 = (?ok, io, w4, m1)"
      using o ok D(3) g(3) by (simp add: finish_response_def finish_stream_def flush_stream_def stream_verdict_def)
    ultimately show ?thesis using g by blast
  next
    case True
    have ts: "ts = SICHA_T_OK" using True D(2) by simp
    then have u: "untangle io ?out = ?ok" and ok_eq: "?ok = ?out" using o by (simp_all add: untangle_def)
    from sicha_sse_feed_zero [OF on_event_zero D(1) [unfolded True]] S(1) c0(2) fg
    have nd: "\<not> sc_done (io_sctx io)" by simp
    obtain rc2 p2 s2 m2 where f0: "sicha_sse_finish (Some ?f) (io_sse io) (io_sctx io, w4) m1 = (rc2, p2, s2, m2)"
      by (metis prod_cases4)
    obtain c2 w5 where "s2 = (c2, w5)" by fastforce
    note f = f0 [unfolded this]
    have "sicha_sse_finish (Some ?g) (io_sse io) (forget (io_sctx io), ()) m1 = (rc2, p2, (forget c2, ()), m2)"
      using sicha_sse_finish_follows [OF on_event_quiet [OF assms(6)] f] by (simp add: muted_def)
    with D(1) True have "sse_run (Some ?g) ?p body (?ctx, ()) m = (rc2, p2, (forget c2, ()), m2)"
      by (simp add: sse_run_def fg)
    note g = good [OF this]
    let ?io = "io\<lparr>io_sse := p2, io_sctx := c2\<rparr>"
    have rc2: "rc2 \<noteq> SICHA_STREAM_CANCEL" "rc2 \<noteq> -1" using g by (auto simp: SICHA_STREAM_STOP_def SICHA_STREAM_CANCEL_def)
    have "flush_stream rd cbs io ?ok w4 m1 = (?ok, ?io, w5, m2)"
      using nd f rc2 by (simp add: flush_stream_def)
    moreover have "stream_verdict ?io ?ok = ?ok" using g by (auto simp: stream_verdict_def)
    ultimately have "finish_response rd cbs io ?ok w4 m1 = (?ok, ?io, w5, m2)"
      using o ok D(3) by (simp add: finish_response_def finish_stream_def)
    with u g show ?thesis by (intro exI [of _ ?io] exI [of _ w5] exI [of _ m2]) simp
  qed
  then obtain io' w5 m2 where F: "untangle io ?out = ?ok" "finish_response rd cbs io ?ok w4 m1 = (?ok, io', w5, m2)"
    "all_ok m2" "holds_stream rd body (sc_r (io_sctx io'))" by blast
  have e: "attempt_excerpt io' ?ok = ?ok" using o ok by (simp add: attempt_excerpt_def Let_def)
  have tr': "run_transfer rd cbs (env_perform env ?rq (env_cancelled env \<noteq> None) w1) ?io m = (ts, io, w3, m1)"
    unfolding pf(1) using tr by (simp add: attempt_on_status_def)
  have "r' = sc_r (io_sctx io') \<and> m' = m2
    \<and> out = outcome_message (?ok\<lparr>ao_delivered := io_stream io' \<and> sc_delivered (io_sctx io')\<rparr>)"
    using assms(11) by (auto simp: run_attempt_def Let_def t0 tr' t1 F(1,2) e simp del: not_None_eq)
  with F(3,4) o ok assms(4) show ?thesis
    by (auto simp: ends_well_def outcome_message_def holds_stream_def good_stream_def http_success_def http_ok_def)
qed

section \<open>The call\<close>

theorem chat_streams:
  assumes A: "able rd wr env c req" and "all_ok m" "\<forall>ms w. fst (env_wait_ms env ms w) = 0"
    and bs: "c_backends c = ds @ b # rest" "\<forall>d \<in> set ds. down env c True d"
    and good: "streams env b http body" "200 \<le> http" "http \<le> 299" "good_stream rd c body"
    and cbs: "accepts cbs" "\<forall>f r w. cb_of cbs cb_validate = Some f \<longrightarrow> fst (f r w) = 0"
      "case cbs of None \<Rightarrow> True | Some k \<Rightarrow> cb_struct_size_ok k"
    and acc: "rq_flags req AND SICHA_REQ_NO_ACCUMULATE = 0"
  shows "\<exists>r c' w' m'. sicha_chat_stream rd wr env (Some c) (Some req) cbs True w0 m = (SICHA_OK, Some r, c', w', m')
    \<and> r_backend r = int (length ds) \<and> holds_stream rd body r"
proof -
  let ?Q = "\<lambda>r. r_backend r = int (length ds) \<and> holds_stream rd body r"
  from A obtain mv mv' where v: "sicha_request_validate rd req mv = (SICHA_OK, mv')" by (auto simp: able_def)
  have c: "validate_overrides (override_list (c_policy c)) = SICHA_OK" "backend_wf rd b"
    using A bs(1) by (simp_all add: able_def client_ok_def)
  have rw: "\<forall>s v. rd s = Some v \<longrightarrow> json_ok v" "\<forall>v. json_ok v \<longrightarrow> wr v \<noteq> None"
    "\<forall>f w. env_cancelled env = Some f \<longrightarrow> \<not> f w" using A unfolding able_def by blast+
  have "\<exists>r c' w' m'. chat_common rd wr env (Some c) (Some req) cbs True True w0 m
      = (SICHA_OK, Some (r\<lparr>r_status := SICHA_OK\<rparr>), c', w', m') \<and> ?Q r"
  proof (rule chat_finishes [OF assms(1-5) cbs(3)])
    fix s x s'
    assume s: "ready c s" "ch_body s = None" "ch_headers s = None"
      and st: "attempt_step rd wr env c (length ds) b req cbs True s = (x, s')"
    have S: "all_ok (ch_mem s)" "clean (ch_r s)" "buf_max_len (r_text (ch_r s)) = c_max_response_bytes c"
      "buf_max_len (r_reasoning (ch_r s)) = c_max_response_bytes c"
      using s(1) by (simp_all add: ready_def)
    have "x = Finish SICHA_OK \<and> r_backend (ch_r s') = int (length ds)
      \<and> (\<exists>r' a cap. holds_stream rd body r' \<and> r_attempts r' = r_attempts (ch_r s)
           \<and> ch_r s' = r'\<lparr>r_cap_attempts := cap, r_attempts := r_attempts r' @ [a]\<rparr>)"
    proof (rule step_finishes [OF S(1) c(2) v c(1) rw cbs(2) s(2,3) _ st])
      fix bd hds m out r' w' m'
      assume m: "all_ok m" and run: "run_attempt rd env c b bd hds cbs
        ((sicha_result_reset_content (ch_r s))\<lparr>r_backend := int (length ds)\<rparr>) True
        (rq_flags req AND SICHA_REQ_NO_ACCUMULATE = 0) (ch_w s) m = (out, r', w', m')"
      show "ends_well c out r' \<and> all_ok m' \<and> holds_stream rd body r'"
        by (rule run_attempt_streams [OF good m cbs(1) refl S(2-4)]) (use run acc in simp)
    qed
    then show "x = Finish SICHA_OK \<and> ?Q (ch_r s')" by (auto simp: holds_stream_def)
  qed
  then show ?thesis unfolding sicha_chat_stream_def by (fastforce simp: holds_stream_def)
qed

end
