(* ===== verification/Engine_Types.thy ===== *)
theory Engine_Types
  imports Engine_Commit Stream_Accept
begin

text \<open>
  The type of a result: whatever the servers, the callbacks and the allocator do during a
  call, the result it hands out is well formed and within the caps of the client.
\<close>

section \<open>The content of a result\<close>

text \<open>
  Both texts are well-formed buffers (so NUL-terminated, and no longer than the cap), the
  finish reason is the one of its raw string, and a token count is -1 or a count.
\<close>

definition content_ok :: "nat \<Rightarrow> sicha_result \<Rightarrow> bool" where
  "content_ok cap r \<longleftrightarrow>
     buf_live (r_text r) \<and> buf_max_len (r_text r) = cap
     \<and> buf_live (r_reasoning r) \<and> buf_max_len (r_reasoning r) = cap
     \<and> r_finish r = finish_of (r_finish_raw r)
     \<and> -1 \<le> r_prompt_tokens r \<and> -1 \<le> r_completion_tokens r \<and> -1 \<le> r_total_tokens r"

lemma content_updates [simp]:
  "content_ok cap (r\<lparr>r_backend := i\<rparr>) = content_ok cap r"
  "content_ok cap (r\<lparr>r_status := st\<rparr>) = content_ok cap r"
  "content_ok cap (r\<lparr>r_raw_body := x, r_raw_body_len := n\<rparr>) = content_ok cap r"
  "content_ok cap (r\<lparr>r_cap_attempts := k\<rparr>) = content_ok cap r"
  "content_ok cap (r\<lparr>r_cap_attempts := k, r_attempts := as\<rparr>) = content_ok cap r"
  by (simp_all add: content_ok_def)

lemma content_meta:
  "content_ok cap r \<Longrightarrow> content_ok cap (with_finish f r)"
  "content_ok cap r \<Longrightarrow> content_ok cap (with_model root r)"
  "content_ok cap r \<Longrightarrow> content_ok cap (lift_usage r root)"
  by (auto simp: content_ok_def with_finish_def with_model_def lift_usage_def finish_of_def Let_def split: option.split)

lemma content_buffers:
  "content_ok cap r \<Longrightarrow> buf_live b \<Longrightarrow> buf_max_len b = cap \<Longrightarrow> content_ok cap (r\<lparr>r_text := b\<rparr>)"
  "content_ok cap r \<Longrightarrow> buf_live b \<Longrightarrow> buf_max_len b = cap \<Longrightarrow> content_ok cap (r\<lparr>r_reasoning := b\<rparr>)"
  by (simp_all add: content_ok_def)

lemma content_reset: "content_ok cap r \<Longrightarrow> content_ok cap (sicha_result_reset_content r)"
  by (simp add: content_ok_def sicha_result_reset_content_def finish_of_def)

lemma content_fresh: "content_ok cap (fresh_result cap)"
  by (simp add: content_ok_def fresh_result_def finish_of_def)

lemma content_finish: "sicha_result_set_finish r f m = (st, r', m') \<Longrightarrow> content_ok cap r \<Longrightarrow> content_ok cap r'"
  using set_finish_cases content_meta(1) by fastforce

lemma content_lift_model: "lift_model r root m = (st, r', m') \<Longrightarrow> content_ok cap r \<Longrightarrow> content_ok cap r'"
  using lift_model_cases content_meta(2) by fastforce

section \<open>A body\<close>

lemma append_stage_live:
  "append_stage b s m = (x, b', m') \<Longrightarrow> buf_live b \<Longrightarrow> buf_live b' \<and> buf_max_len b' = buf_max_len b"
  using append_live by (fastforce simp: append_stage_def Let_def split: prod.splits if_splits)

lemma content_text_stage:
  assumes "text_stage r msg m = (x, r', m')" "content_ok cap r"
  shows "content_ok cap r'"
proof (cases "case msg of None \<Rightarrow> None | Some msg \<Rightarrow> str_member msg ''content''")
  case None
  with assms show ?thesis
    by (auto simp: text_stage_def split: option.splits if_splits)
next
  case (Some s)
  obtain y b m1 where a: "append_stage (r_text r) s m = (y, b, m1)" by (metis prod_cases3)
  have "r' = r\<lparr>r_text := b\<rparr>" using assms(1) Some a by (simp add: text_stage_def)
  with append_stage_live [OF a] assms(2) show ?thesis by (simp add: content_ok_def)
qed

lemma content_reasoning_stage:
  assumes "reasoning_stage r c0 msg m = (x, r', m')" "content_ok cap r"
  shows "content_ok cap r'"
proof (cases "find_reasoning c0 msg")
  case None
  with assms show ?thesis by (simp add: reasoning_stage_def)
next
  case (Some s)
  obtain y b m1 where a: "append_stage (r_reasoning r) s m = (y, b, m1)" by (metis prod_cases3)
  have "r' = r\<lparr>r_reasoning := b\<rparr>" using assms(1) Some a by (simp add: reasoning_stage_def)
  with append_stage_live [OF a] assms(2) show ?thesis by (simp add: content_ok_def)
qed

lemma content_finish_stage: "finish_stage r c0 m = (x, r', m') \<Longrightarrow> content_ok cap r \<Longrightarrow> content_ok cap r'"
  by (auto simp: finish_stage_def Let_def split: prod.splits if_splits option.splits dest: content_finish)

lemma content_parse_choice:
  assumes "parse_choice r root c0 m = (st, bs, r', m')" "content_ok cap r"
  shows "content_ok cap r'"
  using assms
  by (auto simp: parse_choice_def Let_def split: prod.splits if_splits parse_step.splits
      dest!: content_text_stage content_reasoning_stage content_finish_stage content_lift_model
      intro: content_meta(3))

lemma content_parse:
  "sicha_response_parse rd r body m = (st, bs, r', m') \<Longrightarrow> content_ok cap r \<Longrightarrow> content_ok cap r'"
  by (auto simp: sicha_response_parse_def split: if_splits option.splits prod.splits dest: content_parse_choice)

lemma content_finish_body:
  assumes "finish_body rd io out m = (out', io', m')" "content_ok cap (sc_r (io_sctx io))"
  shows "content_ok cap (sc_r (io_sctx io'))"
proof -
  obtain st bs r m1 where p: "sicha_response_parse rd (sc_r (io_sctx io)) (buf_bytes (io_body io)) m = (st, bs, r, m1)"
    by (metis prod_cases4)
  note content_parse [OF p assms(2)]
  with assms(1) p show ?thesis by (auto simp: finish_body_def Let_def split: if_splits prod.splits option.splits)
qed

section \<open>A stream\<close>

lemma content_deliver_text:
  assumes "deliver_text cbs ctx s w m = (rc, ctx', w', m')" "content_ok cap (sc_r ctx)"
  shows "content_ok cap (sc_r ctx')"
proof (cases s)
  case None
  with assms show ?thesis by (simp add: deliver_text_def)
next
  case (Some bs)
  obtain c1 b1 where d: "deliver ctx (r_text (sc_r ctx)) (cb_of cbs cb_on_delta) bs w m = (rc, c1, b1, w', m')"
    and c': "ctx' = c1\<lparr>sc_r := (sc_r c1)\<lparr>r_text := b1\<rparr>\<rparr>"
    using assms(1) Some by (auto simp: deliver_text_def split: prod.splits)
  have l: "buf_live (r_text (sc_r ctx))" using assms(2) by (simp add: content_ok_def)
  have "buf_live b1 \<and> buf_max_len b1 = buf_max_len (r_text (sc_r ctx))"
    using l d by (cases rule: deliver_cases) auto
  with c' kept_deliver [OF d] assms(2) show ?thesis by (simp add: content_ok_def)
qed

lemma content_deliver_reasoning:
  assumes "deliver_reasoning cbs ctx s w m = (rc, ctx', w', m')" "content_ok cap (sc_r ctx)"
  shows "content_ok cap (sc_r ctx')"
proof (cases s)
  case None
  with assms show ?thesis by (simp add: deliver_reasoning_def)
next
  case (Some bs)
  obtain c1 b1 where d: "deliver ctx (r_reasoning (sc_r ctx)) (cb_of cbs cb_on_reasoning) bs w m = (rc, c1, b1, w', m')"
    and c': "ctx' = c1\<lparr>sc_r := (sc_r c1)\<lparr>r_reasoning := b1\<rparr>\<rparr>"
    using assms(1) Some by (auto simp: deliver_reasoning_def split: prod.splits)
  have l: "buf_live (r_reasoning (sc_r ctx))" using assms(2) by (simp add: content_ok_def)
  have "buf_live b1 \<and> buf_max_len b1 = buf_max_len (r_reasoning (sc_r ctx))"
    using l d by (cases rule: deliver_cases) auto
  with c' kept_deliver [OF d] assms(2) show ?thesis by (simp add: content_ok_def)
qed

lemma content_raw_chunk:
  "raw_chunk cbs ctx d w m = (rc, ctx', w', m') \<Longrightarrow> content_ok cap (sc_r ctx) \<Longrightarrow> content_ok cap (sc_r ctx')"
  using kept_raw_chunk by metis

lemma content_delta_stage:
  assumes "delta_stage cbs ctx data delta w m = (rc, ctx', w', m')" "content_ok cap (sc_r ctx)"
  shows "content_ok cap (sc_r ctx')"
  using assms
  by (auto simp: delta_stage_def Let_def split: prod.splits if_splits
      dest!: content_deliver_text content_deliver_reasoning content_raw_chunk)

lemma content_stream_finish_stage:
  "stream_finish_stage ctx c0 m = (rc, ctx', m') \<Longrightarrow> content_ok cap (sc_r ctx) \<Longrightarrow> content_ok cap (sc_r ctx')"
  using stream_finish_stage_cases content_meta(1) by fastforce

lemma content_meta_stage:
  "meta_stage ctx root m = (rc, ctx', m') \<Longrightarrow> content_ok cap (sc_r ctx) \<Longrightarrow> content_ok cap (sc_r ctx')"
  using meta_stage_cases content_meta(2,3) by fastforce

lemma content_choices_stage:
  assumes "choices_stage cbs ctx data root w m = (go, rc, ctx', w', m')" "content_ok cap (sc_r ctx)"
  shows "content_ok cap (sc_r ctx')"
  using assms
  by (auto simp: choices_stage_eq split: option.splits prod.splits if_splits
      dest!: content_delta_stage content_raw_chunk content_stream_finish_stage)

lemma content_on_event:
  assumes "sicha_stream_on_event rd cbs d (ctx, w) m = (rc, (ctx', w'), m')" "content_ok cap (sc_r ctx)"
  shows "content_ok cap (sc_r ctx')"
  using assms
  by (auto simp: sicha_stream_on_event_def split: prod.splits option.splits if_splits simp del: lit_simps
      dest!: content_choices_stage content_raw_chunk content_meta_stage)

lemma on_event_content:
  "keeps k (Some (sicha_stream_on_event rd cbs)) (\<lambda>(ctx, w). content_ok cap (sc_r ctx))"
proof -
  have "content_ok cap (sc_r (fst (fst (snd (sicha_stream_on_event rd cbs d (ctx, w) m)))))"
    if "content_ok cap (sc_r ctx)" for d ctx w m
    using content_on_event [OF _ that] by (cases "sicha_stream_on_event rd cbs d (ctx, w) m") fastforce
  then show ?thesis by (auto simp: keeps_def split_def)
qed

section \<open>A round trip\<close>

lemma run_attempt_content:
  assumes "run_attempt rd env c b bd hs cbs r stream acc w m = (out, r', w', m')" "content_ok cap r"
  shows "content_ok cap r'"
proof -
  let ?P = "\<lambda>ctx (_ :: unit). content_ok cap (sc_r ctx)"
  have P: "?P (sicha_stream_ctx_init r acc) ()" using assms(2) by (simp add: sicha_stream_ctx_init_def)
  show ?thesis
  proof (rule run_attempt_keeps [where P = ?P and obs = "\<lambda>_. ()", OF env_quiet_unit on_event_content P _ assms(1)])
    fix io out m out' io' m' and x :: unit
    assume "?P (io_sctx io) x" "finish_body rd io out m = (out', io', m')"
    then show "?P (io_sctx io') x" using content_finish_body by blast
  qed auto
qed

lemma run_attempt_message:
  "run_attempt rd env c b bd hs cbs r stream acc w m = (out, r', w', m') \<Longrightarrow> length (ao_message out) < MESSAGE_SIZE"
  by (auto simp: run_attempt_def Let_def outcome_message_def snprintf_def MESSAGE_SIZE_def split: prod.splits)

text \<open>
  A record: all its strings are there, the message fits the buffer it was printed into, the
  excerpt is no longer than \<open>SICHA_EXCERPT_MAX\<close> and its length is the one stored.
\<close>

definition attempt_typed :: "nat \<Rightarrow> sicha_attempt \<Rightarrow> bool" where
  "attempt_typed n a \<longleftrightarrow>
     at_model a \<noteq> None \<and> at_message a \<noteq> None \<and> length (opt_bytes (at_message a)) < MESSAGE_SIZE
     \<and> at_raw_body_excerpt a \<noteq> None \<and> length (opt_bytes (at_raw_body_excerpt a)) = at_raw_body_excerpt_len a
     \<and> at_raw_body_excerpt_len a \<le> SICHA_EXCERPT_MAX \<and> unat (at_backend a) < n"

definition result_typed :: "sicha_client \<Rightarrow> sicha_result \<Rightarrow> bool" where
  "result_typed c r \<longleftrightarrow> content_ok (c_max_response_bytes c) r
     \<and> r_backend r \<in> {-1..<int (length (c_backends c))}
     \<and> (\<forall>a \<in> set (r_attempts r). attempt_typed (length (c_backends c)) a)"

lemma stored_typed:
  assumes "length (ao_message out) < MESSAGE_SIZE" "i < n"
  shows "attempt_typed n (stored (attempt_of i b out cls s))"
proof -
  have "length (cstr (ao_message out)) \<le> length (ao_message out)" by (simp add: cstr_def length_takeWhile_le)
  moreover have "unat (of_nat i :: u32) \<le> i" by (simp add: unat_of_nat)
  ultimately show ?thesis using assms
    by (simp add: attempt_typed_def stored_def attempt_of_def Let_def opt_bytes_def min_def)
qed

lemma validate_attempt_message:
  assumes "validate_attempt cbs r out0 cls0 w = (out, cls, w')" "length (ao_message out0) < MESSAGE_SIZE"
  shows "length (ao_message out) < MESSAGE_SIZE"
  using assms(1)
proof (cases rule: validate_attempt_cases)
  case (rejected f rc)
  then show ?thesis
    by (simp add: rejected_outcome_def outcome_borrow_excerpt_def snprintf_def MESSAGE_SIZE_def)
qed (use assms(2) in simp_all)

lemma attempt_run_typed:
  assumes "attempt_run rd env c i b req cbs stream s = (out, cls, s')" "result_typed c (ch_r s)" "i < length (c_backends c)"
  shows "result_typed c (ch_r s') \<and> length (ao_message out) < MESSAGE_SIZE"
proof -
  let ?r = "(sicha_result_reset_content (ch_r s))\<lparr>r_backend := int i\<rparr>"
  from assms(1) obtain out0 r w m w' where R:
    "run_attempt rd env c b (opt_bytes (ch_body s)) (case ch_headers s of None \<Rightarrow> [] | Some hs \<Rightarrow> hs) cbs ?r stream
       (rq_flags req AND SICHA_REQ_NO_ACCUMULATE = 0) (ch_w s) (ch_mem s) = (out0, r, w, m)"
    "validate_attempt cbs r out0 (outcome_class c out0 r) w = (out, cls, w')"
    "s' = s\<lparr>ch_r := r, ch_w := w', ch_mem := m, ch_delivered := ch_delivered s \<or> ao_delivered out0\<rparr>"
    by (rule attempt_run_cases)
  have "content_ok (c_max_response_bytes c) ?r" using assms(2) by (simp add: result_typed_def content_reset)
  note C = run_attempt_content [OF R(1) this]
  have "r_attempts r = r_attempts (ch_r s)" "r_backend r = int i"
    using run_attempt_kept [OF R(1)] by (simp_all add: kept_part_def sicha_result_reset_content_def)
  with C R(3) assms(2,3) validate_attempt_message [OF R(2) run_attempt_message [OF R(1)]] show ?thesis
    by (simp add: result_typed_def)
qed

lemma attempt_record_typed:
  assumes "attempt_record env c i b cbs out cls s = (st, s')" "result_typed c (ch_r s)" "i < length (c_backends c)"
    "length (ao_message out) < MESSAGE_SIZE"
  shows "result_typed c (ch_r s')"
  using assms(1)
proof (cases rule: attempt_record_cases)
  case (recorded a cap m)
  with stored_typed [OF assms(4,3), of b cls s] assms(2) show ?thesis by (simp add: result_typed_def)
next
  case (failed cap m)
  with assms(2) show ?thesis by (simp add: result_typed_def)
qed

lemma attempt_step_typed:
  assumes step: "attempt_step rd wr env c i b req cbs stream s = (v, s')"
    and I: "result_typed c (ch_r s)" "i < length (c_backends c)"
  shows "result_typed c (ch_r s')"
proof -
  have prep: "result_typed c (ch_r s1)" if "attempt_prepare rd wr env c b req stream s = (code, s1)" for code s1
    using attempt_prepare_frame [OF that] I by simp
  from step show ?thesis
  proof (cases rule: attempt_step_cases)
    case (unprepared st)
    with prep show ?thesis by blast
  next
    case (unrecorded s1 out cls s2 st)
    with attempt_run_typed [OF _ prep [OF unrecorded(1)] I(2)] attempt_record_typed [OF _ _ I(2)] show ?thesis by blast
  next
    case (no_memory s1 out cls s2)
    with attempt_run_typed [OF _ prep [OF no_memory(1)] I(2)] attempt_record_typed [OF _ _ I(2)] show ?thesis by blast
  next
    case (decided s1 out cls s2 s3)
    with attempt_run_typed [OF _ prep [OF decided(1)] I(2)] attempt_record_typed [OF _ _ I(2)]
    have "result_typed c (ch_r s3)" by blast
    with attempt_decide_frame [OF decided(5)] show ?thesis by simp
  qed
qed

lemma chat_backends_typed:
  assumes run: "chat_backends rd wr env c i bs req cbs stream s = (final, s')"
    and I: "result_typed c (ch_r s)" "i + length bs = length (c_backends c)"
  shows "result_typed c (ch_r s')"
  using assms
proof (induction bs arbitrary: i s)
  case (Cons b bs)
  obtain res s1 where l: "backend_loop rd wr env c i b req cbs stream (enter_backend s) = (res, s1)" by fastforce
  let ?I = "\<lambda>s. result_typed c (ch_r s)"
  have start: "?I (enter_backend s)" using Cons.prems(2) by (simp add: enter_backend_def)
  have i: "i < length (c_backends c)" using Cons.prems(3) by simp
  have "case res of None \<Rightarrow> ?I s1 | Some st \<Rightarrow> ?I s1"
  proof (rule backend_loop_rule [where I = ?I and A = ?I and F = "\<lambda>_. ?I", OF _ start l])
    fix s v s' assume "?I s" "attempt_step rd wr env c i b req cbs stream s = (v, s')"
    with attempt_step_typed [OF this(2,1) i]
    show "case v of Finish x \<Rightarrow> ?I s' | Again \<Rightarrow> ?I s' | Advance \<Rightarrow> ?I s'" by (cases v) auto
  qed
  then have s1: "?I s1" by (cases res) auto
  with Cons.IH [of "Suc i" s1] Cons.prems(1,3) l show ?case by (auto split: option.splits)
qed simp

theorem chat_result_typed:
  assumes "chat_common rd wr env (Some c) request cbs out_set stream w m = (st, Some r, client', w', m')"
  shows "result_typed c r"
  using assms
proof (cases rule: chat_common_cases)
  case (no_arrays c0 r0)
  then show ?thesis by (auto simp: result_typed_def content_fresh) (simp_all add: fresh_result_def)
next
  case (ran c0 req m1 m2 s)
  have "result_typed c (ch_r (chat_start c (fresh_result (c_max_response_bytes c)) w m2))"
    by (auto simp: result_typed_def content_fresh chat_start_def) (simp_all add: fresh_result_def)
  from chat_backends_typed [OF _ this] ran have "result_typed c (ch_r s)" by auto
  with ran show ?thesis by (simp add: result_typed_def)
qed simp

end
