(* ===== verification/Curl_Threads.thy ===== *)
theory Curl_Threads
  imports Curl_Perform
begin

text \<open>
  The handle pool with several threads: \<open>slot_acquire\<close> is cut into what it does under the mutex
  and what it does after it has let go of it, and any number of threads run transfers whose
  steps interleave. No two threads ever work with the same libcurl handle, nothing leaks, and
  \<open>sicha_curl_destroy\<close> leaves no handle behind.
\<close>

section \<open>The critical section of slot_acquire\<close>

text \<open>
  With the mutex held: a free slot with handles, else a free slot that gets its handles.
  \<open>None\<close> when every slot is in use.
\<close>

definition slot_acquire_locked :: "curl_state \<Rightarrow> (int \<times> curl_slot option \<times> curl_state) option" where
  "slot_acquire_locked s =
     (case find_slot (\<lambda>sl. \<not> sl_in_use sl \<and> sl_easy sl \<noteq> None) (cs_slots s) of
        Some i \<Rightarrow>
          let sl = (cs_slots s ! i)\<lparr>sl_in_use := True\<rparr> in Some (int i, Some sl, s\<lparr>cs_slots := (cs_slots s)[i := sl]\<rparr>)
      | None \<Rightarrow>
          (case find_slot (\<lambda>sl. \<not> sl_in_use sl \<and> sl_easy sl = None) (cs_slots s) of
             Some i \<Rightarrow>
               (case handles_init s of
                  (None, s) \<Rightarrow>
                    Some (-2, None, s\<lparr>cs_slots := (cs_slots s)[i := (cs_slots s ! i)\<lparr>sl_easy := None, sl_multi := None\<rparr>]\<rparr>)
                | (Some (e, mu), s) \<Rightarrow>
                    let sl = (cs_slots s ! i)\<lparr>sl_easy := Some e, sl_multi := Some mu, sl_in_use := True\<rparr>
                    in Some (int i, Some sl, s\<lparr>cs_slots := (cs_slots s)[i := sl]\<rparr>))
           | None \<Rightarrow> None))"

text \<open>Without the mutex: handles of the thread's own.\<close>

definition slot_transient :: "curl_state \<Rightarrow> int \<times> curl_slot option \<times> curl_state" where
  "slot_transient s =
     (case handles_init s of
        (None, s) \<Rightarrow> (-2, None, s)
      | (Some (e, mu), s) \<Rightarrow> (-1, Some \<lparr>sl_easy = Some e, sl_multi = Some mu, sl_in_use = True\<rparr>, s))"

lemma slot_acquire_split:
  "slot_acquire s = (case slot_acquire_locked s of Some r \<Rightarrow> r | None \<Rightarrow> slot_transient s)"
proof (cases "find_slot (\<lambda>sl. \<not> sl_in_use sl \<and> sl_easy sl \<noteq> None) (cs_slots s)")
  case free: None
  obtain r s1 where r: "handles_init s = (r, s1)" by fastforce
  show ?thesis
    by (cases "find_slot (\<lambda>sl. \<not> sl_in_use sl \<and> sl_easy sl = None) (cs_slots s)"; cases r)
      (simp_all add: slot_acquire_def slot_acquire_locked_def slot_transient_def free r Let_def split_beta del: not_None_eq)
qed (simp add: slot_acquire_def slot_acquire_locked_def Let_def del: not_None_eq)

lemma slot_acquire_locked_failed:
  assumes "pool_inv T s" "slot_acquire_locked s = Some (idx, None, s')"
  shows "cs_slots s' = cs_slots s"
proof (cases "find_slot (\<lambda>sl. \<not> sl_in_use sl \<and> sl_easy sl \<noteq> None) (cs_slots s)")
  case free: None
  obtain r s1 where r: "handles_init s = (r, s1)" by fastforce
  show ?thesis
  proof (cases "find_slot (\<lambda>sl. \<not> sl_in_use sl \<and> sl_easy sl = None) (cs_slots s)")
    case (Some i)
    have l: "\<forall>h \<in> cs_live s. h < cs_next s" using assms(1) by (simp add: pool_inv_def)
    note i = find_slot_Some [OF Some]
    from r l show ?thesis
    proof (cases rule: handles_init_cases)
      case made
      with assms(2) r have False
        by (simp add: slot_acquire_locked_def free Some Let_def del: not_None_eq)
      then show ?thesis ..
    next
      case failed
      with assms(2) r have "s' = s1\<lparr>cs_slots := (cs_slots s)[i := (cs_slots s ! i)\<lparr>sl_easy := None, sl_multi := None\<rparr>]\<rparr>"
        by (simp add: slot_acquire_locked_def free Some del: not_None_eq)
      moreover have "slot_ok (cs_slots s ! i)" using i assms(1) by (auto simp: pool_inv_def)
      then have "(cs_slots s ! i)\<lparr>sl_easy := None, sl_multi := None\<rparr> = cs_slots s ! i" using i by (simp add: slot_ok_def)
      ultimately show ?thesis by simp
    qed
  qed (use assms(2) free in \<open>simp add: slot_acquire_locked_def del: not_None_eq\<close>)
qed (use assms(2) in \<open>simp add: slot_acquire_locked_def Let_def del: not_None_eq\<close>)

lemma slot_acquire_locked_idx:
  assumes "slot_acquire_locked s = Some (idx, Some sl, s')"
  shows "0 \<le> idx"
proof (cases "find_slot (\<lambda>sl. \<not> sl_in_use sl \<and> sl_easy sl \<noteq> None) (cs_slots s)")
  case free: None
  obtain r s1 where r: "handles_init s = (r, s1)" by fastforce
  show ?thesis
    using assms by (cases "find_slot (\<lambda>sl. \<not> sl_in_use sl \<and> sl_easy sl = None) (cs_slots s)"; cases r)
      (auto simp add: slot_acquire_locked_def free r Let_def split_beta simp del: not_None_eq)
qed (use assms in \<open>auto simp: slot_acquire_locked_def Let_def simp del: not_None_eq\<close>)

lemma slot_acquire_locked_keeps:
  assumes "pool_inv T s" "slot_acquire_locked s = Some (idx, out, s')"
  shows "out = None \<and> pool_inv T s' \<and> cs_slots s' = cs_slots s
    \<or> (\<exists>sl. out = Some sl \<and> acquired T s idx sl s' \<and> 0 \<le> idx)"
proof -
  have a: "slot_acquire s = (idx, out, s')" using assms(2) by (simp add: slot_acquire_split)
  show ?thesis
    using acquire_keeps [OF assms(1) a] slot_acquire_locked_failed [OF assms(1)] slot_acquire_locked_idx assms(2) by blast
qed

lemma slot_transient_keeps:
  assumes "pool_inv T s" "slot_transient s = (idx, out, s')"
  shows "cs_slots s' = cs_slots s \<and> (out = None \<and> pool_inv T s' \<or>
    (\<exists>sl. out = Some sl \<and> idx = -1 \<and> sl_easy sl \<noteq> None \<and> sl_multi sl \<noteq> None \<and> pool_inv (slot_handles sl @ T) s'))"
proof -
  have lt: "\<forall>h \<in> cs_live s. h < cs_next s" using assms(1) by (simp add: pool_inv_def)
  obtain r s1 where r: "handles_init s = (r, s1)" by fastforce
  from r lt show ?thesis
  proof (cases rule: handles_init_cases)
    case (made e)
    have "e \<notin> cs_live s" "Suc e \<notin> cs_live s" using lt made(2) by fastforce+
    with assms(1) made have "pool_inv ([e, Suc e] @ T) s1" by (auto simp: pool_inv_def held_def less_Suc_eq)
    with assms(2) made r show ?thesis by (auto simp: slot_transient_def slot_handles_def)
  next
    case failed
    with assms r show ?thesis by (auto simp: slot_transient_def pool_inv_def)
  qed
qed

section \<open>Threads\<close>

text \<open>
  A thread is outside \<open>curl_perform\<close>, or has found the pool saturated and let go of the mutex,
  or runs a transfer on the handles it got.
\<close>

datatype curl_thread = Outside | Saturated | Transfers int curl_slot

definition got :: "int \<Rightarrow> curl_slot option \<Rightarrow> curl_thread" where
  "got idx out = (case out of None \<Rightarrow> Outside | Some sl \<Rightarrow> Transfers idx sl)"

inductive curl_step :: "curl_state \<times> curl_thread list \<Rightarrow> curl_state \<times> curl_thread list \<Rightarrow> bool" where
  locked: "slot_acquire_locked s = Some (idx, out, s') \<Longrightarrow> t < length ts \<Longrightarrow> ts ! t = Outside \<Longrightarrow>
    curl_step (s, ts) (s', ts[t := got idx out])"
| saturated: "slot_acquire_locked s = None \<Longrightarrow> t < length ts \<Longrightarrow> ts ! t = Outside \<Longrightarrow>
    curl_step (s, ts) (s, ts[t := Saturated])"
| transient: "slot_transient s = (idx, out, s') \<Longrightarrow> t < length ts \<Longrightarrow> ts ! t = Saturated \<Longrightarrow>
    curl_step (s, ts) (s', ts[t := got idx out])"
| release: "t < length ts \<Longrightarrow> ts ! t = Transfers idx sl \<Longrightarrow>
    curl_step (s, ts) (slot_release s idx sl, ts[t := Outside])"

inductive_cases curl_stepE: "curl_step (s, ts) (s', ts')"

definition curl_runs :: "nat \<Rightarrow> mem \<Rightarrow> curl_state \<times> curl_thread list \<Rightarrow> bool" where
  "curl_runs n m q \<longleftrightarrow> (\<exists>s. sicha_curl_create True m = Some s \<and> curl_step\<^sup>*\<^sup>* (s, replicate n Outside) q)"

text \<open>The handles a thread has made for itself, and the slot of the pool it works on.\<close>

fun own_handles :: "curl_thread \<Rightarrow> nat list" where
  "own_handles (Transfers idx sl) = (if idx = -1 then slot_handles sl else [])"
| "own_handles _ = []"

fun pool_slot :: "curl_thread \<Rightarrow> nat option" where
  "pool_slot (Transfers idx sl) = (if idx = -1 then None else Some (nat idx))"
| "pool_slot _ = None"

definition thread_ok :: "curl_state \<Rightarrow> curl_thread \<Rightarrow> bool" where
  "thread_ok s t \<longleftrightarrow> (\<forall>idx sl. t = Transfers idx sl \<longrightarrow> sl_easy sl \<noteq> None \<and> sl_multi sl \<noteq> None \<and>
     (idx = -1 \<or> 0 \<le> idx \<and> nat idx < CURL_POOL_CAP \<and> cs_slots s ! nat idx = sl \<and> sl_in_use sl))"

definition threads_inv :: "curl_state \<times> curl_thread list \<Rightarrow> bool" where
  "threads_inv = (\<lambda>(s, ts). pool_inv (concat (map own_handles ts)) s \<and> (\<forall>t \<in> set ts. thread_ok s t)
     \<and> (\<forall>k < CURL_POOL_CAP. length (filter (\<lambda>t. pool_slot t = Some k) ts) = of_bool (sl_in_use (cs_slots s ! k))))"

text \<open>One thread of the list moves.\<close>

lemma pool_inv_mset: "mset T = mset T' \<Longrightarrow> pool_inv T s = pool_inv T' s"
  by (simp add: pool_inv_def held_def)

lemma split_at:
  assumes "i < length xs"
  obtains ys zs where "xs = ys @ xs ! i # zs" "\<And>x. xs[i := x] = ys @ x # zs"
  using id_take_nth_drop [OF assms] upd_conv_take_nth_drop [OF assms] by metis

lemma pool_inv_front:
  "pool_inv (concat (map own_handles (ys @ x # zs))) s = pool_inv (own_handles x @ concat (map own_handles (ys @ zs))) s"
  by (rule pool_inv_mset) (simp add: add_ac)

definition users :: "nat \<Rightarrow> curl_thread list \<Rightarrow> nat" where
  "users k ts = length (filter (\<lambda>t. pool_slot t = Some k) ts)"

lemma users_update: "users k (ys @ x # zs) = of_bool (pool_slot x = Some k) + users k (ys @ zs)"
  by (simp add: users_def)

text \<open>The invariant as one thread of the list sees it, the others being \<open>R\<close>.\<close>

definition around :: "curl_state \<Rightarrow> curl_thread \<Rightarrow> curl_thread list \<Rightarrow> bool" where
  "around s x R \<longleftrightarrow> pool_inv (own_handles x @ concat (map own_handles R)) s \<and> thread_ok s x
     \<and> (\<forall>t \<in> set R. thread_ok s t)
     \<and> (\<forall>k < CURL_POOL_CAP. of_bool (pool_slot x = Some k) + users k R = of_bool (sl_in_use (cs_slots s ! k)))"

lemma threads_inv_around: "threads_inv (s, ys @ x # zs) = around s x (ys @ zs)"
  unfolding threads_inv_def around_def prod.case pool_inv_front users_def [symmetric] users_update by auto

text \<open>What a thread holds is not disturbed when a slot it does not use changes.\<close>

lemma thread_ok_kept:
  assumes "thread_ok s t" "\<And>k. pool_slot t = Some k \<Longrightarrow> k < CURL_POOL_CAP \<Longrightarrow> cs_slots s' ! k = cs_slots s ! k"
  shows "thread_ok s' t"
proof (cases t)
  case (Transfers idx sl)
  with assms(1) have "idx \<noteq> -1 \<Longrightarrow> 0 \<le> idx \<and> nat idx < CURL_POOL_CAP \<and> cs_slots s ! nat idx = sl \<and> sl_in_use sl"
    by (simp add: thread_ok_def)
  with assms Transfers show ?thesis by (auto simp: thread_ok_def)
qed (simp_all add: thread_ok_def)

lemma users_0: "users k ts = 0 \<Longrightarrow> t \<in> set ts \<Longrightarrow> pool_slot t \<noteq> Some k"
  by (auto simp: users_def filter_empty_conv)

lemma slot_release_keeps:
  assumes "thread_ok s (Transfers idx sl)" "pool_inv (own_handles (Transfers idx sl) @ T) s"
  shows "pool_inv T (slot_release s idx sl)"
proof -
  have "\<exists>s0. acquired T s0 idx sl s"
  proof (cases "idx = -1")
    case True
    with assms have "acquired T (s\<lparr>cs_live := {}\<rparr>) idx sl s" by (simp add: acquired_def thread_ok_def)
    then show ?thesis ..
  next
    case False
    let ?s0 = "s\<lparr>cs_slots := (cs_slots s)[nat idx := sl\<lparr>sl_in_use := False\<rparr>]\<rparr>"
    have "acquired T ?s0 idx sl s" using assms False by (auto simp: acquired_def thread_ok_def pool_inv_def)
    then show ?thesis ..
  qed
  then obtain s0 where "acquired T s0 idx sl s" ..
  from release_keeps [OF this, of s] assms show ?thesis by (auto simp: thread_ok_def)
qed

lemma around_locked:
  assumes "around s Outside R" "slot_acquire_locked s = Some (idx, out, s')"
  shows "around s' (got idx out) R"
proof -
  let ?T = "concat (map own_handles R)"
  have inv: "pool_inv ?T s" using assms(1) by (simp add: around_def)
  from slot_acquire_locked_keeps [OF inv assms(2)] show ?thesis
  proof (elim disjE exE conjE)
    assume "out = None" "pool_inv ?T s'" "cs_slots s' = cs_slots s"
    with assms(1) show ?thesis by (simp add: around_def got_def thread_ok_def)
  next
    fix sl assume a: "out = Some sl" "acquired ?T s idx sl s'" "0 \<le> idx"
    then have k: "nat idx < CURL_POOL_CAP" "pool_inv ?T s'" "\<not> sl_in_use (cs_slots s ! nat idx)" "sl_in_use sl"
      "cs_slots s' = (cs_slots s)[nat idx := sl]" "sl_easy sl \<noteq> None" "sl_multi sl \<noteq> None" "idx \<noteq> -1"
      by (auto simp: acquired_def)
    have len: "length (cs_slots s) = CURL_POOL_CAP" using inv by (simp add: pool_inv_def)
    have u: "users (nat idx) R = 0" using assms(1) k(1,3) by (auto simp: around_def)
    have "\<forall>t \<in> set R. thread_ok s' t"
    proof
      fix t assume t: "t \<in> set R"
      have "thread_ok s t" using t assms(1) by (simp add: around_def)
      then show "thread_ok s' t" by (rule thread_ok_kept) (use users_0 [OF u t] k(5) in auto)
    qed
    moreover have "of_bool (nat idx = j) + users j R = of_bool (sl_in_use (cs_slots s' ! j))"
      if "j < CURL_POOL_CAP" for j
      using assms(1) that k u len by (cases "j = nat idx") (auto simp: around_def)
    ultimately show ?thesis
      using a(1,3) k len by (auto simp: around_def got_def thread_ok_def)
  qed
qed

lemma around_transient:
  assumes "around s Saturated R" "slot_transient s = (idx, out, s')"
  shows "around s' (got idx out) R"
proof -
  have inv: "pool_inv (concat (map own_handles R)) s" using assms(1) by (simp add: around_def)
  note K = slot_transient_keeps [OF inv assms(2)]
  have "\<forall>t \<in> set R. thread_ok s' t"
    using assms(1) K by (auto simp: around_def intro: thread_ok_kept)
  with K assms(1) show ?thesis by (auto simp: around_def got_def thread_ok_def)
qed

lemma around_release:
  assumes "around s (Transfers idx sl) R"
  shows "around (slot_release s idx sl) Outside R"
proof -
  have x: "thread_ok s (Transfers idx sl)" using assms by (simp add: around_def)
  have inv: "pool_inv (concat (map own_handles R)) (slot_release s idx sl)"
    using assms by (intro slot_release_keeps [OF x]) (simp add: around_def)
  show ?thesis
  proof (cases "idx = -1")
    case True
    then have "cs_slots (slot_release s idx sl) = cs_slots s"
      by (simp add: slot_release_def handle_cleanup_def split: option.split)
    with inv assms True show ?thesis
      by (auto simp: around_def thread_ok_def)
  next
    case False
    with x have k: "0 \<le> idx" "nat idx < CURL_POOL_CAP" by (simp_all add: thread_ok_def)
    have sl: "cs_slots (slot_release s idx sl) = (cs_slots s)[nat idx := (cs_slots s ! nat idx)\<lparr>sl_in_use := False\<rparr>]"
      using k by (simp add: slot_release_def)
    have len: "length (cs_slots s) = CURL_POOL_CAP" using assms by (simp add: around_def pool_inv_def)
    have "of_bool (pool_slot (Transfers idx sl) = Some (nat idx)) + users (nat idx) R
        = of_bool (sl_in_use (cs_slots s ! nat idx))"
      using assms k(2) unfolding around_def by blast
    then have u: "users (nat idx) R = 0" using False by (auto simp: of_bool_def split: if_splits)
    have "\<forall>t \<in> set R. thread_ok (slot_release s idx sl) t"
    proof
      fix t assume t: "t \<in> set R"
      have "thread_ok s t" using t assms by (simp add: around_def)
      then show "thread_ok (slot_release s idx sl) t" by (rule thread_ok_kept) (use users_0 [OF u t] sl in auto)
    qed
    moreover have "users j R = of_bool (sl_in_use (cs_slots (slot_release s idx sl) ! j))" if "j < CURL_POOL_CAP" for j
      using assms that k u len sl False by (cases "j = nat idx") (auto simp: around_def)
    ultimately show ?thesis using inv by (simp add: around_def thread_ok_def)
  qed
qed

lemma curl_step_keeps: "curl_step p q \<Longrightarrow> threads_inv p \<Longrightarrow> threads_inv q"
proof (induction rule: curl_step.induct)
  case (locked s idx out s' t ts)
  from locked(2) obtain ys zs where "ts = ys @ ts ! t # zs" "\<And>x. ts[t := x] = ys @ x # zs" by (rule split_at) blast
  with locked around_locked [of s "ys @ zs" idx out s'] show ?case by (metis threads_inv_around)
next
  case (saturated s t ts)
  from saturated(2) obtain ys zs where "ts = ys @ ts ! t # zs" "\<And>x. ts[t := x] = ys @ x # zs" by (rule split_at) blast
  moreover have "around s Outside (ys @ zs) \<Longrightarrow> around s Saturated (ys @ zs)" by (simp add: around_def thread_ok_def)
  ultimately show ?case using saturated by (metis threads_inv_around)
next
  case (transient s idx out s' t ts)
  from transient(2) obtain ys zs where "ts = ys @ ts ! t # zs" "\<And>x. ts[t := x] = ys @ x # zs" by (rule split_at) blast
  with transient around_transient [of s "ys @ zs" idx out s'] show ?case by (metis threads_inv_around)
next
  case (release t ts idx sl s)
  from release(1) obtain ys zs where "ts = ys @ ts ! t # zs" "\<And>x. ts[t := x] = ys @ x # zs" by (rule split_at) blast
  with release around_release [of s idx sl "ys @ zs"] show ?case by (metis threads_inv_around)
qed

lemma threads_start: "sicha_curl_create True m = Some s \<Longrightarrow> threads_inv (s, replicate n Outside)"
proof -
  assume c: "sicha_curl_create True m = Some s"
  have "concat (map own_handles (replicate n Outside)) = []" by (induction n) simp_all
  moreover have "\<not> sl_in_use (cs_slots s ! k)" if "k < CURL_POOL_CAP" for k
    using c that by (auto simp: sicha_curl_create_def Let_def split: prod.splits if_splits)
  ultimately show ?thesis
    using pool_start [OF c] by (auto simp: threads_inv_def thread_ok_def)
qed

lemma curl_runs_inv: "curl_runs n m q \<Longrightarrow> threads_inv q"
proof -
  assume "curl_runs n m q"
  then obtain s where "sicha_curl_create True m = Some s" "curl_step\<^sup>*\<^sup>* (s, replicate n Outside) q"
    by (auto simp: curl_runs_def)
  from this(2) threads_start [OF this(1), of n] show ?thesis
    by (induction rule: rtranclp_induct) (auto intro: curl_step_keeps)
qed

section \<open>No handle in two transfers\<close>

lemma two_of_sum:
  fixes f :: "'a \<Rightarrow> 'b multiset"
  assumes "i < length xs" "j < length xs" "i \<noteq> j"
  shows "f (xs ! i) + f (xs ! j) \<subseteq># sum_list (map f xs)"
proof -
  have "sum_list (map f xs) = (\<Sum>k \<in> {0..<length xs}. f (xs ! k))"
    by (simp add: sum_list_sum_nth)
  also have "\<dots> = f (xs ! i) + (f (xs ! j) + (\<Sum>k \<in> {0..<length xs} - {i} - {j}. f (xs ! k)))"
    using assms by (simp add: sum.remove [of _ i] sum.remove [of _ j])
  finally show ?thesis by (metis add.assoc mset_subset_eq_add_left)
qed

lemma one_of_sum:
  fixes f :: "'a \<Rightarrow> 'b multiset"
  shows "i < length xs \<Longrightarrow> f (xs ! i) \<subseteq># sum_list (map f xs)"
proof -
  assume i: "i < length xs"
  have "sum_list (map f xs) = sum_list (map f (take i xs @ xs ! i # drop (Suc i) xs))"
    using id_take_nth_drop [OF i] by simp
  then show ?thesis by simp
qed

lemma subset_of_sum: "A \<subseteq># B \<Longrightarrow> A \<subseteq># B + C" "A \<subseteq># B \<Longrightarrow> A \<subseteq># C + (B :: 'b multiset)"
  using mset_subset_eq_add_left mset_subset_eq_add_right subset_mset.order_trans by blast+

lemma mset_concat_own: "mset (concat (map own_handles ts)) = sum_list (map (\<lambda>t. mset (own_handles t)) ts)"
  by (induction ts) simp_all

lemma pool_users_differ:
  assumes "threads_inv (s, ts)" "i < length ts" "j < length ts" "i \<noteq> j" "pool_slot (ts ! i) = Some k" "k < CURL_POOL_CAP"
  shows "pool_slot (ts ! j) \<noteq> Some k"
proof
  assume "pool_slot (ts ! j) = Some k"
  with assms have "{i, j} \<subseteq> {n. n < length ts \<and> pool_slot (ts ! n) = Some k}" by auto
  then have "card {i, j} \<le> card {n. n < length ts \<and> pool_slot (ts ! n) = Some k}" by (intro card_mono) auto
  with assms show False by (auto simp: threads_inv_def length_filter_conv_card of_bool_def split: if_splits)
qed

lemma transfers_disjoint:
  assumes "threads_inv (s, ts)" "i < length ts" "j < length ts" "i \<noteq> j"
    and "ts ! i = Transfers a x" "ts ! j = Transfers b y"
  shows "mset (slot_handles x) + mset (slot_handles y) \<subseteq># held (concat (map own_handles ts)) (cs_slots s)"
proof -
  let ?own = "\<lambda>t. mset (own_handles t)" and ?sl = "\<lambda>sl. mset (slot_handles sl)"
  have ok: "thread_ok s (ts ! i)" "thread_ok s (ts ! j)" and len: "length (cs_slots s) = CURL_POOL_CAP"
    using assms(1-3) by (auto simp: threads_inv_def pool_inv_def)
  have A: "a \<noteq> -1 \<Longrightarrow> 0 \<le> a \<and> nat a < CURL_POOL_CAP \<and> cs_slots s ! nat a = x"
    and B: "b \<noteq> -1 \<Longrightarrow> 0 \<le> b \<and> nat b < CURL_POOL_CAP \<and> cs_slots s ! nat b = y"
    using ok assms(5,6) by (simp_all add: thread_ok_def)
  show ?thesis
  proof (cases "a = -1"; cases "b = -1")
    assume "a = -1" "b = -1"
    with two_of_sum [OF assms(2-4), of ?own] assms(5,6) show ?thesis
      unfolding held_def mset_concat_own by (intro subset_of_sum(2)) simp
  next
    assume ab: "a = -1" "b \<noteq> -1"
    have "?own (ts ! i) \<subseteq># sum_list (map ?own ts)" by (rule one_of_sum [OF assms(2)])
    moreover have "?sl (cs_slots s ! nat b) \<subseteq># sum_list (map ?sl (cs_slots s))"
      using B [OF ab(2)] len by (intro one_of_sum) simp
    ultimately show ?thesis using ab assms(5) B
      unfolding held_def mset_concat_own add.commute [of "mset (slot_handles x)"]
      by (intro subset_mset.add_mono) simp_all
  next
    assume ab: "a \<noteq> -1" "b = -1"
    have "?own (ts ! j) \<subseteq># sum_list (map ?own ts)" by (rule one_of_sum [OF assms(3)])
    moreover have "?sl (cs_slots s ! nat a) \<subseteq># sum_list (map ?sl (cs_slots s))"
      using A [OF ab(1)] len by (intro one_of_sum) simp
    ultimately show ?thesis using ab assms(6) A
      unfolding held_def mset_concat_own by (intro subset_mset.add_mono) simp_all
  next
    assume ab: "a \<noteq> -1" "b \<noteq> -1"
    have "nat a \<noteq> nat b"
      using pool_users_differ [OF assms(1-4), of "nat a"] A B ab assms(5,6) by auto
    with two_of_sum [of "nat a" "cs_slots s" "nat b" ?sl] A [OF ab(1)] B [OF ab(2)] len show ?thesis
      unfolding held_def by (intro subset_of_sum(1)) simp
  qed
qed

lemma transfers_exclusive:
  assumes "threads_inv (s, ts)" "i < length ts" "j < length ts" "i \<noteq> j"
    and "ts ! i = Transfers a x" "ts ! j = Transfers b y"
  shows "set (slot_handles x) \<inter> set (slot_handles y) = {} \<and> set (slot_handles x) \<subseteq> cs_live s"
proof -
  have le: "count (mset (slot_handles x)) h + count (mset (slot_handles y)) h \<le> (if h \<in> cs_live s then 1 else 0)" for h
    using mset_subset_eq_count [OF transfers_disjoint [OF assms], of h] assms(1)
    by (simp add: threads_inv_def pool_inv_def)
  have pos: "0 < count (mset (slot_handles z)) h" if "h \<in> set (slot_handles z)" for h z
    using that by (simp only: count_greater_zero_iff set_mset_mset)
  have "h \<notin> set (slot_handles y) \<and> h \<in> cs_live s" if "h \<in> set (slot_handles x)" for h
    using le [of h] pos [OF that] pos [of h y] by (auto simp del: count_mset_gt_0 count_greater_zero_iff split: if_splits)
  then show ?thesis by auto
qed

section \<open>The pool is used up before a thread makes its own handles\<close>

lemma find_slot_None: "find_slot P xs = None \<longleftrightarrow> (\<forall>x \<in> set xs. \<not> P x)"
  by (induction xs) auto

lemma slot_acquire_locked_full: "slot_acquire_locked s = None \<Longrightarrow> \<forall>sl \<in> set (cs_slots s). sl_in_use sl"
proof (cases "find_slot (\<lambda>sl. \<not> sl_in_use sl \<and> sl_easy sl \<noteq> None) (cs_slots s)")
  case free: None
  assume a: "slot_acquire_locked s = None"
  obtain r s1 where r: "handles_init s = (r, s1)" by fastforce
  from a have "find_slot (\<lambda>sl. \<not> sl_in_use sl \<and> sl_easy sl = None) (cs_slots s) = None"
    by (cases "find_slot (\<lambda>sl. \<not> sl_in_use sl \<and> sl_easy sl = None) (cs_slots s)"; cases r)
      (auto simp: slot_acquire_locked_def free r Let_def simp del: not_None_eq)
  with free show ?thesis unfolding find_slot_None by blast
qed (simp add: slot_acquire_locked_def Let_def del: not_None_eq)

section \<open>sicha_curl_destroy\<close>

definition sicha_curl_destroy :: "curl_state option \<Rightarrow> curl_state option" where
  "sicha_curl_destroy t =
     map_option (\<lambda>s. fold (\<lambda>sl s. handle_cleanup (sl_multi sl) (handle_cleanup (sl_easy sl) s)) (cs_slots s) s) t"

lemma cleanup_all_live:
  "cs_live (fold (\<lambda>sl s. handle_cleanup (sl_multi sl) (handle_cleanup (sl_easy sl) s)) xs s)
     = cs_live s - (\<Union>sl \<in> set xs. set (slot_handles sl))"
proof (induction xs arbitrary: s)
  case (Cons sl xs)
  have "cs_live (handle_cleanup (sl_multi sl) (handle_cleanup (sl_easy sl) s)) = cs_live s - set (slot_handles sl)"
    by (auto simp: handle_cleanup_def slot_handles_def split: option.split)
  with Cons.IH show ?case by auto
qed simp

lemma destroy_leaves_none:
  assumes "pool_inv [] s"
  shows "map_option cs_live (sicha_curl_destroy (Some s)) = Some {}"
proof -
  have "h \<in> (\<Union>sl \<in> set (cs_slots s). set (slot_handles sl))" if "h \<in> cs_live s" for h
  proof -
    have "0 < count (held [] (cs_slots s)) h" using assms that by (simp add: pool_inv_def)
    then have "h \<in># sum_list (map (\<lambda>sl. mset (slot_handles sl)) (cs_slots s))"
      unfolding held_def count_greater_zero_iff by simp
    moreover have "h \<in># sum_list (map (\<lambda>sl. mset (slot_handles sl)) xs) \<Longrightarrow> h \<in> (\<Union>sl \<in> set xs. set (slot_handles sl))"
      for xs by (induction xs) auto
    ultimately show ?thesis by blast
  qed
  then show ?thesis by (auto simp: sicha_curl_destroy_def cleanup_all_live)
qed

lemma all_outside: "set ts \<subseteq> {Outside} \<Longrightarrow> concat (map own_handles ts) = []"
  by (induction ts) auto

lemma destroy_after_transfers:
  assumes "threads_inv (s, ts)" "set ts \<subseteq> {Outside}"
  shows "map_option cs_live (sicha_curl_destroy (Some s)) = Some {} \<and> (\<forall>sl \<in> set (cs_slots s). \<not> sl_in_use sl)"
proof -
  have T: "pool_inv [] s" using assms by (simp add: threads_inv_def all_outside)
  have "filter (\<lambda>t. pool_slot t = Some k) ts = []" for k using assms(2) by (auto simp: filter_empty_conv)
  then have "\<forall>k < CURL_POOL_CAP. \<not> sl_in_use (cs_slots s ! k)" using assms(1) by (simp add: threads_inv_def)
  with T destroy_leaves_none [OF T] show ?thesis by (auto simp: pool_inv_def in_set_conv_nth)
qed

end
