(* ===== verification/Curl_Deadlines.thy ===== *)
theory Curl_Deadlines
  imports Curl_Perform
begin

text \<open>
  The deadlines of a transfer: with a total timeout, and a libcurl that does what its manual
  says, \<open>curl_perform\<close> returns whatever the server does; and it reports a timeout only after
  the time is over.
\<close>

section \<open>Time in a transfer\<close>

text \<open>
  \<open>time\<close> is the time of a world in milliseconds, \<open>left\<close> how many rounds are still to come in the
  current millisecond. Time is not turned back.
\<close>

definition later :: "('w \<Rightarrow> u64) \<Rightarrow> ('w \<Rightarrow> nat) \<Rightarrow> 'w \<Rightarrow> 'w \<Rightarrow> bool" where
  "later time left w w' \<longleftrightarrow> time w < time w' \<or> time w = time w' \<and> left w' \<le> left w"

lemma later_refl [simp]: "later time left w w"
  by (simp add: later_def)

lemma later_trans: "later time left a b \<Longrightarrow> later time left b c \<Longrightarrow> later time left a c"
  by (auto simp: later_def)

lemma later_time: "later time left a b \<Longrightarrow> time a \<le> time b"
  by (auto simp: later_def)

text \<open>
  One call of \<open>curl_multi_perform\<close>, through all its callbacks: time goes on, and when no transfer is
  running any more there is a message.
\<close>

primrec onward :: "('w \<Rightarrow> u64) \<Rightarrow> ('w \<Rightarrow> nat) \<Rightarrow> 'w libcurl \<Rightarrow> 'w multi \<Rightarrow> 'w \<Rightarrow> bool" where
  "onward time left lc (M_return mrc r w) w0 =
     (later time left w0 w \<and> (mrc = CURLM_OK \<and> r = 0 \<longrightarrow> fst (lc_info_read lc w) \<noteq> None))"
| "onward time left lc (M_header b w k) w0 = (later time left w0 w \<and> (\<forall>n w'. onward time left lc (k (n, w')) w'))"
| "onward time left lc (M_data b w k) w0 = (later time left w0 w \<and> (\<forall>n w'. onward time left lc (k (n, w')) w'))"

text \<open>
  The clock reads the time. \<open>curl_multi_poll\<close> returns after some time, or because something has
  happened, which it does only a finite number of times in a millisecond.
\<close>

definition paced :: "('w \<Rightarrow> u64) \<Rightarrow> ('w \<Rightarrow> nat) \<Rightarrow> 'w libcurl \<Rightarrow> 'w sicha_clock \<Rightarrow> 'w sicha_http_sink option \<Rightarrow> bool" where
  "paced time left lc ck sink \<longleftrightarrow>
     (\<forall>w t w'. ck_now_ms ck w = (t, w') \<longrightarrow> t = time w' \<and> later time left w w')
     \<and> (\<forall>sk f h hs w. sink = Some sk \<longrightarrow> sk_on_status sk = Some f \<longrightarrow> later time left w (snd (f h hs w)))
     \<and> (\<forall>sk f bs w. sink = Some sk \<longrightarrow> sk_on_body sk = Some f \<longrightarrow> later time left w (snd (f bs w)))
     \<and> (\<forall>su w. onward time left lc (lc_perform lc su w) w)
     \<and> (\<forall>su w. later time left w (snd (lc_add_handle lc su w)))
     \<and> (\<forall>w. later time left w (snd (lc_info_read lc w)))
     \<and> (\<forall>w. later time left w (lc_poll lc w))
     \<and> (\<forall>w. time w < UINT64_MAX \<longrightarrow> time w < time (lc_poll lc w) \<or> left (lc_poll lc w) < left w)
     \<and> (\<forall>w. later time left w (lc_remove_handle lc w))"

lemma pacedD:
  assumes "paced time left lc ck sink"
  shows "ck_now_ms ck w = (t, w') \<Longrightarrow> t = time w' \<and> later time left w w'"
    and "sink = Some sk \<Longrightarrow> sk_on_status sk = Some f \<Longrightarrow> later time left w (snd (f h hs w))"
    and "sink = Some sk \<Longrightarrow> sk_on_body sk = Some g \<Longrightarrow> later time left w (snd (g bs w))"
    and "onward time left lc (lc_perform lc su w) w"
    and "later time left w (snd (lc_add_handle lc su w))" "later time left w (snd (lc_info_read lc w))"
    and "later time left w (lc_poll lc w)" "later time left w (lc_remove_handle lc w)"
    and "time w < UINT64_MAX \<Longrightarrow> time w < time (lc_poll lc w) \<or> left (lc_poll lc w) < left w"
  using assms unfolding paced_def by blast+

text \<open>The last activity lies between the start of the transfer and now.\<close>

definition active :: "('w \<Rightarrow> u64) \<Rightarrow> u64 \<Rightarrow> xfer \<Rightarrow> 'w \<Rightarrow> bool" where
  "active time start x w \<longleftrightarrow> start \<le> x_last_activity_ms x \<and> x_last_activity_ms x \<le> time w"

lemma active_later: "active time start x w \<Longrightarrow> later time left w w' \<Longrightarrow> active time start x w'"
  unfolding active_def by (meson later_time order.trans)

lemma header_field_activity: "header_field buffer x m = (n, x', m') \<Longrightarrow> x_last_activity_ms x' = x_last_activity_ms x"
  by (auto simp: header_field_def Let_def split: option.splits prod.splits if_splits)

lemma xfer_finish_later:
  assumes P: "paced time left lc ck sink" and "xfer_finish_headers sink x w = (rc, x', w')"
  shows "later time left w w' \<and> x_last_activity_ms x' = x_last_activity_ms x"
  using assms(2) pacedD(2) [OF P]
  by (auto simp: xfer_finish_headers_def xfer_free_headers_def Let_def split: if_splits option.splits prod.splits)
    (metis snd_conv)+

lemma header_cb_later:
  assumes P: "paced time left lc ck sink" and "header_cb ck sink b x w m = (n, x', w', m')" "start \<le> time w"
  shows "later time left w w' \<and> active time start x' w'"
proof -
  obtain now w1 where n: "ck_now_ms ck w = (now, w1)" by fastforce
  from pacedD(1) [OF P n] have t: "now = time w1" "later time left w w1" by simp_all
  have s: "start \<le> now" using assms(3) later_time [OF t(2)] t(1) by simp
  let ?x = "x\<lparr>x_last_activity_ms := now\<rparr>"
  obtain rc x2 w2 where f: "xfer_finish_headers sink ?x w1 = (rc, x2, w2)" by (metis prod_cases3)
  obtain k x3 m3 where h: "header_field b ?x m = (k, x3, m3)" by (metis prod_cases3)
  note F = xfer_finish_later [OF P f] and H = header_field_activity [OF h]
  have "(w' = w1 \<or> w' = w2) \<and> x_last_activity_ms x' = now"
    using assms(2) F H by (auto simp: header_cb_def n f h Let_def xfer_free_headers_def split: if_splits)
  moreover have "later time left w1 w'" using calculation F by auto
  ultimately show ?thesis
    using later_trans [OF t(2)] s t(1) later_time [of time left w1 w'] by (simp add: active_def)
qed

lemma write_cb_later:
  assumes P: "paced time left lc ck sink" and "write_cb ck sink bs x w = (n, x', w')" "start \<le> time w"
  shows "later time left w w' \<and> active time start x' w'"
proof -
  obtain now w1 where n: "ck_now_ms ck w = (now, w1)" by fastforce
  from pacedD(1) [OF P n] have t: "now = time w1" "later time left w w1" by simp_all
  have s: "start \<le> now" using assms(3) later_time [OF t(2)] t(1) by simp
  have "later time left w1 w' \<and> x_last_activity_ms x' = now"
    using assms(2) pacedD(3) [OF P]
    by (auto simp: write_cb_def n Let_def split: option.splits prod.splits if_splits) (metis snd_conv)+
  then show ?thesis
    using later_trans [OF t(2)] s t(1) later_time [of time left w1 w'] by (simp add: active_def)
qed

text \<open>A call of \<open>curl_multi_perform\<close>: time goes on, and without a running transfer there is a message.\<close>

lemma run_multi_later:
  assumes P: "paced time left lc ck sink"
  shows "onward time left lc t w0 \<Longrightarrow> active time start x w0 \<Longrightarrow> run_multi ck sink t x m = (mrc, r, x', w', m') \<Longrightarrow>
    later time left w0 w' \<and> active time start x' w' \<and> (mrc = CURLM_OK \<and> r = 0 \<longrightarrow> fst (lc_info_read lc w') \<noteq> None)"
proof (induction t arbitrary: x m w0)
  case (M_return mrc0 r0 w)
  then show ?case using active_later [OF M_return.prems(2)] by auto
next
  case (M_header b w k)
  obtain n x1 w1 m1 where h: "header_cb ck sink b x w m = (n, x1, w1, m1)" by (metis prod_cases4)
  from M_header.prems(1) have o: "later time left w0 w" "onward time left lc (k (n, w1)) w1" by simp_all
  have "start \<le> time w" using active_later [OF M_header.prems(2) o(1)] by (auto simp: active_def)
  from header_cb_later [OF P h this] have c: "later time left w w1" "active time start x1 w1" by simp_all
  have "run_multi ck sink (k (n, w1)) x1 m1 = (mrc, r, x', w', m')" using M_header.prems(3) h by simp
  from M_header.IH [OF rangeI o(2) c(2) this] later_trans [OF later_trans [OF o(1) c(1)]] show ?case by blast
next
  case (M_data bs w k)
  obtain n x1 w1 where h: "write_cb ck sink bs x w = (n, x1, w1)" by (metis prod_cases3)
  from M_data.prems(1) have o: "later time left w0 w" "onward time left lc (k (n, w1)) w1" by simp_all
  have "start \<le> time w" using active_later [OF M_data.prems(2) o(1)] by (auto simp: active_def)
  from write_cb_later [OF P h this] have c: "later time left w w1" "active time start x1 w1" by simp_all
  have "run_multi ck sink (k (n, w1)) x1 m = (mrc, r, x', w', m')" using M_data.prems(3) h by simp
  from M_data.IH [OF rangeI o(2) c(2) this] later_trans [OF later_trans [OF o(1) c(1)]] show ?case by blast
qed

section \<open>Timeouts are reported when they are due\<close>

definition timeout_due :: "sicha_timeouts \<Rightarrow> nat \<Rightarrow> sicha_transport_status \<Rightarrow> bool" where
  "timeout_due t elapsed st \<longleftrightarrow>
     (st = SICHA_T_E_TIMEOUT_TOTAL \<longrightarrow> total_ms t \<noteq> SICHA_INFINITE \<and> unat (total_ms t) \<le> elapsed)
     \<and> (st = SICHA_T_E_TIMEOUT_FIRST_BYTE \<longrightarrow> first_byte_ms t \<noteq> SICHA_INFINITE \<and> unat (first_byte_ms t) \<le> elapsed)
     \<and> (st = SICHA_T_E_TIMEOUT_IDLE \<longrightarrow> idle_ms t \<noteq> SICHA_INFINITE \<and> unat (idle_ms t) \<le> elapsed)
     \<and> (st = SICHA_T_E_TIMEOUT_CONNECT \<longrightarrow> connect_ms t \<noteq> SICHA_INFINITE \<and> unat (connect_ms t) \<le> elapsed + 50)"

lemma timeout_due_mono: "timeout_due t a st \<Longrightarrow> a \<le> b \<Longrightarrow> timeout_due t b st"
  by (auto simp: timeout_due_def)

lemma unat_ge_diff: "a \<le> b \<Longrightarrow> ucast (n :: u32) \<le> (b :: u64) - a \<Longrightarrow> unat n \<le> unat b - unat a"
  by (simp add: word_le_nat_alt unat_sub)

lemma verdict_due:
  assumes "round_verdict start now cancelled t x = Some st" "start \<le> now" "start \<le> x_last_activity_ms x"
    "x_last_activity_ms x \<le> now"
  shows "timeout_due t (unat now - unat start) st"
proof -
  have "unat now - unat (x_last_activity_ms x) \<le> unat now - unat start"
    using assms(3) by (simp add: word_le_nat_alt diff_le_mono2)
  with assms(1) unat_ge_diff [OF assms(2)] unat_ge_diff [OF assms(4)] show ?thesis
    unfolding timeout_due_def round_verdict_def by (fastforce split: if_splits)
qed

lemma code_due:
  assumes "start \<le> now"
  shows "timeout_due t (unat now - unat start) (map_curl_code rc x (now - start) (connect_ms t))"
proof -
  have "unat (connect_ms t) \<le> unat now - unat start + 50" if c: "ucast (connect_ms t) \<le> now - start + 50"
  proof -
    have "unat (connect_ms t) \<le> unat (now - start + 50)" using c by (simp add: word_le_nat_alt)
    also have "\<dots> \<le> unat (now - start) + 50" by (simp add: unat_word_ariths)
    finally show ?thesis using assms by (simp add: unat_sub)
  qed
  then show ?thesis
    by (auto simp: timeout_due_def map_curl_code_def split: curl_code.splits if_splits)
qed

lemma multi_loop_due:
  assumes P: "paced time left lc ck sink" and "active time start x w"
    and loop: "multi_loop lc ck sink cancel su t start x w m = Some (st, x', w', m')"
  shows "start \<le> time w' \<and> timeout_due t (unat (time w') - unat start) st"
proof -
  let ?I = "active time start" and ?Q = "\<lambda>st x w. start \<le> time w \<and> timeout_due t (unat (time w) - unat start) st"
  show ?thesis
  proof (rule multi_loop_rule [where I = ?I and Q = ?Q, OF loop assms(2)])
    fix x w m mrc r x' w' m'
    assume "?I x w" "run_multi ck sink (lc_perform lc su w) x m = (mrc, r, x', w', m')"
    from run_multi_later [OF P pacedD(4) [OF P] this] show "?I x' w'" by blast
  next
    fix x w0 now w rc
    assume "ck_now_ms ck w0 = (now, w)" "?I x w"
    moreover from this pacedD(1) [OF P] have "now = time w" "start \<le> time w" by (auto simp: active_def)
    ultimately show "?Q (map_curl_code rc x (now - start) (connect_ms t)) x w" using code_due by auto
  next
    fix x w0 now w st
    assume "ck_now_ms ck w0 = (now, w)" "?I x w" "round_verdict start now (is_set_token cancel w) t x = Some st"
    moreover from this pacedD(1) [OF P] have "now = time w" "start \<le> time w" by (auto simp: active_def)
    ultimately show "?Q st x w" using verdict_due unfolding active_def by blast
  next
    fix x w
    assume "?I x w"
    then show "?I x (snd (lc_info_read lc w))" "?I x (lc_poll lc w)" "?I x (snd (ck_now_ms ck w))"
      using pacedD(1) [OF P, of w "fst (ck_now_ms ck w)" "snd (ck_now_ms ck w)"]
        active_later [OF _ pacedD(6) [OF P]] active_later [OF _ pacedD(7) [OF P]] active_later by auto
  qed (auto simp: active_def timeout_due_def)
qed

section \<open>The transfer ends\<close>

text \<open>
  In every round that goes on time passes, or one of the rounds of the millisecond is used up;
  the total timeout is due before the clock has run out.
\<close>

lemma multi_loop_ends:
  assumes P: "paced time left lc ck sink"
    and t: "total_ms t \<noteq> SICHA_INFINITE" "unat start + unat (total_ms t) \<le> unat UINT64_MAX"
  shows "active time start x w \<Longrightarrow> \<exists>r. multi_loop lc ck sink cancel su t start x w m = Some r"
proof (induction "(unat UINT64_MAX - unat (time w), left w)" arbitrary: x w m rule: wf_induct_rule [OF wf_lex_prod [OF wf_less_than wf_less_than]])
  case (1 w x m)
  obtain mrc r x1 w1 m1 where r1: "run_multi ck sink (lc_perform lc su w) x m = (mrc, r, x1, w1, m1)" by (metis prod_cases5)
  from run_multi_later [OF P pacedD(4) [OF P] 1(2) r1] have a1: "later time left w w1" "active time start x1 w1"
    "mrc = CURLM_OK \<and> r = 0 \<longrightarrow> fst (lc_info_read lc w1) \<noteq> None" by blast+
  obtain msg w2 where r2: "lc_info_read lc w1 = (msg, w2)" by fastforce
  obtain now w3 where r3: "ck_now_ms ck w2 = (now, w3)" by fastforce
  have l2: "later time left w1 w2" using pacedD(6) [OF P, of w1] r2 by simp
  from pacedD(1) [OF P r3] have l3: "now = time w3" "later time left w2 w3" by simp_all
  note l = later_trans [OF later_trans [OF a1(1) l2] l3(2)]
  have a3: "active time start x1 w3" using active_later [OF active_later [OF a1(2) l2] l3(2)] .
  show ?case
  proof (cases "mrc = CURLM_OK \<and> msg = None")
    case False
    then show ?thesis by (subst multi_loop.simps) (auto simp: r1 r2 r3 split: option.splits)
  next
    case go: True
    with a1(3) r2 have r: "r \<noteq> 0" by auto
    show ?thesis
    proof (cases "round_verdict start now (is_set_token cancel w3) t x1")
      case (Some st)
      with go r show ?thesis by (subst multi_loop.simps) (simp add: r1 r2 r3)
    next
      case None
      let ?w = "lc_poll lc w3"
      have "\<not> ucast (total_ms t) \<le> now - start" using None t(1) by (auto simp: round_verdict_def split: if_splits)
      then have "unat now - unat start < unat (total_ms t)"
        using a3 l3(1) by (auto simp: word_le_nat_alt active_def unat_sub)
      with t(2) have lt: "time w3 < UINT64_MAX" unfolding word_less_nat_alt l3(1) by linarith
      have p: "later time left w3 ?w" by (rule pacedD(7) [OF P])
      have "time w < time ?w \<or> time w = time ?w \<and> left ?w < left w"
        using pacedD(9) [OF P lt] p l unfolding later_def by force
      then have "((unat UINT64_MAX - unat (time ?w), left ?w), (unat UINT64_MAX - unat (time w), left w)) \<in> less_than <*lex*> less_than"
        using word_le_nat_alt [of "time ?w" UINT64_MAX] by (auto simp: word_less_nat_alt)
      from 1(1) [OF this active_later [OF a3 p]] go r None show ?thesis
        by (subst multi_loop.simps) (simp add: r1 r2 r3)
    qed
  qed
qed

section \<open>perform\<close>

text \<open>The reading of the clock at the start leaves room for the total timeout in 64 bits.\<close>

definition has_deadline :: "'w libcurl \<Rightarrow> 'w sicha_clock \<Rightarrow> sicha_timeouts \<Rightarrow> 'w \<Rightarrow> bool" where
  "has_deadline lc ck t w \<longleftrightarrow> total_ms t \<noteq> SICHA_INFINITE
     \<and> (\<forall>su. unat (fst (ck_now_ms ck (snd (lc_add_handle lc su w)))) + unat (total_ms t) < 2 ^ 64)"

lemma slot_transfer_ends:
  assumes P: "paced time left lc ck sink" and t: "has_deadline lc ck (hr_timeouts rq) w"
  shows "\<exists>r. slot_transfer lc ck rq sink cancel w m = Some r"
proof -
  obtain hdrs m1 where 1: "header_lines (hr_headers rq) [] m = (hdrs, m1)" by fastforce
  let ?su = "easy_setup rq (the hdrs)"
  obtain ok w1 where 2: "lc_add_handle lc ?su w = (ok, w1)" by fastforce
  obtain start w2 where 3: "ck_now_ms ck w1 = (start, w2)" by fastforce
  have "start = time w2" using pacedD(1) [OF P 3] by simp
  then have a: "active time start (xfer_start\<lparr>x_last_activity_ms := start\<rparr>) w2" by (simp add: active_def)
  have "unat start + unat (total_ms (hr_timeouts rq)) < 2 ^ 64"
    using t 2 3 unfolding has_deadline_def by (metis fst_conv snd_conv)
  then have "unat start + unat (total_ms (hr_timeouts rq)) \<le> unat UINT64_MAX" by (simp add: UINT64_MAX_def)
  from multi_loop_ends [OF P _ this a, of cancel ?su m1] t
  obtain r where "multi_loop lc ck sink cancel ?su (hr_timeouts rq) start (xfer_start\<lparr>x_last_activity_ms := start\<rparr>) w2 m1 = Some r"
    by (auto simp: has_deadline_def)
  with 1 2 3 show ?thesis by (cases hdrs; cases r) (auto simp: slot_transfer_def Let_def)
qed

lemma slot_transfer_due:
  assumes P: "paced time left lc ck sink" and "slot_transfer lc ck rq sink cancel w m = Some (st, w', m')"
  shows "time w \<le> time w' \<and> timeout_due (hr_timeouts rq) (unat (time w') - unat (time w)) st"
proof -
  obtain hdrs m1 where 1: "header_lines (hr_headers rq) [] m = (hdrs, m1)" by fastforce
  let ?su = "easy_setup rq (the hdrs)"
  obtain ok w1 where 2: "lc_add_handle lc ?su w = (ok, w1)" by fastforce
  obtain start w2 where n: "ck_now_ms ck w1 = (start, w2)" by fastforce
  have l: "later time left w w1" using pacedD(5) [OF P, of w ?su] 2 by simp
  from pacedD(1) [OF P n] have s: "start = time w2" "later time left w1 w2" by simp_all
  then have a: "active time start (xfer_start\<lparr>x_last_activity_ms := start\<rparr>) w2" by (simp add: active_def)
  have ws: "time w \<le> start" using later_time [OF later_trans [OF l s(2)]] s(1) by simp
  consider "hdrs = None" | "hdrs \<noteq> None" "\<not> ok" | "hdrs \<noteq> None" ok by auto
  then show ?thesis
  proof cases
    case 3
    then obtain x' where "multi_loop lc ck sink cancel ?su (hr_timeouts rq) start
        (xfer_start\<lparr>x_last_activity_ms := start\<rparr>) w2 m1 = Some (st, x', w', m')"
      using assms(2) 1 2 n by (auto simp: slot_transfer_def Let_def)
    from multi_loop_due [OF P a this] have d: "start \<le> time w'" "timeout_due (hr_timeouts rq) (unat (time w') - unat start) st"
      by simp_all
    have "unat (time w') - unat start \<le> unat (time w') - unat (time w)"
      using ws by (simp add: word_le_nat_alt diff_le_mono2)
    with timeout_due_mono [OF d(2)] ws d(1) show ?thesis by auto
  qed (use assms(2) 1 2 later_time [OF l] in \<open>auto simp: slot_transfer_def Let_def timeout_due_def\<close>)
qed

theorem curl_perform_ends:
  assumes "paced time left lc ck sink" "has_deadline lc ck (hr_timeouts rq) w"
  shows "\<exists>st s' w'. curl_perform lc (Some ck) (Some rq) sink cancel s w = Some (st, s', w')"
proof -
  obtain idx out s1 where a: "slot_acquire s = (idx, out, s1)" by (metis prod_cases3)
  show ?thesis
    using slot_transfer_ends [OF assms, of cancel "cs_mem s1"] by (cases out) (auto simp: curl_perform_def a)
qed

theorem curl_perform_due:
  assumes P: "paced time left lc ck sink"
    and "curl_perform lc (Some ck) (Some rq) sink cancel s w = Some (st, s', w')"
  shows "time w \<le> time w' \<and> timeout_due (hr_timeouts rq) (unat (time w') - unat (time w)) st"
  using assms(2)
proof (cases rule: curl_perform_cases)
  case (transferred rq' ck' idx sl s1 w1 m1)
  then have "slot_transfer lc ck rq sink cancel w (cs_mem s1) = Some (st, w1, m1)" by simp
  from slot_transfer_due [OF P this] have d: "time w \<le> time w1" "timeout_due (hr_timeouts rq) (unat (time w1) - unat (time w)) st"
    by simp_all
  have "time w1 \<le> time w'" using later_time [OF pacedD(8) [OF P, of w1]] transferred(6) by simp
  moreover from this have "unat (time w1) - unat (time w) \<le> unat (time w') - unat (time w)"
    by (simp add: word_le_nat_alt diff_le_mono)
  ultimately show ?thesis using d timeout_due_mono [OF d(2)] by auto
qed (simp_all add: timeout_due_def)

section \<open>What the server has sent by then\<close>

text \<open>
  \<open>heard\<close> is the time at which libcurl handed over the last line or piece of the response, and
  \<open>told\<close> the number of calls of \<open>on_status\<close>: the callbacks of libcurl move \<open>heard\<close>, \<open>on_status\<close> moves
  \<open>told\<close>, and nothing else moves them.
\<close>

definition untouched :: "('w \<Rightarrow> u64) \<Rightarrow> ('w \<Rightarrow> nat) \<Rightarrow> 'w \<Rightarrow> 'w \<Rightarrow> bool" where
  "untouched heard told w w' \<longleftrightarrow> heard w' = heard w \<and> told w' = told w"

primrec noted :: "('w \<Rightarrow> u64) \<Rightarrow> ('w \<Rightarrow> u64) \<Rightarrow> ('w \<Rightarrow> nat) \<Rightarrow> 'w multi \<Rightarrow> 'w \<Rightarrow> bool" where
  "noted time heard told (M_return mrc r w) w0 = untouched heard told w0 w"
| "noted time heard told (M_header b w k) w0 =
     (heard w = time w \<and> told w = told w0 \<and> (\<forall>n w'. noted time heard told (k (n, w')) w'))"
| "noted time heard told (M_data b w k) w0 =
     (heard w = time w \<and> told w = told w0 \<and> (\<forall>n w'. noted time heard told (k (n, w')) w'))"

definition observed :: "('w \<Rightarrow> u64) \<Rightarrow> ('w \<Rightarrow> u64) \<Rightarrow> ('w \<Rightarrow> nat) \<Rightarrow> 'w libcurl \<Rightarrow> 'w sicha_clock \<Rightarrow>
    'w sicha_http_sink option \<Rightarrow> bool" where
  "observed time heard told lc ck sink \<longleftrightarrow>
     (\<forall>w. untouched heard told w (snd (ck_now_ms ck w)))
     \<and> (\<forall>sk f h hs w. sink = Some sk \<longrightarrow> sk_on_status sk = Some f \<longrightarrow>
          heard (snd (f h hs w)) = heard w \<and> told (snd (f h hs w)) = Suc (told w))
     \<and> (\<forall>sk f bs w. sink = Some sk \<longrightarrow> sk_on_body sk = Some f \<longrightarrow> untouched heard told w (snd (f bs w)))
     \<and> (\<forall>su w. noted time heard told (lc_perform lc su w) w)
     \<and> (\<forall>su w. untouched heard told w (snd (lc_add_handle lc su w)))
     \<and> (\<forall>w. untouched heard told w (snd (lc_info_read lc w)))
     \<and> (\<forall>w. untouched heard told w (lc_poll lc w)) \<and> (\<forall>w. untouched heard told w (lc_remove_handle lc w))"

lemma observedD:
  assumes "observed time heard told lc ck sink"
  shows "ck_now_ms ck w = (t, w') \<Longrightarrow> untouched heard told w w'"
    and "sink = Some sk \<Longrightarrow> sk_on_status sk = Some f \<Longrightarrow> heard (snd (f h hs w)) = heard w"
    and "sink = Some sk \<Longrightarrow> sk_on_body sk = Some g \<Longrightarrow> untouched heard told w (snd (g bs w))"
    and "noted time heard told (lc_perform lc su w) w"
    and "untouched heard told w (snd (lc_add_handle lc su w))" "untouched heard told w (snd (lc_info_read lc w))"
    and "untouched heard told w (lc_poll lc w)" "untouched heard told w (lc_remove_handle lc w)"
  using assms unfolding observed_def by (metis snd_conv)+

text \<open>The transfer knows of the last activity, and while it has not seen the status it has told none.\<close>

definition knows :: "('w \<Rightarrow> u64) \<Rightarrow> ('w \<Rightarrow> nat) \<Rightarrow> nat \<Rightarrow> xfer \<Rightarrow> 'w \<Rightarrow> bool" where
  "knows heard told n x w \<longleftrightarrow>
     (if x_status_delivered x then heard w \<le> x_last_activity_ms x else told w = n)"

lemma knows_untouched: "knows heard told n x w \<Longrightarrow> untouched heard told w w' \<Longrightarrow> knows heard told n x w'"
  by (simp add: knows_def untouched_def)

lemma xfer_finish_knows:
  assumes O: "observed time heard told lc ck sink" and "xfer_finish_headers sink x w = (rc, x', w')"
    and "heard w \<le> x_last_activity_ms x" "knows heard told n x w"
  shows "knows heard told n x' w'"
  using assms(2-4) observedD(2) [OF O]
  by (auto simp: xfer_finish_headers_def xfer_free_headers_def knows_def Let_def
      split: if_splits option.splits prod.splits) (metis snd_conv)+

lemma header_cb_knows:
  assumes P: "paced time left lc ck sink" and O: "observed time heard told lc ck sink"
    and "header_cb ck sink b x w m = (k, x', w', m')" "heard w = time w" "\<not> x_status_delivered x \<Longrightarrow> told w = n"
  shows "knows heard told n x' w'"
proof -
  obtain now w1 where c: "ck_now_ms ck w = (now, w1)" by fastforce
  have u: "untouched heard told w w1" by (rule observedD(1) [OF O c])
  have l: "heard w1 \<le> now" using pacedD(1) [OF P c] later_time [of time left w w1] u assms(4) by (simp add: untouched_def)
  let ?x = "x\<lparr>x_last_activity_ms := now\<rparr>"
  have K: "knows heard told n ?x w1" using u l assms(5) by (simp add: knows_def untouched_def)
  obtain rc x2 w2 where f: "xfer_finish_headers sink ?x w1 = (rc, x2, w2)" by (metis prod_cases3)
  obtain j x3 m3 where h: "header_field b ?x m = (j, x3, m3)" by (metis prod_cases3)
  have 2: "knows heard told n x2 w2" by (rule xfer_finish_knows [OF O f _ K]) (simp add: l)
  have 3: "knows heard told n x3 w1"
    using K l header_field_activity [OF h] header_field_status [OF h] by (simp add: knows_def split: if_splits)
  show ?thesis
    using assms(3) K 2 3
    by (auto simp: header_cb_def c f h Let_def xfer_free_headers_def knows_def split: if_splits)
qed

lemma write_cb_knows:
  assumes P: "paced time left lc ck sink" and O: "observed time heard told lc ck sink"
    and "write_cb ck sink bs x w = (k, x', w')" "heard w = time w" "\<not> x_status_delivered x \<Longrightarrow> told w = n"
  shows "knows heard told n x' w'"
proof -
  obtain now w1 where c: "ck_now_ms ck w = (now, w1)" by fastforce
  have u: "untouched heard told w w1" by (rule observedD(1) [OF O c])
  have l: "heard w1 \<le> now" using pacedD(1) [OF P c] later_time [of time left w w1] u assms(4) by (simp add: untouched_def)
  have K: "knows heard told n (x\<lparr>x_last_activity_ms := now\<rparr>) w1" using u l assms(5) by (simp add: knows_def untouched_def)
  have "untouched heard told w1 w'" "x_status_delivered x' = x_status_delivered x" "x_last_activity_ms x' = now"
    using assms(3) observedD(3) [OF O]
    by (auto simp: write_cb_def c Let_def untouched_def split: option.splits prod.splits if_splits) (metis snd_conv)+
  with K l show ?thesis by (simp add: knows_def untouched_def split: if_splits)
qed

lemma run_multi_knows:
  assumes P: "paced time left lc ck sink" and O: "observed time heard told lc ck sink"
  shows "noted time heard told t w0 \<Longrightarrow> knows heard told n x w0 \<Longrightarrow> run_multi ck sink t x m = (mrc, r, x', w', m') \<Longrightarrow>
    knows heard told n x' w'"
proof (induction t arbitrary: x m w0)
  case (M_return mrc0 r0 w)
  then show ?case using knows_untouched by auto
next
  case (M_header b w k)
  obtain j x1 w1 m1 where h: "header_cb ck sink b x w m = (j, x1, w1, m1)" by (metis prod_cases4)
  have "knows heard told n x1 w1"
    using M_header.prems(1,2) by (intro header_cb_knows [OF P O h]) (auto simp: knows_def)
  moreover have "noted time heard told (k (j, w1)) w1" using M_header.prems(1) by simp
  moreover have "run_multi ck sink (k (j, w1)) x1 m1 = (mrc, r, x', w', m')" using M_header.prems(3) h by simp
  ultimately show ?case using M_header.IH [OF rangeI] by blast
next
  case (M_data bs w k)
  obtain j x1 w1 where h: "write_cb ck sink bs x w = (j, x1, w1)" by (metis prod_cases3)
  have "knows heard told n x1 w1"
    using M_data.prems(1,2) by (intro write_cb_knows [OF P O h]) (auto simp: knows_def)
  moreover have "noted time heard told (k (j, w1)) w1" using M_data.prems(1) by simp
  moreover have "run_multi ck sink (k (j, w1)) x1 m = (mrc, r, x', w', m')" using M_data.prems(3) h by simp
  ultimately show ?case using M_data.IH [OF rangeI] by blast
qed

text \<open>
  An idle timeout comes after the time without any line or piece of the response, a timeout of
  the connection or of the first byte before the sink was told a status.
\<close>

definition timeout_right :: "sicha_timeouts \<Rightarrow> nat \<Rightarrow> bool \<Rightarrow> sicha_transport_status \<Rightarrow> bool" where
  "timeout_right t silence untold st \<longleftrightarrow>
     (st = SICHA_T_E_TIMEOUT_IDLE \<longrightarrow> unat (idle_ms t) \<le> silence)
     \<and> (st = SICHA_T_E_TIMEOUT_FIRST_BYTE \<or> st = SICHA_T_E_TIMEOUT_CONNECT \<longrightarrow> untold)"

lemma verdict_right:
  assumes "round_verdict start (time w) cancelled t x = Some st" "knows heard told n x w" "active time start x w"
  shows "timeout_right t (unat (time w) - unat (heard w)) (told w = n) st"
proof -
  have "unat (idle_ms t) \<le> unat (time w) - unat (heard w)"
    if "ucast (idle_ms t) \<le> time w - x_last_activity_ms x" "heard w \<le> x_last_activity_ms x"
    using unat_ge_diff [OF _ that(1)] that(2) assms(3) by (auto simp: active_def word_le_nat_alt)
  with assms(1,2) show ?thesis
    unfolding timeout_right_def round_verdict_def knows_def by (auto split: if_splits)
qed

lemma code_right: "knows heard told n x w \<Longrightarrow> timeout_right t s (told w = n) (map_curl_code rc x elapsed budget)"
  by (auto simp: timeout_right_def map_curl_code_def knows_def split: curl_code.splits if_splits)

lemma timeout_right_mono: "timeout_right t a u st \<Longrightarrow> a \<le> b \<Longrightarrow> timeout_right t b u st"
  by (auto simp: timeout_right_def)

lemma multi_loop_right:
  assumes P: "paced time left lc ck sink" and O: "observed time heard told lc ck sink"
    and "active time start x w" "knows heard told n x w"
    and loop: "multi_loop lc ck sink cancel su t start x w m = Some (st, x', w', m')"
  shows "timeout_right t (unat (time w') - unat (heard w')) (told w' = n) st"
proof -
  let ?I = "\<lambda>x w. active time start x w \<and> knows heard told n x w"
  show ?thesis
  proof (rule multi_loop_rule [where I = ?I and Q = "\<lambda>st x w. timeout_right t (unat (time w) - unat (heard w)) (told w = n) st", OF loop])
    show "?I x w" using assms(3,4) by simp
  next
    fix x w m mrc r x' w' m'
    assume "?I x w" and r: "run_multi ck sink (lc_perform lc su w) x m = (mrc, r, x', w', m')"
    then have a: "active time start x w" "knows heard told n x w" by simp_all
    show "?I x' w'"
      using run_multi_later [OF P pacedD(4) [OF P] a(1) r] run_multi_knows [OF P O observedD(4) [OF O] a(2) r] by blast
  next
    fix x w0 now w st
    assume "ck_now_ms ck w0 = (now, w)" "?I x w" "round_verdict start now (is_set_token cancel w) t x = Some st"
    moreover from this pacedD(1) [OF P] have "now = time w" by blast
    ultimately show "timeout_right t (unat (time w) - unat (heard w)) (told w = n) st"
      using verdict_right [of start time w _ t x st heard told n] by blast
  next
    fix x w
    assume I: "?I x w"
    obtain now w1 where c: "ck_now_ms ck w = (now, w1)" by fastforce
    show "?I x (snd (lc_info_read lc w))" "?I x (lc_poll lc w)" "?I x (snd (ck_now_ms ck w))"
      using I active_later [OF _ pacedD(6) [OF P]] active_later [OF _ pacedD(7) [OF P]] active_later pacedD(1) [OF P c]
        knows_untouched [OF _ observedD(6) [OF O]] knows_untouched [OF _ observedD(7) [OF O]]
        knows_untouched [OF _ observedD(1) [OF O c]] c by auto
  qed (fastforce simp: timeout_right_def, blast intro: code_right)
qed

lemma slot_transfer_right:
  assumes P: "paced time left lc ck sink" and O: "observed time heard told lc ck sink"
    and "slot_transfer lc ck rq sink cancel w m = Some (st, w', m')"
  shows "timeout_right (hr_timeouts rq) (unat (time w') - unat (heard w')) (told w' = told w) st"
proof -
  obtain hdrs m1 where 1: "header_lines (hr_headers rq) [] m = (hdrs, m1)" by fastforce
  let ?su = "easy_setup rq (the hdrs)"
  obtain ok w1 where 2: "lc_add_handle lc ?su w = (ok, w1)" by fastforce
  obtain start w2 where c: "ck_now_ms ck w1 = (start, w2)" by fastforce
  let ?x = "xfer_start\<lparr>x_last_activity_ms := start\<rparr>"
  have a: "active time start ?x w2" using pacedD(1) [OF P c] by (simp add: active_def)
  have k: "knows heard told (told w) ?x w2"
    using observedD(5) [OF O, of w ?su] 2 observedD(1) [OF O c] by (simp add: knows_def untouched_def xfer_start_def)
  consider "hdrs = None" | "hdrs \<noteq> None" "\<not> ok" | "hdrs \<noteq> None" ok by auto
  then show ?thesis
  proof cases
    case 3
    then obtain x' where "multi_loop lc ck sink cancel ?su (hr_timeouts rq) start ?x w2 m1 = Some (st, x', w', m')"
      using assms(3) 1 2 c by (auto simp: slot_transfer_def Let_def)
    from multi_loop_right [OF P O a k this] show ?thesis .
  qed (use assms(3) 1 2 in \<open>auto simp: slot_transfer_def Let_def timeout_right_def\<close>)
qed

theorem curl_perform_right:
  assumes P: "paced time left lc ck sink" and O: "observed time heard told lc ck sink"
    and "curl_perform lc (Some ck) (Some rq) sink cancel s w = Some (st, s', w')"
  shows "timeout_right (hr_timeouts rq) (unat (time w') - unat (heard w')) (told w' = told w) st"
  using assms(3)
proof (cases rule: curl_perform_cases)
  case (transferred rq' ck' idx sl s1 w1 m1)
  then have "slot_transfer lc ck rq sink cancel w (cs_mem s1) = Some (st, w1, m1)" by simp
  from slot_transfer_right [OF P O this] timeout_right_mono
  have "timeout_right (hr_timeouts rq) b (told w1 = told w) st" if "unat (time w1) - unat (heard w1) \<le> b" for b
    using that by blast
  moreover have "untouched heard told w1 w'" "time w1 \<le> time w'"
    using observedD(8) [OF O, of w1] later_time [OF pacedD(8) [OF P, of w1]] transferred(6) by simp_all
  ultimately show ?thesis by (simp add: untouched_def word_le_nat_alt diff_le_mono)
qed (simp_all add: timeout_right_def)

end
