(* ===== verification/Timedwait.thy ===== *)
theory Timedwait
  imports Cancel
begin

text \<open>
  The timed wait of \<open>src/sicha_thread.h\<close>. On a POSIX system: the absolute time that is handed to
  \<open>pthread_cond_timedwait\<close>, and what a wait that reports a time-out has waited. On Win32: the
  time-out that fits a \<open>DWORD\<close>.
\<close>

section \<open>The absolute time\<close>

text \<open>\<open>time_t\<close> and \<open>long\<close> are signed 64-bit integers, kept as words.\<close>

record timespec =
  tv_sec :: u64
  tv_nsec :: u64

definition timespec_after :: "timespec \<Rightarrow> u64 \<Rightarrow> timespec" where
  "timespec_after ts ms =
     (let ts = ts\<lparr>tv_sec := tv_sec ts + ms div 1000\<rparr>;
          ts = ts\<lparr>tv_nsec := tv_nsec ts + (ms mod 1000) * 1000000\<rparr>
      in if word_sle 1000000000 (tv_nsec ts)
         then ts\<lparr>tv_sec := tv_sec ts + 1, tv_nsec := tv_nsec ts - 1000000000\<rparr>
         else ts)"

text \<open>
  The calls of the system. \<open>px_cond_timedwait\<close> answers True for \<open>ETIMEDOUT\<close>.
\<close>

record 'w posix =
  px_realtime :: "'w \<Rightarrow> timespec \<times> 'w"
  px_cond_wait :: "'w \<Rightarrow> 'w"
  px_cond_timedwait :: "timespec \<Rightarrow> 'w \<Rightarrow> bool \<times> 'w"

definition posix_timedwait_ms :: "'w posix \<Rightarrow> u64 \<Rightarrow> 'w \<Rightarrow> int \<times> 'w" where
  "posix_timedwait_ms px ms w =
     (if SICHA_WAIT_FOREVER_MS \<le> ms then (1, px_cond_wait px w)
      else
        let (ts, w) = px_realtime px w;
            (timed_out, w) = px_cond_timedwait px (timespec_after ts ms) w
        in (if timed_out then 0 else 1, w))"

section \<open>It is exact\<close>

definition timespec_ok :: "timespec \<Rightarrow> bool" where
  "timespec_ok ts \<longleftrightarrow> unat (tv_nsec ts) < 10 ^ 9"

text \<open>A time in nanoseconds.\<close>

definition nanos :: "timespec \<Rightarrow> nat" where
  "nanos ts = unat (tv_sec ts) * 10 ^ 9 + unat (tv_nsec ts)"

lemma unat_add_small: "unat (a :: u64) + unat b < 2 ^ 64 \<Longrightarrow> unat (a + b) = unat a + unat b"
  by (simp add: unat_word_ariths)

lemma signed_small:
  assumes "unat (a :: u64) < 9223372036854775808"
  shows "word_sle 1000000000 a \<longleftrightarrow> 10 ^ 9 \<le> unat a"
proof -
  have "int (unat a) < 9223372036854775808" using assms by linarith
  then have u: "uint a < 2 ^ 63" by simp
  have l: "- (2 ^ 63) \<le> uint a" by (rule order.trans [of _ 0]) simp_all
  have "signed_take_bit 63 (uint a) = uint a" by (rule signed_take_bit_int_eq_self [OF l u])
  then have "sint a = uint a" by (simp add: sint_uint)
  moreover have "sint (1000000000 :: u64) = 1000000000" by simp
  ultimately have "word_sle 1000000000 a \<longleftrightarrow> 1000000000 \<le> uint a" unfolding word_sle_eq by simp
  also have "\<dots> \<longleftrightarrow> 1000000000 \<le> int (unat a)" by simp
  also have "\<dots> \<longleftrightarrow> 1000000000 \<le> unat a" by linarith
  finally show ?thesis by simp
qed

theorem timespec_after_exact:
  assumes "timespec_ok ts" "unat (tv_sec ts) < 2 ^ 62" "ms < SICHA_WAIT_FOREVER_MS"
  shows "timespec_ok (timespec_after ts ms) \<and> unat (tv_sec (timespec_after ts ms)) < 2 ^ 63
    \<and> nanos (timespec_after ts ms) = nanos ts + unat ms * 10 ^ 6"
proof -
  let ?s = "unat (tv_sec ts)" and ?n = "unat (tv_nsec ts)"
  define d r where "d = unat ms div 1000" and "r = unat ms mod 1000"
  have ms: "unat ms = d * 1000 + r" and r: "r < 1000" by (simp_all add: d_def r_def)
  have d: "d < 2 ^ 60" using assms(3) ms by (simp add: SICHA_WAIT_FOREVER_MS_def word_less_nat_alt)
  have n: "?n < 1000000000" using assms(1) by (simp add: timespec_ok_def)
  have div: "unat (ms div 1000) = d" and "unat (ms mod 1000) = r" by (simp_all add: unat_div unat_mod d_def r_def)
  then have mul: "unat ((ms mod 1000) * 1000000) = r * 1000000" using r by (simp add: unat_word_ariths)
  have nsec: "unat (tv_nsec ts + (ms mod 1000) * 1000000) = ?n + r * 1000000"
    using n r by (subst unat_add_small) (simp_all add: mul)
  have sec: "unat (tv_sec ts + ms div 1000) = ?s + d"
    using assms(2) d by (subst unat_add_small) (simp_all add: div)
  have sle: "word_sle 1000000000 (tv_nsec ts + (ms mod 1000) * 1000000) \<longleftrightarrow> 1000000000 \<le> ?n + r * 1000000"
    using n r by (subst signed_small) (simp_all add: nsec)
  show ?thesis
  proof (cases "1000000000 \<le> ?n + r * 1000000")
    case False
    then have "timespec_after ts ms = ts\<lparr>tv_sec := tv_sec ts + ms div 1000,
        tv_nsec := tv_nsec ts + (ms mod 1000) * 1000000\<rparr>" using sle by (simp add: timespec_after_def)
    with False assms(2) d ms show ?thesis
      by (simp add: timespec_ok_def nanos_def sec nsec)
  next
    case True
    then have eq: "timespec_after ts ms = ts\<lparr>tv_sec := tv_sec ts + ms div 1000 + 1,
        tv_nsec := tv_nsec ts + (ms mod 1000) * 1000000 - 1000000000\<rparr>" using sle by (simp add: timespec_after_def)
    have "unat (tv_sec ts + ms div 1000 + 1) = ?s + d + 1"
      using assms(2) d by (subst unat_add_small) (simp_all add: sec)
    moreover have "unat (tv_nsec ts + (ms mod 1000) * 1000000 - 1000000000) = ?n + r * 1000000 - 1000000000"
      using True by (subst unat_sub) (simp_all add: nsec word_le_nat_alt)
    ultimately show ?thesis
      using True assms(2) d n r ms by (simp add: timespec_ok_def nanos_def eq)
  qed
qed

text \<open>
  The clock of the system: \<open>time_of\<close> is the wall clock in nanoseconds, which is not set while the
  call runs. A wait that times out does so when the absolute time has come.
\<close>

theorem posix_timedwait_full:
  assumes clk: "\<forall>w. timespec_ok (fst (px_realtime px w)) \<and> unat (tv_sec (fst (px_realtime px w))) < 2 ^ 62
      \<and> time_of w \<le> nanos (fst (px_realtime px w))"
    and wt: "\<forall>ts w w'. timespec_ok ts \<longrightarrow> px_cond_timedwait px ts w = (True, w') \<longrightarrow> nanos ts \<le> time_of w'"
    and run: "posix_timedwait_ms px ms w = (rc, w')"
  shows "(rc = 0 \<or> rc = 1) \<and> (rc = 0 \<longrightarrow> ms < SICHA_WAIT_FOREVER_MS \<and> time_of w + unat ms * 10 ^ 6 \<le> time_of w')"
proof (cases "SICHA_WAIT_FOREVER_MS \<le> ms")
  case True
  with run show ?thesis by (auto simp: posix_timedwait_ms_def)
next
  case False
  obtain ts w1 where t: "px_realtime px w = (ts, w1)" by fastforce
  obtain to w2 where c: "px_cond_timedwait px (timespec_after ts ms) w1 = (to, w2)" by fastforce
  from clk t have ts: "timespec_ok ts" "unat (tv_sec ts) < 2 ^ 62" "time_of w \<le> nanos ts" by (metis fst_conv)+
  from False have ms: "ms < SICHA_WAIT_FOREVER_MS" by simp
  note E = timespec_after_exact [OF ts(1,2) ms]
  have "nanos (timespec_after ts ms) \<le> time_of w2" if to
    using wt [rule_format, of "timespec_after ts ms" w1 w2] E c that by simp
  with run t c E False ts(3) ms show ?thesis by (cases to) (auto simp: posix_timedwait_ms_def)
qed

section \<open>The timed wait on Win32\<close>

text \<open>
  \<open>w32_sleep\<close> is \<open>SleepConditionVariableSRW\<close>: whether it succeeded, and otherwise whether the last error
  is \<open>ERROR_TIMEOUT\<close>. A \<open>DWORD\<close> holds less than the timeout, so a long one is cut.
\<close>

record 'w win32 =
  w32_sleep :: "u32 \<Rightarrow> 'w \<Rightarrow> (bool \<times> bool) \<times> 'w"

definition WIN_INFINITE :: u32 where
  "WIN_INFINITE = 0xFFFFFFFF"

definition win_budget :: "u64 \<Rightarrow> u32" where
  "win_budget ms = (if 0xFFFFFFFE < ms then 0xFFFFFFFE else ucast ms)"

definition win_timedwait_ms :: "'w win32 \<Rightarrow> u64 \<Rightarrow> 'w \<Rightarrow> int \<times> 'w" where
  "win_timedwait_ms sys ms w =
     (if SICHA_WAIT_FOREVER_MS \<le> ms then (1, snd (w32_sleep sys WIN_INFINITE w))
      else
        let ((woken, timed_out), w) = w32_sleep sys (win_budget ms) w
        in (if woken then 1 else if timed_out then 0 else 1, w))"

lemma win_budget_exact: "unat (win_budget ms) = min (unat ms) 0xFFFFFFFE"
proof (cases "0xFFFFFFFE < ms")
  case False
  then have le: "unat ms \<le> 0xFFFFFFFE" by (simp add: word_less_nat_alt)
  then have "unat (ucast ms :: u32) = unat ms" by (simp add: unsigned_ucast_eq take_bit_nat_eq_self)
  with False le show ?thesis by (simp add: win_budget_def)
qed (simp add: win_budget_def word_less_nat_alt)

text \<open>A finite timeout is never handed over as \<open>INFINITE\<close>; past 49 days the wait times out early.\<close>

theorem win_timedwait_bounded:
  assumes wt: "\<forall>d w w'. d \<noteq> WIN_INFINITE \<longrightarrow> w32_sleep sys d w = ((False, True), w') \<longrightarrow> time_of w + unat d \<le> time_of w'"
    and run: "win_timedwait_ms sys ms w = (0, w')"
  shows "ms < SICHA_WAIT_FOREVER_MS \<and> time_of w + min (unat ms) 0xFFFFFFFE \<le> time_of w'"
proof (cases "SICHA_WAIT_FOREVER_MS \<le> ms")
  case True
  with run show ?thesis by (simp add: win_timedwait_ms_def)
next
  case False
  obtain woken timed_out w1 where c: "w32_sleep sys (win_budget ms) w = ((woken, timed_out), w1)" by (metis prod.collapse)
  have "unat (win_budget ms) \<noteq> unat WIN_INFINITE" unfolding win_budget_exact by (simp add: WIN_INFINITE_def)
  then have fin: "win_budget ms \<noteq> WIN_INFINITE" by metis
  from run False c have "\<not> woken" "timed_out" "w1 = w'" by (auto simp: win_timedwait_ms_def split: if_splits)
  with wt [rule_format, OF fin, of w w'] c False show ?thesis by (simp add: win_budget_exact)
qed

end
