(* ===== verification/Examples_Chain.thy ===== *)
theory Examples_Chain
  imports Examples Engine_Stream Engine_Types Curl_Threads Curl_Deadlines Timedwait
begin

text \<open>
  Concrete inputs for the chain of backends, the threads of the curl transport and the timed
  wait: a client whose first backend refuses the connection, a transport that answers for the
  second one, two threads that hold a handle each, a server that says nothing, and a wall
  clock that waits out a time-out.
\<close>

section \<open>A chain of two backends\<close>

definition ex_desc_down :: sicha_backend_desc where
  "ex_desc_down = ex_desc\<lparr>d_base_url := Some (lit ''http://g/v1/'')\<rparr>"

definition ex_backend_down :: sicha_backend where
  "ex_backend_down = fst (snd (sicha_backend_init ex_reader ex_desc_down []))"

lemma ex_backend_down_init: "sicha_backend_init ex_reader ex_desc_down [] = (SICHA_OK, ex_backend_down, [])"
  by code_simp

lemma ex_backend_down_wf: "backend_wf ex_reader ex_backend_down"
  by (rule sicha_backend_init_wf [OF ex_backend_down_init])

definition ex_chain :: sicha_client where
  "ex_chain = ex_client\<lparr>c_backends := [ex_backend_down, ex_backend]\<rparr>"

lemma ex_chain_sel [simp]:
  "c_backends ex_chain = [ex_backend_down, ex_backend]" "c_policy ex_chain = ex_policy"
  "c_max_response_bytes ex_chain = 1000" "c_max_event_bytes ex_chain = 1000" "c_debug ex_chain = False"
  by (simp_all add: ex_chain_def ex_client_def)

lemma ex_chain_ok: "client_ok ex_reader ex_chain"
  using ex_client_ok ex_backend_down_wf by (simp add: client_ok_def ex_chain_def ex_client_def)

text \<open>The transport, over a world without state: \<open>reply\<close> is what it does for the second backend.\<close>

definition ex_net :: "'w transfer \<Rightarrow> sicha_http_request \<Rightarrow> 'w \<Rightarrow> 'w transfer" where
  "ex_net reply rq w = (if hr_url rq = hr_url (chat_http_request ex_backend [] []) then reply
     else T_done SICHA_T_E_CONNECT w)"

definition ex_net_env :: "unit transfer \<Rightarrow> unit client_env" where
  "ex_net_env reply = \<lparr>env_now_ms = (\<lambda>w. (0, w)), env_wait_ms = (\<lambda>ms w. (0, w)), env_cancelled = None,
     env_perform = (\<lambda>rq tok w. ex_net reply rq w), env_log = (\<lambda>text w. w)\<rparr>"


lemma ex_net_waits [simp]: "env_wait_ms (ex_net_env reply) ms w = (0, w)"
  by (simp add: ex_net_env_def)

lemma ex_urls: "opt_bytes (b_url_chat ex_backend) \<noteq> opt_bytes (b_url_chat ex_backend_down)"
  by code_simp

lemma ex_able: "able ex_reader ex_writer (ex_net_env reply) ex_chain ex_request"
  using ex_chain_ok ex_request_valid ex_reader_ok
  by (auto simp: able_def ex_net_env_def ex_writer_def)

lemma ex_refuses: "refuses (ex_net_env reply) ex_backend_down"
  using ex_urls by (auto simp: refuses_def ex_net_env_def ex_net_def chat_http_request_def outage_def)

text \<open>One answer in one piece.\<close>

definition ex_answer_once :: "unit transfer" where
  "ex_answer_once = T_status 200 [] () (\<lambda>(rc, w). T_body (lit ''R'') w (\<lambda>(rc, w). T_done SICHA_T_OK w))"

lemma ex_chain_answers: "answers (ex_net_env ex_answer_once) ex_chain ex_backend 200 (lit ''R'') w"
  by (auto simp: answers_def ex_net_env_def ex_net_def chat_http_request_def ex_answer_once_def
      intro!: exI [of _ "[lit ''R'']"] simp del: lit_simps)

lemma ex_chain_reply:
  "good_reply ex_reader ex_chain (lit ''R'') \<lparr>rp_root = ex_reply, rp_content = Some (lit ''ok''),
     rp_reasoning = None, rp_finish = Some (lit ''stop'')\<rparr>"
  unfolding good_reply_def ex_reply_of
  by (simp add: SIZE_MAX_def opt_bytes_def finish_policed_def finish_named_def ex_policy_def)

text \<open>A stream of two events in one piece; a sink that stops it is told so.\<close>

definition ex_stream_bytes :: bytes where
  "ex_stream_bytes = lit ''data: C'' @ [10, 10] @ lit ''data: [DONE]'' @ [10, 10]"

definition ex_stream_once :: "unit transfer" where
  "ex_stream_once = T_status 200 [] () (\<lambda>(rc, w). T_body ex_stream_bytes w
     (\<lambda>(rc, w). T_done (if rc = 0 then SICHA_T_OK else SICHA_T_E_ABORTED_BY_SINK) w))"

lemma ex_streams: "streams (ex_net_env ex_stream_once) ex_backend 200 ex_stream_bytes"
  by (auto simp: streams_def ex_net_env_def ex_net_def chat_http_request_def ex_stream_once_def)

lemma ex_stream_events: "sse_events ex_stream_bytes = [lit ''C'', lit ''[DONE]'']"
  by (simp add: ex_stream_bytes_def sse_events_def strip_bom_def group_events.simps flush_event_def is_data_line_def
      field_name_def field_value_def bom_def)

lemma ex_stream_content:
  "stream_text ex_reader [lit ''C'', lit ''[DONE]''] = lit ''ok''"
  "stream_reasoning ex_reader [lit ''C'', lit ''[DONE]''] = []"
  "stream_finish ex_reader [lit ''C'', lit ''[DONE]''] = None"
  by code_simp+

lemma ex_good_stream: "good_stream ex_reader ex_chain ex_stream_bytes"
  unfolding good_stream_def ex_stream_events ex_stream_content
  by (simp add: ex_stream_bytes_def SIZE_MAX_def finish_policed_def finish_of_def ex_policy_def)

text \<open>Callbacks that let the stream go on.\<close>

definition ex_deltas :: "unit sicha_callbacks" where
  "ex_deltas = \<lparr>cb_struct_size_ok = True, cb_on_delta = Some (\<lambda>bs w. (0, w)), cb_on_reasoning = None,
     cb_on_raw_chunk = None, cb_on_attempt = None, cb_validate = None\<rparr>"

section \<open>Two threads of the curl transport\<close>

definition ex_slot :: "nat \<Rightarrow> curl_slot" where
  "ex_slot n = \<lparr>sl_easy = Some n, sl_multi = Some (Suc n), sl_in_use = True\<rparr>"

definition ex_pool_both :: curl_state where
  "ex_pool_both = snd (snd (the (slot_acquire_locked (snd (snd (the (slot_acquire_locked ex_pool)))))))"

section \<open>A server that falls silent\<close>

text \<open>
  The status is told at time 0, then nothing comes any more; every poll lasts 300 s. The world
  keeps the time, the time of the last line of the response and the number of statuses told.
\<close>

record ex_line =
  ln_time :: u64
  ln_sent :: bool
  ln_heard :: u64
  ln_told :: nat

definition ex_stalled :: "ex_line libcurl" where
  "ex_stalled = \<lparr>lc_add_handle = (\<lambda>su w. (True, w)),
     lc_perform = (\<lambda>su w.
       if ln_sent w then M_return CURLM_OK 1 w
       else M_header (lit ''HTTP/1.1 200 OK'' @ [0x0D, 0x0A]) (w\<lparr>ln_heard := ln_time w\<rparr>) (\<lambda>(n, w).
         M_header [0x0D, 0x0A] (w\<lparr>ln_heard := ln_time w\<rparr>) (\<lambda>(n, w). M_return CURLM_OK 1 (w\<lparr>ln_sent := True\<rparr>)))),
     lc_info_read = (\<lambda>w. (None, w)), lc_poll = (\<lambda>w. w\<lparr>ln_time := sat_add (ln_time w) 300000\<rparr>),
     lc_remove_handle = (\<lambda>w. w)\<rparr>"

definition ex_line_clock :: "ex_line sicha_clock" where
  "ex_line_clock = \<lparr>ck_now_ms = (\<lambda>w. (ln_time w, w)), ck_wait_ms = (\<lambda>tok ms w. (0, w))\<rparr>"

definition ex_line_sink :: "ex_line sicha_http_sink" where
  "ex_line_sink = \<lparr>sk_on_status = Some (\<lambda>http hs w. (0, w\<lparr>ln_told := Suc (ln_told w)\<rparr>)), sk_on_body = None\<rparr>"

definition ex_line_start :: ex_line where
  "ex_line_start = \<lparr>ln_time = 0, ln_sent = False, ln_heard = 0, ln_told = 0\<rparr>"

text \<open>The two contracts hold of it.\<close>

lemma sat_add_more: "a < UINT64_MAX \<Longrightarrow> a < sat_add a 300000"
  using u64_bound [of a] by (simp add: word_less_nat_alt unat_sat_add unat_MAX)

lemma ex_stalled_paced: "paced ln_time (\<lambda>w. 0) ex_stalled ex_line_clock (Some ex_line_sink)"
  by (auto simp: paced_def ex_stalled_def ex_line_clock_def ex_line_sink_def later_def sat_add_ge sat_add_more
      dest: order.not_eq_order_implies_strict [OF _ sat_add_ge])

lemma ex_stalled_observed: "observed ln_time ln_heard ln_told ex_stalled ex_line_clock (Some ex_line_sink)"
  by (auto simp: observed_def untouched_def ex_stalled_def ex_line_clock_def ex_line_sink_def)

text \<open>The transfer ends when the server has been silent for the idle time of the backend.\<close>

lemma ex_stall_timeouts: "b_timeouts ex_backend = \<lparr>connect_ms = 30000, first_byte_ms = 60000, idle_ms = 300000, total_ms = 1800000\<rparr>"
  by code_simp

lemma ex_line_simps:
  "lc_poll ex_stalled w = w\<lparr>ln_time := sat_add (ln_time w) 300000\<rparr>" "lc_info_read ex_stalled w = (None, w)"
  "lc_add_handle ex_stalled su w = (True, w)" "lc_remove_handle ex_stalled w = w" "ck_now_ms ex_line_clock w = (ln_time w, w)"
  by (simp_all add: ex_stalled_def ex_line_clock_def)

definition ex_line_x :: xfer where
  "ex_line_x = xfer_start\<lparr>x_http_status := 200, x_status_delivered := True\<rparr>"

definition ex_line_told :: ex_line where
  "ex_line_told = ex_line_start\<lparr>ln_sent := True, ln_told := 1\<rparr>"

lemma ex_stall_first:
  "run_multi ex_line_clock (Some ex_line_sink) (lc_perform ex_stalled su ex_line_start) xfer_start m
     = (CURLM_OK, 1, ex_line_x, ex_line_told, m)"
proof -
  have s: "status_code (lit ''HTTP/1.1 200 OK'' @ [0x0D, 0x0A]) = 200" by code_simp
  let ?x = "xfer_start\<lparr>x_http_status := 200\<rparr>"
  have 1: "header_cb ex_line_clock (Some ex_line_sink) (lit ''HTTP/1.1 200 OK'' @ [0x0D, 0x0A]) xfer_start ex_line_start m
      = (17, ?x, ex_line_start, m)"
    using s by (simp add: header_cb_def ex_line_simps xfer_start_def ex_line_start_def xfer_free_headers_def lit_def)
  have 2: "header_cb ex_line_clock (Some ex_line_sink) [0x0D, 0x0A] ?x ex_line_start m
      = (2, ex_line_x, ex_line_start\<lparr>ln_told := 1\<rparr>, m)"
    by (simp add: header_cb_def ex_line_simps xfer_finish_headers_def xfer_free_headers_def ex_line_sink_def ex_line_x_def
        xfer_start_def ex_line_start_def)
  have "lc_perform ex_stalled su ex_line_start = M_header (lit ''HTTP/1.1 200 OK'' @ [0x0D, 0x0A]) ex_line_start (\<lambda>(n, w).
         M_header [0x0D, 0x0A] (w\<lparr>ln_heard := ln_time w\<rparr>) (\<lambda>(n, w). M_return CURLM_OK 1 (w\<lparr>ln_sent := True\<rparr>)))"
    by (simp add: ex_stalled_def ex_line_start_def)
  with 1 2 show ?thesis by (simp add: ex_line_told_def ex_line_start_def del: lit_simps)
qed

lemma ex_stall_loop:
  "multi_loop ex_stalled ex_line_clock (Some ex_line_sink) None su (b_timeouts ex_backend) 0 xfer_start ex_line_start m
     = Some (SICHA_T_E_TIMEOUT_IDLE, ex_line_x, ex_line_told\<lparr>ln_time := 300000\<rparr>, m)"
proof -
  let ?w = "ex_line_told\<lparr>ln_time := 300000\<rparr>"
  have v: "round_verdict 0 0 False (b_timeouts ex_backend) ex_line_x = None"
    "round_verdict 0 300000 False (b_timeouts ex_backend) ex_line_x = Some SICHA_T_E_TIMEOUT_IDLE"
    unfolding ex_stall_timeouts by (simp_all add: round_verdict_def ex_line_x_def xfer_start_def SICHA_INFINITE_def)
  have t: "ln_time ex_line_told = 0" "is_set_token None w = False" for w :: ex_line
    by (simp_all add: ex_line_told_def ex_line_start_def is_set_token_def)
  have p: "lc_poll ex_stalled ex_line_told = ?w" by (simp add: ex_line_simps t sat_add_def UINT64_MAX_def)
  have 2: "run_multi ex_line_clock (Some ex_line_sink) (lc_perform ex_stalled su ?w) ex_line_x m = (CURLM_OK, 1, ex_line_x, ?w, m)"
    by (simp add: ex_stalled_def ex_line_told_def)
  have "multi_loop ex_stalled ex_line_clock (Some ex_line_sink) None su (b_timeouts ex_backend) 0 ex_line_x ?w m
      = Some (SICHA_T_E_TIMEOUT_IDLE, ex_line_x, ?w, m)"
    by (subst multi_loop.simps) (simp add: 2 ex_line_simps t v)
  then show ?thesis
    by (subst multi_loop.simps) (simp add: ex_stall_first ex_line_simps(2,5) t v p)
qed

lemma ex_pool_slot: "fst (snd (slot_acquire ex_pool)) \<noteq> None" "cs_mem (snd (snd (slot_acquire ex_pool))) = []"
  by code_simp+

lemma ex_stalls:
  "\<exists>s'. curl_perform ex_stalled (Some ex_line_clock) (Some (chat_http_request ex_backend [] []))
     (Some ex_line_sink) None ex_pool ex_line_start
       = Some (SICHA_T_E_TIMEOUT_IDLE, s', ex_line_told\<lparr>ln_time := 300000\<rparr>)"
proof -
  let ?rq = "chat_http_request ex_backend [] []"
  have h: "header_lines (hr_headers ?rq) [] [] = (Some [lit ''Expect:''], [])"
    by (simp add: chat_http_request_def)
  have "ln_time ex_line_start = 0" "xfer_start\<lparr>x_last_activity_ms := 0\<rparr> = xfer_start" "hr_timeouts ?rq = b_timeouts ex_backend"
    by (simp_all add: ex_line_start_def xfer_start_def chat_http_request_def)
  then have t: "slot_transfer ex_stalled ex_line_clock ?rq (Some ex_line_sink) None ex_line_start []
      = Some (SICHA_T_E_TIMEOUT_IDLE, ex_line_told\<lparr>ln_time := 300000\<rparr>, [])"
    by (simp add: slot_transfer_def h ex_line_simps ex_stall_loop)
  obtain idx out s1 where a: "slot_acquire ex_pool = (idx, out, s1)" by (metis prod_cases3)
  with ex_pool_slot have "out \<noteq> None" "cs_mem s1 = []" by simp_all
  with t show ?thesis by (auto simp: curl_perform_def a ex_line_simps)
qed

lemma ex_stalled_deadline:
  "has_deadline ex_stalled ex_line_clock (hr_timeouts (chat_http_request ex_backend [] [])) ex_line_start"
  by (simp add: has_deadline_def ex_line_simps chat_http_request_def ex_stall_timeouts SICHA_INFINITE_def ex_line_start_def)

section \<open>A wall clock\<close>

text \<open>The world is whether the wait has taken place; the clock shows 0 s before it and 5 s after it.\<close>

definition ex_posix :: "bool posix" where
  "ex_posix = \<lparr>px_realtime = (\<lambda>w. (\<lparr>tv_sec = (if w then 5 else 0), tv_nsec = 0\<rparr>, w)), px_cond_wait = (\<lambda>w. w),
     px_cond_timedwait = (\<lambda>ts w. (nanos ts \<le> 5 * 10 ^ 9, True))\<rparr>"

end
