(* ===== verification/Sse_Frame.thy ===== *)
theory Sse_Frame
  imports Sse
begin

text \<open>
  What a run of the parser keeps, for an invariant of its buffers, of the allocator and of the
  state of the callback that the operations of \<open>buf.c\<close> and the callback keep; and where a
  nonzero code comes from.
\<close>

locale parser_frame =
  fixes f :: "'s on_event"
    and buf_ok :: "sicha_buf \<Rightarrow> bool" and mem_ok :: "mem \<Rightarrow> bool" and err_ok :: "sicha_status \<Rightarrow> bool"
    and state_ok :: "'s \<Rightarrow> bool" and code_ok :: "int \<Rightarrow> 's \<Rightarrow> bool"
  assumes append: "buf_ok b \<Longrightarrow> mem_ok m \<Longrightarrow> sicha_buf_append b bs m = (b', m') \<Longrightarrow> buf_ok b' \<and> mem_ok m'"
    and reset: "buf_ok b \<Longrightarrow> buf_ok (sicha_buf_reset b)"
    and err: "buf_ok b \<Longrightarrow> err_ok (buf_err b)"
    and event: "state_ok s \<Longrightarrow> mem_ok m \<Longrightarrow> f d s m = (rc, s', m') \<Longrightarrow>
      state_ok s' \<and> mem_ok m' \<and> (rc \<noteq> 0 \<longrightarrow> code_ok rc s')"
begin

definition frame :: "sicha_sse \<Rightarrow> mem \<Rightarrow> bool" where
  "frame p m \<longleftrightarrow> buf_ok (sse_line_buf p) \<and> buf_ok (sse_data_buf p) \<and> err_ok (sse_err p) \<and> mem_ok m"

definition after :: "int \<Rightarrow> sicha_sse \<Rightarrow> 's \<Rightarrow> mem \<Rightarrow> bool" where
  "after rc p s m \<longleftrightarrow> frame p m \<and> state_ok s \<and> (rc \<noteq> 0 \<longrightarrow> code_ok rc s \<or> rc = -1 \<and> sse_err p \<noteq> SICHA_OK)"

lemma frame_simps [simp]:
  "frame (p\<lparr>sse_have_data := h\<rparr>) m = frame p m"
  "frame (p\<lparr>sse_last_was_cr := c\<rparr>) m = frame p m"
  "frame (p\<lparr>sse_bom_seen := n\<rparr>) m = frame p m"
  "frame (p\<lparr>sse_bom_decided := d\<rparr>) m = frame p m"
  "frame (p\<lparr>sse_bom_seen := n, sse_bom_decided := d\<rparr>) m = frame p m"
  by (simp_all add: frame_def)

lemma frame_line:
  assumes "frame p m" "sicha_buf_append (sse_line_buf p) bs m = (l, m')"
  shows "frame (p\<lparr>sse_line_buf := l\<rparr>) m'"
  using append [OF _ _ assms(2)] assms(1) by (simp add: frame_def)

lemma frame_line_reset: "frame p m \<Longrightarrow> frame (p\<lparr>sse_line_buf := sicha_buf_reset (sse_line_buf p)\<rparr>) m"
  by (simp add: frame_def reset)

lemma frame_check: "sse_check_bufs p = (ok, p') \<Longrightarrow> frame p m \<Longrightarrow> frame p' m \<and> (ok \<or> sse_err p' \<noteq> SICHA_OK)"
  using err by (auto simp: sse_check_bufs_def frame_def sicha_buf_status_def split: if_splits)

lemma frame_dispatch:
  assumes "frame p m" "state_ok s" "sse_dispatch (Some f) p s m = (rc, p', s', m')"
  shows "after rc p' s' m'"
proof -
  obtain rc1 s1 m1 where e: "f (buf_bytes (sse_data_buf p)) s m = (rc1, s1, m1)" by (metis prod_cases3)
  from assms(1) have "mem_ok m" "buf_ok (sicha_buf_reset (sse_data_buf p))" by (simp_all add: frame_def reset)
  with event [OF assms(2) _ e] have E: "state_ok s1" "mem_ok m1" "rc1 \<noteq> 0 \<longrightarrow> code_ok rc1 s1"
    "frame (p\<lparr>sse_data_buf := sicha_buf_reset (sse_data_buf p), sse_have_data := False\<rparr>) m1"
    using assms(1) by (simp_all add: frame_def)
  show ?thesis
  proof (cases "sse_have_data p")
    case True
    have "sse_dispatch (Some f) p s m =
        (rc1, p\<lparr>sse_data_buf := sicha_buf_reset (sse_data_buf p), sse_have_data := False\<rparr>, s1, m1)"
      by (simp add: sse_dispatch_def True e)
    with assms(3) E show ?thesis unfolding after_def by simp
  next
    case False
    have "sse_dispatch (Some f) p s m = (0, p, s, m)" by (simp add: sse_dispatch_def False)
    with assms show ?thesis unfolding after_def by simp
  qed
qed

lemma frame_data:
  assumes "frame p m" "state_ok s" "sse_data_field p v m = (rc, p', m')"
  shows "after rc p' s m'"
proof -
  obtain d1 m1 where d1: "(if sse_have_data p then sicha_buf_append_ch (sse_data_buf p) 0x0A m
      else (sse_data_buf p, m)) = (d1, m1)" by fastforce
  obtain d2 m2 where d2: "sicha_buf_append d1 v m1 = (d2, m2)" by fastforce
  obtain ok p2 where c: "sse_check_bufs (p\<lparr>sse_data_buf := d2, sse_have_data := True\<rparr>) = (ok, p2)" by fastforce
  from assms(1) have b: "buf_ok (sse_data_buf p)" "mem_ok m" by (simp_all add: frame_def)
  have "buf_ok d1 \<and> mem_ok m1"
  proof (cases "sse_have_data p")
    case True
    with d1 have "sicha_buf_append (sse_data_buf p) [0x0A] m = (d1, m1)" by (simp add: sicha_buf_append_ch_def)
    with append [OF b] show ?thesis by blast
  qed (use b d1 in simp)
  with append [OF _ _ d2] have "buf_ok d2" "mem_ok m2" by blast+
  with assms(1) have "frame (p\<lparr>sse_data_buf := d2, sse_have_data := True\<rparr>) m2" by (simp add: frame_def)
  from frame_check [OF c this] assms(2,3) d1 d2 c show ?thesis by (auto simp: sse_data_field_def after_def)
qed

lemma frame_sse_line:
  assumes "frame p m" "state_ok s" "sse_line (Some f) p line s m = (rc, p', s', m')"
  shows "after rc p' s' m'"
proof -
  obtain rc1 p1 m1 where d: "sse_data_field p (field_value line) m = (rc1, p1, m1)" by (metis prod_cases3)
  have "after 0 p s m" using assms(1,2) by (simp add: after_def)
  with assms(3) frame_dispatch [OF assms(1,2)] frame_data [OF assms(1,2) d] d show ?thesis
    by (auto simp: sse_line_def simp del: lit_simps split: if_splits)
qed

lemma frame_char:
  assumes "frame p m" "state_ok s" "sse_char p ch m = (rc, p', m')"
  shows "after rc p' s m'"
proof -
  obtain l m1 where l: "sicha_buf_append (sse_line_buf p) [ch] m = (l, m1)" by fastforce
  obtain ok p2 where c: "sse_check_bufs (p\<lparr>sse_line_buf := l\<rparr>) = (ok, p2)" by fastforce
  from frame_check [OF c frame_line [OF assms(1) l]] assms(2,3) l c show ?thesis
    by (auto simp: sse_char_def sicha_buf_append_ch_def after_def)
qed

lemma frame_eol:
  assumes "frame p m" "state_ok s" "sse_eol (Some f) p ch s m = (rc, p', s', m')"
  shows "after rc p' s' m'"
proof -
  obtain rc1 p1 s1 m1 where l: "sse_line (Some f) p (buf_bytes (sse_line_buf p)) s m = (rc1, p1, s1, m1)"
    by (metis prod_cases4)
  from frame_sse_line [OF assms(1,2) l] have a: "after rc1 p1 s1 m1" .
  then have "frame (p1\<lparr>sse_line_buf := sicha_buf_reset (sse_line_buf p1)\<rparr>) m1" by (simp add: after_def frame_line_reset)
  with a assms(3) l show ?thesis by (auto simp: sse_eol_def Let_def after_def frame_def split: if_splits)
qed

lemma frame_byte:
  assumes "frame p m" "state_ok s" "sse_byte (Some f) p ch s m = (rc, p', s', m')"
  shows "after rc p' s' m'"
proof -
  let ?p = "p\<lparr>sse_last_was_cr := False\<rparr>"
  have w: "frame ?p m" using assms(1) by simp
  obtain rc1 p1 m1 where c: "sse_char ?p ch m = (rc1, p1, m1)" by (metis prod_cases3)
  have "after 0 ?p s m" using w assms(2) by (simp add: after_def)
  with assms(3) frame_eol [OF w assms(2)] frame_char [OF w assms(2) c] c show ?thesis
    by (auto simp: sse_byte_def Let_def split: if_splits)
qed

lemma frame_bytes:
  "frame p m \<Longrightarrow> state_ok s \<Longrightarrow> sse_bytes (Some f) p bs s m = (rc, p', s', m') \<Longrightarrow> after rc p' s' m'"
proof (induction bs arbitrary: p s m)
  case (Cons b bs)
  obtain rc1 p1 s1 m1 where b: "sse_byte (Some f) p b s m = (rc1, p1, s1, m1)" by (metis prod_cases4)
  from frame_byte [OF Cons.prems(1,2) b] have a: "after rc1 p1 s1 m1" .
  with Cons.IH [of p1 m1 s1] Cons.prems(3) b show ?case by (cases "rc1 = 0") (simp_all add: after_def)
qed (simp add: after_def)

lemma frame_bom: "frame p m \<Longrightarrow> sse_bom_loop p bs m = (ok, p', r, m') \<Longrightarrow> frame p' m' \<and> (ok \<or> sse_err p' \<noteq> SICHA_OK)"
proof (induction p bs m rule: sse_bom_loop.induct)
  case (2 p b bs m)
  obtain l m1 where a: "sicha_buf_append (sse_line_buf p) (take (sse_bom_seen p) bom) m = (l, m1)" by fastforce
  obtain ok1 p2 where c: "sse_check_bufs (p\<lparr>sse_line_buf := l, sse_bom_seen := 0, sse_bom_decided := True\<rparr>) = (ok1, p2)"
    by fastforce
  have "frame (p\<lparr>sse_line_buf := l, sse_bom_seen := 0, sse_bom_decided := True\<rparr>) m1"
    using frame_line [OF 2(2) a] by (simp add: frame_def)
  from frame_check [OF c this] 2 a c show ?case by (auto simp: Let_def split: if_splits)
qed simp

lemma frame_feed:
  assumes "frame p m" "state_ok s" "sicha_sse_feed (Some f) p bs s m = (rc, p', s', m')"
  shows "after rc p' s' m'"
proof -
  obtain ok p1 r m1 where l: "sse_bom_loop p bs m = (ok, p1, r, m1)" by (metis prod_cases4)
  note w = frame_bom [OF assms(1) l]
  from assms w l frame_bytes [OF conjunct1 [OF w] assms(2)] show ?thesis
    by (cases "sse_err p = SICHA_OK"; cases ok) (auto simp: sicha_sse_feed_def after_def)
qed

lemma frame_finish:
  assumes "frame p m" "state_ok s" "sicha_sse_finish (Some f) p s m = (rc, p', s', m')"
  shows "after rc p' s' m'"
proof (cases "sse_err p = SICHA_OK")
  case False
  with assms show ?thesis by (simp add: sicha_sse_finish_def after_def)
next
  case True
  obtain l ml where l: "sicha_buf_append (sse_line_buf p) (take (sse_bom_seen p) bom) m = (l, ml)" by fastforce
  define q where "q = (if \<not> sse_bom_decided p \<and> 0 < sse_bom_seen p
    then p\<lparr>sse_line_buf := l, sse_bom_seen := 0\<rparr> else p)\<lparr>sse_bom_decided := True\<rparr>"
  define mq where "mq = (if \<not> sse_bom_decided p \<and> 0 < sse_bom_seen p then ml else m)"
  have w: "frame q mq" using assms(1) frame_line [OF assms(1) l] by (simp add: q_def mq_def)
  have fin: "sicha_sse_finish (Some f) p s m = sicha_sse_finish (Some f) q s mq"
    using True l by (simp add: sicha_sse_finish_def [of "Some f" p] sse_finish_decided q_def mq_def)
  obtain rc1 p1 s1 m1 where a: "sse_line (Some f) q (buf_bytes (sse_line_buf q)) s mq = (rc1, p1, s1, m1)"
    by (metis prod_cases4)
  let ?p1 = "p1\<lparr>sse_line_buf := sicha_buf_reset (sse_line_buf p1)\<rparr>"
  from frame_sse_line [OF w assms(2) a] have k1: "after rc1 p1 s1 m1" .
  then have w1: "frame ?p1 m1" "state_ok s1" by (simp_all add: after_def frame_line_reset)
  obtain rc2 p2 s2 m2 where b: "sse_line (Some f) ?p1 [] s1 m1 = (rc2, p2, s2, m2)" by (metis prod_cases4)
  note k2 = frame_sse_line [OF w1 b]
  obtain rc3 p3 s3 m3 where c: "sse_line (Some f) q [] s mq = (rc3, p3, s3, m3)" by (metis prod_cases4)
  note k3 = frame_sse_line [OF w assms(2) c]
  have d: "sse_bom_decided q" by (simp add: q_def)
  have r1: "after rc1 ?p1 s1 m1" using k1 w1 by (simp add: after_def)
  have e: "sse_err q = SICHA_OK" using True by (simp add: q_def)
  show ?thesis
  proof (cases "0 < buf_len (sse_line_buf q)")
    case pos: True
    show ?thesis
      using assms(3) r1 k2 unfolding fin
      by (simp add: sse_finish_decided [OF d] e pos a Let_def) (auto simp: after_def b split: if_splits)
  next
    case zero: False
    show ?thesis
      using assms(3) k3 unfolding fin
      by (simp add: sse_finish_decided [OF d] e zero Let_def) (auto simp: after_def c split: if_splits)
  qed
qed

end

end
