(* ===== verification/Fuzz_Sse.thy ===== *)
theory Fuzz_Sse
  imports Sse_Frame
begin

text \<open>
  The fuzz harness of the SSE parser, \<open>fuzz/fuzz_sse.c\<close>, as a function that tells whether all its
  assertions hold on an input. They do, for every input.
\<close>

section \<open>The harness\<close>

record digest =
  dg_fnv :: u64
  dg_total_bytes :: u64
  dg_events :: u32

definition fnv_step :: "u64 \<Rightarrow> digest \<Rightarrow> digest" where
  "fnv_step v d = d\<lparr>dg_fnv := (dg_fnv d XOR v) * 0x100000001B3\<rparr>"

definition digest_event :: "digest on_event" where
  "digest_event data d m =
     (let d = fold (\<lambda>b. fnv_step (ucast b)) data d;
          d = fnv_step 0xFF d;
          d = d\<lparr>dg_total_bytes := dg_total_bytes d + of_nat (length data)\<rparr>;
          d = d\<lparr>dg_events := dg_events d + 1\<rparr>
      in (0, d, m))"

text \<open>The loop of \<open>run\<close>: the payload in pieces whose lengths the schedule gives, in turn.\<close>

definition next_piece :: "bytes \<Rightarrow> nat \<Rightarrow> nat \<Rightarrow> nat \<times> nat" where
  "next_piece schedule s n =
     (if 0 < length schedule
      then let want = unat (schedule ! (s mod length schedule)) + 1 in (if want < n then want else n, s + 1)
      else (n, s))"

lemma next_piece_pos: "next_piece schedule s n = (n', s') \<Longrightarrow> 0 < n \<Longrightarrow> 0 < n'"
  by (auto simp: next_piece_def Let_def split: if_splits)

function run_loop :: "bytes \<Rightarrow> nat \<Rightarrow> sicha_sse \<Rightarrow> bytes \<Rightarrow> digest \<Rightarrow> mem \<Rightarrow>
    int \<times> sicha_sse \<times> digest \<times> mem" where
  "run_loop schedule s p payload out m =
     (if payload = [] then (0, p, out, m)
      else
        let (n, s) = next_piece schedule s (length payload);
            (rc, p, out, m) = sicha_sse_feed (Some digest_event) p (take n payload) out m
        in if rc \<noteq> 0 then (rc, p, out, m) else run_loop schedule s p (drop n payload) out m)"
  by pat_completeness auto

termination
  by (relation "measure (\<lambda>(schedule, s, p, payload, out, m). length payload)") (auto dest!: next_piece_pos [OF sym])

declare run_loop.simps [simp del]

definition run_parser :: "bytes \<Rightarrow> nat \<Rightarrow> bytes \<Rightarrow> digest \<Rightarrow> mem \<Rightarrow> sicha_status \<times> int \<times> digest \<times> mem" where
  "run_parser payload max_event schedule out m =
     (let (rc, p, out, m) = run_loop schedule 0 (sicha_sse_init max_event) payload out m;
          (rc, p, out, m) = (if rc = 0 then sicha_sse_finish (Some digest_event) p out m else (rc, p, out, m))
      in (sicha_sse_status p, rc, out, m))"

definition fuzz_sse :: "bytes \<Rightarrow> mem \<Rightarrow> bool" where
  "fuzz_sse data m =
     (if length data < 10 then True
      else
        let max_event = (if unat (data ! 0) mod 4 = 0 then 1 + unat (data ! 0) * 16 else 0);
            schedule_len = 1 + unat (data ! 1) mod 8
        in if length data < 2 + schedule_len then True
           else
             let schedule = take schedule_len (drop 2 data);
                 payload = drop (2 + schedule_len) data;
                 start = \<lparr>dg_fnv = 0xcbf29ce484222325, dg_total_bytes = 0, dg_events = 0\<rparr>;
                 (st_whole, rc_whole, whole, m) = run_parser payload max_event [] start m;
                 (st_split, rc_split, split, m) = run_parser payload max_event schedule start m
             in st_whole = st_split \<and> rc_whole = rc_split \<and> dg_fnv whole = dg_fnv split
                \<and> dg_total_bytes whole = dg_total_bytes split \<and> dg_events whole = dg_events split
                \<and> (if 0 < max_event
                   then st_whole = SICHA_OK \<or> st_whole = SICHA_INT_E_TOOBIG \<or> st_whole = SICHA_E_NOMEM
                   else st_whole = SICHA_OK \<or> st_whole = SICHA_E_NOMEM))"

section \<open>It never aborts\<close>

text \<open>A schedule makes no difference: the loop is one feed.\<close>

lemma run_loop_feed:
  "sse_err p = SICHA_OK \<Longrightarrow>
    run_loop schedule s p payload out m = sicha_sse_feed (Some digest_event) p payload out m"
proof (induction schedule s p payload out m rule: run_loop.induct)
  case (1 schedule s p payload out m)
  obtain n s1 where n: "next_piece schedule s (length payload) = (n, s1)" by fastforce
  obtain rc p1 out1 m1 where f: "sicha_sse_feed (Some digest_event) p (take n payload) out m = (rc, p1, out1, m1)"
    by (metis prod_cases4)
  have nil: "sicha_sse_feed (Some digest_event) p [] out m = (0, p, out, m)"
    using 1(2) by (auto simp: sicha_sse_feed_def)
  show ?case
  proof (cases "payload = []")
    case True
    with nil show ?thesis by (simp add: run_loop.simps)
  next
    case False
    have "sicha_sse_feed (Some digest_event) p payload out m = (if rc \<noteq> 0 then (rc, p1, out1, m1)
        else sicha_sse_feed (Some digest_event) p1 (drop n payload) out1 m1)"
      using sicha_sse_feed_append [of "Some digest_event" p "take n payload" "drop n payload" out m] f
      by (simp add: Let_def)
    moreover have "run_loop schedule s1 p1 (drop n payload) out1 m1
        = sicha_sse_feed (Some digest_event) p1 (drop n payload) out1 m1" if "rc = 0"
      using 1(1) [OF False n [symmetric] refl f [symmetric] refl refl refl] that
        sicha_sse_feed_ready [OF f [unfolded that]] by simp
    ultimately show ?thesis
      using False by (subst run_loop.simps) (simp add: n f)
  qed
qed

lemma run_parser_whole:
  "run_parser payload max_event schedule out m =
     (let (rc, p, out, m) = sse_run (Some digest_event) (sicha_sse_init max_event) payload out m
      in (sicha_sse_status p, rc, out, m))"
  by (auto simp: run_parser_def sse_run_def run_loop_feed sicha_sse_init_def Let_def split: prod.split)

text \<open>
  With enough memory the list of outcomes stays empty, and the errors of the buffers are the
  ones of their limit.
\<close>

definition cap_error :: "nat \<Rightarrow> sicha_status \<Rightarrow> bool" where
  "cap_error max_event e \<longleftrightarrow> e \<in> {SICHA_OK, SICHA_E_NOMEM} \<or> e = SICHA_INT_E_TOOBIG \<and> 0 < max_event"

definition capped :: "nat \<Rightarrow> sicha_buf \<Rightarrow> bool" where
  "capped max_event b \<longleftrightarrow> buf_max_len b = max_event \<and> cap_error max_event (buf_err b)"

lemma reserve_capped:
  "capped k b \<Longrightarrow> buf_reserve b need [] = (ok, b', m') \<Longrightarrow> capped k b' \<and> m' = []"
  by (auto simp: buf_reserve_def capped_def cap_error_def Let_def split: if_splits)

lemma append_capped:
  assumes "capped k b" "sicha_buf_append b bs [] = (b', m')"
  shows "capped k b' \<and> m' = []"
proof -
  obtain ok b1 m1 where r: "buf_reserve b (length bs) [] = (ok, b1, m1)" by (metis prod_cases3)
  with reserve_capped [OF assms(1) r] assms(2) show ?thesis
    by (auto simp: sicha_buf_append_def Let_def capped_def split: if_splits prod.splits)
qed

interpretation fuzz: parser_frame digest_event "capped k" "\<lambda>m. m = []" "cap_error k" "\<lambda>_. True" "\<lambda>_ _. False" for k
proof
  show "capped k b' \<and> m' = []" if "capped k b" "m = []" "sicha_buf_append b bs m = (b', m')" for b m bs b' m'
    using append_capped that by blast
  show "capped k (sicha_buf_reset b)" if "capped k b" for b
    using that by (simp add: capped_def sicha_buf_reset_def)
qed (auto simp: capped_def digest_event_def Let_def)

theorem fuzz_sse_holds: "fuzz_sse data []"
proof -
  have "m' = [] \<and> cap_error k st" if run: "run_parser payload k schedule out [] = (st, rc, out', m')"
    for payload k schedule out st rc out' m'
  proof -
    obtain rc1 p1 out1 m1 where f: "sicha_sse_feed (Some digest_event) (sicha_sse_init k) payload out [] = (rc1, p1, out1, m1)"
      by (metis prod_cases4)
    obtain rc2 p2 out2 m2 where g: "sicha_sse_finish (Some digest_event) p1 out1 m1 = (rc2, p2, out2, m2)"
      by (metis prod_cases4)
    have "fuzz.frame k (sicha_sse_init k) []"
      by (simp add: fuzz.frame_def sicha_sse_init_def capped_def cap_error_def)
    from fuzz.frame_feed [OF this _ f] have 1: "fuzz.frame k p1 m1" by (simp add: fuzz.after_def)
    from fuzz.frame_finish [OF 1 _ g] have "fuzz.frame k p2 m2" by (simp add: fuzz.after_def)
    with run 1 f g show ?thesis
      by (auto simp: run_parser_whole sse_run_def fuzz.frame_def sicha_sse_status_def split: if_splits)
  qed
  note frame = this
  define k where "k = (if unat (data ! 0) mod 4 = 0 then 1 + unat (data ! 0) * 16 else 0)"
  define n where "n = 1 + unat (data ! 1) mod 8"
  let ?start = "\<lparr>dg_fnv = 0xcbf29ce484222325, dg_total_bytes = 0, dg_events = 0\<rparr>"
  obtain st rc d m where r: "run_parser (drop (2 + n) data) k [] ?start [] = (st, rc, d, m)" by (metis prod_cases4)
  have r': "run_parser (drop (2 + n) data) k (take n (drop 2 data)) ?start [] = (st, rc, d, m)"
    using r by (simp add: run_parser_whole)
  from frame [OF r] have "m = []" "cap_error k st" by simp_all
  with r r' show ?thesis
    unfolding fuzz_sse_def k_def [symmetric] n_def [symmetric] Let_def prod.case
    by (auto simp: cap_error_def)
qed

end
