(* ===== verification/Fuzz_Request.thy ===== *)
theory Fuzz_Request
  imports Engine_Success "HOL-Library.Countable"
begin

text \<open>
  The fuzz harness of backends, headers and bodies, \<open>fuzz/fuzz_request.c\<close>: how it decodes the
  bytes of the fuzzer into a backend description and a request, and its assertions, as one
  function that tells whether all of them hold. They do, except on two kinds of input, which the
  last theorem names.
\<close>

section \<open>The input\<close>

text \<open>The unread part of the input. Bytes after the end are read as 0.\<close>

type_synonym fuzz_input = bytes

fun r8 :: "fuzz_input \<Rightarrow> byte \<times> fuzz_input" where
  "r8 [] = (0, [])"
| "r8 (b # r) = (b, r)"

definition r32 :: "fuzz_input \<Rightarrow> u32 \<times> fuzz_input" where
  "r32 r =
     (let (a, r) = r8 r; (b, r) = r8 r; (c, r) = r8 r; (d, r) = r8 r in
      (push_bit 8 (push_bit 8 (push_bit 8 (ucast a) OR ucast b) OR ucast c) OR ucast d, r))"

text \<open>
  \<open>k / 10.0 - 1.0\<close> in IEEE double arithmetic, for \<open>k\<close> from 0 to 39, by the bits of the result.
\<close>

definition tenths :: "u64 list" where
  "tenths =
     [0xBFF0000000000000, 0xBFECCCCCCCCCCCCD, 0xBFE999999999999A, 0xBFE6666666666666, 0xBFE3333333333333,
      0xBFE0000000000000, 0xBFD999999999999A, 0xBFD3333333333334, 0xBFC9999999999998, 0xBFB9999999999998,
      0x0000000000000000, 0x3FB99999999999A0, 0x3FC9999999999998, 0x3FD3333333333334, 0x3FD9999999999998,
      0x3FE0000000000000, 0x3FE3333333333334, 0x3FE6666666666666, 0x3FE999999999999A, 0x3FECCCCCCCCCCCCC,
      0x3FF0000000000000, 0x3FF199999999999A, 0x3FF3333333333334, 0x3FF4CCCCCCCCCCCC, 0x3FF6666666666666,
      0x3FF8000000000000, 0x3FF999999999999A, 0x3FFB333333333334, 0x3FFCCCCCCCCCCCCC, 0x3FFE666666666666,
      0x4000000000000000, 0x4000CCCCCCCCCCCD, 0x400199999999999A, 0x4002666666666666, 0x4003333333333333,
      0x4004000000000000, 0x4004CCCCCCCCCCCD, 0x400599999999999A, 0x4006666666666666, 0x4007333333333333]"

text \<open>C leaves open which of the two calls of \<open>r32\<close> comes first; here the high half does.\<close>

definition rdouble :: "fuzz_input \<Rightarrow> u64 \<times> fuzz_input" where
  "rdouble r =
     (let (mode, r) = r8 r in
      if mode < 180 then (tenths ! (unat mode mod 40), r)
      else let (hi, r) = r32 r; (lo, r) = r32 r in (push_bit 32 (ucast hi) OR ucast lo, r))"

definition rstr :: "nat \<Rightarrow> fuzz_input \<Rightarrow> bytes \<times> fuzz_input" where
  "rstr scratch_cap r =
     (let (b, r) = r8 r;
          want = unat b mod scratch_cap;
          have' = (if length r < want then length r else want)
      in (take have' r, drop have' r))"

definition maybe :: "bytes \<Rightarrow> fuzz_input \<Rightarrow> bytes option \<times> fuzz_input" where
  "maybe s r = (let (b, r) = r8 r in (if b mod 3 = 0 then None else Some s, r))"

text \<open>A byte that decides with probability one in \<open>n\<close> whether another reader is run.\<close>

definition one_in :: "byte \<Rightarrow> (fuzz_input \<Rightarrow> 'a \<times> fuzz_input) \<Rightarrow> (fuzz_input \<Rightarrow> 'a \<times> fuzz_input) \<Rightarrow>
    fuzz_input \<Rightarrow> 'a \<times> fuzz_input" where
  "one_in n f g r = (let (b, r) = r8 r in if b mod n = 0 then f r else g r)"

definition sizeof_backend_desc :: u32 where "sizeof_backend_desc = 80"
definition sizeof_request :: u32 where "sizeof_request = 112"

text \<open>The sizes of the two structs are those of an LP64 target.\<close>

definition read_desc :: "fuzz_input \<Rightarrow> sicha_backend_desc \<times> fuzz_input" where
  "read_desc r =
     (let (struct_size, r) = one_in 16 r32 (Pair sizeof_backend_desc) r;
          (base_url, r) = one_in 2 (Pair (lit ''http://fuzz.local:5001/v1'')) (rstr 64) r;
          (model, r) = rstr 48 r;
          (s_key, r) = rstr 48 r; (api_key, r) = maybe s_key r;
          (s_extra, r) = rstr 96 r; (extra_body, r) = maybe s_extra r;
          (flags, r) = one_in 4 r32 (\<lambda>r. let (b, r) = r8 r in (ucast (b mod 4), r)) r;
          (connect, r) = one_in 8 r32 (Pair 0) r;
          (extra_h, r) = one_in 3 (\<lambda>r. let (name, r) = rstr 24 r; (value, r) = rstr 48 r in
                                       (Some [\<lparr>hd_name = Some name, hd_value = Some value\<rparr>], r)) (Pair None) r
      in (\<lparr>d_struct_size_ok = (struct_size = sizeof_backend_desc), d_base_url = Some base_url,
           d_api_key = api_key, d_model = Some model, d_extra_headers = extra_h,
           d_n_extra_headers = (if extra_h = None then 0 else 1), d_extra_body_json = extra_body,
           d_timeouts = zero_timeouts\<lparr>connect_ms := connect\<rparr>, d_flags = flags\<rparr>, r))"

definition read_message :: "fuzz_input \<Rightarrow> sicha_message \<times> fuzz_input" where
  "read_message r =
     (let (role, r) = one_in 8 (\<lambda>r. let (w, r) = r32 r in (sint w, r))
                        (\<lambda>r. let (b, r) = r8 r in (uint (b mod 4), r)) r;
          (content, r) = rstr 96 r;
          (len, r) = one_in 2 (Pair SICHA_LEN_CSTR) (Pair (strlen content)) r;
          (tid, r) = one_in 8 (Pair (Some (lit ''call_1''))) (Pair None) r
      in (\<lparr>msg_role = role, msg_content = Some content, msg_content_len = len, msg_tool_call_id = tid\<rparr>, r))"

fun read_messages :: "nat \<Rightarrow> fuzz_input \<Rightarrow> sicha_message list \<times> fuzz_input" where
  "read_messages 0 r = ([], r)"
| "read_messages (Suc n) r =
     (let (msg, r) = read_message r; (msgs, r) = read_messages n r in (msg # msgs, r))"

text \<open>The messages: raw JSON, or an array and the number of them that is handed over.\<close>

definition read_source :: "fuzz_input \<Rightarrow> (bytes option \<times> sicha_message list option \<times> nat) \<times> fuzz_input" where
  "read_source =
     one_in 5 (\<lambda>r. let (json, r) = rstr 128 r in ((Some json, None, 0), r))
       (\<lambda>r. let (b, r) = r8 r; n = 1 + unat b mod 4; (msgs, r) = read_messages n r;
                (n_messages, r) = one_in 16 (Pair 0) (Pair n) r
            in ((None, Some msgs, n_messages), r))"

text \<open>C's \<open>%\<close> takes the sign of the dividend.\<close>

definition c_rem :: "int \<Rightarrow> int \<Rightarrow> int" where
  "c_rem a b = sgn a * (\<bar>a\<bar> mod \<bar>b\<bar>)"

definition read_stops :: "fuzz_input \<Rightarrow> (bytes option list option \<times> nat) \<times> fuzz_input" where
  "read_stops =
     one_in 4 (\<lambda>r. let (s0, r) = rstr 24 r; (s1, r) = rstr 24 r; (b, r) = r8 r in
                   ((Some [Some s0, Some s1], 1 + unat b mod 2), r))
       (Pair (None, 0))"

definition read_request :: "fuzz_input \<Rightarrow> sicha_request \<times> fuzz_input" where
  "read_request r =
     (let (struct_size, r) = one_in 16 r32 (Pair sizeof_request) r;
          ((messages_json, messages, n_messages), r) = read_source r;
          (set_mask, r) = one_in 4 r32 (\<lambda>r. let (b, r) = r8 r in (ucast (b mod 64), r)) r;
          (max_tokens, r) = r32 r;
          (temperature, r) = rdouble r;
          (top_p, r) = rdouble r;
          (top_k, r) = r32 r;
          (presence, r) = rdouble r;
          (frequency, r) = rdouble r;
          ((stop, n_stop), r) = read_stops r;
          (s_rf, r) = rstr 96 r; (response_format, r) = maybe s_rf r;
          (flags, r) = one_in 8 r32 (Pair 0) r
      in (\<lparr>rq_struct_size_ok = (struct_size = sizeof_request), rq_messages = messages,
           rq_n_messages = n_messages, rq_messages_json = messages_json, rq_set_mask = set_mask,
           rq_max_tokens = c_rem (sint max_tokens) 4096, rq_temperature = temperature, rq_top_p = top_p,
           rq_top_k = c_rem (sint top_k) 512, rq_presence_penalty = presence,
           rq_frequency_penalty = frequency, rq_stop = stop, rq_n_stop = n_stop,
           rq_response_format_json = response_format, rq_flags = flags\<rparr>, r))"

section \<open>The assertions\<close>

text \<open>\<open>strchr\<close>, \<open>strncmp\<close> and \<open>strcmp\<close> read up to the first NUL.\<close>

definition check_header :: "bytes option \<Rightarrow> sicha_header \<Rightarrow> bool" where
  "check_header api_key h =
     (case (hd_name h, hd_value h) of
        (Some name, Some value) \<Rightarrow>
          0x0D \<notin> set (cstr value) \<and> 0x0A \<notin> set (cstr value)
          \<and> 0x0D \<notin> set (cstr name) \<and> 0x0A \<notin> set (cstr name)
          \<and> (if sicha_header_name_eq (cstr name) (lit ''Authorization'') then
               (case api_key of None \<Rightarrow> False
                | Some key \<Rightarrow> take 7 (cstr value) = lit ''Bearer '' \<and> drop 7 (cstr value) = cstr key)
             else True)
      | _ \<Rightarrow> False)"

definition check_headers :: "sicha_backend \<Rightarrow> bytes option \<Rightarrow> mem \<Rightarrow> bool \<times> mem" where
  "check_headers b api_key m =
     (let (st, h, m) = sicha_build_headers b True (lit ''sicha-fuzz/1'') m in
      (if st \<noteq> SICHA_OK then st = SICHA_E_NOMEM
       else case h of None \<Rightarrow> False | Some hs \<Rightarrow> list_all (check_header api_key) hs, m))"

fun check_contents :: "json list \<Rightarrow> sicha_message list \<Rightarrow> bool" where
  "check_contents [] msgs = True"
| "check_contents (v # vs) (msg # msgs) =
     (case yyjson_obj_get v (lit ''content'') of
        None \<Rightarrow> False
      | Some content \<Rightarrow>
          let c = opt_bytes (msg_content msg);
              clen = (if msg_content_len msg = SICHA_LEN_CSTR then strlen c else msg_content_len msg)
          in yyjson_is_str content \<and> length (yyjson_get_str content) = clen
             \<and> take clen (yyjson_get_str content) = take clen c \<and> check_contents vs msgs)"
| "check_contents (v # vs) [] = False"

fun arr_elems :: "json \<Rightarrow> json list" where
  "arr_elems (JArr vs) = vs"
| "arr_elems _ = []"

definition check_body_json :: "json_reader \<Rightarrow> bytes \<Rightarrow> sicha_backend \<Rightarrow> sicha_request \<Rightarrow> mem \<Rightarrow> bool" where
  "check_body_json rd json b req m =
     (case fst (yyjson_read rd json m) of
        None \<Rightarrow> False
      | Some root \<Rightarrow>
          yyjson_is_obj root \<and> sicha_utf8_valid (Some json) (length json)
          \<and> (case yyjson_obj_get root (lit ''messages'') of
               None \<Rightarrow> False
             | Some msgs \<Rightarrow>
                 yyjson_is_arr msgs
                 \<and> (if b_extra_body_json b = None then
                      (case yyjson_obj_get root (lit ''model'') of
                         None \<Rightarrow> False
                       | Some model \<Rightarrow>
                           yyjson_is_str model \<and> cstr (yyjson_get_str model) = cstr (opt_bytes (b_model b)))
                    else True)
                 \<and> (if rq_messages req \<noteq> None \<and> b_extra_body_json b = None then
                      yyjson_arr_size msgs = rq_n_messages req
                      \<and> check_contents (arr_elems msgs) (messages_of req)
                    else True)))"

text \<open>
  The writer of yyjson ends its text with a NUL; the model's texts are without it, so that
  assertion has no counterpart here.
\<close>

definition check_body :: "json_reader \<Rightarrow> json_writer \<Rightarrow> sicha_backend \<Rightarrow> sicha_request \<Rightarrow> bool \<Rightarrow> mem \<Rightarrow> bool" where
  "check_body rd wr b req stream m =
     (let (st1, out1, m) = sicha_build_chat_body rd wr b req stream m;
          (st2, out2, m) = sicha_build_chat_body rd wr b req stream m
      in (st1 = SICHA_OK \<or> st1 = SICHA_E_INVALID_ARG \<or> st1 = SICHA_E_NOMEM) \<and> st1 = st2
         \<and> (if st1 = SICHA_OK then
              (case (out1, out2) of
                 (Some o1, Some o2) \<Rightarrow> length o1 = length o2 \<and> o1 = o2 \<and> check_body_json rd o1 b req m
               | _ \<Rightarrow> False)
            else out1 = None \<and> out2 = None))"

definition fuzz_request :: "json_reader \<Rightarrow> json_writer \<Rightarrow> bytes \<Rightarrow> mem \<Rightarrow> bool" where
  "fuzz_request rd wr data m =
     (let (desc, r) = read_desc data;
          (req, r) = read_request r;
          (st, b, m) = sicha_backend_init rd desc m
      in (st = SICHA_OK \<or> st = SICHA_E_INVALID_ARG \<or> st = SICHA_E_NOMEM)
         \<and> (if st \<noteq> SICHA_OK then True
            else
              let (headers_ok, m) = check_headers b (d_api_key desc) m;
                  (s, r) = r8 r
              in headers_ok \<and> check_body rd wr b req (s mod 2 = 1) m))"

section \<open>Reading back what was written\<close>

text \<open>
  Two documents are alike when they differ in numbers only: the text of a number need not be
  read back as the subtype that was written.
\<close>

inductive alike :: "json \<Rightarrow> json \<Rightarrow> bool" where
  alike_Null: "alike JNull JNull"
| alike_Bool: "alike (JBool b) (JBool b)"
| alike_num: "yyjson_is_num v \<Longrightarrow> yyjson_is_num v' \<Longrightarrow> alike v v'"
| alike_Str: "alike (JStr s) (JStr s)"
| alike_Arr: "list_all2 alike vs vs' \<Longrightarrow> alike (JArr vs) (JArr vs')"
| alike_Obj: "list_all2 (\<lambda>m m'. fst m = fst m' \<and> alike (snd m) (snd m')) ms ms' \<Longrightarrow> alike (JObj ms) (JObj ms')"

inductive_cases alike_StrE: "alike (JStr s) v"
inductive_cases alike_ArrE: "alike (JArr vs) v"
inductive_cases alike_ObjE: "alike (JObj ms) v"

lemma alike_refl: "alike v v"
proof (induction v)
  case (JArr vs)
  then show ?case by (intro alike_Arr list.rel_refl_strong)
next
  case (JObj ms)
  have "list_all2 (\<lambda>m m'. fst m = fst m' \<and> alike (snd m) (snd m')) ms ms"
    using JObj by (intro list.rel_refl_strong) (auto simp: snds.simps)
  then show ?case by (rule alike_Obj)
qed (auto intro: alike.intros)

lemma alike_Str_iff: "alike (JStr s) v \<Longrightarrow> v = JStr s"
  by (auto elim: alike_StrE)

lemma num_not_arr: "yyjson_is_num v \<Longrightarrow> \<not> yyjson_is_arr v"
  by (cases v) simp_all

lemma alike_arr: "alike v v' \<Longrightarrow> yyjson_is_arr v' = yyjson_is_arr v"
  by (erule alike.cases) (simp_all add: num_not_arr)

lemma alike_Arr_obtain:
  assumes "alike (JArr vs) v"
  obtains vs' where "v = JArr vs'" "list_all2 alike vs vs'"
  using assms by (auto elim: alike_ArrE)

lemma alike_members:
  assumes "list_all2 (\<lambda>m m'. fst m = fst m' \<and> alike (snd m) (snd m')) ms ms'"
  shows "rel_option alike (obj_lookup ms key) (obj_lookup ms' key)"
  using assms by (induction ms ms' rule: list_all2_induct) auto

lemma alike_get:
  assumes "alike (JObj ms) v"
  shows "yyjson_is_obj v" "rel_option alike (obj_lookup ms key) (yyjson_obj_get v key)"
  using assms by (auto elim!: alike_ObjE intro: alike_members)

text \<open>What the harness relies on: the writer writes UTF-8 that the reader reads back.\<close>

definition reads_back :: "json_reader \<Rightarrow> json_writer \<Rightarrow> bool" where
  "reads_back rd wr \<longleftrightarrow>
     (\<forall>s v. rd s = Some v \<longrightarrow> json_ok v) \<and> (\<forall>v. json_ok v \<longrightarrow> wr v \<noteq> None)
     \<and> (\<forall>v s. wr v = Some s \<longrightarrow> utf8_scan s \<and> (\<exists>v'. rd s = Some v' \<and> alike v v'))"

section \<open>Enough memory\<close>

lemma dup_cstr_ok: "all_ok m \<Longrightarrow> dup_cstr s m = (r, m') \<Longrightarrow> all_ok m'"
  by (auto simp: dup_cstr_def split: prod.splits dest: all_ok_alloc)

lemma copy_opt_ok: "all_ok m \<Longrightarrow> copy_opt s m = (r, m') \<Longrightarrow> all_ok m'"
  by (auto simp: copy_opt_def split: option.splits dest: dup_cstr_ok)

lemma url_join_ok: "all_ok m \<Longrightarrow> sicha_url_join b p m = (r, m') \<Longrightarrow> all_ok m'"
  by (auto simp: sicha_url_join_def split: prod.splits dest: all_ok_alloc)

lemma url_origin_ok: "all_ok m \<Longrightarrow> sicha_url_origin b m = (r, m') \<Longrightarrow> all_ok m'"
  by (auto simp: sicha_url_origin_def Let_def split: prod.splits dest: all_ok_alloc)

lemma abort_url_ok:
  assumes "all_ok m" "abort_url desc m = (r, m')"
  shows "all_ok m'"
proof -
  obtain x m1 where x: "sicha_url_origin (opt_bytes (d_base_url desc)) m = (x, m1)" by fastforce
  note k = url_origin_ok [OF assms(1) x]
  show ?thesis
  proof (cases x)
    case None
    with assms(2) x k show ?thesis by (simp add: abort_url_def)
  next
    case (Some o')
    with assms(2) x have "sicha_url_join o' (lit ''/api/extra/abort'') m1 = (r, m')"
      by (simp add: abort_url_def del: lit_simps)
    from url_join_ok [OF k this] show ?thesis .
  qed
qed

lemma copy_extra_headers_ok: "all_ok m \<Longrightarrow> copy_extra_headers hs m = (r, m') \<Longrightarrow> all_ok m'"
proof (induction hs arbitrary: m r m')
  case (Cons h hs)
  obtain h1 m1 where d: "dup_header (opt_bytes (hd_name h)) (opt_bytes (hd_value h)) m = (h1, m1)" by fastforce
  note k = dup_header_ok [OF Cons.prems(1) d]
  obtain x m2 where x: "copy_extra_headers hs m1 = (x, m2)" by fastforce
  from Cons.IH [OF conjunct2 [OF k] x] Cons.prems(2) k show ?case
    by (auto simp: d x split: option.splits)
qed simp

lemma extra_headers_validate_cases:
  "extra_headers_validate hs k = SICHA_OK \<or> extra_headers_validate hs k = SICHA_E_INVALID_ARG"
proof (induction hs)
  case (Cons h hs)
  have "sicha_header_validate (hd_name h) (hd_value h) = SICHA_OK
      \<or> sicha_header_validate (hd_name h) (hd_value h) = SICHA_E_INVALID_ARG"
    by (simp add: sicha_header_validate_def split: option.split)
  with Cons show ?case by auto
qed simp

lemma backend_validate_cases:
  assumes "backend_validate rd desc m = (st, m')"
  shows "(st = SICHA_OK \<or> st = SICHA_E_INVALID_ARG) \<and> (all_ok m \<longrightarrow> all_ok m')"
  using assms sicha_url_validate_cases [of "d_base_url desc"]
    extra_headers_validate_cases [of "extra_headers_of desc" "d_api_key desc \<noteq> None"]
    validate_json_object_cases(1,2)
  unfolding backend_validate_def Let_def
  by (auto split: if_splits option.splits)

lemma backend_init_cases:
  assumes "sicha_backend_init rd desc m = (st, b, m')"
  shows "(st = SICHA_OK \<or> st = SICHA_E_INVALID_ARG \<or> st = SICHA_E_NOMEM) \<and> (all_ok m \<longrightarrow> all_ok m')"
proof -
  let ?url = "opt_bytes (d_base_url desc)"
  let ?assist = "d_flags desc AND SICHA_BACKEND_KOBOLD_CANCEL_ASSIST \<noteq> 0"
  obtain sv m0 where v: "backend_validate rd desc m = (sv, m0)" by fastforce
  obtain base m1 where b: "dup_cstr ?url m0 = (base, m1)" by fastforce
  obtain chat m2 where c: "(if base = None then (None, m1)
    else sicha_url_join ?url (lit ''/chat/completions'') m1) = (chat, m2)" by fastforce
  obtain model m3 where d: "dup_cstr (opt_bytes (d_model desc)) m2 = (model, m3)" by fastforce
  obtain key m4 where k: "copy_opt (d_api_key desc) m3 = (key, m4)" by fastforce
  obtain eb m5 where e: "copy_opt (d_extra_body_json desc) m4 = (eb, m5)" by fastforce
  obtain abort m6 where a: "(if ?assist then abort_url desc m5 else (None, m5)) = (abort, m6)" by fastforce
  obtain ok m7 where o: "(if 0 < d_n_extra_headers desc then alloc m6 else (True, m6)) = (ok, m7)"
    by fastforce
  obtain extra m8 where x: "(if ok then copy_extra_headers (extra_headers_of desc) m7 else (None, m7))
    = (extra, m8)" by fastforce
  note A = assms [unfolded sicha_backend_init_def Let_def v b c d k e a o x prod.case]
  note V = backend_validate_cases [OF v]
  have mem: "all_ok m6 \<and> all_ok m8 \<and> all_ok m0" if "all_ok m"
  proof -
    have 0: "all_ok m0" using V that by blast
    have 1: "all_ok m1" by (rule dup_cstr_ok [OF 0 b])
    have 2: "all_ok m2" using c 1 url_join_ok [OF 1] by (auto split: if_splits)
    have 4: "all_ok m4" by (rule copy_opt_ok [OF dup_cstr_ok [OF 2 d] k])
    have 5: "all_ok m5" by (rule copy_opt_ok [OF 4 e])
    have 6: "all_ok m6" using a 5 abort_url_ok [OF 5] by (auto split: if_splits)
    have 7: "all_ok m7" using o 6 all_ok_alloc [OF 6] by (auto split: if_splits)
    have "all_ok m8" using x 7 copy_extra_headers_ok [OF 7] by (auto split: if_splits)
    with 0 6 show ?thesis by blast
  qed
  show ?thesis using A V mem by (auto split: if_splits option.splits)
qed

section \<open>When it aborts\<close>

definition named_authorization :: "sicha_header \<Rightarrow> bool" where
  "named_authorization h \<longleftrightarrow> sicha_header_name_eq (cstr (opt_bytes (hd_name h))) (lit ''Authorization'')"

text \<open>
  The two inputs that the assertions are too strong for: an extra header Authorization without a
  key, which the library lets through, and an extra body that overrides the messages by
  something that is not an array, which is what the extra body is for.
\<close>

definition own_authorization :: "sicha_backend_desc \<Rightarrow> bool" where
  "own_authorization desc \<longleftrightarrow> d_api_key desc = None \<and> (\<exists>h \<in> set (extra_headers_of desc). named_authorization h)"

definition messages_overridden :: "json_reader \<Rightarrow> sicha_backend_desc \<Rightarrow> bool" where
  "messages_overridden rd desc \<longleftrightarrow>
     (case d_extra_body_json desc of None \<Rightarrow> False
      | Some json \<Rightarrow>
          (case map_of (rev (obj_members (the (rd (cstr json))))) (lit ''messages'') of None \<Rightarrow> False
           | Some v \<Rightarrow> \<not> yyjson_is_arr v))"

lemma safe_value_no_newline: "safe_value v \<Longrightarrow> 0x0D \<notin> set v \<and> 0x0A \<notin> set v"
  by (auto simp: safe_value_def)

lemma token_no_newline: "token n \<Longrightarrow> 0x0D \<notin> set n \<and> 0x0A \<notin> set n"
  by (auto simp: token_def is_token_char_def)

text \<open>A generated header passes, an extra header passes unless it is an Authorization without a key.\<close>

lemma check_generated:
  assumes "h \<in> set (generated_headers b True (lit ''sicha-fuzz/1''))"
    "b_api_key b = map_option cstr api_key" "\<forall>key. api_key = Some key \<longrightarrow> safe_value (cstr key)"
  shows "check_header api_key h"
proof (cases api_key)
  case None
  with assms show ?thesis
    by (auto simp: generated_headers_def header_def check_header_def cstr_def lower_def)
next
  case (Some key)
  have n: "cstr (lit ''Bearer '' @ cstr key) = lit ''Bearer '' @ cstr key" by (rule cstr_id) auto
  have "0x0D \<notin> set (cstr key) \<and> 0x0A \<notin> set (cstr key)" using Some assms(3) safe_value_no_newline by simp
  with assms Some n show ?thesis
    by (auto simp: generated_headers_def header_def check_header_def cstr_def [of "_ # _"] lower_def
        dest: set_takeWhileD)
qed

lemma check_extra:
  assumes "extra_ok (api_key \<noteq> None) h"
  shows "check_header api_key (copied h) \<longleftrightarrow> \<not> (api_key = None \<and> named_authorization h)"
proof -
  obtain n v where h: "hd_name h = Some n" "hd_value h = Some v" "token (cstr n)" "safe_value (cstr v)"
    "\<not> is_reserved_header (cstr n) (api_key \<noteq> None)"
    using assms by (auto simp: extra_ok_def)
  then have "api_key \<noteq> None \<longrightarrow> \<not> sicha_header_name_eq (cstr n) (lit ''Authorization'')"
    by (auto simp: is_reserved_header_def simp del: lit_simps split: if_splits)
  with h token_no_newline [OF h(3)] safe_value_no_newline [OF h(4)] show ?thesis
    by (auto simp: check_header_def copied_def opt_bytes_def named_authorization_def simp del: lit_simps split: option.splits)
qed

lemma check_headers_exact:
  assumes "sicha_backend_init rd desc m0 = (SICHA_OK, b, m1)" "all_ok m"
  shows "fst (check_headers b (d_api_key desc) m) \<longleftrightarrow> \<not> own_authorization desc"
    "all_ok (snd (check_headers b (d_api_key desc) m))"
proof -
  note I = sicha_backend_init_OK [OF assms(1)]
  from I(1) obtain mv where "backend_validate rd desc m0 = (SICHA_OK, mv)" by blast
  note V = backend_validate_OK [OF this]
  let ?g = "generated_headers b True (lit ''sicha-fuzz/1'')" and ?x = "map copied (b_extra_headers b)"
  obtain st hs m' where h: "sicha_build_headers b True (lit ''sicha-fuzz/1'') m = (st, hs, m')" by (metis prod_cases3)
  note H = build_headers_ok [OF assms(2) h]
  have g: "list_all (check_header (d_api_key desc)) ?g"
    using check_generated [OF _ I(5)] V(3) by (simp add: list_all_iff)
  have "copied (copied h) = copied h" for h by (simp add: copied_def opt_bytes_def)
  then have "list_all (check_header (d_api_key desc)) ?x \<longleftrightarrow> \<not> own_authorization desc"
    using V(4) check_extra by (auto simp: I(7) list_all_iff own_authorization_def)
  with g H h show "fst (check_headers b (d_api_key desc) m) \<longleftrightarrow> \<not> own_authorization desc"
    "all_ok (snd (check_headers b (d_api_key desc) m))"
    by (simp_all add: check_headers_def del: lit_simps)
qed

text \<open>The members of the body that the harness looks up.\<close>

lemma own_lookup:
  "obj_lookup (own_members rd b req stream) (lit ''messages'') = Some (snd (hd (messages_member rd req)))"
  "obj_lookup (own_members rd b req stream) (lit ''model'') = Some (JStr (cstr (opt_bytes (b_model b))))"
  by (simp_all add: own_members_def messages_member_def)

lemma own_messages_arr:
  "json_fields_ok rd b req \<Longrightarrow> yyjson_is_arr (snd (hd (messages_member rd req)))"
  by (auto simp: messages_member_def json_fields_ok_def split: option.splits)

lemma message_content: "obj_lookup ((lit ''role'', x) # (lit ''content'', y) # ms) (lit ''content'') = Some y"
  by simp

text \<open>A message whose content is as long as it says.\<close>

definition whole_content :: "sicha_message \<Rightarrow> bool" where
  "whole_content msg \<longleftrightarrow> length (content_bytes msg) =
     (if msg_content_len msg = SICHA_LEN_CSTR then strlen (opt_bytes (msg_content msg)) else msg_content_len msg)"

lemma check_contents_ok:
  assumes "list_all2 alike (map message_json msgs) vs" "\<forall>msg \<in> set msgs. whole_content msg"
  shows "check_contents vs msgs"
  using assms
proof (induction msgs arbitrary: vs)
  case Nil
  then show ?case by simp
next
  case (Cons msg msgs)
  then obtain v ws where vs: "vs = v # ws" "alike (message_json msg) v" "list_all2 alike (map message_json msgs) ws"
    by (auto simp: list_all2_Cons1)
  have "rel_option alike (Some (JStr (content_bytes msg))) (yyjson_obj_get v (lit ''content''))"
    using alike_get(2) [OF vs(2) [unfolded message_json_def], of "lit ''content''"]
    unfolding append_Cons append_Nil message_content .
  then have "yyjson_obj_get v (lit ''content'') = Some (JStr (content_bytes msg))"
    by (auto simp: option_rel_Some1 dest: alike_Str_iff)
  moreover have "check_contents ws msgs" using Cons.IH [OF vs(3)] Cons.prems(2) by simp
  ultimately show ?case
    using Cons.prems(2) by (simp add: vs(1) whole_content_def content_bytes_def Let_def del: lit_simps split: if_splits)
qed

text \<open>What the decoder makes: the array is as long as it says, and so is the content.\<close>

definition sized :: "sicha_request \<Rightarrow> bool" where
  "sized req \<longleftrightarrow> (\<forall>ms. rq_messages req = Some ms \<longrightarrow> rq_n_messages req \<le> length ms)
     \<and> (\<forall>msg \<in> set (messages_of req). whole_content msg)"

lemma min_strlen: "min (length s) (strlen s) = strlen s"
  using strlen_le [of s] by simp

lemma whole_contentI: "c = Some s \<Longrightarrow> len = SICHA_LEN_CSTR \<or> len = strlen s
    \<Longrightarrow> whole_content \<lparr>msg_role = role, msg_content = c, msg_content_len = len, msg_tool_call_id = tid\<rparr>"
  by (auto simp: whole_content_def content_bytes_def opt_bytes_def min_strlen)

lemma read_message_whole: "whole_content (fst (read_message r))"
  by (auto simp: read_message_def one_in_def [of 2] Let_def intro: whole_contentI split: prod.split)

lemma read_messages_length: "length (fst (read_messages n r)) = n"
  by (induction n arbitrary: r) (simp_all add: split_def Let_def)

lemma read_messages_whole: "\<forall>msg \<in> set (fst (read_messages n r)). whole_content msg"
  by (induction n arbitrary: r) (simp_all add: split_def Let_def read_message_whole)

lemma read_request_sized: "sized (fst (read_request r))"
proof -
  obtain ss r1 where 1: "one_in 16 r32 (Pair sizeof_request) r = (ss, r1)" by fastforce
  obtain mj ms n r2 where 2: "read_source r1 = ((mj, ms, n), r2)" by (cases "read_source r1") auto
  have S: "(\<forall>l. ms = Some l \<longrightarrow> n \<le> length l \<and> (\<forall>msg \<in> set l. whole_content msg))"
  proof (intro allI impI)
    fix l assume l: "ms = Some l"
    obtain b q where b: "r8 r1 = (b, q)" by fastforce
    obtain c q1 where c: "r8 q = (c, q1)" by fastforce
    obtain k q2 where k: "read_messages (1 + unat c mod 4) q1 = (k, q2)" by fastforce
    have "l = k \<and> n \<le> 1 + unat c mod 4"
      using 2 l k by (auto simp: read_source_def one_in_def [of 5] one_in_def [of 16] b c Let_def [of "1 + unat c mod 4"]
          split: if_splits prod.splits)
    with read_messages_length [of "1 + unat c mod 4" q1, unfolded k]
      read_messages_whole [of "1 + unat c mod 4" q1, unfolded k] show "n \<le> length l \<and> (\<forall>msg \<in> set l. whole_content msg)"
      by simp
  qed
  have "rq_messages (fst (read_request r)) = ms" "rq_n_messages (fst (read_request r)) = n"
    by (simp_all add: read_request_def 1 2 split_def Let_def)
  with S show ?thesis by (cases ms) (auto simp: sized_def messages_of_def dest: in_set_takeD)
qed

lemma validate_independent:
  assumes "backend_wf rd b" "all_ok m" "fst (sicha_request_validate rd req mv) = SICHA_OK"
  shows "fst (sicha_request_validate rd req m) = SICHA_OK"
proof -
  obtain mv' where v: "sicha_request_validate rd req mv = (SICHA_OK, mv')"
    using assms(3) by (cases "sicha_request_validate rd req mv") auto
  obtain st m' where s: "sicha_request_validate rd req m = (st, m')" by fastforce
  from request_validate_cases(3) [OF s assms(2) request_validate_OK(1) [OF v] json_fields_okI [OF assms(1) v]] s
  show ?thesis by simp
qed

text \<open>A body that was built is read back as the harness wants it, unless the messages are overridden.\<close>

lemma check_body_json_exact:
  assumes "backend_wf rd b" "sicha_request_validate rd req mv = (SICHA_OK, mv')" "sized req" "all_ok m"
    "reads_back rd wr" "wr (JObj (chat_root rd b req stream)) = Some s"
  shows "check_body_json rd s b req m \<longleftrightarrow>
    \<not> (\<exists>v. map_of (rev (extra_members rd b)) (lit ''messages'') = Some v \<and> \<not> yyjson_is_arr v)"
proof -
  note J = json_fields_okI [OF assms(1,2)] and S = request_validate_OK(1) [OF assms(2)]
  let ?root = "chat_root rd b req stream" and ?over = "map_of (rev (extra_members rd b)) (lit ''messages'')"
  have "utf8_scan s \<and> (\<exists>v'. rd s = Some v' \<and> alike (JObj ?root) v')"
    using assms(5,6) unfolding reads_back_def by blast
  then obtain root where root: "utf8_scan s" "rd s = Some root" "alike (JObj ?root) root" by blast
  from root(2) have r: "fst (yyjson_read rd s m) = Some root" using yyjson_read_ok [OF assms(4), of rd s] by auto
  let ?own = "snd (hd (messages_member rd req))"
  define val where "val = (case ?over of None \<Rightarrow> ?own | Some v \<Rightarrow> v)"
  have "obj_lookup ?root (lit ''messages'') = Some val"
    unfolding chat_root_lookup own_lookup val_def by (simp split: option.split)
  then obtain msgs where msgs: "yyjson_obj_get root (lit ''messages'') = Some msgs" "alike val msgs"
    using alike_get(2) [OF root(3), of "lit ''messages''"] by (auto simp: option_rel_Some1)
  have arr: "yyjson_is_arr msgs \<longleftrightarrow> \<not> (\<exists>v. ?over = Some v \<and> \<not> yyjson_is_arr v)"
    using own_messages_arr [OF J] by (auto simp: val_def alike_arr [OF msgs(2)] split: option.splits)
  have plain: "(\<exists>model. yyjson_obj_get root (lit ''model'') = Some model \<and> yyjson_is_str model
        \<and> cstr (yyjson_get_str model) = cstr (opt_bytes (b_model b)))
      \<and> (rq_messages req \<noteq> None \<longrightarrow> yyjson_arr_size msgs = rq_n_messages req
            \<and> check_contents (arr_elems msgs) (messages_of req))"
    if n: "b_extra_body_json b = None"
  proof
    have x: "extra_members rd b = []" using n by (simp add: extra_members_def)
    have "obj_lookup ?root (lit ''model'') = Some (JStr (cstr (opt_bytes (b_model b))))"
      unfolding chat_root_lookup own_lookup x by simp
    then have "yyjson_obj_get root (lit ''model'') = Some (JStr (cstr (opt_bytes (b_model b))))"
      using alike_get(2) [OF root(3), of "lit ''model''"] by (auto simp: option_rel_Some1 dest: alike_Str_iff)
    then show "\<exists>model. yyjson_obj_get root (lit ''model'') = Some model \<and> yyjson_is_str model
        \<and> cstr (yyjson_get_str model) = cstr (opt_bytes (b_model b))" by (intro exI conjI) (assumption, simp_all)
    show "rq_messages req \<noteq> None \<longrightarrow> yyjson_arr_size msgs = rq_n_messages req
            \<and> check_contents (arr_elems msgs) (messages_of req)"
    proof
      assume "rq_messages req \<noteq> None"
      then obtain ms where ms: "rq_messages req = Some ms" by blast
      then have mj: "rq_messages_json req = None" using S by (auto simp: request_shape_ok_def Let_def split: if_splits)
      have l: "length (messages_of req) = rq_n_messages req" using ms assms(3) by (simp add: messages_of_def sized_def)
      have "alike (JArr (map message_json (messages_of req))) msgs"
        using msgs(2) by (simp add: val_def x messages_member_def mj)
      then obtain vs where vs: "msgs = JArr vs" "list_all2 alike (map message_json (messages_of req)) vs"
        by (rule alike_Arr_obtain)
      have "check_contents vs (messages_of req)"
        using vs(2) assms(3) by (intro check_contents_ok) (auto simp: sized_def)
      with vs l show "yyjson_arr_size msgs = rq_n_messages req \<and> check_contents (arr_elems msgs) (messages_of req)"
        by (auto dest: list_all2_lengthD)
    qed
  qed
  show ?thesis
    unfolding check_body_json_def r option.case msgs(1) arr [symmetric]
    using alike_get(1) [OF root(3)] root(1) plain by (auto simp: sicha_utf8_valid_def simp del: lit_simps)
qed

lemma check_body_exact:
  assumes "backend_wf rd b" "sized req" "all_ok m" "reads_back rd wr"
  shows "check_body rd wr b req stream m \<longleftrightarrow>
    \<not> (fst (sicha_request_validate rd req m) = SICHA_OK
       \<and> (\<exists>v. map_of (rev (extra_members rd b)) (lit ''messages'') = Some v \<and> \<not> yyjson_is_arr v))"
proof -
  obtain st1 out1 m1 where 1: "sicha_build_chat_body rd wr b req stream m = (st1, out1, m1)" by (metis prod_cases3)
  obtain st2 out2 m2 where 2: "sicha_build_chat_body rd wr b req stream m1 = (st2, out2, m2)" by (metis prod_cases3)
  obtain v mv where v: "sicha_request_validate rd req m = (v, mv)" by fastforce
  have W: "\<forall>s v. rd s = Some v \<longrightarrow> json_ok v" "\<forall>v. json_ok v \<longrightarrow> wr v \<noteq> None"
    using assms(4) by (simp_all add: reads_back_def)
  show ?thesis
  proof (cases "v = SICHA_OK")
    case True
    with v have v': "sicha_request_validate rd req m = (SICHA_OK, mv)" by simp
    note k1 = build_chat_body_ok [OF assms(1) v' assms(3) W 1]
    note k2 = build_chat_body_ok [OF assms(1) v' conjunct2 [OF conjunct2 [OF k1]] W 2]
    from assms(1) 1 obtain s where s: "out1 = Some s" "wr (JObj (chat_root rd b req stream)) = Some s"
      by (cases rule: build_chat_body_cases) (use k1 in auto)
    from assms(1) 2 have s2: "out2 = Some s"
      by (cases rule: build_chat_body_cases) (use k2 s(2) in auto)
    have "all_ok m2" using k2 by blast
    from check_body_json_exact [OF assms(1) v' assms(2) this assms(4) s(2)] k1 k2 s(1) s2 v' show ?thesis
      unfolding check_body_def 1 2 Let_def prod.case by simp
  next
    case False
    with v request_validate_cases(1) [OF v] have b1: "st1 = SICHA_E_INVALID_ARG" "out1 = None" "m1 = mv"
      using 1 by (auto simp: sicha_build_chat_body_def)
    have "all_ok m1" using request_validate_cases(2) [OF v assms(3)] b1(3) by simp
    obtain w mw where w: "sicha_request_validate rd req m1 = (w, mw)" by fastforce
    have "w \<noteq> SICHA_OK" using validate_independent [OF assms(1,3), of req m1] w v False by auto
    with w request_validate_cases(1) [OF w] have "st2 = SICHA_E_INVALID_ARG" "out2 = None"
      using 2 by (auto simp: sicha_build_chat_body_def)
    with b1 v False show ?thesis unfolding check_body_def 1 2 Let_def prod.case by simp
  qed
qed

theorem fuzz_request_holds:
  assumes "all_ok m" "reads_back rd wr" "read_desc data = (desc, r)" "read_request r = (req, r')"
  shows "fuzz_request rd wr data m \<longleftrightarrow>
    (fst (sicha_backend_init rd desc m) = SICHA_OK \<longrightarrow>
       \<not> own_authorization desc
       \<and> (fst (sicha_request_validate rd req m) = SICHA_OK \<longrightarrow> \<not> messages_overridden rd desc))"
proof -
  obtain st b m1 where i: "sicha_backend_init rd desc m = (st, b, m1)" by (metis prod_cases3)
  note I = backend_init_cases [OF i]
  show ?thesis
  proof (cases "st = SICHA_OK")
    case False
    with I show ?thesis unfolding fuzz_request_def assms(3,4) i Let_def prod.case by auto
  next
    case True
    with i have i': "sicha_backend_init rd desc m = (SICHA_OK, b, m1)" by simp
    have m1: "all_ok m1" using I assms(1) by blast
    note wf = sicha_backend_init_wf [OF i']
    obtain ho m2 where h: "check_headers b (d_api_key desc) m1 = (ho, m2)" by fastforce
    have H: "ho \<longleftrightarrow> \<not> own_authorization desc" "all_ok m2"
      using check_headers_exact [OF i' m1] by (simp_all add: h)
    have "sized req" using read_request_sized [of r] assms(4) by simp
    note B = check_body_exact [OF wf this H(2) assms(2)]
    have V: "fst (sicha_request_validate rd req m2) = SICHA_OK \<longleftrightarrow> fst (sicha_request_validate rd req m) = SICHA_OK"
      using validate_independent [OF wf] assms(1) H(2) by blast
    have O: "(\<exists>v. map_of (rev (extra_members rd b)) (lit ''messages'') = Some v \<and> \<not> yyjson_is_arr v)
        \<longleftrightarrow> messages_overridden rd desc"
      by (auto simp: extra_members_def messages_overridden_def sicha_backend_init_OK(6) [OF i'] simp del: lit_simps
          split: option.splits)
    show ?thesis
      unfolding fuzz_request_def assms(3,4) i' Let_def prod.case h H(1) B V O by (auto split: prod.split)
  qed
qed

section \<open>An example\<close>

text \<open>
  A reader and a writer that meet the assumption: a value is written as as many letters A as its
  number in an enumeration of all values. The library of the harness is any such pair.
\<close>

instance json :: countable
  by countable_datatype

definition count_writer :: json_writer where
  "count_writer v = (if json_ok v then Some (replicate (to_nat v) 0x41) else None)"

definition count_reader :: json_reader where
  "count_reader s = (let v = from_nat (length s) in if json_ok v \<and> s = replicate (to_nat v) 0x41 then Some v else None)"

lemma count_reads_back: "reads_back count_reader count_writer"
proof -
  have "utf8_scan (replicate n 0x41)" for n by (induction n) simp_all
  then show ?thesis
    by (auto simp: reads_back_def count_reader_def count_writer_def Let_def intro: alike_refl split: if_splits)
qed

text \<open>The input up to the extra header, an extra header Authorization, and the request.\<close>

definition desc_input :: "bytes \<Rightarrow> bytes" where
  "desc_input extra = [1, 0, 1, 0x6D, 0, 0, 0, 0, 1, 0, 1] @ extra"

definition stray_input :: bytes where
  "stray_input = [0, 13] @ lit ''Authorization'' @ [1, 0x78]"

definition request_input :: bytes where
  "request_input = [1, 1, 0, 1, 1, 1, 0x68, 0, 1, 1, 1, 0, 0, 0, 0, 0, 0, 0, 0, 0, 0, 0, 0, 0, 1, 0, 0, 1, 0]"

definition input_desc :: "sicha_header list option \<Rightarrow> sicha_backend_desc" where
  "input_desc hs = \<lparr>d_struct_size_ok = True, d_base_url = Some (lit ''http://fuzz.local:5001/v1''), d_api_key = None,
     d_model = Some [0x6D], d_extra_headers = hs, d_n_extra_headers = (if hs = None then 0 else 1),
     d_extra_body_json = None, d_timeouts = zero_timeouts, d_flags = 0\<rparr>"

definition stray_header :: sicha_header where
  "stray_header = \<lparr>hd_name = Some (lit ''Authorization''), hd_value = Some [0x78]\<rparr>"

lemma input_plain: "read_desc (desc_input [1] @ request_input) = (input_desc None, request_input)"
  by (simp add: desc_input_def read_desc_def one_in_def rstr_def maybe_def input_desc_def zero_timeouts_def Let_def
      lit_def)

lemma input_stray: "read_desc (desc_input stray_input @ request_input) = (input_desc (Some [stray_header]), request_input)"
  by (simp add: desc_input_def stray_input_def read_desc_def one_in_def rstr_def maybe_def input_desc_def
      zero_timeouts_def stray_header_def Let_def)

lemma input_accepted:
  "fst (sicha_backend_init rd (input_desc None) []) = SICHA_OK"
  "fst (sicha_backend_init rd (input_desc (Some [stray_header])) []) = SICHA_OK"
  by code_simp+

definition input_message :: sicha_message where
  "input_message = \<lparr>msg_role = 1, msg_content = Some [0x68], msg_content_len = SICHA_LEN_CSTR, msg_tool_call_id = None\<rparr>"

lemma input_message_read: "read_message (1 # 1 # 1 # 0x68 # 0 # 1 # r) = (input_message, r)"
  by (simp add: read_message_def one_in_def rstr_def input_message_def)

lemma input_source_read: "read_source (1 # 0 # 1 # 1 # 1 # 0x68 # 0 # 1 # 1 # r) = ((None, Some [input_message], 1), r)"
  by (simp add: read_source_def one_in_def input_message_read)

lemma r32_zero: "r32 (0 # 0 # 0 # 0 # r) = (0, r)"
  by (simp add: r32_def)

lemma rdouble_zero: "rdouble (0 # r) = (0xBFF0000000000000, r)"
  by (simp add: rdouble_def tenths_def)

definition input_req :: sicha_request where
  "input_req = \<lparr>rq_struct_size_ok = True, rq_messages = Some [input_message], rq_n_messages = 1,
     rq_messages_json = None, rq_set_mask = 0, rq_max_tokens = 0, rq_temperature = 0xBFF0000000000000,
     rq_top_p = 0xBFF0000000000000, rq_top_k = 0, rq_presence_penalty = 0xBFF0000000000000,
     rq_frequency_penalty = 0xBFF0000000000000, rq_stop = None, rq_n_stop = 0,
     rq_response_format_json = None, rq_flags = 0\<rparr>"

lemma input_request: "read_request request_input = (input_req, [0])"
  by (simp add: request_input_def read_request_def one_in_def [of 16] one_in_def [of 8] one_in_def [of 4]
      input_source_read r32_zero rdouble_zero
      read_stops_def rstr_def maybe_def c_rem_def input_req_def)

lemma input_valid: "fst (sicha_request_validate rd input_req []) = SICHA_OK"
  by (simp add: sicha_request_validate_def request_shape_ok_def input_req_def input_message_def messages_of_def stop_of_def
      message_ok_def role_str_def content_bytes_def opt_bytes_def is_set_def strlen_def cstr_def)

lemma input_plain_aborts: "\<not> own_authorization (input_desc None)" "\<not> messages_overridden rd (input_desc None)"
  by (simp_all add: own_authorization_def messages_overridden_def input_desc_def extra_headers_of_def)

lemma input_stray_aborts: "own_authorization (input_desc (Some [stray_header]))"
  by (simp add: own_authorization_def input_desc_def extra_headers_of_def stray_header_def named_authorization_def
      cstr_def opt_bytes_def lower_def)

end
