(* ===== verification/Fuzz_Response.thy ===== *)
theory Fuzz_Response
  imports Sse_Frame Engine_Types
begin

text \<open>
  The fuzz harness of the response code, \<open>fuzz/fuzz_response.c\<close>, as a function that tells whether
  all its assertions hold on an input. They do, for every input, whatever the JSON reader makes
  of it and whenever an allocation after the first one fails.
\<close>

section \<open>The harness\<close>

definition sink_bytes :: "bytes \<Rightarrow> u64 \<Rightarrow> int \<times> u64" where
  "sink_bytes bs fnv = (0, fold (\<lambda>b h. (h XOR ucast b) * 0x100000001B3) bs fnv)"

text \<open>
  What a pointer to the text of a buffer points to: its block, or the empty string constant.
\<close>

definition text_block :: "sicha_buf \<Rightarrow> bytes" where
  "text_block b = (case buf_data b of None \<Rightarrow> [0] | Some d \<Rightarrow> d)"

text \<open>A getter never returns NULL, so those assertions have no counterpart in the model's types.\<close>

definition check_result_invariants :: "sicha_result \<Rightarrow> bool" where
  "check_result_invariants r \<longleftrightarrow>
     (let len = snd (sicha_result_text (Some r)) in
        len < length (text_block (r_text r)) \<and> text_block (r_text r) ! len = 0)
     \<and> (let len = snd (sicha_result_reasoning (Some r)) in
        len < length (text_block (r_reasoning r)) \<and> text_block (r_reasoning r) ! len = 0)
     \<and> sicha_result_finish_reason (Some r) \<in> {SICHA_FINISH_UNKNOWN, SICHA_FINISH_STOP, SICHA_FINISH_LENGTH,
         SICHA_FINISH_TOOL_CALLS, SICHA_FINISH_CONTENT_FILTER}
     \<and> -1 \<le> sicha_result_prompt_tokens (Some r) \<and> -1 \<le> sicha_result_completion_tokens (Some r)
     \<and> -1 \<le> sicha_result_total_tokens (Some r)
     \<and> list_all (\<lambda>i. case sicha_result_attempt (Some r) i of
           None \<Rightarrow> False
         | Some a \<Rightarrow> at_model a \<noteq> None \<and> at_message a \<noteq> None \<and> at_raw_body_excerpt a \<noteq> None)
         [0..<sicha_result_attempt_count (Some r)]"

definition fuzz_callbacks :: "nat \<Rightarrow> u64 sicha_callbacks option" where
  "fuzz_callbacks mode =
     (if mode mod 16 = 15 then None
      else Some \<lparr>cb_struct_size_ok = True,
        cb_on_delta = (if mode mod 4 = 1 then Some sink_bytes else None),
        cb_on_reasoning = (if mode mod 4 = 1 then Some sink_bytes else None),
        cb_on_raw_chunk = (if mode mod 8 < 4 then Some sink_bytes else None),
        cb_on_attempt = None, cb_validate = None\<rparr>)"

definition fuzz_stream :: "json_reader \<Rightarrow> nat \<Rightarrow> nat \<Rightarrow> bytes \<Rightarrow> sicha_result \<Rightarrow> mem \<Rightarrow> bool" where
  "fuzz_stream rd mode cap payload r m =
     (let on_event = Some (sicha_stream_on_event rd (fuzz_callbacks mode));
          ctx = sicha_stream_ctx_init r (mode mod 4 \<noteq> 3);
          (rc, sse, s, m) = sicha_sse_feed on_event (sicha_sse_init cap) payload (ctx, 0xcbf29ce484222325) m;
          (rc, sse, s, m) = (if rc = 0 then sicha_sse_finish on_event sse s m else (rc, sse, s, m));
          ctx = fst s
      in (rc = 0 \<or> rc = -1 \<or> rc = SICHA_STREAM_STOP \<or> rc = SICHA_STREAM_CANCEL)
         \<and> (if rc = -1 then sc_err ctx \<noteq> SICHA_OK \<or> sicha_sse_status sse \<noteq> SICHA_OK else True)
         \<and> buf_len (sc_last_raw ctx) \<le> SICHA_EXCERPT_MAX
         \<and> check_result_invariants (sc_r ctx))"

definition fuzz_response :: "json_reader \<Rightarrow> bytes \<Rightarrow> mem \<Rightarrow> bool" where
  "fuzz_response rd data m =
     (if length data < 2 then True
      else
        let mode = unat (data ! 0);
            cap = (if mode mod 8 = 0 then 1 + unat (data ! 1) * 8 else 0);
            payload = drop 2 data
        in case sicha_result_create cap m of
             (None, m) \<Rightarrow> False
           | (Some r, m) \<Rightarrow>
               if mode mod 2 = 0 then
                 let (st, bs, r, m) = sicha_response_parse rd r payload m
                 in (st = SICHA_OK \<or> st = SICHA_E_NOMEM)
                    \<and> bs \<in> {SICHA_BODY_OK, SICHA_BODY_EMPTY, SICHA_BODY_MALFORMED, SICHA_BODY_TOOBIG}
                    \<and> check_result_invariants r
               else fuzz_stream rd mode cap payload r m)"

section \<open>Codes of the callback\<close>

text \<open>
  After a call of the callback: the excerpt is under its cap, and a nonzero code is the end of
  the stream, a cancelling callback, or -1 with an error in the context.
\<close>

definition said :: "int \<Rightarrow> sicha_stream_ctx \<Rightarrow> bool" where
  "said rc ctx \<longleftrightarrow> (rc = 0 \<or> rc = SICHA_STREAM_CANCEL \<or> rc = -1 \<and> sc_err ctx \<noteq> SICHA_OK)
     \<and> buf_live (sc_last_raw ctx) \<and> buf_max_len (sc_last_raw ctx) = SICHA_EXCERPT_MAX"

lemma call_cb_codes: "call_cb cb bs w = (rc, w') \<Longrightarrow> rc = 0 \<or> rc = SICHA_STREAM_CANCEL"
  by (auto simp: call_cb_def split: option.splits prod.splits if_splits)

lemma said_raw_chunk:
  assumes "raw_chunk cbs ctx data w m = (rc, ctx', w', m')" "said 0 ctx"
  shows "said rc ctx'"
proof -
  obtain lr m1 where a: "sicha_buf_append (sicha_buf_reset (sc_last_raw ctx)) (take SICHA_EXCERPT_MAX data) m = (lr, m1)"
    by fastforce
  obtain c w1 where c: "call_cb (cb_of cbs cb_on_raw_chunk) data w = (c, w1)" by fastforce
  have "buf_live (sicha_buf_reset (sc_last_raw ctx))" "buf_max_len (sicha_buf_reset (sc_last_raw ctx)) = SICHA_EXCERPT_MAX"
    using assms(2) by (simp_all add: said_def)
  with append_live [OF _ a] have "buf_live lr" "buf_max_len lr = SICHA_EXCERPT_MAX" by simp_all
  with assms(1) a c call_cb_codes [OF c] show ?thesis by (auto simp: raw_chunk_def Let_def said_def split: if_splits)
qed

lemma said_deliver:
  assumes "deliver ctx accum cb bs w m = (rc, ctx', accum', w', m')" "said 0 ctx"
  shows "said rc ctx'"
  using assms
  by (auto simp: deliver_def said_def Let_def split: if_splits prod.splits dest: call_cb_codes)

lemma said_deliver_text:
  "deliver_text cbs ctx c w m = (rc, ctx', w', m') \<Longrightarrow> said 0 ctx \<Longrightarrow> said rc ctx'"
  by (auto simp: deliver_text_def split: option.splits prod.splits dest!: said_deliver) (simp add: said_def)

lemma said_deliver_reasoning:
  "deliver_reasoning cbs ctx c w m = (rc, ctx', w', m') \<Longrightarrow> said 0 ctx \<Longrightarrow> said rc ctx'"
  by (auto simp: deliver_reasoning_def split: option.splits prod.splits dest!: said_deliver) (simp add: said_def)

lemma said_delta:
  assumes "delta_stage cbs ctx data delta w m = (rc, ctx', w', m')" "said 0 ctx"
  shows "said rc ctx'"
  using assms
  by (auto simp: delta_stage_def Let_def split: prod.splits if_splits
      dest!: said_deliver_text said_deliver_reasoning said_raw_chunk)

lemma said_finish:
  "stream_finish_stage ctx c0 m = (rc, ctx', m') \<Longrightarrow> said 0 ctx \<Longrightarrow> said rc ctx'"
  by (auto simp: stream_finish_stage_def said_def Let_def split: option.splits prod.splits if_splits)

lemma said_meta: "meta_stage ctx root m = (rc, ctx', m') \<Longrightarrow> said 0 ctx \<Longrightarrow> said rc ctx'"
  by (auto simp: meta_stage_def said_def Let_def split: prod.splits if_splits)

lemma said_choices:
  assumes "choices_stage cbs ctx data root w m = (go, rc, ctx', w', m')" "said 0 ctx"
  shows "said rc ctx' \<and> (go \<longrightarrow> rc = 0)"
  using assms
  by (auto simp: choices_stage_eq split: option.splits prod.splits if_splits
      dest!: said_delta said_raw_chunk said_finish)

definition ends :: "int \<Rightarrow> sicha_stream_ctx \<Rightarrow> bool" where
  "ends rc ctx \<longleftrightarrow> rc = SICHA_STREAM_STOP \<or> rc = SICHA_STREAM_CANCEL \<or> rc = -1 \<and> sc_err ctx \<noteq> SICHA_OK"

lemma said_simps [simp]:
  "said rc (ctx\<lparr>sc_done := d\<rparr>) = said rc ctx" "said rc (ctx\<lparr>sc_saw_event := e\<rparr>) = said rc ctx"
  by (simp_all add: said_def)

lemma saidD: "said rc ctx \<Longrightarrow> said 0 ctx \<and> (rc \<noteq> 0 \<longrightarrow> ends rc ctx)"
  by (auto simp: said_def ends_def)

lemma said_on_event:
  assumes "sicha_stream_on_event rd cbs d (ctx, w) m = (rc, (ctx', w'), m')" "said 0 ctx"
  shows "said 0 ctx' \<and> (rc \<noteq> 0 \<longrightarrow> ends rc ctx')"
proof (cases "d = lit ''[DONE]''")
  case True
  with assms show ?thesis by (auto simp: sicha_stream_on_event_def ends_def simp del: lit_simps)
next
  case False
  have "said rc ctx'"
    using assms False
    by (auto simp: sicha_stream_on_event_def split: prod.splits option.splits if_splits simp del: lit_simps
        dest!: said_raw_chunk said_choices said_meta)
  then show ?thesis by (rule saidD)
qed

text \<open>A result holds what the harness wants of it.\<close>

definition records_ok :: "sicha_result \<Rightarrow> bool" where
  "records_ok r \<longleftrightarrow> (\<forall>a \<in> set (r_attempts r). at_model a \<noteq> None \<and> at_message a \<noteq> None \<and> at_raw_body_excerpt a \<noteq> None)"

lemma text_block_ok: "buf_wf b \<Longrightarrow> buf_len b < length (text_block b) \<and> text_block b ! buf_len b = 0"
  by (auto simp: text_block_def buf_wf_def split: option.splits)

lemma content_invariants:
  assumes "content_ok cap r" "records_ok r"
  shows "check_result_invariants r"
proof -
  have "buf_wf (r_text r)" "buf_wf (r_reasoning r)" using assms(1) by (simp_all add: content_ok_def buf_live_def)
  from this [THEN text_block_ok] assms show ?thesis
    by (cases "r_finish r")
      (auto simp: check_result_invariants_def sicha_result_text_def sicha_result_reasoning_def
        sicha_result_finish_reason_def sicha_result_prompt_tokens_def sicha_result_completion_tokens_def
        sicha_result_total_tokens_def sicha_result_attempt_count_def sicha_result_attempt_def
        content_ok_def records_ok_def list_all_iff Let_def finish_of_def finish_named_def split: option.splits)
qed

section \<open>It never aborts\<close>

text \<open>What the callback keeps of its context.\<close>

definition assembling :: "nat \<Rightarrow> sicha_stream_ctx \<times> 'w \<Rightarrow> bool" where
  "assembling cap = (\<lambda>(ctx, w). content_ok cap (sc_r ctx) \<and> r_attempts (sc_r ctx) = [] \<and> said 0 ctx)"

interpretation stream: parser_frame "sicha_stream_on_event rd cbs" buf_live "\<lambda>_. True" "\<lambda>_. True" "assembling cap"
  "\<lambda>rc (ctx, w). ends rc ctx" for rd cbs cap
proof
  show "buf_live b' \<and> True" if "buf_live b" "sicha_buf_append b bs m = (b', m')" for b m bs b' m'
    using append_live [OF that] by simp
  show "assembling cap s' \<and> True \<and> (rc \<noteq> 0 \<longrightarrow> (case s' of (ctx, w) \<Rightarrow> ends rc ctx))"
    if A: "assembling cap s" and "sicha_stream_on_event rd cbs d s m = (rc, s', m')" for s m d rc s' m'
  proof -
    obtain ctx w ctx' w' where s: "s = (ctx, w)" "s' = (ctx', w')" by fastforce
    note e = that(2) [unfolded s]
    from A have a: "content_ok cap (sc_r ctx)" "r_attempts (sc_r ctx) = []" "said 0 ctx" by (simp_all add: assembling_def s)
    show ?thesis
      using content_on_event [OF e a(1)] kept_on_event [OF e] said_on_event [OF e a(3)] a(2)
      by (simp add: assembling_def s kept_part_def)
  qed
qed simp_all

lemma fuzz_stream_holds:
  assumes "content_ok cap r" "r_attempts r = []"
  shows "fuzz_stream rd mode cap payload r m"
proof -
  let ?f = "sicha_stream_on_event rd (fuzz_callbacks mode)" and ?h = "0xcbf29ce484222325 :: u64"
  let ?ctx = "sicha_stream_ctx_init r (mode mod 4 \<noteq> 3)"
  obtain rc1 p1 s1 m1 where f: "sicha_sse_feed (Some ?f) (sicha_sse_init cap) payload (?ctx, ?h) m = (rc1, p1, s1, m1)"
    by (metis prod_cases4)
  obtain rc2 p2 s2 m2 where g: "sicha_sse_finish (Some ?f) p1 s1 m1 = (rc2, p2, s2, m2)" by (metis prod_cases4)
  have i: "stream.frame (sicha_sse_init cap) m" by (simp add: stream.frame_def sicha_sse_init_def)
  have "assembling cap (?ctx, ?h)" using assms by (simp add: assembling_def said_def sicha_stream_ctx_init_def)
  from stream.frame_feed [OF i this f] have 1: "stream.after cap rc1 p1 s1 m1" .
  then have "stream.frame p1 m1" "assembling cap s1" by (simp_all add: stream.after_def)
  from stream.frame_finish [OF this g] have 2: "stream.after cap rc2 p2 s2 m2" .
  obtain rc p s m' where e: "(if rc1 = 0 then sicha_sse_finish (Some ?f) p1 s1 m1 else (rc1, p1, s1, m1)) = (rc, p, s, m')"
    "stream.after cap rc p s m'"
    using 1 2 g by (cases "rc1 = 0") auto
  obtain ctx w where s: "s = (ctx, w)" by fastforce
  have A: "content_ok cap (sc_r ctx)" "r_attempts (sc_r ctx) = []" "said 0 ctx"
    "rc \<noteq> 0 \<longrightarrow> ends rc ctx \<or> rc = -1 \<and> sse_err p \<noteq> SICHA_OK"
    using e(2) unfolding stream.after_def s by (simp_all add: assembling_def)
  have "buf_wf (sc_last_raw ctx)" "buf_max_len (sc_last_raw ctx) = SICHA_EXCERPT_MAX" "SICHA_EXCERPT_MAX \<noteq> 0"
    using A(3) by (simp_all add: said_def buf_live_def SICHA_EXCERPT_MAX_def)
  then have "buf_len (sc_last_raw ctx) \<le> SICHA_EXCERPT_MAX" by (simp add: buf_wf_def)
  moreover have "check_result_invariants (sc_r ctx)"
    using content_invariants [OF A(1)] A(2) by (simp add: records_ok_def)
  ultimately show ?thesis
    using A(4) unfolding fuzz_stream_def Let_def f prod.case e(1) s fst_conv
    by (auto simp: ends_def sicha_sse_status_def SICHA_STREAM_STOP_def SICHA_STREAM_CANCEL_def)
qed

theorem fuzz_response_holds:
  assumes "fst (alloc m)"
  shows "fuzz_response rd data m"
proof -
  have c: "sicha_result_create k m = (Some (fresh_result k), snd (alloc m))" for k
    using assms by (cases "alloc m") (simp add: sicha_result_create_def)
  have a: "r_attempts (fresh_result k) = []" for k by (simp add: fresh_result_def)
  have p: "(st = SICHA_OK \<or> st = SICHA_E_NOMEM) \<and> check_result_invariants r'"
    if "sicha_response_parse rd (fresh_result k) payload m1 = (st, bs, r', m')" for k payload m1 st bs r' m'
  proof -
    have "clean (fresh_result k)" by (simp add: clean_def fresh_result_def)
    from this that have "st = SICHA_OK \<or> st = SICHA_E_NOMEM"
      by (cases rule: sicha_response_parse_cases) (auto simp: parse_fate_def)
    moreover have "content_ok k r'" "r_attempts r' = []"
      using content_parse [OF that content_fresh] kept_parse [OF that] a by (simp_all add: kept_part_def)
    ultimately show ?thesis using content_invariants by (simp add: records_ok_def)
  qed
  have bs: "bs \<in> {SICHA_BODY_OK, SICHA_BODY_EMPTY, SICHA_BODY_MALFORMED, SICHA_BODY_TOOBIG}" for bs by (cases bs) simp_all
  show ?thesis
    unfolding fuzz_response_def Let_def c option.case prod.case
    using p bs fuzz_stream_holds [OF content_fresh a] by (auto simp del: insert_iff split: prod.splits)
qed

end
