(* ===== verification/Engine_Telemetry.thy ===== *)
theory Engine_Telemetry
  imports Engine_Commit
begin

text \<open>
  What \<open>on_attempt\<close> is told during a call: exactly the attempt records of the result, each once
  and in order.
\<close>

section \<open>The callbacks\<close>

definition calm :: "('w \<Rightarrow> 'o) \<Rightarrow> (bytes \<Rightarrow> 'w \<Rightarrow> int \<times> 'w) option \<Rightarrow> bool" where
  "calm obs cb \<longleftrightarrow> (case cb of None \<Rightarrow> True | Some f \<Rightarrow> \<forall>bs w. obs (snd (f bs w)) = obs w)"

lemma call_cb_calm: "call_cb cb bs w = (rc, w') \<Longrightarrow> calm obs cb \<Longrightarrow> obs w' = obs w"
  by (auto simp: call_cb_def calm_def split: option.splits prod.splits if_splits) (metis snd_conv)+

text \<open>
  \<open>obs\<close> is the part of the world that \<open>on_attempt\<close> works on. It does \<open>g\<close> there with each record;
  neither the other callbacks nor the environment touch that part.
\<close>

locale attempt_listener =
  fixes obs :: "'w \<Rightarrow> 'o" and g :: "sicha_attempt \<Rightarrow> 'o \<Rightarrow> 'o" and cbs :: "'w sicha_callbacks option"
    and env :: "'w client_env"
  assumes calm_delta: "calm obs (cb_of cbs cb_on_delta)"
    and calm_reasoning: "calm obs (cb_of cbs cb_on_reasoning)"
    and calm_raw: "calm obs (cb_of cbs cb_on_raw_chunk)"
    and calm_validate: "cb_of cbs cb_validate = Some f \<Longrightarrow> obs (snd (f r w)) = obs w"
    and told: "cb_of cbs cb_on_attempt = Some t \<Longrightarrow> obs (t a w) = g a (obs w)"
    and untold: "cb_of cbs cb_on_attempt = None \<Longrightarrow> g a x = x"
    and quiet_env: "env_quiet obs env"
begin

lemma raw_chunk_obs: "raw_chunk cbs ctx data w m = (rc, ctx', w', m') \<Longrightarrow> obs w' = obs w"
  using calm_raw by (auto simp: raw_chunk_def Let_def split: prod.splits if_splits dest: call_cb_calm)

lemma deliver_obs: "deliver ctx accum cb bs w m = (rc, ctx', accum', w', m') \<Longrightarrow> calm obs cb \<Longrightarrow> obs w' = obs w"
  by (auto simp: deliver_def Let_def split: prod.splits if_splits dest: call_cb_calm)

lemma deliver_text_obs: "deliver_text cbs ctx c w m = (rc, ctx', w', m') \<Longrightarrow> obs w' = obs w"
  using calm_delta by (auto simp: deliver_text_def split: option.splits prod.splits dest: deliver_obs)

lemma deliver_reasoning_obs: "deliver_reasoning cbs ctx c w m = (rc, ctx', w', m') \<Longrightarrow> obs w' = obs w"
  using calm_reasoning by (auto simp: deliver_reasoning_def split: option.splits prod.splits dest: deliver_obs)

lemma delta_stage_obs: "delta_stage cbs ctx data delta w m = (rc, ctx', w', m') \<Longrightarrow> obs w' = obs w"
  by (auto simp: delta_stage_def Let_def split: prod.splits if_splits
      dest!: deliver_text_obs deliver_reasoning_obs raw_chunk_obs)

lemma choices_stage_obs: "choices_stage cbs ctx data root w m = (go, rc, ctx', w', m') \<Longrightarrow> obs w' = obs w"
  by (auto simp: choices_stage_eq split: option.splits prod.splits if_splits
      dest!: delta_stage_obs raw_chunk_obs)

lemma on_event_obs: "sicha_stream_on_event rd cbs d (ctx, w) m = (rc, (ctx', w'), m') \<Longrightarrow> obs w' = obs w"
  by (auto simp: sicha_stream_on_event_def Let_def split: prod.splits option.splits if_splits
      dest!: raw_chunk_obs choices_stage_obs)

lemma on_event_keeps_obs:
  "keeps k (Some (sicha_stream_on_event rd cbs)) (\<lambda>(ctx, w). obs w = x)"
proof -
  have "obs (snd (fst (snd (sicha_stream_on_event rd cbs d (ctx, w) m)))) = obs w" for d ctx w m
    using on_event_obs by (cases "sicha_stream_on_event rd cbs d (ctx, w) m") fastforce
  then show ?thesis by (auto simp: keeps_def split_def)
qed

text \<open>The records so far have been told, starting from \<open>x\<close>.\<close>

definition all_told :: "'o \<Rightarrow> 'w chat_state \<Rightarrow> bool" where
  "all_told x s \<longleftrightarrow> obs (ch_w s) = fold g (r_attempts (ch_r s)) x"

lemma run_attempt_obs:
  assumes "run_attempt rd env c b bd hs cbs r stream acc w m = (out, r', w', m')"
  shows "obs w' = obs w"
proof -
  let ?P = "\<lambda>(_ :: sicha_stream_ctx) y. y = obs w"
  show ?thesis
    by (rule run_attempt_keeps [where P = ?P and obs = obs, OF quiet_env on_event_keeps_obs _ _ assms]) auto
qed

lemma attempt_run_told:
  assumes "attempt_run rd env c i b req cbs stream s = (out, cls, s')" "all_told x s"
  shows "all_told x s'"
proof -
  from assms(1) obtain out0 r w m w' where R:
    "run_attempt rd env c b (opt_bytes (ch_body s)) (case ch_headers s of None \<Rightarrow> [] | Some hs \<Rightarrow> hs) cbs
       ((sicha_result_reset_content (ch_r s))\<lparr>r_backend := int i\<rparr>) stream
       (rq_flags req AND SICHA_REQ_NO_ACCUMULATE = 0) (ch_w s) (ch_mem s) = (out0, r, w, m)"
    "validate_attempt cbs r out0 (outcome_class c out0 r) w = (out, cls, w')"
    "s' = s\<lparr>ch_r := r, ch_w := w', ch_mem := m, ch_delivered := ch_delivered s \<or> ao_delivered out0\<rparr>"
    by (rule attempt_run_cases)
  have "r_attempts r = r_attempts (ch_r s)"
    using run_attempt_kept [OF R(1)] by (simp add: kept_part_def sicha_result_reset_content_def)
  moreover have "obs w' = obs w"
    using R(2) by (cases rule: validate_attempt_cases) (metis calm_validate snd_conv)+
  ultimately show ?thesis using R(3) run_attempt_obs [OF R(1)] assms(2) by (simp add: all_told_def)
qed

lemma attempt_record_told:
  assumes "attempt_record env c i b cbs out cls s = (st, s')" "all_told x s"
  shows "all_told x s'"
  using assms(1)
proof (cases rule: attempt_record_cases)
  case (recorded a cap m)
  have d: "obs (debug_attempt env c a w) = obs w" for w by (rule debug_quiet(2) [OF quiet_env])
  show ?thesis
  proof (cases "cb_of cbs cb_on_attempt")
    case None
    with recorded assms(2) d show ?thesis by (simp add: all_told_def untold)
  next
    case (Some t)
    with recorded assms(2) d show ?thesis by (simp add: all_told_def told)
  qed
next
  case (failed cap m)
  with assms(2) show ?thesis by (simp add: all_told_def)
qed

lemma attempt_decide_told:
  assumes "attempt_decide env c b out cls s = (v, s')" "all_told x s"
  shows "all_told x s'"
proof -
  have w: "env_wait_ms env n w = (rc, w') \<Longrightarrow> obs w' = obs w" for n w rc w'
    using quiet_env unfolding env_quiet_def by (metis snd_conv)
  have "obs (ch_w s') = obs (ch_w s)"
    using assms(1) kobold_quiet [OF quiet_env]
    by (cases cls) (auto simp: attempt_decide_def Let_def split: if_splits prod.splits dest: w)
  with attempt_decide_frame [OF assms(1)] assms(2) show ?thesis by (simp add: all_told_def)
qed

lemma attempt_step_told:
  assumes "attempt_step rd wr env c i b req cbs stream s = (v, s')" "all_told x s"
  shows "all_told x s'"
proof -
  have prep: "all_told x s1" if "attempt_prepare rd wr env c b req stream s = (code, s1)" for code s1
    using attempt_prepare_frame [OF that] assms(2) by (simp add: all_told_def)
  from assms(1) show ?thesis
    by (cases rule: attempt_step_cases)
      (blast dest: prep attempt_run_told attempt_record_told attempt_decide_told)+
qed

lemma chat_backends_told:
  assumes "chat_backends rd wr env c i bs req cbs stream s = (final, s')" "all_told x s"
  shows "all_told x s'"
proof -
  let ?I = "all_told x"
  have "?I s' \<or> final = SICHA_E_EXHAUSTED \<and> ?I s'"
  proof (rule chat_backends_rule [where J = "\<lambda>_. ?I" and F = "\<lambda>_. ?I", OF _ assms(2,1)])
    fix k b and s :: "'w chat_state" and res s'
    assume J: "?I s" and run: "backend_loop rd wr env c k b req cbs stream (enter_backend s) = (res, s')"
    have start: "?I (enter_backend s)" using J by (simp add: enter_backend_def all_told_def)
    show "case res of None \<Rightarrow> ?I s' | Some st \<Rightarrow> ?I s'"
    proof (rule backend_loop_rule [where I = ?I and A = ?I and F = "\<lambda>_. ?I", OF _ start run])
      fix s v s' assume "?I s" "attempt_step rd wr env c k b req cbs stream s = (v, s')"
      from attempt_step_told [OF this(2,1)]
      show "case v of Finish st \<Rightarrow> ?I s' | Again \<Rightarrow> ?I s' | Advance \<Rightarrow> ?I s'" by (cases v) auto
    qed
  qed
  then show ?thesis by blast
qed

lemma chat_told:
  assumes "chat_common rd wr env client request cbs out_set stream w m = (st, Some r, client', w', m')"
  shows "obs w' = fold g (r_attempts r) (obs w)"
  using assms
proof (cases rule: chat_common_cases)
  case (no_arrays c r)
  then show ?thesis by (auto simp: fresh_result_def)
next
  case (ran c req m1 m2 s)
  have "all_told (obs w) (chat_start c (fresh_result (c_max_response_bytes c)) w m2)"
    by (simp add: all_told_def chat_start_def fresh_result_def)
  from chat_backends_told [OF ran(6) this] ran(7,8) show ?thesis by (simp add: all_told_def)
qed simp

end

end
