(* ===== verification/Fuzz_Client.thy ===== *)
theory Fuzz_Client
  imports Fuzz_Request Fuzz_Response Engine_Telemetry Client_Facts Script
begin

text \<open>
  The fuzz harness of the engine, \<open>fuzz/fuzz_client.c\<close>: a whole call on the scripted transport, a
  clock of its own, a token that the clock triggers, and callbacks that cancel and reject. Its
  world is the state of the transport beside \<open>fz_world\<close>. The harness is a function that tells whether all
  its assertions hold; the ones in callbacks set \<open>fw_aborted\<close>. They do, on every input. The
  assertions that a getter does not return NULL and that \<open>struct_size\<close> of a record is right have no
  counterpart: those values are not options, and records have no such field. In \<open>r16\<close>, where C
  leaves the order of the two reads open, the first one is read first.
\<close>

section \<open>The clock and the callbacks\<close>

record fz_clock =
  fc_now :: u64
  fc_trigger :: bool
  fc_trigger_at :: int
  fc_wait_calls :: int

record fz_cbs_state =
  fs_cancel_delta_after :: int
  fs_deltas :: int
  fs_reject_validations :: int
  fs_attempts_seen :: int
  fs_last_backend :: u32
  fs_expect_try :: u32
  fs_backend_regressed :: bool

record fz_world =
  fw_clock :: fz_clock
  fw_cbs :: fz_cbs_state
  fw_cancel :: "sicha_cancel option"
  fw_aborted :: bool

definition fz_now :: "fz_world \<Rightarrow> u64 \<times> fz_world" where
  "fz_now x = (fc_now (fw_clock x), x)"

definition fz_wait :: "(fz_world \<Rightarrow> bool) option \<Rightarrow> u64 \<Rightarrow> fz_world \<Rightarrow> int \<times> fz_world" where
  "fz_wait cancel ms x =
     (let fc = (fw_clock x)\<lparr>fc_wait_calls := fc_wait_calls (fw_clock x) + 1\<rparr>;
          x = x\<lparr>fw_clock := fc\<rparr>;
          x = (if fc_trigger fc \<and> fc_trigger_at fc \<le> fc_wait_calls fc
               then x\<lparr>fw_cancel := sicha_cancel_trigger (fw_cancel x)\<rparr> else x)
      in if (case cancel of None \<Rightarrow> False | Some cancelled \<Rightarrow> cancelled x) then (1, x)
         else (0, x\<lparr>fw_clock := fc\<lparr>fc_now := fc_now fc + ms\<rparr>\<rparr>))"

definition the_fz_clock :: "fz_world sicha_clock" where
  "the_fz_clock = \<lparr>ck_now_ms = fz_now, ck_wait_ms = fz_wait\<rparr>"

type_synonym fz_state = "script_state \<times> fz_world"

definition fz_on_delta :: "bytes \<Rightarrow> fz_state \<Rightarrow> int \<times> fz_state" where
  "fz_on_delta bs w =
     (let s = fw_cbs (snd w); s = s\<lparr>fs_deltas := fs_deltas s + 1\<rparr> in
      (if fs_cancel_delta_after s \<noteq> 0 \<and> fs_cancel_delta_after s \<le> fs_deltas s then 1 else 0,
       (fst w, (snd w)\<lparr>fw_cbs := s\<rparr>)))"

definition fz_on_raw :: "bytes \<Rightarrow> fz_state \<Rightarrow> int \<times> fz_state" where
  "fz_on_raw bs w = (0, w)"

definition fz_on_attempt :: "sicha_attempt \<Rightarrow> fz_state \<Rightarrow> fz_state" where
  "fz_on_attempt a w =
     (let x = snd w; s = fw_cbs x;
          bad = (at_model a = None \<or> at_message a = None \<or> at_attempt a \<noteq> word_of_int (fs_attempts_seen s));
          s = (if 0 < fs_attempts_seen s \<and> at_backend a < fs_last_backend s
               then s\<lparr>fs_backend_regressed := True\<rparr> else s);
          s = (if fs_attempts_seen s = 0 \<or> at_backend a \<noteq> fs_last_backend s then s\<lparr>fs_expect_try := 0\<rparr> else s);
          bad = (bad \<or> at_try_of_backend a \<noteq> fs_expect_try s);
          s = s\<lparr>fs_expect_try := fs_expect_try s + 1, fs_last_backend := at_backend a,
                fs_attempts_seen := fs_attempts_seen s + 1\<rparr>
      in (fst w, x\<lparr>fw_cbs := s, fw_aborted := fw_aborted x \<or> bad\<rparr>))"

definition fz_validate :: "sicha_result \<Rightarrow> fz_state \<Rightarrow> int \<times> fz_state" where
  "fz_validate r w =
     (let s = fw_cbs (snd w) in
      if 0 < fs_reject_validations s
      then (1, (fst w, (snd w)\<lparr>fw_cbs := s\<lparr>fs_reject_validations := fs_reject_validations s - 1\<rparr>\<rparr>))
      else (0, w))"

section \<open>The input\<close>

definition r16 :: "fuzz_input \<Rightarrow> 16 word \<times> fuzz_input" where
  "r16 r = (let (lo, r) = r8 r; (hi, r) = r8 r in (ucast lo OR push_bit 8 (ucast hi), r))"

definition fz_backend :: "nat \<Rightarrow> fuzz_input \<Rightarrow> sicha_backend_desc \<times> fuzz_input" where
  "fz_backend i r =
     (let (flags, r) = one_in 4 (Pair SICHA_BACKEND_KOBOLD_CANCEL_ASSIST) (Pair 0) r;
          (timeouts, r) = one_in 4
            (\<lambda>r. let (connect, r) = r16 r; (total, r) = r16 r in
              (zero_timeouts\<lparr>connect_ms := 1 + ucast connect, total_ms := 1 + ucast total\<rparr>, r))
            (Pair zero_timeouts) r
      in (\<lparr>d_struct_size_ok = True,
           d_base_url = Some ([lit ''http://a.local/v1'', lit ''http://b.local/v1'', lit ''http://c.local/v1''] ! i),
           d_api_key = None, d_model = Some ([lit ''m0'', lit ''m1'', lit ''m2''] ! i), d_extra_headers = None,
           d_n_extra_headers = 0, d_extra_body_json = None, d_timeouts = timeouts, d_flags = flags\<rparr>, r))"

text \<open>The descriptions from number \<open>i\<close> on, \<open>k\<close> of them.\<close>

fun fz_backends :: "nat \<Rightarrow> nat \<Rightarrow> fuzz_input \<Rightarrow> sicha_backend_desc list \<times> fuzz_input" where
  "fz_backends i 0 r = ([], r)"
| "fz_backends i (Suc k) r =
     (let (d, r) = fz_backend i r; (ds, r) = fz_backends (Suc i) k r in (d # ds, r))"

definition fz_override :: "fuzz_input \<Rightarrow> sicha_status_override option \<times> fuzz_input" where
  "fz_override =
     one_in 8 (\<lambda>r. let (b, r) = r8 r; (k, r) = r8 r in
         (Some \<lparr>ov_http_status = 400 + uint b mod 200,
                ov_cls = [SICHA_CLASS_ABORT, SICHA_CLASS_RETRY_SAME, SICHA_CLASS_ADVANCE] ! (unat k mod 3)\<rparr>, r))
       (Pair None)"

definition fz_policy :: "fuzz_input \<Rightarrow> sicha_retry_policy \<times> fuzz_input" where
  "fz_policy r =
     (let (b, r) = r8 r; tries = ucast (b mod 5);
          (b, r) = r8 r; validations = ucast (b mod 3);
          (base, r) = one_in 2 (Pair 1) (Pair 0) r;
          (jitter, r) = one_in 3 (Pair SICHA_DISABLED) (\<lambda>r. let (b, r) = r8 r in (ucast (b mod 64), r)) r;
          (f1, r) = one_in 2 (Pair SICHA_POLICY_RETRY_AFTER_DELTAS) (Pair 0) r;
          (f2, r) = one_in 4 (Pair SICHA_POLICY_LENGTH_IS_ADVANCE) (Pair 0) r;
          (ov, r) = fz_override r
      in (\<lparr>max_tries = tries, validation_retries = validations, backoff_base_ms = base, backoff_cap_ms = 0,
           backoff_jitter_ms = jitter, retry_after_cap_ms = 0, pol_flags = f1 OR f2,
           overrides = (case ov of None \<Rightarrow> None | Some ov \<Rightarrow> Some [ov]),
           n_overrides = (if ov = None then 0 else 1)\<rparr>, r))"

definition fz_opts :: "sicha_backend_desc list \<Rightarrow> sicha_retry_policy \<Rightarrow> fuzz_input \<Rightarrow> sicha_client_opts \<times> fuzz_input" where
  "fz_opts descs pol r =
     (let (seed, r) = r16 r; (cap, r) = one_in 8 (Pair 64) (Pair 0) r in
      (\<lparr>o_struct_size_ok = True, o_backends = Some descs, o_n_backends = length descs, o_retry = pol,
        o_transport = Some \<lparr>ts_struct_size_ok = True, ts_perform_set = True\<rparr>,
        o_clock = Some \<lparr>ck_now_set = True, ck_wait_set = True\<rparr>, o_prng_seed = 1 + ucast seed,
        o_max_response_bytes = cap, o_max_event_bytes = 0, o_user_agent = None\<rparr>, r))"

section \<open>The script\<close>

definition OK_JSON :: bytes where
  "OK_JSON = lit ''{\"model\":\"srv\",\"choices\":[{\"message\":{\"content\":\"ok\"},\"finish_reason\":\"stop\"}]}''"

definition SSE_OK :: bytes where
  "SSE_OK = lit ''data: {\"choices\":[{\"delta\":{\"content\":\"o\"}}]}'' @ [0x0A, 0x0A]
     @ lit ''data: {\"choices\":[{\"delta\":{\"content\":\"k\"},\"finish_reason\":\"stop\"}]}'' @ [0x0A, 0x0A]
     @ lit ''data: [DONE]'' @ [0x0A, 0x0A]"

definition SSE_PARTIAL :: bytes where
  "SSE_PARTIAL = lit ''data: {\"choices\":[{\"delta\":{\"content\":\"pa\"}}]}'' @ [0x0A, 0x0A]"

definition MALFORMED :: bytes where
  "MALFORMED = lit ''<html>gateway</html>''"

definition CUT_JSON :: bytes where
  "CUT_JSON = lit ''{\"choices\":[{\"message\":{\"content\":\"t\"},\"finish_reason\":\"length\"}]}''"

text \<open>The statuses from -1 to -12.\<close>

definition transport_errors :: "sicha_transport_status list" where
  "transport_errors =
     [SICHA_T_E_CONNECT, SICHA_T_E_TLS, SICHA_T_E_TIMEOUT_CONNECT, SICHA_T_E_TIMEOUT_FIRST_BYTE,
      SICHA_T_E_TIMEOUT_IDLE, SICHA_T_E_TIMEOUT_TOTAL, SICHA_T_E_RESET, SICHA_T_E_ABORTED_BY_SINK,
      SICHA_T_E_CANCELLED, SICHA_T_E_PROTOCOL, SICHA_T_E_NOMEM, SICHA_T_E_OTHER]"

definition zero_response :: sicha_script_response where
  "zero_response =
     \<lparr>sr_struct_size_ok = True, sr_status = SICHA_T_OK, sr_http_status = 0, sr_headers = None, sr_n_headers = 0,
      sr_body = None, sr_body_len = 0, sr_chunk_size = 0, sr_connect_delay_ms = 0, sr_first_byte_delay_ms = 0,
      sr_per_chunk_delay_ms = 0, sr_fail_after_bytes = 0\<rparr>"

definition with_body :: "int \<Rightarrow> bytes \<Rightarrow> sicha_script_response" where
  "with_body http body =
     zero_response\<lparr>sr_http_status := http, sr_body := Some body, sr_body_len := SICHA_LEN_CSTR\<rparr>"

definition fz_response :: "bool \<Rightarrow> fuzz_input \<Rightarrow> sicha_script_response \<times> fuzz_input" where
  "fz_response stream r =
     (let (kind, r) = r8 r; kind = unat kind mod 8; good = (if stream then SSE_OK else OK_JSON) in
      if kind = 0 then
        let (b, r) = r8 r in ((with_body 200 good)\<lparr>sr_chunk_size := 1 + unat b mod 32\<rparr>, r)
      else if kind = 1 then
        let (b, r) = r8 r in
        (with_body (100 + uint b mod 500) (lit ''{\"error\":\"e\"}''), r)
      else if kind = 2 then
        let (b, r) = r8 r in (zero_response\<lparr>sr_status := transport_errors ! (unat b mod 12)\<rparr>, r)
      else if kind = 3 then
        let (connect, r) = r16 r; (first, r) = r16 r; (per_chunk, r) = r8 r; (b, r) = r8 r in
        ((with_body 200 good)\<lparr>sr_connect_delay_ms := ucast connect, sr_first_byte_delay_ms := ucast first,
           sr_per_chunk_delay_ms := ucast per_chunk, sr_chunk_size := 1 + unat b mod 16\<rparr>, r)
      else if kind = 4 then
        let (b, r) = r8 r; (k, r) = r8 r in
        ((with_body 200 (if stream then SSE_PARTIAL else OK_JSON))
           \<lparr>sr_status := transport_errors ! (unat b mod 12), sr_fail_after_bytes := 1 + unat k mod 64\<rparr>, r)
      else if kind = 5 then (with_body 200 MALFORMED, r)
      else if kind = 6 then (zero_response\<lparr>sr_http_status := 200\<rparr>, r)
      else (with_body 200 CUT_JSON, r))"

text \<open>A response that cannot be queued ends the loop.\<close>

fun push_responses :: "nat \<Rightarrow> bool \<Rightarrow> fuzz_input \<Rightarrow> script_state \<Rightarrow> script_state \<times> fuzz_input" where
  "push_responses 0 stream r s = (s, r)"
| "push_responses (Suc n) stream r s =
     (let (resp, r) = fz_response stream r; (st, t) = sicha_script_push (Some s) (Some resp);
          s = (case t of None \<Rightarrow> s | Some s \<Rightarrow> s)
      in if st \<noteq> SICHA_OK then (s, r) else push_responses n stream r s)"

definition fz_cbs :: "fuzz_input \<Rightarrow> (fz_cbs_state \<times> fz_state sicha_callbacks) \<times> fuzz_input" where
  "fz_cbs r =
     (let (cancel_after, r) = one_in 8 (\<lambda>r. let (b, r) = r8 r in (1 + uint b mod 3, r)) (Pair 0) r;
          (reject, r) = one_in 4 (\<lambda>r. let (b, r) = r8 r in (uint b mod 3, r)) (Pair 0) r;
          (delta, r) = one_in 2 (Pair (Some fz_on_delta)) (Pair None) r;
          (validate, r) = one_in 2 (Pair (Some fz_validate)) (Pair None) r
      in ((\<lparr>fs_cancel_delta_after = cancel_after, fs_deltas = 0, fs_reject_validations = reject,
            fs_attempts_seen = 0, fs_last_backend = 0, fs_expect_try = 0, fs_backend_regressed = False\<rparr>,
           \<lparr>cb_struct_size_ok = True, cb_on_delta = delta, cb_on_reasoning = None,
            cb_on_raw_chunk = Some fz_on_raw, cb_on_attempt = Some fz_on_attempt, cb_validate = validate\<rparr>), r))"

section \<open>The call and the assertions\<close>

definition fz_token :: "fz_world \<Rightarrow> bool" where
  "fz_token x \<longleftrightarrow> sicha_cancel_is_cancelled (fw_cancel x) \<noteq> 0"

text \<open>\<open>tok\<close> says that the call gets the token.\<close>

definition fz_env :: "bool \<Rightarrow> fz_state client_env" where
  "fz_env tok =
     \<lparr>env_now_ms = (\<lambda>w. let (t, x) = fz_now (snd w) in (t, (fst w, x))),
      env_wait_ms = (\<lambda>ms w. let (rc, x) = fz_wait (if tok then Some fz_token else None) ms (snd w) in (rc, (fst w, x))),
      env_cancelled = (if tok then Some (\<lambda>w. fz_token (snd w)) else None),
      env_perform = (\<lambda>rq t. script_perform (Some the_fz_clock) (Some rq) (if t then Some fz_token else None)),
      env_log = (\<lambda>text w. w)\<rparr>"

definition fz_request :: "u32 \<Rightarrow> sicha_request" where
  "fz_request flags =
     \<lparr>rq_struct_size_ok = True,
      rq_messages = Some [\<lparr>msg_role = 1, msg_content = Some (lit ''q''), msg_content_len = SICHA_LEN_CSTR,
                           msg_tool_call_id = None\<rparr>],
      rq_n_messages = 1, rq_messages_json = None, rq_set_mask = 0, rq_max_tokens = 0, rq_temperature = 0,
      rq_top_p = 0, rq_top_k = 0, rq_presence_penalty = 0, rq_frequency_penalty = 0, rq_stop = None,
      rq_n_stop = 0, rq_response_format_json = None, rq_flags = flags\<rparr>"

definition check_call :: "nat \<Rightarrow> sicha_retry_policy \<Rightarrow> sicha_status \<Rightarrow> sicha_result option \<Rightarrow> fz_world \<Rightarrow> bool" where
  "check_call n_backends pol st res x \<longleftrightarrow>
     st \<in> {SICHA_OK, SICHA_E_ABORTED, SICHA_E_EXHAUSTED, SICHA_E_CANCELLED, SICHA_E_STREAM_LOST, SICHA_E_NOMEM}
     \<and> (case res of None \<Rightarrow> False
        | Some r \<Rightarrow>
            let resolved_tries = (if max_tries pol = 0 then SICHA_DEFAULT_MAX_TRIES else max_tries pol);
                budget = of_nat n_backends * (resolved_tries + validation_retries pol + 1) :: u32
            in sicha_result_status res = st
               \<and> sicha_result_attempt_count res \<le> unat budget
               \<and> \<not> fs_backend_regressed (fw_cbs x)
               \<and> snd (sicha_result_text res) < length (text_block (r_text r))
               \<and> text_block (r_text r) ! snd (sicha_result_text res) = 0
               \<and> snd (sicha_result_reasoning res) < length (text_block (r_reasoning r))
               \<and> text_block (r_reasoning r) ! snd (sicha_result_reasoning res) = 0
               \<and> list_all (\<lambda>i. case sicha_result_attempt res i of None \<Rightarrow> False
                   | Some a \<Rightarrow> at_attempt a = of_nat i \<and> unat (at_backend a) < n_backends
                       \<and> at_raw_body_excerpt_len a \<le> SICHA_EXCERPT_MAX) [0..<sicha_result_attempt_count res])"

definition fz_cancel :: "fuzz_input \<Rightarrow> mem \<Rightarrow> (bool \<times> sicha_cancel option \<times> int) \<times> fuzz_input \<times> mem" where
  "fz_cancel r m =
     (let (b, r) = r8 r in
      if b mod 4 = 0 then
        let (c, m) = sicha_cancel_create m; (b, r) = r8 r in ((c \<noteq> None, c, 1 + uint b mod 8), r, m)
      else ((True, None, 0), r, m))"

text \<open>
  \<open>m\<close> and \<open>ms\<close> are the outcomes of the allocations of the library and of the transport. The
  debug log of the client, which \<open>pe\<close> may switch on, does not touch the world here.
\<close>

definition fuzz_client :: "json_reader \<Rightarrow> json_writer \<Rightarrow> process_env \<Rightarrow> bytes \<Rightarrow> mem \<Rightarrow> mem \<Rightarrow> bool" where
  "fuzz_client rd wr pe data m ms =
     (if length data < 8 then True
      else case fst (sicha_script_create ms) of
        None \<Rightarrow> False
      | Some script \<Rightarrow>
          let (b, r) = r8 data; n_backends = 1 + unat b mod 3;
              (descs, r) = fz_backends 0 n_backends r;
              (pol, r) = fz_policy r;
              (opts, r) = fz_opts descs pol r;
              (st, client, m) = sicha_client_create rd pe (Some opts) m
          in if st \<noteq> SICHA_OK then True
             else
               let (b, r) = r8 r; stream = (b mod 2 = 1);
                   (b, r) = r8 r;
                   (script, r) = push_responses (unat b mod 9) stream r script;
                   ((cst, cbs), r) = fz_cbs r;
                   ((created, cancel, at), r, m) = fz_cancel r m;
                   (flags, r) = one_in 8 (Pair SICHA_REQ_NO_ACCUMULATE) (Pair 0) r;
                   (cbs, r) = one_in 8 (Pair None) (Pair (Some cbs)) r;
                   x = \<lparr>fw_clock = \<lparr>fc_now = 0, fc_trigger = (cancel \<noteq> None), fc_trigger_at = at, fc_wait_calls = 0\<rparr>,
                        fw_cbs = cst, fw_cancel = cancel, fw_aborted = False\<rparr>;
                   (st, res, client, w, m) =
                     (if stream
                      then sicha_chat_stream rd wr (fz_env (cancel \<noteq> None)) client (Some (fz_request flags)) cbs True (script, x) m
                      else sicha_chat rd wr (fz_env (cancel \<noteq> None)) client (Some (fz_request flags)) cbs True (script, x) m)
               in created \<and> \<not> fw_aborted (snd w) \<and> check_call n_backends pol st res (snd w))"

section \<open>The clock of the harness\<close>

text \<open>The clock keeps the contract of a clock, and every delay on it ends: it moves with every wait.\<close>

abbreviation fz_time :: "fz_world \<Rightarrow> u64" where
  "fz_time x \<equiv> fc_now (fw_clock x)"

lemma fz_wait_time:
  assumes "fz_wait tok ms x = (rc, x')"
  shows "if rc = 0 then fz_time x' = fz_time x + ms else rc = 1 \<and> fz_time x' = fz_time x \<and> (\<exists>f. tok = Some f \<and> f x')"
  using assms by (auto simp: fz_wait_def Let_def split: if_splits option.splits)

lemma fz_no_wrap:
  assumes "ms < SICHA_WAIT_FOREVER_MS" "t < clock_range"
  shows "t \<le> t + ms \<and> unat (t + ms) = unat t + unat ms"
proof -
  have "unat ms < 2 ^ 60" "unat t < 2 ^ 63"
    using assms by (simp_all add: word_less_nat_alt SICHA_WAIT_FOREVER_MS_def clock_range_def)
  then have "unat (t + ms) = unat t + unat ms" by (intro unat_add_lem [THEN iffD1]) simp
  then show ?thesis by (simp add: word_le_nat_alt)
qed

interpretation fz_clock: clock the_fz_clock fz_time
proof
  show "t = fz_time w' \<and> fz_time w \<le> fz_time w'" if "ck_now_ms the_fz_clock w = (t, w')" for w t w'
    using that by (auto simp: the_fz_clock_def fz_now_def)
  show "fz_time w \<le> fz_time w'" if "ck_wait_ms the_fz_clock tok ms w = (rc, w')" "ms < SICHA_WAIT_FOREVER_MS"
    "fz_time w < clock_range" for tok ms w rc w'
    using fz_wait_time [of tok ms w rc w'] fz_no_wrap [OF that(2,3)] that(1)
    by (simp add: the_fz_clock_def split: if_splits)
  show "unat (fz_time w) + unat ms \<le> unat (fz_time w')" if "ck_wait_ms the_fz_clock tok ms w = (0, w')"
    "ms < SICHA_WAIT_FOREVER_MS" "fz_time w < clock_range" "fz_time w' < clock_range" for tok ms w w'
    using fz_wait_time [of tok ms w 0 w'] fz_no_wrap [OF that(2,3)] that(1) by (simp add: the_fz_clock_def)
  show "\<exists>f. tok = Some f \<and> f w'" if "ck_wait_ms the_fz_clock tok ms w = (rc, w')" "rc \<noteq> 0" for tok ms w rc w'
    using fz_wait_time [of tok ms w rc w'] that by (simp add: the_fz_clock_def)
qed

text \<open>What the harness watches in its \<open>on_attempt\<close>.\<close>

type_synonym fz_seen = "int \<times> u32 \<times> u32 \<times> bool \<times> bool"

definition fz_seen :: "fz_world \<Rightarrow> fz_seen" where
  "fz_seen x = (let s = fw_cbs x in
     (fs_attempts_seen s, fs_last_backend s, fs_expect_try s, fs_backend_regressed s, fw_aborted x))"

lemma fz_wait_seen: "fz_wait tok ms x = (rc, x') \<Longrightarrow> fz_seen x' = fz_seen x"
  by (auto simp: fz_wait_def fz_seen_def Let_def split: if_splits)

lemma fz_delay_loop:
  "\<exists>st x'. delay_loop the_fz_clock tok target dl_a st_a dl_b st_b x = Some (st, x') \<and> fz_seen x' = fz_seen x"
proof (induction "unat target - unat (fz_time x)" arbitrary: x rule: less_induct)
  case less
  let ?c = "wait_chunk target dl_a dl_b (fz_time x)"
  obtain rc x2 where w: "fz_wait tok ?c x = (rc, x2)" by fastforce
  show ?case
  proof (cases "is_set_token tok x \<or> dl_a \<le> fz_time x \<or> dl_b \<le> fz_time x \<or> target \<le> fz_time x \<or> rc \<noteq> 0")
    case True
    then show ?thesis
      using fz_wait_seen [OF w] w
      by (subst delay_loop.simps) (auto simp: the_fz_clock_def fz_now_def is_set_token_def split: option.splits)
  next
    case False
    then have rc: "rc = 0" and lt: "fz_time x < target" "fz_time x < dl_a" "fz_time x < dl_b" by (auto simp: not_le)
    have loop: "delay_loop the_fz_clock tok target dl_a st_a dl_b st_b x = delay_loop the_fz_clock tok target dl_a st_a dl_b st_b x2"
      using False w by (subst delay_loop.simps) (auto simp: the_fz_clock_def fz_now_def is_set_token_def split: option.splits)
    define u where "u = (if dl_b < (if dl_a < target then dl_a else target) then dl_b else if dl_a < target then dl_a else target)"
    have u: "u \<le> target" "fz_time x \<le> u" using lt by (auto simp: u_def less_imp_le)
    have "?c \<le> u - fz_time x" by (auto simp: wait_chunk_def Let_def u_def [symmetric])
    also have "u - fz_time x \<le> target - fz_time x" using u by (simp add: word_le_nat_alt unat_sub)
    finally have c: "0 < ?c" "?c \<le> target - fz_time x" using wait_chunk_pos [OF lt] by blast+
    have t: "fz_time x2 = fz_time x + ?c" using fz_wait_time [OF w] rc by simp
    have "unat ?c \<le> unat target - unat (fz_time x)" using c(2) unat_sub [OF less_imp_le [OF lt(1)]] by (simp add: word_le_nat_alt)
    moreover have "unat target < 2 ^ 64" using unsigned_less [where w = target and ?'a = nat] by simp
    moreover have "unat (fz_time x) < unat target" using lt(1) by (simp add: word_less_nat_alt)
    ultimately have "unat (fz_time x2) = unat (fz_time x) + unat ?c"
      unfolding t by (intro unat_add_lem [THEN iffD1]) simp
    moreover have "0 < unat ?c" using c(1) by (simp add: word_less_nat_alt)
    ultimately have "unat target - unat (fz_time x2) < unat target - unat (fz_time x)"
      using \<open>unat (fz_time x) < unat target\<close> by linarith
    from less [OF this] loop fz_wait_seen [OF w] show ?thesis by simp
  qed
qed

lemma fz_delay:
  "\<exists>st x'. delay_within the_fz_clock tok delay dl_a st_a dl_b st_b x = Some (st, x') \<and> fz_seen x' = fz_seen x"
  using fz_delay_loop by (simp add: delay_within_def the_fz_clock_def fz_now_def)

section \<open>Nothing but the callback touches what it watches\<close>

lemma fz_waited: "waited x (delay_within the_fz_clock tok delay dl_a st_a dl_b st_b x) = (st, x') \<Longrightarrow> fz_seen x' = fz_seen x"
  using fz_delay [of tok delay dl_a st_a dl_b st_b x] by (auto simp: waited_def)

lemma fz_script_body: "quiet (\<lambda>w. fz_seen (snd w)) (script_body the_fz_clock tok rq resp dl remaining pos w) (fz_seen (snd w))"
proof (induction remaining arbitrary: pos w rule: less_induct)
  case (less remaining)
  show ?case
  proof (cases "0 < remaining")
    case True
    obtain st x where c: "chunk_wait the_fz_clock tok rq resp dl (snd w) = (st, x)" by fastforce
    have x: "fz_seen x = fz_seen (snd w)"
      using c fz_waited by (simp add: chunk_wait_def the_fz_clock_def fz_now_def)
    have "quiet (\<lambda>w. fz_seen (snd w)) (script_body the_fz_clock tok rq resp dl (remaining - chunk_len resp remaining) p (a, b)) (fz_seen b)"
      for p a b
      using less [of "remaining - chunk_len resp remaining" p "(a, b)"] chunk_len_bounds [OF True, of resp] by simp
    with x show ?thesis by (simp add: script_body_chunk [OF True c] split_def)
  qed simp
qed

lemma fz_script_respond: "quiet (\<lambda>w. fz_seen (snd w)) (script_respond the_fz_clock tok rq resp w) (fz_seen (snd w))"
proof -
  let ?start = "fz_time (snd w)" and ?t = "hr_timeouts rq"
  let ?dl = "abs_deadline ?start (total_ms ?t)"
  have n: "ck_now_ms the_fz_clock (snd w) = (?start, snd w)" by (simp add: the_fz_clock_def fz_now_def)
  obtain st x1 where 1: "waited (snd w) (delay_within the_fz_clock tok (sr_connect_delay_ms resp)
      (abs_deadline ?start (connect_ms ?t)) SICHA_T_E_TIMEOUT_CONNECT ?dl SICHA_T_E_TIMEOUT_TOTAL (snd w)) = (st, x1)"
    by fastforce
  obtain st' x2 where 2: "waited x1 (delay_within the_fz_clock tok (sr_first_byte_delay_ms resp)
      (abs_deadline ?start (first_byte_ms ?t)) SICHA_T_E_TIMEOUT_FIRST_BYTE ?dl SICHA_T_E_TIMEOUT_TOTAL x1) = (st', x2)"
    by fastforce
  have "quiet (\<lambda>w. fz_seen (snd w)) (script_body the_fz_clock tok rq resp dl k p (a, b)) (fz_seen b)" for dl k p a b
    using fz_script_body [of tok rq resp dl k p "(a, b)"] by simp
  then show ?thesis
    using fz_waited [OF 1] fz_waited [OF 2]
    by (simp add: script_respond_def n 1 2 Let_def split_def)
qed

lemma fz_script_perform:
  "quiet (\<lambda>w. fz_seen (snd w)) (script_perform (Some the_fz_clock) (Some rq) tok w) (fz_seen (snd w))"
proof -
  obtain ok s where 1: "record_call rq (fst w) = (ok, s)" by fastforce
  obtain resp s' where 2: "take_response s = (resp, s')" by fastforce
  show ?thesis
    using fz_script_respond [of tok rq _ "(s', snd w)"]
    by (cases resp) (simp_all add: script_perform_def 1 2 Let_def)
qed

lemma fz_env_quiet: "env_quiet (\<lambda>w. fz_seen (snd w)) (fz_env tok)"
proof -
  have "fz_seen (snd (fz_wait t ms x)) = fz_seen x" for t ms x
    using fz_wait_seen by (metis prod.collapse)
  then show ?thesis
    using fz_script_perform by (auto simp: env_quiet_def fz_env_def fz_now_def split_def Let_def)
qed

text \<open>What \<open>fz_on_attempt\<close> does with a record, on what it watches.\<close>

definition fz_told :: "sicha_attempt \<Rightarrow> fz_seen \<Rightarrow> fz_seen" where
  "fz_told a = (\<lambda>(n, last_b, e, regressed, aborted).
     let e' = (if n = 0 \<or> at_backend a \<noteq> last_b then 0 else e) in
     (n + 1, at_backend a, e' + 1, 0 < n \<and> at_backend a < last_b \<or> regressed,
      aborted \<or> (at_model a = None \<or> at_message a = None \<or> at_attempt a \<noteq> word_of_int n)
        \<or> at_try_of_backend a \<noteq> e'))"

text \<open>The callbacks the harness may pass, by which of them are set.\<close>

definition fz_callbacks :: "bool \<Rightarrow> bool \<Rightarrow> fz_state sicha_callbacks" where
  "fz_callbacks delta validate =
     \<lparr>cb_struct_size_ok = True, cb_on_delta = (if delta then Some fz_on_delta else None), cb_on_reasoning = None,
      cb_on_raw_chunk = Some fz_on_raw, cb_on_attempt = Some fz_on_attempt,
      cb_validate = (if validate then Some fz_validate else None)\<rparr>"

interpretation fz: attempt_listener "\<lambda>w. fz_seen (snd w)" "if on then fz_told else (\<lambda>a x. x)"
  "if on then Some (fz_callbacks delta validate) else None" "fz_env tok" for on delta validate tok
proof
  show "calm (\<lambda>w. fz_seen (snd w)) (cb_of (if on then Some (fz_callbacks delta validate) else None) cb_on_delta)"
    by (simp add: calm_def cb_of_def fz_callbacks_def fz_on_delta_def fz_seen_def Let_def)
  show "fz_seen (snd (snd (f r w))) = fz_seen (snd w)"
    if "cb_of (if on then Some (fz_callbacks delta validate) else None) cb_validate = Some f" for f r w
    using that by (auto simp: cb_of_def fz_callbacks_def fz_validate_def fz_seen_def Let_def split: if_splits)
  show "fz_seen (snd (t a w)) = (if on then fz_told else (\<lambda>a x. x)) a (fz_seen (snd w))"
    if "cb_of (if on then Some (fz_callbacks delta validate) else None) cb_on_attempt = Some t" for t a w
    using that by (auto simp: cb_of_def fz_callbacks_def fz_on_attempt_def fz_told_def fz_seen_def Let_def split: if_splits)
qed (auto simp: calm_def cb_of_def fz_callbacks_def fz_on_raw_def fz_env_quiet split: if_splits)

section \<open>The records of a call pass the assertions of the callback\<close>

definition named_record :: "sicha_attempt \<Rightarrow> bool" where
  "named_record a \<longleftrightarrow> at_model a \<noteq> None \<and> at_message a \<noteq> None"

text \<open>After the records \<open>as\<close> of the backends up to \<open>k\<close>, none of the assertions has failed.\<close>

definition fine :: "nat \<Rightarrow> nat \<Rightarrow> fz_seen \<Rightarrow> bool" where
  "fine n k = (\<lambda>(seen, last_b, e, regressed, aborted).
     seen = int n \<and> \<not> regressed \<and> \<not> aborted \<and> (0 < n \<longrightarrow> (\<exists>j < k. last_b = of_nat j)))"

lemma backend_less:
  assumes "j < k" "k < 2 ^ 32"
  shows "(of_nat j :: u32) < of_nat k"
proof -
  have "unat (of_nat j :: u32) = j" "unat (of_nat k :: u32) = k"
    using assms by (simp_all add: unat_of_nat)
  with assms show ?thesis by (simp add: word_less_nat_alt)
qed

text \<open>The records of one backend, after \<open>n\<close> records of the backends before it.\<close>

lemma fold_block:
  assumes "fine n k x" "k < 2 ^ 32" "numbered k blk" "\<forall>a \<in> set blk. named_record a"
    "\<forall>j < length blk. at_attempt (blk ! j) = of_nat (n + j)"
  shows "fine (n + length blk) (Suc k) (fold fz_told blk x)
    \<and> (blk \<noteq> [] \<longrightarrow> fst (snd (fold fz_told blk x)) = of_nat k
          \<and> fst (snd (snd (fold fz_told blk x))) = of_nat (length blk))"
  using assms(3-5)
proof (induction blk rule: rev_induct)
  case Nil
  then show ?case using assms(1) by (auto simp: fine_def less_Suc_eq)
next
  case (snoc a blk)
  have p: "numbered k blk" "at_backend a = of_nat k" "at_try_of_backend a = of_nat (length blk)"
    using snoc.prems(1) by (simp_all add: numbered_snoc)
  have o: "\<forall>j < length blk. at_attempt (blk ! j) = of_nat (n + j)" "at_attempt a = of_nat (n + length blk)"
    using snoc.prems(3) by (auto simp: nth_append less_Suc_eq)
  obtain seen last_b e reg ab where y: "fold fz_told blk x = (seen, last_b, e, reg, ab)" by (metis prod_cases5)
  from snoc.IH [OF p(1) _ o(1)] snoc.prems(2) y
  have I: "fine (n + length blk) (Suc k) (seen, last_b, e, reg, ab)" "blk \<noteq> [] \<longrightarrow> last_b = of_nat k \<and> e = of_nat (length blk)"
    by auto
  have new: "last_b < of_nat k \<or> n = 0" if b: "blk = []"
  proof -
    have "fine n k (seen, last_b, e, reg, ab)" using assms(1) y b by simp
    then show ?thesis using backend_less [OF _ assms(2)] by (auto simp: fine_def)
  qed
  have e': "(if seen = 0 \<or> at_backend a \<noteq> last_b then 0 else e) = of_nat (length blk)"
  proof (cases "blk = []")
    case True
    with I new p(2) show ?thesis by (auto simp: fine_def)
  next
    case False
    then have "seen \<noteq> 0" using I(1) by (cases blk) (auto simp: fine_def)
    with False I p(2) show ?thesis by simp
  qed
  have r: "\<not> (0 < seen \<and> at_backend a < last_b)"
    using I new p(2) by (cases "blk = []") (auto simp: fine_def)
  have t: "fz_told a (seen, last_b, e, reg, ab) = (seen + 1, of_nat k, of_nat (length blk) + 1, reg, ab)"
    using e' r p o(2) I(1) snoc.prems(2) by (simp add: fz_told_def fine_def named_record_def Let_def)
  have "fold fz_told (blk @ [a]) x = (seen + 1, of_nat k, of_nat (length blk) + 1, reg, ab)" by (simp add: y t)
  moreover have "fine (n + length (blk @ [a])) (Suc k) (seen + 1, of_nat k, of_nat (length blk) + 1, reg, ab)"
    using I(1) by (auto simp: fine_def)
  ultimately show ?case by simp
qed

lemma fold_log:
  assumes "length bss < 2 ^ 32" "blocks_ok c bss" "ordinals_ok (concat bss)" "\<forall>a \<in> set (concat bss). named_record a"
    "fine 0 0 x"
  shows "fine (length (concat bss)) (length bss) (fold fz_told (concat bss) x)"
  using assms(1-4)
proof (induction bss rule: rev_induct)
  case Nil
  then show ?case using assms(5) by simp
next
  case (snoc blk bss)
  have b: "blocks_ok c bss" "numbered (length bss) blk" using snoc.prems(2) by (simp_all add: blocks_ok_snoc block_ok_def)
  have o: "ordinals_ok (concat bss)" "\<forall>j < length blk. at_attempt (blk ! j) = of_nat (length (concat bss) + j)"
  proof -
    have A: "at_attempt ((concat bss @ blk) ! j) = of_nat j" if "j < length (concat bss @ blk)" for j
      using snoc.prems(3) that unfolding ordinals_ok_def by simp
    show "ordinals_ok (concat bss)"
      unfolding ordinals_ok_def
    proof (intro allI impI)
      fix j assume "j < length (concat bss)"
      with A [of j] show "at_attempt (concat bss ! j) = of_nat j" by (simp add: nth_append)
    qed
    show "\<forall>j < length blk. at_attempt (blk ! j) = of_nat (length (concat bss) + j)"
    proof (intro allI impI)
      fix j assume "j < length blk"
      with A [of "length (concat bss) + j"] show "at_attempt (blk ! j) = of_nat (length (concat bss) + j)" by simp
    qed
  qed
  have "fine (length (concat bss)) (length bss) (fold fz_told (concat bss) x)"
    using snoc.IH [OF _ b(1) o(1)] snoc.prems(1,4) by simp
  from fold_block [OF this _ b(2) _ o(2)] snoc.prems(1,4) show ?case by simp
qed

section \<open>The statuses\<close>

definition legal :: "sicha_status \<Rightarrow> bool" where
  "legal st \<longleftrightarrow> st \<in> {SICHA_OK, SICHA_E_ABORTED, SICHA_E_EXHAUSTED, SICHA_E_CANCELLED, SICHA_E_STREAM_LOST, SICHA_E_NOMEM}"

text \<open>A step of a build that fails for lack of memory only.\<close>

definition short :: "'a build \<Rightarrow> bool" where
  "short f \<longleftrightarrow> (\<forall>m. case f m of (Inl e, m') \<Rightarrow> e = SICHA_E_NOMEM | _ \<Rightarrow> True)"

lemma shortD: "short f \<Longrightarrow> f m = (Inl e, m') \<Longrightarrow> e = SICHA_E_NOMEM"
  unfolding short_def by (drule spec [of _ m]) simp

lemma short_basic [simp]: "short (ret v)" "short (mut_new v)" "short (yyjson_mut_obj_add ms k u)"
  "short (add_if c key u ms)" "short (yyjson_mut_write wr u)"
  by (auto simp: short_def ret_def mut_new_def yyjson_mut_obj_add_def add_if_def yyjson_mut_write_def
      split: prod.split option.split)

lemma short_then [simp]: "short f \<Longrightarrow> (\<And>v. short (g v)) \<Longrightarrow> short (and_then f g)"
  by (fastforce simp: short_def and_then_def split: prod.splits sum.splits)

lemma short_messages [simp]: "short (message_objs msgs)"
  by (induction msgs) (simp_all add: message_obj_def)

lemma short_stops [simp]: "short (stop_strs ss)"
  by (induction ss) simp_all

lemma short_root:
  assumes "rq_messages_json req = None" "rq_response_format_json req = None" "b_extra_body_json b = None"
  shows "short (chat_body_root rd b req stream)"
  using assms
  by (simp add: chat_body_root_def messages_stage_def stream_stage_def sampler_stage_def stop_stage_def
      format_stage_def extra_stage_def del: lit_simps)

lemma fz_request_valid: "flags \<in> {0, SICHA_REQ_NO_ACCUMULATE} \<Longrightarrow> sicha_request_validate rd (fz_request flags) m = (SICHA_OK, m)"
  by (auto simp: sicha_request_validate_def request_shape_ok_def fz_request_def is_set_def messages_of_def stop_of_def
      message_ok_def content_bytes_def role_str_def opt_bytes_def strlen_def cstr_def SICHA_REQ_NO_ACCUMULATE_def)

lemma fz_body_status:
  assumes "flags \<in> {0, SICHA_REQ_NO_ACCUMULATE}" "b_extra_body_json b = None"
    "sicha_build_chat_body rd wr b (fz_request flags) stream m = (st, out, m')"
  shows "st = SICHA_OK \<or> st = SICHA_E_NOMEM"
proof -
  let ?f = "and_then (chat_body_root rd b (fz_request flags) stream) (\<lambda>ms. yyjson_mut_write wr (JObj ms))"
  have s: "short ?f"
    using assms(2) by (intro short_then short_root) (simp_all add: fz_request_def)
  obtain x m1 where f: "?f m = (x, m1)" by fastforce
  show ?thesis
  proof (cases x)
    case (Inl e)
    with shortD [OF s] f have "e = SICHA_E_NOMEM" by blast
    with Inl f assms(3) fz_request_valid [OF assms(1)] show ?thesis by (simp add: sicha_build_chat_body_def)
  next
    case (Inr body)
    with f assms(3) fz_request_valid [OF assms(1)] show ?thesis by (simp add: sicha_build_chat_body_def)
  qed
qed

lemma fz_step_status:
  assumes "flags \<in> {0, SICHA_REQ_NO_ACCUMULATE}" "b_extra_body_json b = None"
    "attempt_step rd wr env c i b (fz_request flags) cbs stream s = (v, s')"
  shows "case v of Finish st \<Rightarrow> legal st | _ \<Rightarrow> True"
  using assms(3)
proof (cases rule: attempt_step_cases)
  case (unprepared st)
  have "legal st"
  proof (rule ccontr)
    assume no: "\<not> legal st"
    obtain st1 s1 where p: "prepare_body rd wr b (fz_request flags) stream s = (st1, s1)" by fastforce
    have "st1 = SICHA_OK \<or> st1 = SICHA_E_NOMEM"
      using p fz_body_status [OF assms(1,2)] by (auto simp: prepare_body_def split: if_splits prod.splits)
    moreover have "st2 = SICHA_OK \<or> st2 = SICHA_E_NOMEM" if "prepare_headers c b stream s1 = (st2, s2)" for st2 s2
      using that by (auto simp: prepare_headers_def split: if_splits prod.splits dest: sicha_build_headers_cases)
    ultimately have "st \<in> {SICHA_E_CANCELLED, SICHA_OK, SICHA_E_NOMEM}"
      using unprepared(1) p by (auto simp: attempt_prepare_def split: if_splits)
    with no show False by (auto simp: legal_def)
  qed
  with unprepared show ?thesis by simp
next
  case (decided s1 out cls s2 s3)
  from decided(5) show ?thesis
    by (cases cls) (auto simp: attempt_decide_def legal_def Let_def split: if_splits prod.splits)
qed (simp_all add: legal_def)

lemma fz_backends_status:
  assumes "flags \<in> {0, SICHA_REQ_NO_ACCUMULATE}" "\<forall>b \<in> set bs. b_extra_body_json b = None"
    "chat_backends rd wr env c i bs (fz_request flags) cbs stream s = (final, s')"
  shows "legal final"
proof -
  have "legal final \<or> final = SICHA_E_EXHAUSTED \<and> True"
  proof (rule chat_backends_rule [where J = "\<lambda>_ _. True" and F = "\<lambda>st _. legal st", OF _ TrueI assms(3)])
    fix k b and s :: "'a chat_state" and res s'
    assume "i \<le> k" "k < i + length bs" "b = bs ! (k - i)"
    then have b: "b_extra_body_json b = None" using assms(2) by (simp add: nth_mem)
    assume run: "backend_loop rd wr env c k b (fz_request flags) cbs stream (enter_backend s) = (res, s')"
    show "case res of None \<Rightarrow> True | Some st \<Rightarrow> legal st"
    proof (rule backend_loop_rule [where I = "\<lambda>_. True" and A = "\<lambda>_. True" and F = "\<lambda>st _. legal st", OF _ TrueI run])
      fix s v s' assume "attempt_step rd wr env c k b (fz_request flags) cbs stream s = (v, s')"
      from fz_step_status [OF assms(1) b this]
      show "case v of Finish st \<Rightarrow> legal st | Again \<Rightarrow> True | Advance \<Rightarrow> True" by (cases v) auto
    qed
  qed
  then show ?thesis by (auto simp: legal_def)
qed

section \<open>The client of the harness\<close>

lemma init_backends_mem: "init_backends rd ds m = (st, bs, m') \<Longrightarrow> all_ok m \<Longrightarrow> all_ok m'"
proof (induction ds arbitrary: m st bs m')
  case (Cons d ds)
  obtain st1 b m1 where 1: "sicha_backend_init rd d m = (st1, b, m1)" by (metis prod_cases3)
  obtain st2 bs2 m2 where 2: "init_backends rd ds m1 = (st2, bs2, m2)" by (metis prod_cases3)
  from backend_init_cases [OF 1] Cons.prems(2) have "all_ok m1" by blast
  with Cons.IH [OF 2] Cons.prems(1) 1 2 show ?case by (auto split: if_splits)
qed simp

lemma init_backends_plain:
  "init_backends rd ds m = (SICHA_OK, bs, m') \<Longrightarrow> \<forall>d \<in> set ds. d_extra_body_json d = None \<Longrightarrow>
    \<forall>b \<in> set bs. b_extra_body_json b = None"
proof (induction ds arbitrary: m bs m')
  case (Cons d ds)
  obtain st1 b m1 where 1: "sicha_backend_init rd d m = (st1, b, m1)" by (metis prod_cases3)
  obtain st2 bs2 m2 where 2: "init_backends rd ds m1 = (st2, bs2, m2)" by (metis prod_cases3)
  from Cons.prems(1) 1 2 have s: "st1 = SICHA_OK" "st2 = SICHA_OK" "bs = b # bs2" by (auto split: if_splits)
  have "b_extra_body_json b = None" using sicha_backend_init_OK(6) [OF 1 [unfolded s(1)]] Cons.prems(2) by simp
  with Cons.IH [OF 2 [unfolded s(2)]] Cons.prems(2) s(3) show ?case by simp
qed simp

lemma client_create_cases:
  assumes "sicha_client_create rd pe (Some opts) m = (SICHA_OK, client, m')" "all_ok m" "o_backends opts = Some ds"
    "\<forall>d \<in> set ds. d_extra_body_json d = None"
  shows "\<exists>c. client = Some c \<and> (\<forall>b \<in> set (c_backends c). b_extra_body_json b = None) \<and> all_ok m'"
proof -
  have chk: "client_opts_check pe opts = SICHA_OK"
    using assms(1) by (auto simp: sicha_client_create_def split: if_splits)
  obtain k1 m1 where 1: "alloc m = (k1, m1)" by fastforce
  note K1 = all_ok_alloc [OF assms(2) 1]
  obtain k2 m2 where 2: "alloc m1 = (k2, m2)" by fastforce
  note K2 = all_ok_alloc [OF conjunct2 [OF K1] 2]
  obtain st3 bs m3 where 3: "init_backends rd (take (o_n_backends opts) ds) m2 = (st3, bs, m3)" by (metis prod_cases3)
  have K3: "all_ok m3" using init_backends_mem [OF 3] K2 by blast
  obtain k4 m4 where 4: "(if 0 < n_overrides (o_retry opts) then alloc m3 else (True, m3)) = (k4, m4)" by fastforce
  have K4: "all_ok m4" using 4 K3 all_ok_alloc [OF K3] by (auto split: if_splits)
  let ?ua = "case o_user_agent opts of None \<Rightarrow> take 63 (lit ''sicha/'' @ sicha_version_str) | Some ua \<Rightarrow> ua"
  obtain ua m5 where 5: "dup_cstr ?ua m4 = (ua, m5)" by fastforce
  have K5: "all_ok m5" by (rule dup_cstr_ok [OF K4 5])
  note A = assms(1) [unfolded sicha_client_create_def option.case Let_def chk assms(3) 1 2 3 4 5 prod.case]
  have s: "k1" "k2" "st3 = SICHA_OK" "k4" using A by (auto split: if_splits)
  then obtain c where c: "client = Some c" "c_backends c = bs" "m' = m5"
    using A by (auto split: if_splits option.splits)
  have "\<forall>d \<in> set (take (o_n_backends opts) ds). d_extra_body_json d = None" using assms(4) by (blast dest: in_set_takeD)
  from init_backends_plain [OF 3 [unfolded s(3)] this] c K5 show ?thesis by blast
qed

lemma fz_backends_facts:
  "length (fst (fz_backends i k r)) = k \<and> (\<forall>d \<in> set (fst (fz_backends i k r)). d_extra_body_json d = None)"
  by (induction k arbitrary: i r) (simp_all add: fz_backend_def split_def Let_def)

lemma ucast_small: "unat (ucast (b :: byte) :: u32) = unat b"
  using unsigned_less [where w = b and ?'a = nat] by (simp add: unsigned_ucast_eq take_bit_nat_eq_self)

lemma fz_policy_bounds:
  assumes "fz_policy r = (pol, r')"
  shows "unat (max_tries pol) \<le> 4" "unat (validation_retries pol) \<le> 2"
proof -
  have "unat (ucast (b mod 5) :: u32) \<le> 4" "unat (ucast (b mod 3) :: u32) \<le> 2" for b :: byte
    by (simp_all add: ucast_small unat_mod)
  then show "unat (max_tries pol) \<le> 4" "unat (validation_retries pol) \<le> 2"
    using assms by (auto simp: fz_policy_def Let_def split: prod.splits)
qed

lemma fz_cbs_shape:
  "fz_cbs r = ((cst, cbs), r') \<Longrightarrow> (\<exists>delta validate. cbs = fz_callbacks delta validate)
    \<and> fs_attempts_seen cst = 0 \<and> fs_expect_try cst = 0 \<and> \<not> fs_backend_regressed cst"
  by (auto simp: fz_cbs_def fz_callbacks_def one_in_def Let_def split: prod.splits if_splits)

section \<open>It never aborts\<close>

lemma budget_word:
  assumes "n \<le> 3" "unat t \<le> 4" "unat v \<le> (2 :: nat)"
  shows "unat (of_nat n * (t + v + 1) :: u32) = n * (unat t + unat v + 1)"
proof -
  have 1: "unat (t + v) = unat t + unat v" using assms by (intro unat_add_lem [THEN iffD1]) simp
  have 2: "unat (t + v + 1) = unat t + unat v + 1"
    using assms 1 unat_add_lem [of "t + v" 1] by simp
  have 3: "unat (of_nat n :: u32) = n" using assms(1) by (simp add: unat_of_nat)
  have "n * (unat t + unat v + 1) \<le> 3 * 7" using assms by (intro mult_le_mono) simp_all
  then have "unat (of_nat n :: u32) * unat (t + v + 1) < 2 ^ 32" by (simp add: 2 3)
  then show ?thesis using unat_mult_lem [of "of_nat n :: u32" "t + v + 1"] by (simp add: 2 3)
qed

lemma fz_call:
  assumes c: "client_ok rd c" "length (c_backends c) = n" "n \<le> 3" "c_policy c = sicha_policy_resolve pol"
    "\<forall>b \<in> set (c_backends c). b_extra_body_json b = None"
    and pol: "unat (max_tries pol) \<le> 4" "unat (validation_retries pol) \<le> 2"
    and flags: "flags \<in> {0, SICHA_REQ_NO_ACCUMULATE}" and m: "all_ok m"
    and cbs: "cbs = (if on then Some (fz_callbacks delta validate) else None)"
    and x: "fz_seen x = (0, l, e, False, False)"
    and run: "chat_common rd wr (fz_env tok) (Some c) (Some (fz_request flags)) cbs True stream (sc, x) m = (st, res, client', w, m')"
  shows "\<not> fw_aborted (snd w) \<and> check_call n pol st res (snd w)"
proof -
  obtain r where r: "res = Some r"
    using chat_has_result [OF m fz_request_valid [OF flags, where rd = rd], of cbs wr "fz_env tok" c stream "(sc, x)"] run
    by (cases on) (auto simp: cbs fz_callbacks_def)
  note run' = run [unfolded r]
  from chat_common_log [OF c(1) run'] have log: "r_status r = st" "call_log c st (r_attempts r)" by simp_all
  have ord: "ordinals_ok (r_attempts r)" using log(2) by (simp add: call_log_def)
  note typed = chat_result_typed [OF run']
  have told: "fz_seen (snd w) = fold (if on then fz_told else (\<lambda>a x. x)) (r_attempts r) (fz_seen x)"
    using fz.chat_told [OF run' [unfolded cbs]] by simp
  have seen: "\<not> fw_aborted (snd w) \<and> \<not> fs_backend_regressed (fw_cbs (snd w))"
  proof (cases on)
    case True
    obtain bss where b: "r_attempts r = concat bss" "length bss \<le> length (c_backends c)" "blocks_ok c bss"
      using log(2) unfolding call_log_def by blast
    have nm: "\<forall>a \<in> set (concat bss). named_record a"
      using typed b(1) by (auto simp: result_typed_def attempt_typed_def named_record_def)
    have "length bss < 2 ^ 32" using b(2) c(2,3) by simp
    from fold_log [OF this b(3) ord [unfolded b(1)] nm, of "fz_seen x"]
    have "fine (length (concat bss)) (length bss) (fz_seen (snd w))" using told True b(1) x by (simp add: fine_def)
    then show ?thesis by (simp add: fine_def fz_seen_def Let_def)
  next
    case False
    have "fold (\<lambda>a x. x) as y = y" for as :: "sicha_attempt list" and y :: fz_seen
      by (induction as) simp_all
    then have "fz_seen (snd w) = fz_seen x" using told False by simp
    with x show ?thesis by (simp add: fz_seen_def Let_def)
  qed
  have "legal st"
    using run'
  proof (cases rule: chat_common_cases)
    case (ran c0 req m1 m2 s)
    then have c0: "c0 = c" "req = fz_request flags" by simp_all
    from fz_backends_status [OF flags c(5) ran(6) [unfolded c0]] show ?thesis .
  qed (simp_all add: legal_def)
  moreover have "sicha_result_attempt_count (Some r) \<le>
      unat (of_nat n * ((if max_tries pol = 0 then SICHA_DEFAULT_MAX_TRIES else max_tries pol) + validation_retries pol + 1) :: u32)"
  proof -
    have t: "max_tries (c_policy c) = (if max_tries pol = 0 then SICHA_DEFAULT_MAX_TRIES else max_tries pol)"
      by (simp add: c(4) sicha_policy_resolve_def Let_def)
    have v: "validation_retries (c_policy c) = validation_retries pol" by (simp add: c(4))
    have b: "unat (max_tries (c_policy c)) \<le> 4" using pol(1) by (simp add: t SICHA_DEFAULT_MAX_TRIES_def)
    have p: "policy_resolved (c_policy c)" using c(1) by (simp add: client_ok_def)
    have "length (r_attempts r) \<le> n * (unat (max_tries (c_policy c)) + unat (validation_retries (c_policy c)))"
      using call_log_bound [OF log(2)] by (simp add: c(2) budget_resolved [OF p])
    also have "\<dots> \<le> n * (unat (max_tries (c_policy c)) + unat (validation_retries (c_policy c)) + 1)" by simp
    also have "\<dots> = unat (of_nat n * (max_tries (c_policy c) + validation_retries (c_policy c) + 1) :: u32)"
      using budget_word [OF c(3) b] pol(2) by (simp add: v)
    finally show ?thesis by (simp add: sicha_result_attempt_count_def t v)
  qed
  moreover have "\<forall>i < length (r_attempts r). at_attempt (r_attempts r ! i) = of_nat i
      \<and> unat (at_backend (r_attempts r ! i)) < n \<and> at_raw_body_excerpt_len (r_attempts r ! i) \<le> SICHA_EXCERPT_MAX"
    using ord typed c(2) by (simp add: ordinals_ok_def result_typed_def attempt_typed_def)
  moreover have "buf_wf (r_text r)" "buf_wf (r_reasoning r)"
    using typed by (simp_all add: result_typed_def content_ok_def buf_live_def)
  ultimately show ?thesis
    using seen log(1) text_block_ok [of "r_text r"] text_block_ok [of "r_reasoning r"]
    by (simp add: check_call_def r legal_def Let_def sicha_result_status_def sicha_result_text_def
        sicha_result_reasoning_def sicha_result_attempt_count_def sicha_result_attempt_def list_all_iff)
qed

lemma fz_cancel_cases:
  "fz_cancel r m = ((created, cancel, at), r', m') \<Longrightarrow> all_ok m \<Longrightarrow> created \<and> all_ok m'"
  by (auto simp: fz_cancel_def sicha_cancel_create_def split: prod.splits if_splits dest: all_ok_alloc)

lemma one_in_cases: "one_in n f g r = (v, r') \<Longrightarrow> (\<exists>q. f q = (v, r') \<or> g q = (v, r'))"
  by (auto simp: one_in_def split: prod.splits if_splits)

theorem fuzz_client_holds:
  assumes "all_ok m" "all_ok ms"
  shows "fuzz_client rd wr pe data m ms"
proof (cases "length data < 8")
  case True
  then show ?thesis by (simp add: fuzz_client_def)
next
  case False
  obtain script where sc: "fst (sicha_script_create ms) = Some script"
    using assms(2) all_ok_alloc [of ms] by (cases "alloc ms") (auto simp: sicha_script_create_def)
  obtain b0 r0 where 0: "r8 data = (b0, r0)" by fastforce
  define n where "n = 1 + unat b0 mod 3"
  obtain descs r1 where 1: "fz_backends 0 n r0 = (descs, r1)" by fastforce
  obtain pol r2 where 2: "fz_policy r1 = (pol, r2)" by fastforce
  obtain opts r3 where 3: "fz_opts descs pol r2 = (opts, r3)" by fastforce
  have o: "o_backends opts = Some descs" "o_n_backends opts = length descs" "o_retry opts = pol"
    using 3 by (auto simp: fz_opts_def Let_def split: prod.splits)
  have D: "length descs = n" "\<forall>d \<in> set descs. d_extra_body_json d = None"
    using fz_backends_facts [of 0 n r0] 1 by simp_all
  have n3: "n \<le> 3" using mod_less_divisor [of 3 "unat b0"] by (simp add: n_def)
  obtain st client m1 where 4: "sicha_client_create rd pe (Some opts) m = (st, client, m1)" by (metis prod_cases3)
  show ?thesis
  proof (cases "st = SICHA_OK")
    case False
    then show ?thesis
      unfolding fuzz_client_def Let_def sc option.case 0 prod.case n_def [symmetric] 1 2 3 4 by simp
  next
    case True
    from client_create_cases [OF 4 [unfolded True] assms(1) o(1) D(2)] obtain c where
      c: "client = Some c" "\<forall>b \<in> set (c_backends c). b_extra_body_json b = None" "all_ok m1" by blast
    from client_create_ok [OF 4 [unfolded c(1)]] o D(1)
    have C: "client_ok rd c" "length (c_backends c) = n" "c_policy c = sicha_policy_resolve pol" by simp_all
    obtain b5 r5 where 5: "r8 r3 = (b5, r5)" by fastforce
    obtain b6 r6 where 6: "r8 r5 = (b6, r6)" by fastforce
    obtain script7 r7 where 7: "push_responses (unat b6 mod 9) (b5 mod 2 = 1) r6 script = (script7, r7)" by fastforce
    obtain cst cbs r8 where 8: "fz_cbs r7 = ((cst, cbs), r8)" by (metis prod.collapse)
    obtain created cancel at r9 m9 where 9: "fz_cancel r8 m1 = ((created, cancel, at), r9, m9)" by (metis prod.collapse)
    obtain flags ra where a: "one_in 8 (Pair SICHA_REQ_NO_ACCUMULATE) (Pair 0) r9 = (flags, ra)" by fastforce
    obtain cbs' rb where b: "one_in 8 (Pair None) (Pair (Some cbs)) ra = (cbs', rb)" by fastforce
    note K = fz_cancel_cases [OF 9 c(3)]
    have fl: "flags \<in> {0, SICHA_REQ_NO_ACCUMULATE}" using one_in_cases [OF a] by auto
    obtain on delta validate where cb: "cbs' = (if on then Some (fz_callbacks delta validate) else None)"
      using one_in_cases [OF b] fz_cbs_shape [OF 8] by (metis Pair_inject)
    let ?x = "\<lparr>fw_clock = \<lparr>fc_now = 0, fc_trigger = (cancel \<noteq> None), fc_trigger_at = at, fc_wait_calls = 0\<rparr>,
        fw_cbs = cst, fw_cancel = cancel, fw_aborted = False\<rparr>"
    have x: "fz_seen ?x = (0, fs_last_backend cst, fs_expect_try cst, False, False)"
      using fz_cbs_shape [OF 8] by (simp add: fz_seen_def Let_def)
    obtain st' res client' w m' where run: "chat_common rd wr (fz_env (cancel \<noteq> None)) client (Some (fz_request flags)) cbs'
        True (b5 mod 2 = 1) (script7, ?x) m9 = (st', res, client', w, m')" by (metis prod_cases5)
    have run': "(if b5 mod 2 = 1
        then sicha_chat_stream rd wr (fz_env (cancel \<noteq> None)) client (Some (fz_request flags)) cbs' True (script7, ?x) m9
        else sicha_chat rd wr (fz_env (cancel \<noteq> None)) client (Some (fz_request flags)) cbs' True (script7, ?x) m9)
        = (st', res, client', w, m')"
      using run by (cases "b5 mod 2 = 1") (simp_all add: sicha_chat_stream_def sicha_chat_def del: not_None_eq)
    from fz_call [OF C(1,2) n3 C(3) c(2) fz_policy_bounds [OF 2] fl conjunct2 [OF K] cb x run [unfolded c(1)]] K
    show ?thesis
      unfolding fuzz_client_def Let_def sc option.case 0 prod.case n_def [symmetric] 1 2 3 4 5 6 7 8 9 a b run'
      by simp
  qed
qed

end
