(* ===== verification/Stream_Oversized.thy ===== *)
theory Stream_Oversized
  imports Engine_Types
begin

text \<open>
  A stream whose text does not fit: it ends as too big, and the error stays in the buffer
  through the resets between the attempts, so that no later stream of the call can deliver text.
\<close>

section \<open>A stream that may burst the text\<close>

text \<open>
  As \<open>room\<close>, but nothing is said of the cap of the text, and its buffer may have burst already.
\<close>

definition slack :: "sicha_stream_ctx \<Rightarrow> nat \<Rightarrow> nat \<Rightarrow> bool" where
  "slack ctx t r \<longleftrightarrow> sc_err ctx = SICHA_OK \<and> buf_wf (r_text (sc_r ctx))
     \<and> buf_err (r_text (sc_r ctx)) \<in> {SICHA_OK, SICHA_INT_E_TOOBIG}
     \<and> length (buf_bytes (r_text (sc_r ctx))) + t < SIZE_MAX \<and> fits (r_reasoning (sc_r ctx)) r
     \<and> buf_wf (sc_last_raw ctx) \<and> buf_err (sc_last_raw ctx) = SICHA_OK
     \<and> buf_max_len (sc_last_raw ctx) = SICHA_EXCERPT_MAX"

definition burst :: "sicha_stream_ctx \<Rightarrow> bool" where
  "burst ctx \<longleftrightarrow> sc_err ctx = SICHA_INT_E_TOOBIG \<and> buf_err (r_text (sc_r ctx)) = SICHA_INT_E_TOOBIG"

lemma slack_forget [simp]: "slack (forget ctx) t r = slack ctx t r" "burst (forget ctx) = burst ctx"
  by (simp_all add: slack_def burst_def)

lemma slack_updates [simp]:
  "slack (ctx\<lparr>sc_saw_event := x\<rparr>) t r = slack ctx t r"
  "slack (ctx\<lparr>sc_r := with_finish f (sc_r ctx)\<rparr>) t r = slack ctx t r"
  "slack (ctx\<lparr>sc_r := with_model root (lift_usage (sc_r ctx) root)\<rparr>) t r = slack ctx t r"
  by (auto simp: slack_def with_finish_def with_model_def lift_usage_def Let_def split: option.split)

lemma slack_less: "slack ctx (k + t) (l + r) \<Longrightarrow> slack ctx t r"
  by (auto simp: slack_def fits_def)

lemma raw_chunk_slack:
  assumes "slack ctx t r" "all_ok m" "raw_chunk None ctx data w m = (rc, c, w', m')"
  shows "rc = 0 \<and> slack c t r \<and> all_ok m'"
proof -
  let ?d = "take SICHA_EXCERPT_MAX data" and ?b = "sicha_buf_reset (sc_last_raw ctx)"
  have b: "buf_wf ?b" "buf_err ?b = SICHA_OK" "buf_bytes ?b = []" "buf_max_len ?b = SICHA_EXCERPT_MAX"
    using assms(1) by (simp_all add: slack_def sicha_buf_reset_wf)
  have "length (buf_bytes ?b) + length ?d < SIZE_MAX"
    "buf_max_len ?b \<noteq> 0 \<Longrightarrow> length (buf_bytes ?b) + length ?d \<le> buf_max_len ?b"
    using b(3,4) by (simp_all add: SICHA_EXCERPT_MAX_def SIZE_MAX_def)
  from sicha_buf_append_fits [OF b(1,2) assms(2) this] obtain b1 m1 where
    "sicha_buf_append ?b ?d m = (b1, m1)" "buf_wf b1" "buf_err b1 = SICHA_OK"
    "buf_max_len b1 = buf_max_len ?b" "all_ok m1" by blast
  with assms b(4) show ?thesis
    by (auto simp: raw_chunk_def call_cb_None sicha_buf_status_def slack_def)
qed

text \<open>The text, where it can burst.\<close>

lemma deliver_unstored: "bs = [] \<or> \<not> sc_accumulate ctx \<Longrightarrow> deliver ctx b None bs w m = (0, ctx, b, w, m)"
  by (auto simp: deliver_def call_cb_None)

lemma deliver_text_slack:
  assumes S: "slack ctx (length (opt_bytes content) + t) r" "all_ok m"
    and d: "deliver_text None ctx content w m = (rc, ctx', w', m')"
  shows "rc = 0 \<and> slack ctx' t r \<and> all_ok m' \<or> rc = -1 \<and> burst ctx'"
proof (cases "opt_bytes content = [] \<or> \<not> sc_accumulate ctx")
  case True
  then have "deliver_text None ctx content w m = (0, ctx, w, m)"
    by (cases content) (auto simp: deliver_text_def deliver_unstored opt_bytes_def)
  with d S show ?thesis by (simp add: slack_def)
next
  case False
  then obtain bs where bs: "content = Some bs" "bs \<noteq> []" "sc_accumulate ctx"
    by (cases content) (auto simp: opt_bytes_def)
  let ?b = "r_text (sc_r ctx)"
  obtain b1 m1 where a: "sicha_buf_append ?b bs m = (b1, m1)" by fastforce
  have w: "buf_wf ?b" using S(1) by (simp add: slack_def)
  have m1: "all_ok m1" using append_mem [OF a S(2)] .
  have b1: "buf_err b1 = SICHA_OK \<and> buf_bytes b1 = buf_bytes ?b @ bs \<and> buf_wf b1 \<or> buf_err b1 = SICHA_INT_E_TOOBIG"
  proof (cases "buf_err ?b = SICHA_OK")
    case True
    from w True a show ?thesis
      by (cases rule: append_outcomes) (use S bs in \<open>auto simp: slack_def opt_bytes_def\<close>)
  next
    case False
    with S(1) a show ?thesis by (auto simp: slack_def append_sticky)
  qed
  then show ?thesis
    using d S(1) bs a m1
    by (auto simp: deliver_text_def deliver_def call_cb_None sicha_buf_status_def burst_def slack_def opt_bytes_def)
qed

lemma deliver_reasoning_slack:
  assumes S: "slack ctx t (length (opt_bytes reas) + r)" "all_ok m"
    and d: "deliver_reasoning None ctx reas w m = (rc, ctx', w', m')"
  shows "rc = 0 \<and> slack ctx' t r \<and> all_ok m'"
proof (cases reas)
  case None
  with assms show ?thesis by (simp add: deliver_reasoning_def opt_bytes_def)
next
  case (Some bs)
  obtain c1 b1 where d1: "deliver ctx (r_reasoning (sc_r ctx)) None bs w m = (rc, c1, b1, w', m')"
    and c': "ctx' = c1\<lparr>sc_r := (sc_r c1)\<lparr>r_reasoning := b1\<rparr>\<rparr>"
    using d Some by (auto simp: deliver_reasoning_def split: prod.splits)
  have "fits (r_reasoning (sc_r ctx)) (length bs + r)" using S(1) Some by (simp add: slack_def opt_bytes_def)
  from deliver_room [OF this S(2) d1] c' S(1) show ?thesis by (simp add: slack_def)
qed

lemma delta_stage_slack:
  assumes "slack ctx (length (opt_bytes (delta_text delta)) + t) (length (opt_bytes (delta_reasoning delta)) + r)"
    "all_ok m" "delta_stage None ctx data delta w m = (rc, ctx', w', m')"
  shows "rc = 0 \<and> slack ctx' t r \<and> all_ok m' \<or> rc = -1 \<and> burst ctx'"
proof -
  obtain rc1 c1 w1 m1 where d: "deliver_text None ctx (delta_text delta) w m = (rc1, c1, w1, m1)"
    by (metis prod_cases4)
  obtain rc2 c2 w2 m2 where u: "deliver_reasoning None c1 (delta_reasoning delta) w1 m1 = (rc2, c2, w2, m2)"
    by (metis prod_cases4)
  note P = assms(3) [unfolded delta_stage_def Let_def delta_text_def [symmetric] delta_reasoning_def [symmetric]
      d prod.case u]
  from deliver_text_slack [OF assms(1,2) d] show ?thesis
  proof (elim disjE conjE)
    assume "rc1 = 0" and D: "slack c1 t (length (opt_bytes (delta_reasoning delta)) + r)" "all_ok m1"
    with P deliver_reasoning_slack [OF D u] show ?thesis
      using raw_chunk_slack [of c2 t r m2 data w2 rc ctx' w' m'] by (auto split: if_splits)
  next
    assume "rc1 = -1" "burst c1"
    with P show ?thesis by simp
  qed
qed

text \<open>What the choice of a chunk adds.\<close>

definition choice_text :: "json option \<Rightarrow> bytes" where
  "choice_text c = (case c of None \<Rightarrow> [] | Some c \<Rightarrow> if yyjson_is_obj c
     then (case delta_of c of None \<Rightarrow> [] | Some d \<Rightarrow> opt_bytes (delta_text d)) else [])"

definition choice_reasoning :: "json option \<Rightarrow> bytes" where
  "choice_reasoning c = (case c of None \<Rightarrow> [] | Some c \<Rightarrow> if yyjson_is_obj c
     then (case delta_of c of None \<Rightarrow> [] | Some d \<Rightarrow> opt_bytes (delta_reasoning d)) else [])"

lemma choices_stage_slack:
  assumes S: "slack ctx (length (choice_text (first_elem root)) + t) (length (choice_reasoning (first_elem root)) + r)"
    and m: "all_ok m" and c: "choices_stage None ctx data root w m = (go, rc, ctx', w', m')"
  shows "rc = 0 \<and> slack ctx' t r \<and> all_ok m' \<or> rc = -1 \<and> burst ctx' \<and> \<not> go"
proof (cases "first_elem root")
  case None
  with c m slack_less [OF S] show ?thesis by (simp add: choices_stage_eq)
next
  case (Some e)
  show ?thesis
  proof (cases "yyjson_is_obj e")
    case False
    obtain rc1 c1 w1 m1 where r: "raw_chunk None ctx data w m = (rc1, c1, w1, m1)" by (metis prod_cases4)
    from raw_chunk_slack [OF slack_less [OF S] m r] c r False Some show ?thesis by (simp add: choices_stage_eq)
  next
    case True
    obtain rc1 c1 w1 m1 where d: "(case delta_of e of None \<Rightarrow> (0, ctx, w, m)
        | Some delta \<Rightarrow> delta_stage None ctx data delta w m) = (rc1, c1, w1, m1)" by (metis prod_cases4)
    have D: "rc1 = 0 \<and> slack c1 t r \<and> all_ok m1 \<or> rc1 = -1 \<and> burst c1"
    proof (cases "delta_of e")
      case None
      with d m slack_less [OF S] show ?thesis by simp
    next
      case dl: (Some dl)
      have "slack ctx (length (opt_bytes (delta_text dl)) + t) (length (opt_bytes (delta_reasoning dl)) + r)"
        using S Some True dl by (simp add: choice_text_def choice_reasoning_def)
      from delta_stage_slack [OF this m] d dl show ?thesis by simp
    qed
    obtain rc3 c3 m3 where f: "stream_finish_stage c1 e m1 = (rc3, c3, m3)" by (metis prod_cases3)
    have "rc1 = 0 \<Longrightarrow> rc3 = 0 \<and> slack c3 t r \<and> all_ok m3" using stream_finish_stage_cases [OF f] D by auto
    with c D True show ?thesis by (auto simp: choices_stage_eq Some d f)
  qed
qed

lemma chunk_of_choice:
  assumes "usable_root rd d = Some root" "d \<noteq> lit ''[DONE]''"
  shows "chunk_text rd d = choice_text (first_elem root)" "chunk_reasoning rd d = choice_reasoning (first_elem root)"
  using assms
  by (auto simp: chunk_text_def chunk_reasoning_def chunk_delta_def chunk_choice_def choice_text_def choice_reasoning_def
      split: option.split simp del: lit_simps)

lemma on_event_slack:
  assumes S: "slack ctx (length (chunk_text rd d) + t) (length (chunk_reasoning rd d) + r)" and m: "all_ok m"
    and D: "d \<noteq> lit ''[DONE]''" and E: "sicha_stream_on_event rd None d (ctx, w) m = (rc, (ctx', w'), m')"
  shows "rc = 0 \<and> slack ctx' t r \<or> rc = -1 \<and> burst ctx'"
proof -
  obtain v m1 where y: "yyjson_read rd d m = (v, m1)" by fastforce
  have m1: "all_ok m1" and v: "v = rd d" using yyjson_read_ok [OF m, of rd d] y by auto
  obtain rc1 c1 w1 m2 where r: "raw_chunk None ctx d w m1 = (rc1, c1, w1, m2)" by (metis prod_cases4)
  note R = raw_chunk_slack [OF slack_less [OF S] m1 r]
  show ?thesis
  proof (cases "\<exists>root. v = Some root \<and> yyjson_is_obj root \<and> yyjson_obj_get root (lit ''error'') = None")
    case False
    with D E y r R show ?thesis
      by (cases v) (auto simp: sicha_stream_on_event_def simp del: lit_simps split: if_splits)
  next
    case True
    then obtain root where v': "v = Some root" "yyjson_is_obj root" "yyjson_obj_get root (lit ''error'') = None"
      by blast
    let ?ctx = "ctx\<lparr>sc_saw_event := True\<rparr>"
    obtain go rc2 c2 w2 m3 where c: "choices_stage None ?ctx d root w m1 = (go, rc2, c2, w2, m3)"
      by (metis prod_cases5)
    have "rd d = Some root" using v v'(1) by simp
    then have "usable_root rd d = Some root" using v'(2,3) by (simp add: usable_root_def del: lit_simps)
    with S have "slack ?ctx (length (choice_text (first_elem root)) + t) (length (choice_reasoning (first_elem root)) + r)"
      by (simp add: chunk_of_choice [OF _ D] del: lit_simps)
    note C = choices_stage_slack [OF this m1 c]
    obtain rc3 c3 m4 where e: "meta_stage c2 root m3 = (rc3, c3, m4)" by (metis prod_cases3)
    have "rc2 = 0 \<Longrightarrow> rc3 = 0 \<and> slack c3 t r" using meta_stage_cases [OF e] C by auto
    with D E v' y c e C show ?thesis
      by (auto simp: sicha_stream_on_event_def simp del: lit_simps split: if_splits)
  qed
qed

text \<open>With callbacks that let the stream go on, it is the same.\<close>

lemma on_event_slack_accepts:
  assumes A: "accepts cbs" and S: "slack ctx (length (chunk_text rd d) + t) (length (chunk_reasoning rd d) + r)" "all_ok m"
    and D: "d \<noteq> lit ''[DONE]''" and E: "sicha_stream_on_event rd cbs d (ctx, w) m = (rc, (ctx', w'), m')"
  shows "rc = 0 \<and> slack ctx' t r \<or> rc = -1 \<and> burst ctx'"
proof -
  have "sicha_stream_on_event rd None d (forget ctx, ()) m = (rc, (forget ctx', ()), m')"
    using followsD [OF on_event_quiet [OF A] E] by (simp add: muted_def)
  from on_event_slack [OF _ S(2) D this] S(1) show ?thesis by simp
qed

lemma on_event_err_accepts:
  assumes "accepts cbs" "sicha_stream_on_event rd cbs d s m = (-1, s', m')"
  shows "sc_err (fst s') \<noteq> SICHA_OK"
  using on_event_err [OF followsD [OF on_event_quiet [OF assms(1)] assms(2)]] by (simp add: muted_def)

lemma processed_slack:
  assumes "processed True (sicha_stream_on_event rd cbs) s evs s' rc" "accepts cbs"
    "slack (fst s) (length (stream_text rd evs)) (length (stream_reasoning rd evs))"
  shows "(rc = 0 \<or> rc = SICHA_STREAM_STOP) \<and> sc_err (fst s') = SICHA_OK \<or> rc = -1 \<and> burst (fst s')"
  using assms
proof (induction rule: processed.induct)
  case (stop s)
  then show ?case by (simp add: slack_def)
next
  case (last d s m rc s' m')
  obtain ctx w ctx' w' where s: "s = (ctx, w)" "s' = (ctx', w')" by fastforce
  show ?case
  proof (cases "d = lit ''[DONE]''")
    case True
    with last s on_event_done [of rd cbs ctx w m] show ?thesis by (auto simp: slack_def simp del: lit_simps)
  next
    case False
    with last s on_event_slack_accepts [of cbs ctx rd d 0 0 m w rc ctx' w' m'] show ?thesis
      by (simp add: stream_text_def stream_reasoning_def before_done_def del: lit_simps)
  qed
next
  case (step d s m s1 m' ds s' rc)
  obtain ctx w ctx1 w1 where s: "s = (ctx, w)" "s1 = (ctx1, w1)" by fastforce
  have d: "d \<noteq> lit ''[DONE]''"
    using step(1) s on_event_done [of rd cbs ctx w m] by (auto simp del: lit_simps)
  with step(1,2,5,6) s
    on_event_slack_accepts [of cbs ctx rd d "length (stream_text rd ds)" "length (stream_reasoning rd ds)" m w 0 ctx1 w1 m']
  have "slack ctx1 (length (stream_text rd ds)) (length (stream_reasoning rd ds))"
    by (simp add: stream_text_def stream_reasoning_def before_done_def del: lit_simps)
  with step(4) [OF step(5)] s show ?case by simp
qed

lemma slack_mono: "slack ctx t r \<Longrightarrow> t' \<le> t \<Longrightarrow> r' \<le> r \<Longrightarrow> slack ctx t' r'"
  by (auto simp: slack_def fits_def)

theorem stream_run_slack:
  assumes L: "length bs < SIZE_MAX" "max_ev = 0 \<or> length bs \<le> max_ev" "all_ok m" and A: "accepts cbs"
    and S: "slack ctx (length (stream_text rd (sse_events bs))) (length (stream_reasoning rd (sse_events bs)))"
    and R: "sse_run (Some (sicha_stream_on_event rd cbs)) (sicha_sse_init max_ev) bs (ctx, w) m = (rc, p', s', m')"
  shows "rc = 0 \<or> rc = SICHA_STREAM_STOP \<or> rc = -1 \<and> burst (fst s')"
proof -
  let ?f = "sicha_stream_on_event rd cbs"
  have "part_of True ?f rc (ctx, w) s' (sse_events bs)"
    by (rule sse_run_part [OF R _ on_event_mem]) (simp add: L(3))
  then obtain evs rest rc' where E: "sse_events bs = evs @ rest" "processed True ?f (ctx, w) evs s' rc'"
    "rc' \<noteq> 0 \<longrightarrow> rc = rc'" "rc' = 0 \<longrightarrow> rc = 0 \<or> rc = -1" by (auto simp: part_of_def)
  have "slack ctx (length (stream_text rd evs)) (length (stream_reasoning rd evs))"
    using slack_mono [OF S] stream_prefix_length [of rd evs rest] E(1) by simp
  with processed_slack [OF E(2) A]
  have P: "(rc' = 0 \<or> rc' = SICHA_STREAM_STOP) \<and> sc_err (fst s') = SICHA_OK \<or> rc' = -1 \<and> burst (fst s')" by simp
  have "sc_err (fst s') \<noteq> SICHA_OK" if rc: "rc = -1"
  proof -
    from sse_run_alive [OF L on_event_mem R] rc obtain d s0 m0 m1 where "?f d s0 m0 = (-1, s', m1)"
      by (auto simp: stopped_by_def)
    then show ?thesis by (rule on_event_err_accepts [OF A])
  qed
  with P E(3,4) show ?thesis by auto
qed

section \<open>The error stays\<close>

text \<open>A failed buffer \<open>b\<close> of the text, which nothing changes.\<close>

definition stuck :: "sicha_buf \<Rightarrow> sicha_result \<Rightarrow> bool" where
  "stuck b r \<longleftrightarrow> buf_err b \<noteq> SICHA_OK \<and> r_text r = b"

lemma stuck_deliver_text:
  "deliver_text cbs ctx s w m = (rc, ctx', w', m') \<Longrightarrow> stuck b (sc_r ctx) \<Longrightarrow> stuck b (sc_r ctx')"
  by (auto simp: deliver_text_def deliver_def stuck_def append_sticky Let_def split: option.splits prod.splits if_splits)

lemma stuck_deliver_reasoning:
  "deliver_reasoning cbs ctx s w m = (rc, ctx', w', m') \<Longrightarrow> stuck b (sc_r ctx) \<Longrightarrow> stuck b (sc_r ctx')"
  by (auto simp: deliver_reasoning_def stuck_def Let_def split: option.splits prod.splits dest: kept_deliver)

lemma stuck_raw_chunk:
  "raw_chunk cbs ctx d w m = (rc, ctx', w', m') \<Longrightarrow> stuck b (sc_r ctx) \<Longrightarrow> stuck b (sc_r ctx')"
  using kept_raw_chunk by metis

lemma stuck_delta_stage:
  "delta_stage cbs ctx data delta w m = (rc, ctx', w', m') \<Longrightarrow> stuck b (sc_r ctx) \<Longrightarrow> stuck b (sc_r ctx')"
  by (auto simp: delta_stage_def Let_def split: prod.splits if_splits
      dest!: stuck_deliver_text stuck_deliver_reasoning stuck_raw_chunk)

lemma stuck_meta:
  "stuck b r \<Longrightarrow> stuck b (with_finish f r)" "stuck b r \<Longrightarrow> stuck b (with_model root r)"
  "stuck b r \<Longrightarrow> stuck b (lift_usage r root)"
  by (auto simp: stuck_def with_finish_def with_model_def lift_usage_def Let_def split: option.split)

lemma stuck_stream_finish_stage:
  "stream_finish_stage ctx c0 m = (rc, ctx', m') \<Longrightarrow> stuck b (sc_r ctx) \<Longrightarrow> stuck b (sc_r ctx')"
  using stream_finish_stage_cases stuck_meta(1) by fastforce

lemma stuck_meta_stage:
  "meta_stage ctx root m = (rc, ctx', m') \<Longrightarrow> stuck b (sc_r ctx) \<Longrightarrow> stuck b (sc_r ctx')"
  using meta_stage_cases stuck_meta(2,3) by fastforce

lemma stuck_choices_stage:
  "choices_stage cbs ctx data root w m = (go, rc, ctx', w', m') \<Longrightarrow> stuck b (sc_r ctx) \<Longrightarrow> stuck b (sc_r ctx')"
  by (auto simp: choices_stage_eq split: option.splits prod.splits if_splits
      dest!: stuck_delta_stage stuck_raw_chunk stuck_stream_finish_stage)

lemma stuck_on_event:
  "sicha_stream_on_event rd cbs d (ctx, w) m = (rc, (ctx', w'), m') \<Longrightarrow> stuck b (sc_r ctx) \<Longrightarrow> stuck b (sc_r ctx')"
  by (auto simp: sicha_stream_on_event_def split: prod.splits option.splits if_splits simp del: lit_simps
      dest!: stuck_choices_stage stuck_raw_chunk stuck_meta_stage)

lemma on_event_stuck:
  "keeps k (Some (sicha_stream_on_event rd cbs)) (\<lambda>(ctx, w). stuck b (sc_r ctx))"
proof -
  have "stuck b (sc_r (fst (fst (snd (sicha_stream_on_event rd cbs d (ctx, w) m)))))"
    if "stuck b (sc_r ctx)" for d ctx w m
    using stuck_on_event [OF _ that] by (cases "sicha_stream_on_event rd cbs d (ctx, w) m") fastforce
  then show ?thesis by (auto simp: keeps_def split_def)
qed

lemma sse_run_keeps:
  assumes "sse_run f (sicha_sse_init k) bs s m = (rc, p', s', m')" "keeps k f P" "P s"
  shows "P s'"
  using assms(1) sicha_sse_feed_keeps [OF sse_wf_init assms(2,3)] sicha_sse_finish_keeps [OF _ assms(2)]
  by (fastforce simp: sse_run_def Let_def split: prod.splits if_splits)

text \<open>
  A further streaming attempt of a call, as \<open>attempt_run\<close> makes it: the content is reset, then
  whatever the transport, the memory and the callbacks do happens.
\<close>

definition retried :: "json_reader \<Rightarrow> 'w client_env \<Rightarrow> sicha_client \<Rightarrow> 'w sicha_callbacks option \<Rightarrow>
    sicha_result \<Rightarrow> sicha_result \<Rightarrow> bool" where
  "retried rd env c cbs r r' \<longleftrightarrow>
     (\<exists>b bd hs i acc w m out w' m'.
        run_attempt rd env c b bd hs cbs ((sicha_result_reset_content r)\<lparr>r_backend := i\<rparr>) True acc w m
          = (out, r', w', m'))"

definition spoilt :: "nat \<Rightarrow> sicha_result \<Rightarrow> bool" where
  "spoilt k r \<longleftrightarrow> content_ok k r \<and> buf_err (r_text r) = SICHA_INT_E_TOOBIG"

lemma spoilt_reset: "spoilt k r \<Longrightarrow> spoilt k ((sicha_result_reset_content r)\<lparr>r_backend := i\<rparr>)"
  by (simp add: spoilt_def content_reset) (simp add: sicha_result_reset_content_def)

lemma run_attempt_stuck:
  assumes "run_attempt rd env c b bd hs cbs r True acc w m = (out, r', w', m')" "stuck x r"
  shows "stuck x r'"
proof -
  let ?P = "\<lambda>ctx (_ :: unit). stuck x (sc_r ctx)"
  have P: "?P (sicha_stream_ctx_init r acc) ()" using assms(2) by (simp add: sicha_stream_ctx_init_def)
  show ?thesis
    by (rule run_attempt_keeps [where P = ?P and obs = "\<lambda>_. ()", OF env_quiet_unit on_event_stuck P _ assms(1)]) auto
qed

lemma retried_spoilt:
  assumes "(retried rd env c cbs)\<^sup>*\<^sup>* r r'" "spoilt k r"
  shows "spoilt k r'"
  using assms
proof (induction rule: rtranclp_induct)
  case (step r1 r2)
  from step(2) obtain b bd hs i acc w m out w' m' where
    "run_attempt rd env c b bd hs cbs ((sicha_result_reset_content r1)\<lparr>r_backend := i\<rparr>) True acc w m = (out, r2, w', m')"
    by (auto simp: retried_def)
  note R = run_attempt_content [OF this] run_attempt_stuck [OF this]
  from step have S: "spoilt k ((sicha_result_reset_content r1)\<lparr>r_backend := i\<rparr>)" by (intro spoilt_reset) simp
  with R(1) [of k] R(2) [of "r_text ((sicha_result_reset_content r1)\<lparr>r_backend := i\<rparr>)"] show ?case
    by (auto simp: spoilt_def stuck_def)
qed

section \<open>The first stream and a later one\<close>

lemma oversized_bursts:
  assumes L: "length bs < SIZE_MAX" "max_ev = 0 \<or> length bs \<le> max_ev" "all_ok m" and A: "accepts cbs"
    and r: "content_ok k r" "buf_err (r_text r) = SICHA_OK" "buf_err (r_reasoning r) = SICHA_OK"
    and k: "0 < k" "k < length (stream_text rd (sse_events bs))" "length (stream_text rd (sse_events bs)) < SIZE_MAX"
      "length (stream_reasoning rd (sse_events bs)) \<le> k"
    and R: "sse_run (Some (sicha_stream_on_event rd cbs)) (sicha_sse_init max_ev) bs
      (sicha_stream_ctx_init ((sicha_result_reset_content r)\<lparr>r_backend := i\<rparr>) True, w) m = (rc, p', (ctx', w'), m')"
  shows "rc = -1 \<and> burst ctx' \<and> spoilt k (sc_r ctx')"
proof -
  let ?r = "(sicha_result_reset_content r)\<lparr>r_backend := i\<rparr>"
  let ?ctx = "sicha_stream_ctx_init ?r True"
  have c: "content_ok k ?r" using r(1) by (simp add: content_reset)
  then have i: "ctx_live ?ctx" "sc_accumulate ?ctx" "buf_bytes (r_text (sc_r ?ctx)) = []"
    by (simp_all add: ctx_live_def sicha_stream_ctx_init_def content_ok_def sicha_result_reset_content_def)
  have "slack ?ctx (length (stream_text rd (sse_events bs))) (length (stream_reasoning rd (sse_events bs)))"
    using c r k
    by (simp add: slack_def fits_def sicha_stream_ctx_init_def sicha_result_reset_content_def content_ok_def buf_live_def)
  from stream_run_slack [OF L A this R] have D: "rc = 0 \<or> rc = SICHA_STREAM_STOP \<or> rc = -1 \<and> burst ctx'" by simp
  have "content_ok k (sc_r ?ctx)" using c by (simp add: sicha_stream_ctx_init_def)
  with sse_run_keeps [OF R on_event_content, of k] have C: "content_ok k (sc_r ctx')" by simp
  then have "length (buf_bytes (r_text (sc_r ctx'))) \<le> k"
    using k(1) buf_len_bytes by (auto simp: content_ok_def buf_live_def buf_wf_def)
  with stream_run_text(1) [OF R L(3) i(1,2)] i(3) k(2) D have "rc = -1 \<and> burst ctx'" by auto
  with C show ?thesis by (simp add: spoilt_def burst_def)
qed

lemma spoilt_stream:
  assumes r: "spoilt k r"
    and R: "sse_run (Some (sicha_stream_on_event rd cbs)) (sicha_sse_init max_ev) bs
      (sicha_stream_ctx_init ((sicha_result_reset_content r)\<lparr>r_backend := i\<rparr>) acc, w) m = (rc, p', (ctx', w'), m')"
  shows "buf_bytes (r_text (sc_r ctx')) = []" "buf_err (r_text (sc_r ctx')) = SICHA_INT_E_TOOBIG"
proof -
  let ?r = "(sicha_result_reset_content r)\<lparr>r_backend := i\<rparr>"
  have r0: "buf_err (r_text ?r) = SICHA_INT_E_TOOBIG" "buf_bytes (r_text ?r) = []"
    using r by (simp_all add: spoilt_def sicha_result_reset_content_def)
  then have "stuck (r_text ?r) (sc_r (sicha_stream_ctx_init ?r acc))"
    by (simp add: stuck_def sicha_stream_ctx_init_def)
  with sse_run_keeps [OF R on_event_stuck, of "r_text ?r"] have "stuck (r_text ?r) (sc_r ctx')" by simp
  with r0 show "buf_bytes (r_text (sc_r ctx')) = []" "buf_err (r_text (sc_r ctx')) = SICHA_INT_E_TOOBIG"
    by (simp_all add: stuck_def)
qed

lemma spoilt_stream_fails:
  assumes r: "spoilt k r" and m: "all_ok m" and t: "stream_text rd (sse_events bs) \<noteq> []"
    and R: "sse_run (Some (sicha_stream_on_event rd cbs)) (sicha_sse_init max_ev) bs
      (sicha_stream_ctx_init ((sicha_result_reset_content r)\<lparr>r_backend := i\<rparr>) True, w) m = (rc, p', (ctx', w'), m')"
  shows "rc \<noteq> 0 \<and> rc \<noteq> SICHA_STREAM_STOP"
proof -
  let ?ctx = "sicha_stream_ctx_init ((sicha_result_reset_content r)\<lparr>r_backend := i\<rparr>) True"
  have "ctx_live ?ctx" "sc_accumulate ?ctx"
    using content_reset [of k r] r
    by (simp_all add: ctx_live_def sicha_stream_ctx_init_def content_ok_def spoilt_def)
  from stream_run_text(1) [OF R m this] spoilt_stream(1) [OF r R] t show ?thesis by auto
qed

lemma spoilt_stream_bursts:
  assumes L: "length bs < SIZE_MAX" "max_ev = 0 \<or> length bs \<le> max_ev" "all_ok m" and A: "accepts cbs"
    and r: "spoilt k r" and t: "stream_text rd (sse_events bs) \<noteq> []" "length (stream_text rd (sse_events bs)) < SIZE_MAX"
    and q: "buf_err (r_reasoning r) = SICHA_OK" "length (stream_reasoning rd (sse_events bs)) < SIZE_MAX"
      "k = 0 \<or> length (stream_reasoning rd (sse_events bs)) \<le> k"
    and R: "sse_run (Some (sicha_stream_on_event rd cbs)) (sicha_sse_init max_ev) bs
      (sicha_stream_ctx_init ((sicha_result_reset_content r)\<lparr>r_backend := i\<rparr>) True, w) m = (rc, p', (ctx', w'), m')"
  shows "rc = -1 \<and> burst ctx'"
proof -
  let ?ctx = "sicha_stream_ctx_init ((sicha_result_reset_content r)\<lparr>r_backend := i\<rparr>) True"
  have "slack ?ctx (length (stream_text rd (sse_events bs))) (length (stream_reasoning rd (sse_events bs)))"
    using r t(2) q
    by (auto simp: slack_def fits_def sicha_stream_ctx_init_def sicha_result_reset_content_def spoilt_def
        content_ok_def buf_live_def sicha_buf_reset_wf)
  from stream_run_slack [OF L A this R] spoilt_stream_fails [OF r L(3) t(1) R] show ?thesis by simp
qed

end
