(* ===== verification/Curl_Headers.thy ===== *)
theory Curl_Headers
  imports Curl_Perform
begin

text \<open>
  The header block of a response, from the lines that libcurl hands to \<open>header_cb\<close> to the list
  that the sink is told: headers that \<open>curl_perform\<close> could have written itself are read back.
\<close>

text \<open>libcurl hands over some lines, one after the other, and gives up when one is refused.\<close>

primrec handed :: "bytes list \<Rightarrow> 'w \<Rightarrow> 'w multi" where
  "handed [] = (\<lambda>w. M_return CURLM_OK 1 w)"
| "handed (l # ls) = (\<lambda>w. M_header l w (\<lambda>(n, w). if n = length l then handed ls w else M_return CURLM_OK 0 w))"

definition crlf :: bytes where
  "crlf = [0x0D, 0x0A]"

text \<open>
  What is read for a header: the name as it is, the value without the blanks and line ends around it.
\<close>

definition trimmed :: "bytes \<Rightarrow> bytes \<Rightarrow> bool" where
  "trimmed v c \<longleftrightarrow> (\<exists>pre post. v = pre @ c @ post \<and> (\<forall>b \<in> set pre. b = 0x20 \<or> b = 0x09)
     \<and> (\<forall>b \<in> set post. b = 0x20 \<or> b = 0x09 \<or> b = 0x0D \<or> b = 0x0A))
     \<and> (c \<noteq> [] \<longrightarrow> hd c \<notin> {0x20, 0x09} \<and> last c \<notin> {0x20, 0x09, 0x0D, 0x0A})"

definition read_back :: "sicha_header \<Rightarrow> sicha_header \<Rightarrow> bool" where
  "read_back h g \<longleftrightarrow> hd_name g = Some (cstr (opt_bytes (hd_name h)))
     \<and> (\<exists>c. hd_value g = Some c \<and> trimmed (cstr (opt_bytes (hd_value h))) c)"

text \<open>A header that can be read back: it is no status line, and it fits a line.\<close>

definition line_of :: "sicha_header \<Rightarrow> bytes" where
  "line_of h = header_line (cstr (opt_bytes (hd_name h))) (cstr (opt_bytes (hd_value h)))"

definition plain_header :: "sicha_header \<Rightarrow> bool" where
  "plain_header h \<longleftrightarrow> 0x3A \<notin> set (cstr (opt_bytes (hd_name h))) \<and> take 5 (cstr (opt_bytes (hd_name h))) \<noteq> lit ''HTTP/''
     \<and> length (line_of h) + 2 \<le> SICHA_MAX_HEADER_BYTES"

lemma header_lines_written:
  "header_lines hs acc m = (Some ls, m') \<Longrightarrow> ls = acc @ map line_of hs @ [lit ''Expect:'']"
  by (induction hs acc m rule: header_lines.induct) (auto simp: line_of_def simp del: lit_simps split: prod.splits if_splits)

lemma header_value_trimmed:
  assumes "trimmed v c"
  shows "header_value (0x20 # v @ crlf) = c"
proof -
  from assms obtain pre post where v: "v = pre @ c @ post" "\<forall>b \<in> set pre. b = 0x20 \<or> b = 0x09"
    "\<forall>b \<in> set post. b = 0x20 \<or> b = 0x09 \<or> b = 0x0D \<or> b = 0x0A"
    "c \<noteq> [] \<longrightarrow> hd c \<notin> {0x20, 0x09} \<and> last c \<notin> {0x20, 0x09, 0x0D, 0x0A}"
    unfolding trimmed_def by blast
  then have "header_value ((0x20 # pre) @ c @ (post @ crlf)) = c"
    by (intro header_value_trims) (auto simp: is_blank_def is_line_end_def crlf_def)
  with v(1) show ?thesis by simp
qed

lemma dropWhile_split:
  obtains pre where "v = pre @ dropWhile P v" "\<forall>b \<in> set pre. P b"
proof
  show "v = takeWhile P v @ dropWhile P v" by simp
  show "\<forall>b \<in> set (takeWhile P v). P b" by (auto dest: set_takeWhileD)
qed

text \<open>Every value can be trimmed.\<close>

lemma trimmed_exists: "\<exists>c. trimmed v c"
proof -
  define u where "u = dropWhile is_blank v"
  define c where "c = rev (dropWhile is_line_end (rev u))"
  obtain pre where pre: "v = pre @ u" "\<forall>b \<in> set pre. is_blank b" unfolding u_def by (rule dropWhile_split)
  obtain tsop where "rev u = tsop @ rev c" "\<forall>b \<in> set tsop. is_line_end b"
    unfolding c_def rev_rev_ident by (rule dropWhile_split)
  then have post: "u = c @ rev tsop" "\<forall>b \<in> set (rev tsop). is_line_end b"
    using rev_swap [of u "tsop @ rev c"] by simp_all
  have "\<not> is_blank (hd c) \<and> \<not> is_line_end (last c)" if "c \<noteq> []"
  proof
    have "hd u = hd c" "u \<noteq> []" using post(1) that by auto
    then show "\<not> is_blank (hd c)" using hd_dropWhile [of is_blank v] unfolding u_def by metis
    have "dropWhile is_line_end (rev u) \<noteq> []" using that by (simp add: c_def)
    from hd_dropWhile [OF this] show "\<not> is_line_end (last c)" by (simp add: c_def last_rev)
  qed
  with pre post show ?thesis
    unfolding trimmed_def by (intro exI [of _ c] conjI exI [of _ pre] exI [of _ "rev tsop"])
      (auto simp: is_blank_def is_line_end_def)
qed

section \<open>A line\<close>

lemma line_no_status:
  assumes "plain_header h"
  shows "take 5 (line_of h @ crlf) \<noteq> lit ''HTTP/''"
proof
  let ?n = "cstr (opt_bytes (hd_name h))"
  assume e: "take 5 (line_of h @ crlf) = lit ''HTTP/''"
  have "0x3A \<notin> set (lit ''HTTP/'')" by (simp add: lit_def)
  with e have c: "0x3A \<notin> set (take 5 (line_of h @ crlf))" by simp
  have "\<not> length ?n < 5"
  proof
    assume l: "length ?n < 5"
    have "take 5 (line_of h @ crlf) = ?n @ take (5 - length ?n) (0x3A # 0x20 # cstr (opt_bytes (hd_value h)) @ crlf)"
      using l by (simp add: line_of_def header_line_def)
    moreover have "5 - length ?n \<noteq> 0" using l by simp
    ultimately have "0x3A \<in> set (take 5 (line_of h @ crlf))" by (simp add: take_Cons')
    with c show False ..
  qed
  then have "take 5 (line_of h @ crlf) = take 5 ?n" by (simp add: line_of_def header_line_def)
  with e assms show False by (simp add: plain_header_def)
qed

text \<open>What \<open>header_cb\<close> makes of one line, before the status is told.\<close>

lemma header_cb_line:
  assumes h: "plain_header h" and x: "\<not> x_status_delivered x" "length (x_headers x) < SICHA_MAX_HEADERS"
      "x_header_bytes x + length (line_of h) + 2 \<le> SICHA_MAX_HEADERS_TOTAL_BYTES" and m: "all_ok m"
  obtains g x' m' where
    "header_cb ck sink (line_of h @ crlf) x w m = (length (line_of h @ crlf), x', snd (ck_now_ms ck w), m')"
    "read_back h g" "x_headers x' = x_headers x @ [g]" "x_header_bytes x' = x_header_bytes x + length (line_of h) + 2"
    "\<not> x_status_delivered x'" "x_http_status x' = x_http_status x" "all_ok m'"
proof -
  let ?n = "cstr (opt_bytes (hd_name h))" and ?v = "cstr (opt_bytes (hd_value h))" and ?l = "line_of h @ crlf"
  obtain now w1 where c: "ck_now_ms ck w = (now, w1)" by fastforce
  let ?x = "x\<lparr>x_last_activity_ms := now\<rparr>"
  obtain v where v: "trimmed ?v v" using trimmed_exists by blast
  have colon: "memchr 0x3A ?l = Some (length ?n)"
    using memchr_append [of "0x3A" ?n "0x20 # ?v @ crlf"] h by (simp add: line_of_def header_line_def plain_header_def)
  have val: "header_value (drop (length ?n + 1) ?l) = v"
    using header_value_trimmed [OF v] by (simp add: line_of_def header_line_def)
  have name: "take (length ?n) ?l = ?n" by (simp add: line_of_def header_line_def)
  have len: "length ?l = length (line_of h) + 2" by (simp add: crlf_def)
  obtain k1 m1 where 1: "alloc m = (k1, m1)" by fastforce
  note k1 = all_ok_alloc [OF m 1]
  obtain k2 m2 where 2: "alloc m1 = (k2, m2)" by fastforce
  note k2 = all_ok_alloc [OF conjunct2 [OF k1] 2]
  let ?g = "\<lparr>hd_name = Some ?n, hd_value = Some v\<rparr>"
  let ?x' = "?x\<lparr>x_headers := x_headers x @ [?g], x_header_bytes := x_header_bytes x + length (line_of h) + 2\<rparr>"
  have f: "header_field ?l ?x m = (length ?l, ?x', m2)"
    using h x(2,3) k1 k2 unfolding header_field_def colon option.case val name len
    by (simp add: plain_header_def dup_span_def 1 2 add.assoc)
  have "?l \<noteq> [0x0D, 0x0A] \<and> ?l \<noteq> [0x0A]"
    using len by (auto simp: line_of_def header_line_def crlf_def dest: arg_cong [where f = length])
  with line_no_status [OF h] x(1) f have
    "header_cb ck sink ?l x w m = (length ?l, ?x', snd (ck_now_ms ck w), m2)"
    by (simp add: header_cb_def c Let_def del: lit_simps)
  then show thesis by (rule that [of ?x' m2 ?g]) (use v x k2 in \<open>simp_all add: read_back_def\<close>)
qed

section \<open>A block\<close>

definition block_bytes :: "sicha_header list \<Rightarrow> nat" where
  "block_bytes hs = sum_list (map (\<lambda>h. length (line_of h) + 2) hs)"

lemma handed_lines:
  assumes "\<forall>h \<in> set hs. plain_header h" "\<not> x_status_delivered x" "length (x_headers x) + length hs \<le> SICHA_MAX_HEADERS"
    "x_header_bytes x + block_bytes hs \<le> SICHA_MAX_HEADERS_TOTAL_BYTES" "all_ok m"
  shows "\<exists>gs x' w' m'. run_multi ck sink (handed (map (\<lambda>h. line_of h @ crlf) hs @ rest) w) x m
      = run_multi ck sink (handed rest w') x' m'
    \<and> list_all2 read_back hs gs \<and> x_headers x' = x_headers x @ gs \<and> \<not> x_status_delivered x'
    \<and> x_http_status x' = x_http_status x \<and> all_ok m'"
  using assms
proof (induction hs arbitrary: x w m)
  case Nil
  then show ?case by auto
next
  case (Cons h hs)
  from Cons.prems have p: "plain_header h" "length (x_headers x) < SICHA_MAX_HEADERS"
    "x_header_bytes x + length (line_of h) + 2 \<le> SICHA_MAX_HEADERS_TOTAL_BYTES" by (simp_all add: block_bytes_def)
  obtain g x1 m1 where L: "header_cb ck sink (line_of h @ crlf) x w m = (length (line_of h @ crlf), x1, snd (ck_now_ms ck w), m1)"
    "read_back h g" "x_headers x1 = x_headers x @ [g]" "x_header_bytes x1 = x_header_bytes x + length (line_of h) + 2"
    "\<not> x_status_delivered x1" "x_http_status x1 = x_http_status x" "all_ok m1"
    by (rule header_cb_line [OF p(1) Cons.prems(2) p(2,3) Cons.prems(5)])
  have "\<exists>gs x' w' m'. run_multi ck sink (handed (map (\<lambda>h. line_of h @ crlf) hs @ rest) (snd (ck_now_ms ck w))) x1 m1
      = run_multi ck sink (handed rest w') x' m'
    \<and> list_all2 read_back hs gs \<and> x_headers x' = x_headers x1 @ gs \<and> \<not> x_status_delivered x'
    \<and> x_http_status x' = x_http_status x1 \<and> all_ok m'"
    using Cons.prems L by (intro Cons.IH) (simp_all add: block_bytes_def)
  then obtain gs x' w' m' where "run_multi ck sink (handed (map (\<lambda>h. line_of h @ crlf) hs @ rest) (snd (ck_now_ms ck w))) x1 m1
      = run_multi ck sink (handed rest w') x' m'"
    "list_all2 read_back hs gs" "x_headers x' = x_headers x1 @ gs" "\<not> x_status_delivered x'"
    "x_http_status x' = x_http_status x1" "all_ok m'" by blast
  with L show ?case
    by (intro exI [of _ "g # gs"] exI [of _ x'] exI [of _ w'] exI [of _ m']) simp
qed

theorem handed_block:
  assumes W: "header_lines hs [] m0 = (Some ls, m1)" "\<forall>h \<in> set hs. plain_header h" "length hs \<le> SICHA_MAX_HEADERS"
      "block_bytes hs \<le> SICHA_MAX_HEADERS_TOTAL_BYTES"
    and x: "\<not> x_status_delivered x" "all_ok m" and s: "take 5 s = lit ''HTTP/''" "\<not> (100 \<le> status_code s \<and> status_code s \<le> 199)"
    and sk: "sk_on_status sk = Some f"
  shows "\<exists>gs w1 r x' m'. run_multi ck (Some sk) (handed (s # map (\<lambda>l. l @ crlf) (butlast ls) @ [crlf]) w) x m
      = (CURLM_OK, r, x', snd (f (int32 (status_code s)) gs w1), m') \<and> list_all2 read_back hs gs"
proof -
  have ls: "butlast ls = map line_of hs" using header_lines_written [OF W(1)] by (simp del: lit_simps)
  obtain now w0 where c: "ck_now_ms ck w = (now, w0)" by fastforce
  have "5 \<le> length s" using arg_cong [OF s(1), of length] by (simp add: lit_def min_def split: if_splits)
  let ?x = "xfer_free_headers (x\<lparr>x_last_activity_ms := now, x_http_status := status_code s\<rparr>)"
  have 1: "header_cb ck (Some sk) s x w m = (length s, ?x, w0, m)"
    using x(1) s(1) \<open>5 \<le> length s\<close> by (simp add: header_cb_def c Let_def del: lit_simps)
  have "\<exists>gs x' w' m'. run_multi ck (Some sk) (handed (map (\<lambda>h. line_of h @ crlf) hs @ [crlf]) w0) ?x m
      = run_multi ck (Some sk) (handed [crlf] w') x' m'
    \<and> list_all2 read_back hs gs \<and> x_headers x' = x_headers ?x @ gs \<and> \<not> x_status_delivered x'
    \<and> x_http_status x' = x_http_status ?x \<and> all_ok m'"
    using W(2-4) x by (intro handed_lines) (simp_all add: xfer_free_headers_def)
  then obtain gs x2 w2 m2 where B: "run_multi ck (Some sk) (handed (map (\<lambda>h. line_of h @ crlf) hs @ [crlf]) w0) ?x m
      = run_multi ck (Some sk) (handed [crlf] w2) x2 m2"
    "list_all2 read_back hs gs" "x_headers x2 = gs" "\<not> x_status_delivered x2" "x_http_status x2 = status_code s"
    by (auto simp: xfer_free_headers_def)
  obtain n3 w3 where c3: "ck_now_ms ck w2 = (n3, w3)" by fastforce
  obtain rc w4 where f: "f (int32 (status_code s)) gs w3 = (rc, w4)" by fastforce
  have h: "take 5 crlf \<noteq> lit ''HTTP/''" by (simp add: crlf_def lit_def)
  have "\<exists>n x'. header_cb ck (Some sk) crlf x2 w2 m2 = (n, x', w4, m2)"
    using B(3-5) h s(2) sk f
    by (auto simp: header_cb_def c3 Let_def crlf_def xfer_finish_headers_def simp del: lit_simps)
  then obtain n x' where e: "header_cb ck (Some sk) crlf x2 w2 m2 = (n, x', w4, m2)" by blast
  have "run_multi ck (Some sk) (handed (s # map (\<lambda>l. l @ crlf) (butlast ls) @ [crlf]) w) x m
      = (CURLM_OK, if n = length crlf then 1 else 0, x', w4, m2)"
    using 1 B(1) e by (simp add: ls comp_def)
  with B(2) f show ?thesis by (metis snd_conv)
qed

end
