(* ===== verification/Spec2Isabelle.thy ===== *)
theory Spec2Isabelle
  imports Examples_Chain Fuzz_Sse Fuzz_Client Stream_Oversized Curl_Headers
begin

text \<open>
  A model of sicha, a client library in C for chat completions over HTTP (\<open>src/src\<close> and
  \<open>src/include/sicha.h\<close>), and the theorems that make it correct.

  \<^bold>\<open>The program.\<close> A client holds a chain of backends and a retry policy. A call
  (\<open>sicha_chat\<close>, \<open>sicha_chat_stream\<close>) validates a request, and for one backend after the other
  builds a body and headers, makes a round trip through a transport, classifies the outcome,
  and succeeds, retries after a backoff, goes to the next backend, or ends. Streamed responses
  go through an SSE parser to the delta callbacks; the commit rule forbids a retry once deltas
  have been delivered. A cancel token, shared between threads, ends waits and transfers. Two
  transports come with the library: one over libcurl and a scripted one for tests.

  \<^bold>\<open>The theories\<close>, each after the file it models:
  \<^item> \<open>Prelude\<close>: bytes, machine integers, C strings, the allocator, lemmas they share.
  \<^item> \<open>Status\<close> (\<open>status.c\<close>): the enumerations of the interface.
  \<^item> \<open>Buf\<close> (\<open>buf.c\<close>): the growable buffer with its limit and sticky error, its invariant \<open>buf_wf\<close>,
    and the byte sequence \<open>abs_buf\<close> it refines.
  \<^item> \<open>Sse\<close> (\<open>sse.c\<close>): the incremental parser; \<open>sse_events\<close> is the reference semantics.
  \<^item> \<open>Classify\<close> (\<open>classify.c\<close>): policies, classification, backoff, Retry-After.
  \<^item> \<open>Json\<close>: JSON values with the accessors of yyjson that sicha calls. \<open>Response\<close> (\<open>response.c\<close>): results,
    the parse of a body, the assembly of a stream. \<open>Response_Parse\<close> and \<open>Response_Stream\<close> hold what they
    compute: \<open>reply_of\<close> and \<open>parse_fate\<close> for a body (with \<open>first_some\<close>, \<open>usage_count\<close> and \<open>finish_named\<close> for its parts), \<open>stream_text\<close> and \<open>stream_inv\<close> for a stream.
    \<open>Stream_Accept\<close>: callbacks that answer 0 cannot be told from no callbacks, and a stream within the
    caps runs to its end.
  \<^item> \<open>Request\<close> (\<open>request.c\<close>): UTF-8, URLs, headers, backends, requests and their bodies.
    \<open>Request_Utf8\<close>, \<open>Request_Headers\<close> and \<open>Request_Body\<close> hold the facts on them.
  \<^item> \<open>Client\<close> (\<open>client.c\<close> up to \<open>kobold_abort_assist\<close>): the client, the debug log, one round trip.
    \<open>Engine\<close> (the rest of \<open>client.c\<close>): \<open>chat_common\<close> as steps on the record \<open>chat_state\<close>, in the
    order of the source: prepare, run, record, decide. \<open>backend_loop\<close> is the inner loop and
    \<open>chat_backends\<close> the chain.
  \<^item> \<open>Engine_Rounds\<close>: rules for the two loops and frames of the steps. \<open>Engine_Log\<close>: the attempt records.
    \<open>Engine_Commit\<close>: what callbacks see. \<open>Engine_Success\<close>: a call whose first answer is good.
    \<open>Engine_Fallback\<close>: backends that are down are left, the next one serves the call.
    \<open>Engine_Stream\<close>: the same for a streaming call. \<open>Engine_Types\<close>: results and records are well typed.
    \<open>Stream_Oversized\<close>: a stream that exceeds the cap, and the streaming attempts after it (\<open>retried\<close>).
    \<open>Engine_Telemetry\<close>: what \<open>on_attempt\<close> is told (locale \<open>attempt_listener\<close>).
    \<open>Client_Facts\<close>: created clients, bounds, the debug log, a set token.
  \<^item> \<open>Transport\<close>: the protocol between client and transport as \<open>sicha.h\<close> states it (locale \<open>transport\<close>).
  \<^item> \<open>Cancel\<close> (\<open>cancel.c\<close>): the token, its threads as a step relation, the built-in clock, and the
    contract of a clock (locale \<open>clock\<close>), interpreted on the built-in clock. \<open>Timedwait\<close>
    (\<open>sicha_thread.h\<close>): the timed wait on a condition variable, for POSIX and for Win32.
  \<^item> \<open>Script\<close> (\<open>transport_script.c\<close>): the scripted transport; interpretation of \<open>transport\<close>.
  \<^item> \<open>Curl\<close> and \<open>Curl_Perform\<close> (\<open>transport_curl.c\<close>): callbacks, codes, the pool of handles, and the
    transfer with its deadlines. \<open>Curl_Threads\<close>: the pool with its mutex, as a step relation of
    any number of threads that take and give back handles. \<open>Curl_Deadlines\<close>: transfers with a total
    timeout end, and timeouts are reported when they are due. \<open>Curl_Headers\<close>: the header block of a
    response, from its lines to the sink.
  \<^item> \<open>Sse_Frame\<close>: an invariant of the parser, the caller's state and the memory through a parse (locale
    \<open>parser_frame\<close>). \<open>Fuzz_Sse\<close>, \<open>Fuzz_Response\<close>, \<open>Fuzz_Request\<close>, \<open>Fuzz_Client\<close> (\<open>fuzz\<close>): the fuzz harnesses as functions
    that tell whether all their assertions hold on an input. \<open>Fuzz_Client\<close> interprets \<open>clock\<close> on the
    clock of the harness and \<open>attempt_listener\<close> on its callbacks.
  \<^item> \<open>Examples\<close> and \<open>Examples_Chain\<close>: the concrete inputs of the witnesses. This theory: the properties.

  \<^bold>\<open>How the code is modelled.\<close> A \<open>char\<close> is an 8-bit word, \<open>uint32_t\<close> and \<open>uint64_t\<close> are words of
  their width, \<open>size_t\<close> is a natural number below \<open>SIZE_MAX\<close> where the code tests for overflow, and
  signed results are integers. A pointer that may be NULL is an option. A \<open>struct_size\<close> field is
  the bool that it is right. A C string is a byte list that \<open>cstr\<close> cuts at the first NUL. Every
  function that allocates takes the outcomes of the coming allocations, a list of bools that
  ends in successes (\<open>mem\<close>, \<open>alloc\<close>); \<open>all_ok\<close> means enough memory. \<open>free\<close> is not modelled. A status code
  is a value, so every error path is a branch. Callbacks are functions on the state \<open>'w\<close> of their
  environment. A transfer is a tree: the transport reports the status line or a piece of the
  body, goes on with what the sink answers, or is done. The client's environment
  (\<open>client_env\<close>) is its clock, transport, token and log.

  \<^bold>\<open>Parameters.\<close> The text parser and the writer of yyjson (\<open>json_reader\<close>, \<open>json_writer\<close>), libcurl (\<open>libcurl\<close>:
  one call of \<open>curl_multi_perform\<close> is a tree of callback calls), the clock and the waits of
  the system (\<open>real_world\<close>: how late each coming reading is, how long each coming sleep lasts,
  when the token is triggered). What a property needs of them is a named hypothesis:
  \<open>\<forall>v. json_ok v \<longrightarrow> wr v \<noteq> None\<close> says that the writer accepts values of valid UTF-8 with finite numbers, and
  \<open>env_quiet\<close>, \<open>watches\<close> and \<open>counts_status\<close> that only the callbacks touch what they have seen.
  \<open>answers\<close> and \<open>streams\<close> describe a transport that delivers a response, \<open>refuses\<close> and \<open>errs\<close> one that does
  not, \<open>able\<close> a client, request, writer and token with which nothing but the transport can fail.
  \<open>reads_back\<close> says that the reader gives back a value that the writer has written, up to the
  representation of numbers. \<open>paced\<close> says that time is not turned back, that a poll takes time or uses up one of finitely many
  rounds of a millisecond, and that libcurl has a message when nothing runs any more. \<open>observed\<close> says that
  the world keeps the time at which libcurl last handed over a line or a piece of the response
  (\<open>heard\<close>) and the number of statuses the sink was told (\<open>told\<close>).

  \<^bold>\<open>Loops.\<close> \<open>backend_loop\<close> ends because every repeated attempt uses up a retry or a validation retry. The
  loops of the built-in clock end because every round uses up a scheduled wait or brings the
  clock forward. \<open>delay_loop\<close> and \<open>multi_loop\<close> may run forever (with a clock that stands still, with
  a libcurl that never finishes) and are partial functions into options; \<open>delay_exact\<close> shows
  that the first ends on the built-in clock, \<open>curl_deadlines\<close> that the second ends when there is a
  total timeout. No fuel is used.

  \<^bold>\<open>What is shown.\<close> Calls: a good answer reaches the caller unaltered (\<open>chat_delivers\<close>), also from
  behind backends that are down (\<open>fallback_serves_call\<close>) and as a stream (\<open>stream_delivers\<close>); every
  result is well typed (\<open>result_well_typed\<close>), callbacks see
  exactly the text of the result (\<open>callbacks_see_result\<close>), the records tell the history
  (\<open>chat_call_log\<close>) and are told to \<open>on_attempt\<close> (\<open>attempts_told\<close>), attempts are bounded, a set token stops a call before it sends. Streams and
  bodies: the parser implements its reference for every partition, cap and allocator, and
  results hold what was sent. Requests: bodies and headers are well formed, injection is
  impossible, the cancellation assist stays on its origin. Decisions: classification, backoff and
  Retry-After, computed without wrap-around. Tokens, clocks, transports: no wake-up is lost,
  waits last, protocols and caps are kept, handles are neither lost nor shared between threads.
  Fuzz harnesses: the assertions of three of them hold on every input, over the whole library with
  the scripted transport in one case (\<open>fuzz_client_never_aborts\<close>); the fourth aborts on some valid
  inputs, and \<open>fuzz_request_exact\<close> says on which. \<open>oversized_text_sticks\<close> shows a defect: an oversized stream
  spoils the streams after it.

  \<^bold>\<open>Not modelled.\<close> yyjson itself (vendored), the one-line wrappers of mutexes, condition variables and
  threads in \<open>sicha_thread.h\<close>, the functions that only free memory, the mutex of the scripted
  transport (its operations are atomic here) and the Win32 clock. Values of \<open>long\<close> in \<open>header_cb\<close> are unbounded: an absurdly long
  run of digits in a status line overflows in C. The sizes of structures in
  \<open>Fuzz_Request\<close> are those of LP64. The programs under \<open>demo\<close>, \<open>bench\<close>, \<open>tests\<close> and \<open>xxt\<close> use the library and are left out.
\<close>


section \<open>Calls\<close>

lemma ex_env_cancelled: "env_cancelled ex_env = None"
  by (simp add: ex_env_def)

text \<open>
  C1. A call whose transport answers the first request with a 2xx response and a reply that the
  caps and the policy accept succeeds after one attempt, and the result holds exactly the text,
  the reasoning and the body of that reply: memory, request and token permitting, nothing
  between the transport and the caller loses or alters a byte.
\<close>

theorem chat_delivers:
  assumes "client_ok rd c" "all_ok m" "sicha_request_validate rd req m = (SICHA_OK, m0)"
    and "answers env c (hd (c_backends c)) http body w" "200 \<le> http" "http \<le> 299" "good_reply rd c body rp"
    and "\<forall>s v. rd s = Some v \<longrightarrow> json_ok v" "\<forall>v. json_ok v \<longrightarrow> wr v \<noteq> None"
    and "\<forall>f w. env_cancelled env = Some f \<longrightarrow> \<not> f w"
    and "\<forall>f r w. cb_of cbs cb_validate = Some f \<longrightarrow> fst (f r w) = 0"
    and "case cbs of None \<Rightarrow> True | Some k \<Rightarrow> cb_struct_size_ok k"
  shows "\<exists>r c' w' m'. sicha_chat rd wr env (Some c) (Some req) cbs True w m = (SICHA_OK, Some r, c', w', m')
    \<and> r_status r = SICHA_OK \<and> buf_bytes (r_text r) = opt_bytes (rp_content rp)
    \<and> buf_bytes (r_reasoning r) = opt_bytes (rp_reasoning rp)
    \<and> take (r_raw_body_len r) (opt_bytes (r_raw_body r)) = body \<and> length (r_attempts r) = 1"
  using assms by (rule chat_succeeds)

theorem chat_delivers_witness:
  "\<exists>r c' w' m'. sicha_chat ex_reader ex_writer ex_env (Some ex_client) (Some ex_request) None True
      (ex_script, ex_time) [] = (SICHA_OK, Some r, c', w', m') \<and> buf_bytes (r_text r) = lit ''ok''"
proof -
  have "answers ex_env ex_client (hd (c_backends ex_client)) 200 (lit ''R'') (ex_script, ex_time)"
    using ex_answers by (simp add: ex_client_def)
  from chat_delivers [OF ex_client_ok _ ex_request_valid this _ _ ex_good_reply, of ex_writer None] ex_reader_ok
  have "\<exists>r c' w' m'. sicha_chat ex_reader ex_writer ex_env (Some ex_client) (Some ex_request) None True
      (ex_script, ex_time) [] = (SICHA_OK, Some r, c', w', m') \<and> buf_bytes (r_text r) = opt_bytes (Some (lit ''ok''))"
    by (simp add: ex_writer_def ex_env_cancelled cb_of_def del: lit_simps) blast
  then show ?thesis by (simp add: opt_bytes_def)
qed

text \<open>
  C4. The commit rule at work: after a streaming call, whatever was retried and however it
  ended, the deltas the callbacks have seen are the text (and the reasoning) of the result. A
  callback never sees bytes of an attempt that was given up. This is for the calls that keep to
  the rule: an accumulating call of a policy that does not allow retries after deltas (without
  SICHA_REQ_NO_ACCUMULATE and SICHA_POLICY_RETRY_AFTER_DELTAS).
\<close>

theorem callbacks_see_result:
  assumes "env_quiet (\<lambda>w. (st w, sr w)) env" "watches st sr cbs"
    and "pol_flags (c_policy c) AND SICHA_POLICY_RETRY_AFTER_DELTAS = 0" "rq_flags req AND SICHA_REQ_NO_ACCUMULATE = 0"
    and "sicha_chat_stream rd wr env (Some c) (Some req) cbs out_set w m = (final, Some r, client', w', m')"
  shows "(cb_of cbs cb_on_delta \<noteq> None \<longrightarrow> st w' = st w @ buf_bytes (r_text r))
    \<and> (cb_of cbs cb_on_reasoning \<noteq> None \<longrightarrow> sr w' = sr w @ buf_bytes (r_reasoning r))"
  using assms by (rule chat_stream_saw)

theorem callbacks_see_result_witness:
  "\<exists>st r c' w' m'. sicha_chat_stream ex_reader ex_writer ex_stream_env (Some ex_client) (Some ex_request)
      (Some ex_callbacks) True [] [] = (st, Some r, c', w', m') \<and> w' = buf_bytes (r_text r)"
proof -
  obtain st r c' w' m' where run: "sicha_chat_stream ex_reader ex_writer ex_stream_env (Some ex_client)
      (Some ex_request) (Some ex_callbacks) True [] [] = (st, Some r, c', w', m')"
    using chat_has_result [OF _ ex_request_valid, of "Some ex_callbacks" ex_writer ex_stream_env ex_client True "[]"]
    unfolding sicha_chat_stream_def by (auto simp: ex_callbacks_def)
  have q: "env_quiet (\<lambda>w. (w, [])) ex_stream_env" by (simp add: env_quiet_def ex_stream_env_def)
  have W: "watches (\<lambda>w. w) (\<lambda>w. []) (Some ex_callbacks)" by (simp add: watches_def traces_def ex_callbacks_def cb_of_def)
  have "pol_flags (c_policy ex_client) AND SICHA_POLICY_RETRY_AFTER_DELTAS = 0" "rq_flags ex_request AND SICHA_REQ_NO_ACCUMULATE = 0"
    by (simp_all add: ex_client_def ex_policy_def ex_request_def)
  from callbacks_see_result [OF q W this run] run show ?thesis by (auto simp: ex_callbacks_def cb_of_def)
qed

text \<open>
  C5. The attempt records of a call are its history: numbered from 0 through the call and within
  each backend, grouped by backend in the order of the client, every record but the last of a
  backend one that may be repeated, every backend left because its last record moves on, and the
  final status is the one the last record asks for (OK, aborted, cancelled, or exhausted after
  all backends). So a call makes at most max_tries + validation_retries attempts per backend,
  whatever the servers answer.
\<close>

theorem chat_call_log:
  assumes "client_ok rd c"
    "chat_common rd wr env (Some c) request cbs out_set stream w m = (st, Some r, client', w', m')"
  shows "r_status r = st \<and> call_log c st (r_attempts r)
    \<and> length (r_attempts r) \<le> length (c_backends c) *
        (unat (max_tries (c_policy c)) + unat (validation_retries (c_policy c)))"
  using chat_common_log [OF assms] call_log_bound assms(1) by (force simp: client_ok_def budget_resolved)

theorem chat_call_log_witness:
  "\<exists>st r c' w' m'. chat_common ex_reader ex_writer ex_stream_env (Some ex_client) (Some ex_request)
      (Some ex_callbacks) True True [] [] = (st, Some r, c', w', m') \<and> call_log ex_client st (r_attempts r)
    \<and> length (r_attempts r) \<le> 3"
proof -
  obtain st r c' w' m' where run: "chat_common ex_reader ex_writer ex_stream_env (Some ex_client)
      (Some ex_request) (Some ex_callbacks) True True [] [] = (st, Some r, c', w', m')"
    using chat_has_result [OF _ ex_request_valid, of "Some ex_callbacks" ex_writer ex_stream_env ex_client True "[]"]
    by (auto simp: ex_callbacks_def)
  from chat_call_log [OF ex_client_ok run] run show ?thesis by (auto simp: ex_client_def ex_policy_def)
qed

text \<open>
  C8. A call with a token that is already set sends nothing, logs nothing and calls no callback:
  the world is untouched, there is no attempt record, and the status says cancelled unless
  memory ran out.
\<close>

theorem cancelled_before_start:
  assumes "c_backends c \<noteq> []" "env_cancelled env = Some f" "f w"
    "chat_common rd wr env (Some c) request cbs out_set stream w m = (st, Some r, client', w', m')"
  shows "w' = w \<and> r_attempts r = [] \<and> st \<in> {SICHA_E_CANCELLED, SICHA_E_NOMEM}"
  using assms by (rule chat_cancelled)

theorem cancelled_before_start_witness:
  "\<exists>st r c' m'. chat_common ex_reader ex_writer (ex_stream_env\<lparr>env_cancelled := Some (\<lambda>w. True)\<rparr>) (Some ex_client)
      (Some ex_request) (Some ex_callbacks) True True [] [] = (st, Some r, c', [], m') \<and> r_attempts r = []"
proof -
  let ?env = "ex_stream_env\<lparr>env_cancelled := Some (\<lambda>w. True)\<rparr>"
  obtain st r c' w' m' where run: "chat_common ex_reader ex_writer ?env (Some ex_client)
      (Some ex_request) (Some ex_callbacks) True True [] [] = (st, Some r, c', w', m')"
    using chat_has_result [OF _ ex_request_valid, of "Some ex_callbacks" ex_writer ?env ex_client True "[]"]
    by (auto simp: ex_callbacks_def)
  from cancelled_before_start [OF _ _ _ run] run show ?thesis by (auto simp: ex_client_def)
qed

section \<open>Clients, waits and the debug log\<close>

text \<open>
  C21. A client that sicha_client_create hands out meets the precondition of the engine: at
  least one backend, all of them well formed, a resolved policy with valid overrides, a safe
  User-Agent, a nonzero seed and nonzero caps.
\<close>

theorem client_created_ok:
  assumes "sicha_client_create rd pe (Some opts) m = (st, Some c, m')"
    and "\<forall>ds. o_backends opts = Some ds \<longrightarrow> o_n_backends opts \<le> length ds"
  shows "st = SICHA_OK \<and> client_ok rd c \<and> length (c_backends c) = o_n_backends opts
    \<and> c_policy c = sicha_policy_resolve (o_retry opts) \<and> c_req_counter c = 0"
  using assms by (rule client_create_ok)

definition ex_opts :: sicha_client_opts where
  "ex_opts = \<lparr>o_struct_size_ok = True, o_backends = Some [ex_desc], o_n_backends = 1, o_retry = ex_policy,
     o_transport = Some \<lparr>ts_struct_size_ok = True, ts_perform_set = True\<rparr>, o_clock = None, o_prng_seed = 1,
     o_max_response_bytes = 9, o_max_event_bytes = 9, o_user_agent = None\<rparr>"

definition ex_process :: process_env where
  "ex_process = \<lparr>pe_with_curl = False, pe_curl_created = False, pe_now = 0, pe_address = 0, pe_sicha_debug = None,
     pe_debug_opens = False\<rparr>"

theorem client_created_ok_witness:
  "client_ok ex_reader (the (fst (snd (sicha_client_create ex_reader ex_process (Some ex_opts) []))))"
proof -
  have "fst (sicha_client_create ex_reader ex_process (Some ex_opts) []) = SICHA_OK
    \<and> fst (snd (sicha_client_create ex_reader ex_process (Some ex_opts) [])) \<noteq> None" by code_simp
  then obtain c m' where c: "sicha_client_create ex_reader ex_process (Some ex_opts) [] = (SICHA_OK, Some c, m')"
    by (metis not_Some_eq prod.collapse)
  have "client_ok ex_reader c" using client_created_ok [OF c] by (simp add: ex_opts_def)
  then show ?thesis by (simp add: c)
qed

text \<open>
  C22. The debug log of a request does not give the API key away. For a chat request, with the
  headers that sicha_build_headers makes, two keys give the same text. For the request of the
  cancellation assist, which leaves its Authorization header out when the key does not fit a
  buffer (504 bytes and more), two keys give the same text if both fit or neither does: so the
  log tells at most whether the key is that long.
\<close>

theorem debug_log_hides_key:
  assumes "b_api_key b = Some k" "sicha_build_headers b stream ua m = (SICHA_OK, Some hs, m1)"
    and "sicha_build_headers (b\<lparr>b_api_key := Some k'\<rparr>) stream ua m' = (SICHA_OK, Some hs', m1')"
  shows "debug_request_text (chat_http_request b body hs) =
      debug_request_text (chat_http_request (b\<lparr>b_api_key := Some k'\<rparr>) body hs')
    \<and> ((strlen k < AUTH_SIZE - 8 \<longleftrightarrow> strlen k' < AUTH_SIZE - 8) \<longrightarrow>
      debug_request_text (abort_http_request b url) =
        debug_request_text (abort_http_request (b\<lparr>b_api_key := Some k'\<rparr>) url))"
  using built_log_hides_key [OF assms] abort_log_hides_key [OF assms(1)] by blast

lemma ex_other_headers:
  "sicha_build_headers (ex_backend\<lparr>b_api_key := Some (lit ''other'')\<rparr>) True (lit ''ua'') [] =
     (SICHA_OK, Some (generated_headers (ex_backend\<lparr>b_api_key := Some (lit ''other'')\<rparr>) True (lit ''ua'')), [])"
  by code_simp

theorem debug_log_hides_key_witness:
  "let b' = ex_backend\<lparr>b_api_key := Some (lit ''other'')\<rparr> in
     debug_request_text (chat_http_request ex_backend (lit ''x'') (generated_headers ex_backend True (lit ''ua''))) =
       debug_request_text (chat_http_request b' (lit ''x'') (generated_headers b' True (lit ''ua'')))
   \<and> hr_headers (abort_http_request ex_backend (lit ''u'')) \<noteq> hr_headers (abort_http_request b' (lit ''u''))
   \<and> debug_request_text (abort_http_request ex_backend (lit ''u'')) = debug_request_text (abort_http_request b' (lit ''u''))"
proof -
  have k: "b_api_key ex_backend = Some (lit ''key'')" by code_simp
  have "strlen (lit ''key'') < AUTH_SIZE - 8" "strlen (lit ''other'') < AUTH_SIZE - 8" by code_simp+
  moreover have "hr_headers (abort_http_request ex_backend (lit ''u'')) \<noteq>
      hr_headers (abort_http_request (ex_backend\<lparr>b_api_key := Some (lit ''other'')\<rparr>) (lit ''u''))" by code_simp
  ultimately show ?thesis
    using debug_log_hides_key [OF k ex_headers ex_other_headers, of "lit ''x''" "lit ''u''"]
    by (simp add: Let_def del: lit_simps)
qed


section \<open>Streams\<close>

text \<open>
  C10. On any byte stream within the cap and with enough memory, the incremental SSE parser
  hands over exactly the events of the reference semantics sse_events (BOM stripped, all three
  line ends, data lines joined, an unfinished last event flushed) and reports success.
\<close>

theorem sse_parses_reference:
  assumes "length bs < SIZE_MAX" "max_ev = 0 \<or> length bs \<le> max_ev" "all_ok m"
  shows "\<exists>p' m'. sse_run (Some collect) (sicha_sse_init max_ev) bs [] m = (0, p', sse_events bs, m')"
  using assms by (rule sse_run_events)

theorem sse_parses_reference_witness:
  "\<exists>p' m'. sse_run (Some collect) (sicha_sse_init 0) (lit ''data: a'' @ [10, 10]) [] [] = (0, p', [lit ''a''], m')"
  using sse_parses_reference [of "lit ''data: a'' @ [10, 10]" 0 "[]"]
  by (simp add: SIZE_MAX_def sse_events_def strip_bom_def group_events.simps flush_event_def is_data_line_def
      field_name_def field_value_def bom_def)

text \<open>
  C12. Two ways of cutting the same bytes into network reads cannot be told apart: same return
  code, same parser, same callback state, same allocations, for every callback and every failure
  of the allocator.
\<close>

theorem sse_partition_independent:
  assumes "sse_err p = SICHA_OK" "concat cs = concat ds"
  shows "feed_chunks (sse_feed_state f) (p, s, m) cs = feed_chunks (sse_feed_state f) (p, s, m) ds"
  using assms(2) by (intro sse.feed_chunks_partition) (simp_all add: sse_ready_def assms(1))

theorem sse_partition_independent_witness:
  "feed_chunks (sse_feed_state (Some collect)) (sicha_sse_init 9, [], []) [lit ''da'', lit ''ta''] =
     feed_chunks (sse_feed_state (Some collect)) (sicha_sse_init 9, [], []) [lit ''dat'', [], lit ''a'']"
  by (rule sse_partition_independent) (simp_all add: sicha_sse_init_def)

text \<open>
  C14. Whatever the callback does and whenever memory runs out, the events handed over are a
  prefix of the reference events, all of them when the parser reports 0; a nonzero code of the
  callback stops the parser at that event and is returned verbatim. (The callback itself does
  not take memory away from the parser.)
\<close>

theorem sse_events_prefix:
  assumes "sse_run (Some f) (sicha_sse_init max_ev) bs s m = (rc, p', s', m')" "mem_keeps f"
  shows "\<exists>evs rest rc'. sse_events bs = evs @ rest \<and> processed False f s evs s' rc'
    \<and> (rc = 0 \<longrightarrow> rest = [] \<and> rc' = 0) \<and> (rc' = 0 \<longrightarrow> rc = 0 \<or> rc = -1) \<and> (rc' \<noteq> 0 \<longrightarrow> rc = rc')"
  using sse_run_part [OF assms(1) _ assms(2), of False] by (simp add: part_of_def)

text \<open>A callback that collects the events and stops with 7 at the second one, and three events.\<close>

definition ex_stopper :: "bytes list on_event" where
  "ex_stopper d s m = (if s = [] then 0 else 7, s @ [d], m)"

definition ex_three :: bytes where
  "ex_three = lit ''data: a'' @ [10, 10] @ lit ''data: b'' @ [13, 10, 10] @ lit ''data: c'' @ [10, 10]"

lemma ex_three_events: "sse_events ex_three = [lit ''a'', lit ''b'', lit ''c'']"
  by (simp add: ex_three_def sse_events_def strip_bom_def group_events.simps flush_event_def is_data_line_def
      field_name_def field_value_def bom_def)

lemma ex_stopper_processed:
  "processed ok ex_stopper s evs s' rc \<Longrightarrow> s' = s @ evs
     \<and> (if rc = 0 then evs = [] \<or> s = [] \<and> length evs = 1 else rc = 7 \<and> length evs = (if s = [] then 2 else 1))"
  by (induction rule: processed.induct) (auto simp: ex_stopper_def split: if_splits)

theorem sse_events_prefix_witness:
  "\<exists>p m. sse_run (Some ex_stopper) (sicha_sse_init 0) ex_three [] [] = (7, p, [lit ''a'', lit ''b''], m)
   \<and> sse_events ex_three = [lit ''a'', lit ''b''] @ [lit ''c'']
   \<and> processed False ex_stopper [] [lit ''a'', lit ''b''] [lit ''a'', lit ''b''] 7"
proof -
  obtain rc p s m where R: "sse_run (Some ex_stopper) (sicha_sse_init 0) ex_three [] [] = (rc, p, s, m)"
    by (metis prod_cases4)
  have k: "mem_keeps ex_stopper" by (simp add: mem_keeps_def ex_stopper_def)
  from sse_events_prefix [OF R k] obtain evs rest rc' where
    E: "sse_events ex_three = evs @ rest" "processed False ex_stopper [] evs s rc'"
      "rc = 0 \<longrightarrow> rest = [] \<and> rc' = 0" "rc' = 0 \<longrightarrow> rc = 0 \<or> rc = -1" "rc' \<noteq> 0 \<longrightarrow> rc = rc'" by blast
  note P = ex_stopper_processed [OF E(2)]
  have "length ex_three < SIZE_MAX" by (simp add: ex_three_def SIZE_MAX_def)
  from sse_run_alive [OF this _ _ k R] have "rc = 0 \<or> rc = 7"
    by (auto simp: stopped_by_def ex_stopper_def split: if_splits)
  moreover have "length evs + length rest = 3" using arg_cong [OF E(1), of length] by (simp add: ex_three_events)
  ultimately have c: "rc = 7" "rc' = 7" "s = evs" "length evs = 2" using P E(3-5) by (auto split: if_splits)
  have "evs = take (length evs) (sse_events ex_three)" "rest = drop (length evs) (sse_events ex_three)"
    using E(1) by simp_all
  with c(4) have "evs = [lit ''a'', lit ''b'']" "rest = [lit ''c'']"
    by (simp_all add: ex_three_events numeral_2_eq_2 del: lit_simps)
  with E R c show ?thesis by (simp del: lit_simps)
qed

text \<open>
  C11. With enough memory, a chat-completion stream that ends normally leaves in the result the
  old text followed by the content of every chunk before [DONE], likewise the reasoning; the
  stream counts as done exactly when [DONE] is one of its events.
\<close>

theorem stream_assembles_text:
  assumes "sse_run (Some (sicha_stream_on_event rd cbs)) (sicha_sse_init max_ev) bs (ctx, w) m
      = (rc, p', (ctx', w'), m')"
    and "all_ok m" "ctx_live ctx" "sc_accumulate ctx" "rc = 0 \<or> rc = SICHA_STREAM_STOP"
  shows "buf_bytes (r_text (sc_r ctx')) = buf_bytes (r_text (sc_r ctx)) @ stream_text rd (sse_events bs)
    \<and> buf_bytes (r_reasoning (sc_r ctx'))
        = buf_bytes (r_reasoning (sc_r ctx)) @ stream_reasoning rd (sse_events bs)
    \<and> sc_done ctx' = (sc_done ctx \<or> rc = SICHA_STREAM_STOP)
    \<and> (rc = SICHA_STREAM_STOP \<longleftrightarrow> lit ''[DONE]'' \<in> set (sse_events bs))"
  using stream_run_text [OF assms] by blast

theorem stream_assembles_text_witness:
  "\<exists>p ctx m. sse_run (Some (sicha_stream_on_event ex_reader None)) (sicha_sse_init 0) ex_stream_bytes
       (sicha_stream_ctx_init (fresh_result 0) True, ()) [] = (SICHA_STREAM_STOP, p, (ctx, ()), m)
   \<and> buf_bytes (r_text (sc_r ctx)) = lit ''ok'' \<and> sc_done ctx"
proof -
  let ?ctx = "sicha_stream_ctx_init (fresh_result 0) True"
  obtain rc p s m where "sse_run (Some (sicha_stream_on_event ex_reader None)) (sicha_sse_init 0) ex_stream_bytes (?ctx, ()) [] = (rc, p, s, m)"
    by (metis prod_cases4)
  then have R: "sse_run (Some (sicha_stream_on_event ex_reader None)) (sicha_sse_init 0) ex_stream_bytes (?ctx, ()) [] = (rc, p, (fst s, ()), m)"
    by (cases s) simp
  have i: "ctx_live ?ctx" "sc_accumulate ?ctx" "buf_bytes (r_text (sc_r ?ctx)) = []"
    by (simp_all add: ctx_live_def sicha_stream_ctx_init_def fresh_result_def)
  have "room ?ctx 2 0"
    by (simp add: room_def fits_def sicha_stream_ctx_init_def fresh_result_def finish_of_def SIZE_MAX_def)
  then have "room ?ctx (length (stream_text ex_reader (sse_events ex_stream_bytes)))
      (length (stream_reasoning ex_reader (sse_events ex_stream_bytes)))"
    unfolding ex_stream_events ex_stream_content by (simp add: numeral_2_eq_2)
  from stream_run_fits [OF _ _ _ i(1,2) this R] have rc: "rc = 0 \<or> rc = SICHA_STREAM_STOP"
    by (simp add: ex_stream_bytes_def SIZE_MAX_def)
  from stream_assembles_text [OF R _ i(1,2) rc] i(3)
  have T: "buf_bytes (r_text (sc_r (fst s))) = lit ''ok''" "rc = SICHA_STREAM_STOP" "sc_done (fst s)"
    unfolding ex_stream_events ex_stream_content by (auto simp del: lit_simps)
  show ?thesis
    using R T(1,3) unfolding T(2) by blast
qed

section \<open>Buffers\<close>

text \<open>
  C38. Appending to the growable buffer implements appending to a byte sequence with a limit and
  a sticky error, and keeps the buffer well formed (NUL after the content, capacity and limit
  respected).
\<close>

theorem buf_append_refines:
  assumes "buf_wf b" "sicha_buf_append b bs m = (b', m')"
  shows "buf_wf b' \<and> (\<exists>mem. buf_abs b' = abs_append mem (buf_abs b) bs
     \<and> (all_ok m \<and> buf_len b + length bs < SIZE_MAX \<longrightarrow> mem))"
  using sicha_buf_append_wf [OF assms] sicha_buf_append_refines [OF assms] by blast

theorem buf_append_refines_witness:
  "\<exists>b' m'. sicha_buf_append (sicha_buf_init 3) (lit ''abc'') [] = (b', m') \<and> buf_wf b' \<and> buf_bytes b' = lit ''abc''"
proof -
  obtain b' m' where a: "sicha_buf_append (sicha_buf_init 3) (lit ''abc'') [] = (b', m')" by fastforce
  from buf_append_refines [OF buf_wf_init a] a show ?thesis
    by (auto simp: buf_abs_def abs_append_def SIZE_MAX_def sicha_buf_init_def buf_bytes_def)
qed

section \<open>Classification and waiting\<close>

text \<open>
  C23. A round trip is classified as a success exactly when the transport succeeded, the status
  is 2xx, the body is complete and the policy does not reject the finish reason; it ends the
  whole call exactly when a response with a status that is not 2xx is mapped to abort by the
  first matching override or, without one, lies in 400..404.
\<close>

theorem classify_exact:
  assumes "validate_overrides (override_list p) = SICHA_OK"
  shows "(sicha_classify p ts http bs fin = SICHA_CLASS_NONE \<longleftrightarrow>
     ts = SICHA_T_OK \<and> 200 \<le> http \<and> http \<le> 299 \<and> bs = SICHA_BODY_OK \<and> \<not> finish_policed p fin)
    \<and> (sicha_classify p ts http bs fin = SICHA_CLASS_ABORT \<longleftrightarrow>
     ts = SICHA_T_OK \<and> \<not> (200 \<le> http \<and> http \<le> 299)
     \<and> (case lookup_override (override_list p) http of
          Some c \<Rightarrow> c = SICHA_CLASS_ABORT | None \<Rightarrow> 400 \<le> http \<and> http \<le> 404))"
  using classify_None_iff [OF assms] classify_abort_iff by (simp add: http_success_def)

theorem classify_exact_witness:
  "sicha_classify ex_policy SICHA_T_OK 204 SICHA_BODY_OK SICHA_FINISH_STOP = SICHA_CLASS_NONE
    \<and> sicha_classify ex_policy SICHA_T_OK 401 SICHA_BODY_OK SICHA_FINISH_STOP = SICHA_CLASS_ABORT"
proof -
  have "lookup_override (override_list ex_policy) 401 = None" by code_simp
  with classify_exact [OF ex_policy_valid] show ?thesis by (simp add: finish_policed_def)
qed

text \<open>
  C24. The backoff is exactly min(base * 2^(k-1) + jitter, cap) over the naturals, for every
  32-bit k (0 counts as 1), every policy and every random number: the shifts and the addition of
  the code never wrap. The one exception is a base of 0, which no resolved policy has: from k =
  64 on the code then waits for the cap.
\<close>

theorem backoff_exact:
  "unat (sicha_backoff_ms p k r) =
     (if backoff_base_ms p = 0 \<and> 64 \<le> unat k then unat (backoff_cap_ms p)
      else min (unat (backoff_base_ms p) * 2 ^ (max 1 (unat k) - 1) + jitter_of p r) (unat (backoff_cap_ms p)))"
  by (rule sicha_backoff_ms_exact)

theorem backoff_exact_witness: "unat (sicha_backoff_ms ex_policy 3 7) = 4007"
  using backoff_exact [of ex_policy 3 7] by (simp add: ex_policy_def jitter_of_def SICHA_DISABLED_def)

text \<open>
  C25. Retry-After is read as optional blanks, decimal digits, optional blanks and nothing else,
  in milliseconds saturated at 10^15; everything else is no value.
\<close>

theorem retry_after_parses:
  "sicha_retry_after_ms (Some v) len =
     (case retry_after_spec (if len = SICHA_LEN_CSTR then cstr v else take len v) of
        None \<Rightarrow> UINT64_MAX | Some n \<Rightarrow> of_nat n)"
  by (rule sicha_retry_after_ms_spec)


section \<open>Bodies of responses\<close>



text \<open>
  C39. What the code does when the text of an accumulated stream exceeds the cap (on a result
  whose buffers have no error, with memory, with callbacks that let the stream go on, and with
  the reasoning and the events within their caps): the stream ends with -1 as too big; and the
  error stays in the buffer of the text through the resets of the content and any number of
  further streaming attempts of the call, whatever their transports answer, so that every later
  stream that has any text, however small, fails too and leaves the result without text (with
  memory and within the other caps, again with -1 as too big).
\<close>

theorem oversized_text_sticks:
  assumes "content_ok k r0" "buf_err (r_text r0) = SICHA_OK" "buf_err (r_reasoning r0) = SICHA_OK"
    and "sse_run (Some (sicha_stream_on_event rd cbs)) (sicha_sse_init ev) bs
      (sicha_stream_ctx_init ((sicha_result_reset_content r0)\<lparr>r_backend := i\<rparr>) True, w) m = (rc, p, (ctx, w'), m')"
    and "all_ok m" "accepts cbs" "length bs < SIZE_MAX" "ev = 0 \<or> length bs \<le> ev"
    and "0 < k" "k < length (stream_text rd (sse_events bs))" "length (stream_text rd (sse_events bs)) < SIZE_MAX"
      "length (stream_reasoning rd (sse_events bs)) \<le> k"
    and "(retried rd env c cbs)\<^sup>*\<^sup>* (sc_r ctx) r"
    and "sse_run (Some (sicha_stream_on_event rd cbs)) (sicha_sse_init ev2) bs2
      (sicha_stream_ctx_init ((sicha_result_reset_content r)\<lparr>r_backend := i2\<rparr>) True, w2) m2 = (rc2, p2, (ctx2, w2'), m2')"
    and "all_ok m2" "stream_text rd (sse_events bs2) \<noteq> []"
  shows "rc = -1 \<and> sc_err ctx = SICHA_INT_E_TOOBIG
    \<and> rc2 \<noteq> 0 \<and> rc2 \<noteq> SICHA_STREAM_STOP \<and> buf_bytes (r_text (sc_r ctx2)) = []
    \<and> (length bs2 < SIZE_MAX \<and> (ev2 = 0 \<or> length bs2 \<le> ev2) \<and> length (stream_text rd (sse_events bs2)) < SIZE_MAX
        \<and> buf_err (r_reasoning r) = SICHA_OK \<and> length (stream_reasoning rd (sse_events bs2)) \<le> k
       \<longrightarrow> rc2 = -1 \<and> sc_err ctx2 = SICHA_INT_E_TOOBIG)"
proof -
  have F: "rc = -1" "burst ctx" "spoilt k (sc_r ctx)"
    using oversized_bursts [OF assms(7,8,5,6,1-3,9-12,4)] by auto
  have S: "spoilt k r" by (rule retried_spoilt [OF assms(13) F(3)])
  show ?thesis
    using F(1,2) spoilt_stream(1) [OF S assms(14)] spoilt_stream_fails [OF S assms(15,16,14)] assms(9-12)
      spoilt_stream_bursts [OF _ _ assms(15,6) S assms(16) _ _ _ _ assms(14)]
    by (auto simp: burst_def)
qed

definition ex_long_bytes :: bytes where
  "ex_long_bytes = lit ''data: C'' @ [10, 10] @ lit ''data: C'' @ [10, 10]"

lemma ex_long_events: "sse_events ex_long_bytes = [lit ''C'', lit ''C'']"
  by (simp add: ex_long_bytes_def sse_events_def strip_bom_def group_events.simps flush_event_def is_data_line_def
      field_name_def field_value_def bom_def)

lemma ex_long_content:
  "stream_text ex_reader [lit ''C'', lit ''C''] = lit ''okok''" "stream_reasoning ex_reader [lit ''C'', lit ''C''] = []"
  by code_simp+

text \<open>
  With a cap of two bytes: the stream of four bytes fails, and so does the stream of two bytes
  that follows it, also after an attempt that was refused in between.
\<close>

theorem oversized_text_sticks_witness:
  "\<exists>rc p ctx m out r w' m' rc2 p2 ctx2 m2.
     sse_run (Some (sicha_stream_on_event ex_reader None)) (sicha_sse_init 0) ex_long_bytes
       (sicha_stream_ctx_init ((sicha_result_reset_content (fresh_result 2))\<lparr>r_backend := 0\<rparr>) True, ()) []
       = (rc, p, (ctx, ()), m)
   \<and> run_attempt ex_reader (ex_net_env ex_stream_once) ex_chain ex_backend_down [] [] None
       ((sicha_result_reset_content (sc_r ctx))\<lparr>r_backend := 0\<rparr>) True True () [] = (out, r, w', m')
   \<and> sse_run (Some (sicha_stream_on_event ex_reader None)) (sicha_sse_init 0) ex_stream_bytes
       (sicha_stream_ctx_init ((sicha_result_reset_content r)\<lparr>r_backend := 0\<rparr>) True, ()) []
       = (rc2, p2, (ctx2, ()), m2)
   \<and> stream_text ex_reader (sse_events ex_stream_bytes) = lit ''ok''
   \<and> rc = -1 \<and> sc_err ctx = SICHA_INT_E_TOOBIG \<and> rc2 \<noteq> 0 \<and> rc2 \<noteq> SICHA_STREAM_STOP \<and> buf_bytes (r_text (sc_r ctx2)) = []"
proof -
  let ?f = "sicha_stream_on_event ex_reader None"
  let ?init = "\<lambda>r. (sicha_stream_ctx_init ((sicha_result_reset_content r)\<lparr>r_backend := 0\<rparr>) True, ())"
  obtain rc p s m where "sse_run (Some ?f) (sicha_sse_init 0) ex_long_bytes (?init (fresh_result 2)) [] = (rc, p, s, m)"
    by (metis prod_cases4)
  then have R: "sse_run (Some ?f) (sicha_sse_init 0) ex_long_bytes (?init (fresh_result 2)) [] = (rc, p, (fst s, ()), m)" by (cases s) simp
  define ctx where "ctx = fst s"
  note R = R [folded ctx_def]
  obtain out r w' m' where a: "run_attempt ex_reader (ex_net_env ex_stream_once) ex_chain ex_backend_down [] [] None
      ((sicha_result_reset_content (sc_r ctx))\<lparr>r_backend := 0\<rparr>) True True () [] = (out, r, w', m')"
    by (metis prod_cases4)
  then have "retried ex_reader (ex_net_env ex_stream_once) ex_chain None (sc_r ctx) r" unfolding retried_def by blast
  then have r: "(retried ex_reader (ex_net_env ex_stream_once) ex_chain None)\<^sup>*\<^sup>* (sc_r ctx) r" by blast
  obtain rc2 p2 s2 m2 where "sse_run (Some ?f) (sicha_sse_init 0) ex_stream_bytes (?init r) [] = (rc2, p2, s2, m2)"
    by (metis prod_cases4)
  then have R2: "sse_run (Some ?f) (sicha_sse_init 0) ex_stream_bytes (?init r) [] = (rc2, p2, (fst s2, ()), m2)" by (cases s2) simp
  have c: "content_ok 2 (fresh_result 2)" "buf_err (r_text (fresh_result 2)) = SICHA_OK"
    "buf_err (r_reasoning (fresh_result 2)) = SICHA_OK" by (simp_all add: content_fresh) (simp_all add: fresh_result_def)
  have t: "stream_text ex_reader (sse_events ex_stream_bytes) = lit ''ok''"
    unfolding ex_stream_events by (rule ex_stream_content)
  have h: "length ex_long_bytes < SIZE_MAX" "2 < length (stream_text ex_reader (sse_events ex_long_bytes))"
    "length (stream_text ex_reader (sse_events ex_long_bytes)) < SIZE_MAX"
    "length (stream_reasoning ex_reader (sse_events ex_long_bytes)) \<le> 2"
    unfolding ex_long_events ex_long_content by (simp_all add: ex_long_bytes_def SIZE_MAX_def)
  have "stream_text ex_reader (sse_events ex_stream_bytes) \<noteq> []" unfolding t by simp
  from oversized_text_sticks [OF c R _ _ h(1) _ _ h(2-4) r R2 _ this]
  have "rc = -1 \<and> sc_err ctx = SICHA_INT_E_TOOBIG \<and> rc2 \<noteq> 0 \<and> rc2 \<noteq> SICHA_STREAM_STOP
      \<and> buf_bytes (r_text (sc_r (fst s2))) = []"
    by (simp add: accepts_def)
  with a R R2 t show ?thesis by blast
qed

section \<open>Requests\<close>

text \<open>
  C40. The UTF-8 validator accepts exactly the concatenations of encodings of Unicode scalar
  values: no overlong forms, no surrogates, nothing above U+10FFFF.
\<close>

theorem utf8_valid_iff:
  "sicha_utf8_valid (Some bs) (length bs) \<longleftrightarrow>
     (\<exists>cps. (\<forall>n \<in> set cps. scalar_value n) \<and> bs = concat (map utf8_encode cps))"
  by (simp add: sicha_utf8_valid_def utf8_scan_iff)

theorem utf8_valid_iff_witness:
  "sicha_utf8_valid (Some [0xE2, 0x82, 0xAC]) 3"
proof -
  let ?bs = "[0xE2, 0x82, 0xAC] :: bytes"
  have "?bs = concat (map utf8_encode [0x20AC])" "\<forall>n \<in> set [0x20AC]. scalar_value n"
    by (simp_all add: utf8_encode_def scalar_value_def)
  then have "sicha_utf8_valid (Some ?bs) (length ?bs)"
    unfolding utf8_valid_iff by blast
  then show ?thesis by (simp add: numeral_3_eq_3)
qed

text \<open>
  C20. A backend that sicha_backend_init accepts is well formed: a valid URL with the
  completions URL derived from it, a nonempty UTF-8 model, a safe key, safe and unreserved extra
  headers, an extra body that is an object, and nonzero timeouts. The cancellation assist posts
  to the origin of the configured base URL and to no other host.
\<close>

theorem backend_init_wf:
  assumes "sicha_backend_init rd desc m = (SICHA_OK, b, m')"
  shows "backend_wf rd b
    \<and> (\<forall>u. b_url_abort b = Some u \<longrightarrow>
         (\<exists>base path. b_base_url b = Some base \<and> base = url_origin base @ path \<and> (path = [] \<or> hd path = 0x2F)
            \<and> u = url_origin base @ lit ''/api/extra/abort'' \<and> 0x2F \<notin> set (drop (scheme_len base) (url_origin base))))"
  using sicha_backend_init_wf [OF assms] url_origin_prefix
  by (fastforce simp: backend_wf_def simp del: lit_simps)

theorem backend_init_wf_witness:
  "backend_wf ex_reader ex_backend
    \<and> (\<exists>base. b_base_url ex_backend = Some base \<and> b_url_abort ex_backend = Some (url_origin base @ lit ''/api/extra/abort''))"
proof -
  have "b_url_abort ex_backend = Some (lit ''http://h/api/extra/abort'')" by code_simp
  with backend_init_wf [OF ex_backend_init] show ?thesis by fastforce
qed

text \<open>
  C17. Every header of a chat request (those that sicha_build_headers makes) for an accepted
  backend has a token as its name and a value without control bytes, so that no CR, LF or NUL
  can inject a header; Content-Type, Accept, User-Agent and, with a key, Authorization are sent
  exactly once under any spelling, and no extra header can set Content-Length, Host or Transfer-
  Encoding.
\<close>

theorem headers_sound:
  assumes "backend_wf rd b" "safe_value (cstr ua)" "sicha_build_headers b stream ua m = (SICHA_OK, Some hs, m')"
  shows "(\<forall>h \<in> set hs. header_safe h) \<and> (\<forall>r \<in> set (own_names b). length (filter (named r) hs) = 1)
    \<and> (\<forall>r \<in> set framing_names. filter (named r) hs = [])"
  using build_headers_safe [OF assms] build_headers_unique [OF assms(1,3)] by blast

theorem headers_sound_witness:
  "list_all header_safe (generated_headers ex_backend True (lit ''ua''))
    \<and> length (filter (named (lit ''Authorization'')) (generated_headers ex_backend True (lit ''ua''))) = 1"
proof -
  have "safe_value (cstr (lit ''ua''))" by (simp add: safe_value_def cstr_def)
  moreover have "lit ''Authorization'' \<in> set (own_names ex_backend)" by code_simp
  ultimately show ?thesis using headers_sound [OF ex_backend_wf _ ex_headers] unfolding list_all_iff by blast
qed

text \<open>
  C18. The serialized body is an object without duplicate keys in which a member of
  extra_body_json wins over the library's own member of the same key, and every other key keeps
  the value the request gives it. And for a validated request, with enough memory, the body is
  always built: nothing the validation lets through can make the writer fail.
\<close>

theorem body_members:
  assumes "backend_wf rd b"
  shows "(\<forall>m s m'. sicha_build_chat_body rd wr b req stream m = (SICHA_OK, Some s, m') \<longrightarrow>
      (\<exists>root. wr (JObj root) = Some s \<and> distinct (map fst root)
        \<and> (\<forall>key. obj_lookup root key =
             (case map_of (rev (extra_members rd b)) key of
                Some v \<Rightarrow> Some v | None \<Rightarrow> obj_lookup (own_members rd b req stream) key))))
    \<and> ((\<forall>s v. rd s = Some v \<longrightarrow> json_ok v) \<and> (\<forall>v. json_ok v \<longrightarrow> wr v \<noteq> None)
        \<and> (\<exists>mv mv'. sicha_request_validate rd req mv = (SICHA_OK, mv')) \<longrightarrow>
      (\<forall>m. all_ok m \<longrightarrow> (\<exists>s m'. sicha_build_chat_body rd wr b req stream m = (SICHA_OK, Some s, m'))))"
proof (intro conjI allI impI, goal_cases)
  case (1 m s m')
  from assms this show ?case by (rule build_chat_body_cases) (auto intro: chat_root_distinct chat_root_lookup)
next
  case (2 m)
  then show ?case using build_chat_body_succeeds [OF assms] by blast
qed

theorem body_members_witness:
  "\<exists>root s m'. sicha_build_chat_body ex_reader ex_writer ex_backend ex_request True [] = (SICHA_OK, Some s, m')
     \<and> distinct (map fst root) \<and> obj_lookup root (lit ''model'') = Some (JStr (lit ''m''))"
proof -
  have "\<forall>v. json_ok v \<longrightarrow> ex_writer v \<noteq> None" by (simp add: ex_writer_def)
  then obtain s m' where b: "sicha_build_chat_body ex_reader ex_writer ex_backend ex_request True [] = (SICHA_OK, Some s, m')"
    using conjunct2 [OF body_members [OF ex_backend_wf, of ex_writer ex_request True]] ex_reader_ok ex_request_valid
    by (metis all_ok_Nil)
  have "extra_members ex_reader ex_backend = []" by code_simp
  moreover have model: "b_model ex_backend = Some (lit ''m'')" by code_simp
  moreover have "obj_lookup (own_members ex_reader ex_backend ex_request True) (lit ''model'') = Some (JStr (lit ''m''))"
    by (simp add: own_members_def model opt_bytes_def cstr_def)
  ultimately show ?thesis
    using conjunct1 [OF body_members [OF ex_backend_wf, of ex_writer ex_request True], rule_format, OF b] b by auto
qed


section \<open>The cancel token and the clock\<close>

text \<open>
  C26. In every reachable state of any number of threads that trigger, reset and wait on one
  token: once the flag is set and no trigger is between its store and its broadcast, no waiter
  is parked or about to park. The store under the mutex loses no wake-up. Every step of a waiter
  then brings it strictly nearer to returning, and it returns nonzero: with a fair scheduler a
  triggered waiter cannot stay.
\<close>

theorem token_no_lost_wakeup:
  assumes "reachable s" "sh_flag s \<noteq> 0" "\<forall>u. sh_pc s u \<noteq> Trig_stored"
  shows "sh_pc s t \<noteq> Wait_parked \<and> sh_pc s t \<noteq> Wait_checked
    \<and> (waiting (sh_pc s t) \<and> step t s s' \<longrightarrow>
         sh_flag s' = sh_flag s
         \<and> (waiting (sh_pc s' t) \<and> wait_rank (sh_pc s' t) < wait_rank (sh_pc s t) \<or> sh_pc s' t = Wait_read True))"
  using no_lost_wakeup [OF assms] waiter_advances [OF assms] by blast

text \<open>A waiter is parked, and another thread triggers the token.\<close>

definition ex_parked :: shared where
  "ex_parked = goto 0 Wait_parked ((goto 0 Wait_checked (goto 0 Wait_test (token_start\<lparr>sh_owner := Some 0\<rparr>)))\<lparr>sh_owner := None\<rparr>)"

definition ex_triggered :: shared where
  "ex_triggered = goto 1 Trig_broadcast (broadcast (goto 1 Trig_stored ((goto 1 Trig_locked (ex_parked\<lparr>sh_owner := Some 1\<rparr>))\<lparr>sh_flag := 1\<rparr>)))"

lemma ex_triggered_reachable: "reachable ex_triggered"
proof -
  let ?a = "goto 0 Wait_test (token_start\<lparr>sh_owner := Some 0\<rparr>)" and ?b = "goto 1 Trig_locked (ex_parked\<lparr>sh_owner := Some 1\<rparr>)"
  have "reachable ?a" by (rule reachable.step [OF start wait_lock]) (simp_all add: token_start_def)
  moreover have "step 0 ?a (goto 0 Wait_checked ?a)" by (rule wait_check) (simp_all add: token_start_def)
  ultimately have "reachable (goto 0 Wait_checked ?a)" by (rule reachable.step)
  moreover have "step 0 (goto 0 Wait_checked ?a) ex_parked" unfolding ex_parked_def by (rule wait_park) simp
  ultimately have p: "reachable ex_parked" by (rule reachable.step)
  have "step 1 ex_parked ?b" by (rule trigger_lock) (simp_all add: ex_parked_def token_start_def)
  with p have "reachable ?b" by (rule reachable.step)
  moreover have "step 1 ?b (goto 1 Trig_stored (?b\<lparr>sh_flag := 1\<rparr>))" by (rule trigger_store) simp
  ultimately have "reachable (goto 1 Trig_stored (?b\<lparr>sh_flag := 1\<rparr>))" by (rule reachable.step)
  moreover have "step 1 (goto 1 Trig_stored (?b\<lparr>sh_flag := 1\<rparr>)) ex_triggered"
    unfolding ex_triggered_def by (rule trigger_broadcast) simp
  ultimately show ?thesis by (rule reachable.step)
qed

lemma ex_triggered_facts: "sh_flag ex_triggered = 1" "sh_pc ex_triggered u \<noteq> Trig_stored" "sh_pc ex_triggered 0 = Wait_woken"
  "sh_owner ex_triggered = Some 1" "sh_pc ex_triggered 1 = Trig_broadcast"
  by (simp_all add: ex_triggered_def ex_parked_def token_start_def goto_def broadcast_def)

theorem token_no_lost_wakeup_witness:
  "sh_flag ex_triggered = 1 \<and> sh_pc ex_triggered 0 \<noteq> Wait_parked
    \<and> (\<exists>s. step 0 s (goto 0 Wait_test (s\<lparr>sh_owner := Some 0\<rparr>)) \<and> wait_rank Wait_test < wait_rank (sh_pc s 0))"
proof -
  let ?s = "goto 1 Idle (ex_triggered\<lparr>sh_owner := None\<rparr>)"
  have "step 1 ex_triggered ?s" by (rule trigger_unlock) (rule ex_triggered_facts(5))
  with ex_triggered_reachable have r: "reachable ?s" by (rule reachable.step)
  have st: "step 0 ?s (goto 0 Wait_test (?s\<lparr>sh_owner := Some 0\<rparr>))"
    by (rule wait_relock) (simp_all add: ex_triggered_facts)
  from token_no_lost_wakeup [OF r, of 0 "goto 0 Wait_test (?s\<lparr>sh_owner := Some 0\<rparr>)"] st
  have "\<exists>s. step 0 s (goto 0 Wait_test (s\<lparr>sh_owner := Some 0\<rparr>)) \<and> wait_rank Wait_test < wait_rank (sh_pc s 0)"
    by (auto simp: ex_triggered_facts waiting_def intro!: exI [of _ ?s])
  with token_no_lost_wakeup [OF ex_triggered_reachable, of 0] ex_triggered_facts show ?thesis by simp
qed

text \<open>
  C27. A wait on the built-in clock does not turn time back and returns nonzero only with the
  token set. When it returns 0, a wait of less than 2^60 ms (SICHA_WAIT_FOREVER_MS) on a clock
  below 2^63 ms has lasted at least as long as asked, through early wake-ups and for every
  interleaving with a trigger; and a wait of 2^60 ms or more on a token has gone on to the end
  of the clock. (Without a token the code gives up such a wait after 100 ms and returns 0: this
  property says nothing of that case, a finding does.)
\<close>

theorem real_wait_contract:
  assumes "real_wait_ms tok ms w = (rc, w')"
  shows "rw_time w \<le> rw_time w' \<and> (rc \<noteq> 0 \<longrightarrow> (\<exists>f. tok = Some f \<and> f w'))
    \<and> (rc = 0 \<and> ms < SICHA_WAIT_FOREVER_MS \<and> rw_time w' < clock_range \<longrightarrow>
         unat (rw_time w) + unat ms \<le> unat (rw_time w'))
    \<and> (rc = 0 \<and> SICHA_WAIT_FOREVER_MS \<le> ms \<and> tok \<noteq> None \<longrightarrow> rw_time w' = UINT64_MAX)"
proof -
  have "rw_time w' = UINT64_MAX" if "rc = 0" "SICHA_WAIT_FOREVER_MS \<le> ms" "tok \<noteq> None"
    using assms that real_wait_forever by (cases tok) auto
  with real_wait_mono [OF assms] real_wait_cancelled [OF assms] real_wait_full [OF assms] show ?thesis by blast
qed

text \<open>
  At 1000 ms: a wait of 5 ms that wakes up early after 2 ms, the same wait with a trigger after
  3 ms, and a wait for ever that a trigger ends after 40 ms.
\<close>

definition ex_world_at :: "(u64 \<times> bool) list \<Rightarrow> real_world" where
  "ex_world_at waits = \<lparr>rw_time = 1000, rw_flag = False, rw_lags = [], rw_waits = waits\<rparr>"

lemma ex_waits:
  "fst (real_wait_ms (Some rw_flag) 5 (ex_world_at [(2, False)])) = 0"
  "rw_time (snd (real_wait_ms (Some rw_flag) 5 (ex_world_at [(2, False)]))) < clock_range"
  "fst (real_wait_ms (Some rw_flag) 5 (ex_world_at [(3, True)])) = 1"
  "rw_time (snd (real_wait_ms (Some rw_flag) UINT64_MAX (ex_world_at [(7, False), (40, True)]))) < UINT64_MAX"
  by code_simp+

theorem real_wait_contract_witness:
  "fst (real_wait_ms (Some rw_flag) 5 (ex_world_at [(2, False)])) = 0
   \<and> 1005 \<le> unat (rw_time (snd (real_wait_ms (Some rw_flag) 5 (ex_world_at [(2, False)]))))
   \<and> rw_flag (snd (real_wait_ms (Some rw_flag) 5 (ex_world_at [(3, True)])))
   \<and> fst (real_wait_ms (Some rw_flag) UINT64_MAX (ex_world_at [(7, False), (40, True)])) \<noteq> 0"
proof -
  note R = real_wait_contract [OF surjective_pairing]
  have t: "unat (rw_time (ex_world_at ws)) = 1000" for ws by (simp add: ex_world_at_def)
  have "1005 \<le> unat (rw_time (snd (real_wait_ms (Some rw_flag) 5 (ex_world_at [(2, False)]))))"
    using R [where tok = "Some rw_flag" and ms = 5 and w = "ex_world_at [(2, False)]"] ex_waits(1,2) t [of "[(2, False)]"]
    by (simp add: SICHA_WAIT_FOREVER_MS_def)
  moreover have "rw_flag (snd (real_wait_ms (Some rw_flag) 5 (ex_world_at [(3, True)])))"
    using R [where tok = "Some rw_flag" and ms = 5 and w = "ex_world_at [(3, True)]"] ex_waits(3) by simp
  moreover have "fst (real_wait_ms (Some rw_flag) UINT64_MAX (ex_world_at [(7, False), (40, True)])) \<noteq> 0"
    using R [where tok = "Some rw_flag" and ms = UINT64_MAX and w = "ex_world_at [(7, False), (40, True)]"] ex_waits(4) le_MAX [of SICHA_WAIT_FOREVER_MS]
    by auto
  ultimately show ?thesis using ex_waits(1) by blast
qed

section \<open>The scripted transport\<close>



text \<open>
  C30. The scripted transport keeps the protocol of sicha.h for every script, clock, token and
  sink: the status line once and before the body, no success without it, and a nonzero answer of
  the sink ends the transfer as aborted by the sink.
\<close>

theorem script_keeps_protocol: "conforms (script_perform clk rq cancel w)"
  by (rule script.conforms)

text \<open>
  C31. On the built-in clock, delay_within returns whenever one of its deadlines is finite, for
  every delay, token and sequence of early wake-ups; and it answers cancelled only with the
  token set, the status of a deadline only when that deadline has passed (the first one first),
  and OK only when the delay is over and no deadline has passed.
\<close>

theorem delay_exact:
  "(dl_a < clock_range \<or> dl_b < clock_range \<longrightarrow>
      (\<exists>st x'. delay_within sicha_clock_real cancel delay_ms dl_a st_a dl_b st_b x = Some (st, x')))
    \<and> (\<forall>st x'. delay_within sicha_clock_real cancel delay_ms dl_a st_a dl_b st_b x = Some (st, x') \<longrightarrow>
      (\<exists>start \<ge> rw_time x. delay_answer (is_set_token cancel x') (rw_time x')
        (if UINT64_MAX - delay_ms < start then UINT64_MAX else start + delay_ms) dl_a st_a dl_b st_b st))"
proof (intro conjI impI allI)
  assume "dl_a < clock_range \<or> dl_b < clock_range"
  from real.delay_within_ends [OF this, of cancel delay_ms st_a st_b x]
  show "\<exists>st x'. delay_within sicha_clock_real cancel delay_ms dl_a st_a dl_b st_b x = Some (st, x')" by auto
qed (rule real.delay_within_sound)

theorem delay_exact_witness:
  "\<exists>st x' start. delay_within sicha_clock_real (Some rw_flag) 500 100 SICHA_T_E_TIMEOUT_CONNECT
      UINT64_MAX SICHA_T_E_TIMEOUT_TOTAL ex_time = Some (st, x')
    \<and> delay_answer (rw_flag x') (rw_time x') start 100 SICHA_T_E_TIMEOUT_CONNECT UINT64_MAX SICHA_T_E_TIMEOUT_TOTAL st"
proof -
  have "(100 :: u64) < clock_range" by (simp add: clock_range_def word_less_nat_alt)
  with delay_exact [of 100 UINT64_MAX "Some rw_flag" 500 SICHA_T_E_TIMEOUT_CONNECT SICHA_T_E_TIMEOUT_TOTAL ex_time]
  show ?thesis unfolding is_set_token_def by (fastforce split: option.splits)
qed

section \<open>The libcurl transport\<close>

text \<open>
  C32. Whatever libcurl feeds to the callbacks during a transfer, at most 256 response headers
  and 64 KiB of names and values are stored.
\<close>

theorem response_headers_within_caps:
  assumes "multi_loop lc ck sink cancel su t start (xfer_start\<lparr>x_last_activity_ms := now\<rparr>) w m = Some (st, x, w', m')"
  shows "length (x_headers x) \<le> SICHA_MAX_HEADERS
    \<and> sum_list (map (\<lambda>h. length (opt_bytes (hd_name h)) + length (opt_bytes (hd_value h))) (x_headers x))
        \<le> SICHA_MAX_HEADERS_TOTAL_BYTES"
proof -
  have "within_caps x"
    by (rule multi_loop_rule [where I = "\<lambda>x w. within_caps x" and Q = "\<lambda>st x w. within_caps x", OF assms within_caps_start])
      (auto intro: run_multi_caps)
  then show ?thesis by (simp add: within_caps_def)
qed

theorem response_headers_within_caps_witness:
  "\<exists>st x w' m'. multi_loop ex_curl ex_count_clock (Some ex_count_sink) None (easy_setup (chat_http_request ex_backend [] []) [])
      zero_timeouts 0 (xfer_start\<lparr>x_last_activity_ms := 0\<rparr>) 0 [] = Some (st, x, w', m') \<and> length (x_headers x) \<le> 256"
proof -
  obtain st x w' m' where run: "multi_loop ex_curl ex_count_clock (Some ex_count_sink) None
      (easy_setup (chat_http_request ex_backend [] []) []) zero_timeouts 0 (xfer_start\<lparr>x_last_activity_ms := 0\<rparr>) 0 []
      = Some (st, x, w', m')"
    using ex_multi_loop by blast
  from response_headers_within_caps [OF run] run show ?thesis unfolding SICHA_MAX_HEADERS_def by blast
qed

text \<open>
  C33. A libcurl transfer tells the sink its status line at most once (interim 1xx blocks and
  trailers included), and exactly once when it succeeds.
\<close>

theorem curl_success_told:
  assumes "counts_status told lc ck sk" "told w = 0"
    and "curl_perform lc (Some ck) req (Some sk) cancel s w = Some (st, s', w')"
  shows "told w' \<le> 1 \<and> (st = SICHA_T_OK \<longrightarrow> told w' = 1)"
  using assms by (rule curl_perform_told)

theorem curl_success_told_witness:
  "\<exists>st s' w'. curl_perform ex_curl (Some ex_count_clock) (Some (chat_http_request ex_backend [] [])) (Some ex_count_sink)
     None ex_pool 0 = Some (st, s', w') \<and> w' \<le> 1"
proof -
  obtain st s' w' where run: "curl_perform ex_curl (Some ex_count_clock) (Some (chat_http_request ex_backend [] []))
      (Some ex_count_sink) None ex_pool 0 = Some (st, s', w')"
    using ex_curl_perform by blast
  from curl_success_told [OF ex_counts _ run] run show ?thesis by simp
qed

text \<open>
  C36. Every way out of curl_perform keeps the invariant of the handle pool (no handle in two
  places, none leaked, none freed while held) and leaves the same slots in use as before.
\<close>

theorem curl_gives_slot_back:
  assumes "pool_inv T s" "curl_perform lc clk req sink cancel s w = Some (st, s', w')"
  shows "pool_inv T s' \<and> map sl_in_use (cs_slots s') = map sl_in_use (cs_slots s)"
  using assms by (rule curl_perform_pool)

theorem curl_gives_slot_back_witness:
  "\<exists>st s' w'. curl_perform ex_curl (Some ex_count_clock) (Some (chat_http_request ex_backend [] [])) (Some ex_count_sink)
     None ex_pool 0 = Some (st, s', w') \<and> pool_inv [] s'"
proof -
  obtain st s' w' where run: "curl_perform ex_curl (Some ex_count_clock) (Some (chat_http_request ex_backend [] []))
      (Some ex_count_sink) None ex_pool 0 = Some (st, s', w')"
    using ex_curl_perform by blast
  from curl_gives_slot_back [OF ex_pool_inv run] run show ?thesis by blast
qed

text \<open>
  C37. The header lines that curl_perform writes, sent back as the header block of a response
  and read by header_cb, reach the sink with the status: the same headers in the same order,
  each with its name and with its value without the blanks around it (blanks at the ends of a
  value are not kept). This holds for names without a colon that do not start with HTTP/ (which
  header_cb takes for a status line; no name that sicha accepts has either), within the caps on
  lines and blocks, with memory, after a status line that is not interim, and before a status
  was told (header_cb ignores the lines of a trailer).
\<close>

theorem header_round_trip:
  assumes "header_lines hs [] m0 = (Some ls, m1)" "\<forall>h \<in> set hs. plain_header h" "length hs \<le> SICHA_MAX_HEADERS"
      "block_bytes hs \<le> SICHA_MAX_HEADERS_TOTAL_BYTES"
    and "\<not> x_status_delivered x" "all_ok m" "take 5 s = lit ''HTTP/''" "\<not> (100 \<le> status_code s \<and> status_code s \<le> 199)"
    and "sk_on_status sk = Some f"
  shows "\<exists>gs w1 r x' m'. run_multi ck (Some sk) (handed (s # map (\<lambda>l. l @ crlf) (butlast ls) @ [crlf]) w) x m
      = (CURLM_OK, r, x', snd (f (int32 (status_code s)) gs w1), m') \<and> list_all2 read_back hs gs"
  using assms by (rule handed_block)

text \<open>A sink whose world is what it has been told, and two headers; the second value has blanks around it.\<close>

definition ex_told_clock :: "(int \<times> sicha_header list) sicha_clock" where
  "ex_told_clock = \<lparr>ck_now_ms = (\<lambda>w. (0, w)), ck_wait_ms = (\<lambda>tok ms w. (0, w))\<rparr>"

definition ex_told_sink :: "(int \<times> sicha_header list) sicha_http_sink" where
  "ex_told_sink = \<lparr>sk_on_status = Some (\<lambda>http hs w. (0, (http, hs))), sk_on_body = None\<rparr>"

definition ex_two_headers :: "sicha_header list" where
  "ex_two_headers = [\<lparr>hd_name = Some (lit ''A''), hd_value = Some (lit ''b'')\<rparr>, \<lparr>hd_name = Some (lit ''C''), hd_value = Some (lit '' d '')\<rparr>]"

lemma trimmed_unique: "trimmed v c \<Longrightarrow> c = header_value (0x20 # v @ crlf)"
  using header_value_trimmed by simp

theorem header_round_trip_witness:
  "\<exists>r x' m'. run_multi ex_told_clock (Some ex_told_sink) (handed [lit ''HTTP/1.1 200 OK'' @ crlf, lit ''A: b'' @ crlf,
      lit ''C:  d '' @ crlf, crlf] (0, [])) xfer_start []
    = (CURLM_OK, r, x', (200, [\<lparr>hd_name = Some (lit ''A''), hd_value = Some (lit ''b'')\<rparr>,
        \<lparr>hd_name = Some (lit ''C''), hd_value = Some (lit ''d'')\<rparr>]), m')"
proof -
  have h: "header_lines ex_two_headers [] [] = (Some [lit ''A: b'', lit ''C:  d '', lit ''Expect:''], [])" by code_simp
  have p: "\<forall>h \<in> set ex_two_headers. plain_header h" "length ex_two_headers \<le> SICHA_MAX_HEADERS"
    "block_bytes ex_two_headers \<le> SICHA_MAX_HEADERS_TOTAL_BYTES"
    by (simp_all add: ex_two_headers_def plain_header_def line_of_def header_line_def opt_bytes_def cstr_def lit_def block_bytes_def
        SICHA_MAX_HEADERS_def SICHA_MAX_HEADER_BYTES_def SICHA_MAX_HEADERS_TOTAL_BYTES_def)
  have s: "status_code (lit ''HTTP/1.1 200 OK'' @ crlf) = 200" "take 5 (lit ''HTTP/1.1 200 OK'' @ crlf) = lit ''HTTP/''"
    "int32 200 = 200" by code_simp+
  obtain f where f: "sk_on_status ex_told_sink = Some f" "\<And>http hs w. snd (f http hs w) = (http, hs)"
    by (simp add: ex_told_sink_def)
  have "\<not> x_status_delivered xfer_start" by (simp add: xfer_start_def)
  from header_round_trip [OF h p this _ s(2) _ f(1), of "[]" ex_told_clock "(0, [])"]
  obtain gs r x' m' where R: "run_multi ex_told_clock (Some ex_told_sink) (handed ((lit ''HTTP/1.1 200 OK'' @ crlf) #
      map (\<lambda>l. l @ crlf) (butlast [lit ''A: b'', lit ''C:  d '', lit ''Expect:'']) @ [crlf]) (0, [])) xfer_start []
      = (CURLM_OK, r, x', (200, gs), m')" "list_all2 read_back ex_two_headers gs"
    by (auto simp: s f(2) simp del: lit_simps)
  have "header_value (0x20 # lit ''b'' @ crlf) = lit ''b''" "header_value (0x20 # lit '' d '' @ crlf) = lit ''d''" by code_simp+
  with R(2) have "gs = [\<lparr>hd_name = Some (lit ''A''), hd_value = Some (lit ''b'')\<rparr>, \<lparr>hd_name = Some (lit ''C''), hd_value = Some (lit ''d'')\<rparr>]"
    by (auto simp: ex_two_headers_def list_all2_Cons1 read_back_def opt_bytes_def cstr_def lit_def intro!: sicha_header.equality
        dest!: trimmed_unique)
  with R(1) show ?thesis by (simp del: lit_simps)
qed


section \<open>Calls through the chain\<close>

text \<open>
  C2. The fallback chain works: if the backends before some backend in the chain are down (they
  refuse every transfer, or answer with a status that does not abort the call) and that backend
  answers well, the call succeeds, names that backend, and its result holds exactly the text,
  the reasoning and the body of that answer. Nothing the dead backends left behind gets in.
\<close>

theorem fallback_serves_call:
  assumes "able rd wr env c req" "all_ok m" "\<forall>ms w. fst (env_wait_ms env ms w) = 0"
    and "c_backends c = ds @ b # rest" "\<forall>d \<in> set ds. down env c False d"
    and "\<forall>w. answers env c b http body w" "200 \<le> http" "http \<le> 299" "good_reply rd c body rp"
    and "\<forall>f r w. cb_of cbs cb_validate = Some f \<longrightarrow> fst (f r w) = 0"
    and "case cbs of None \<Rightarrow> True | Some k \<Rightarrow> cb_struct_size_ok k"
  shows "\<exists>r c' w' m'. sicha_chat rd wr env (Some c) (Some req) cbs True w m = (SICHA_OK, Some r, c', w', m')
    \<and> r_backend r = int (length ds) \<and> buf_bytes (r_text r) = opt_bytes (rp_content rp)
    \<and> buf_bytes (r_reasoning r) = opt_bytes (rp_reasoning rp)
    \<and> take (r_raw_body_len r) (opt_bytes (r_raw_body r)) = body"
  using assms by (rule chat_falls_back)

theorem fallback_serves_call_witness:
  "\<exists>r c' w' m'. sicha_chat ex_reader ex_writer (ex_net_env ex_answer_once) (Some ex_chain) (Some ex_request) None True () []
      = (SICHA_OK, Some r, c', w', m') \<and> r_backend r = 1 \<and> buf_bytes (r_text r) = lit ''ok''"
proof -
  have "all_ok []" "\<forall>ms w. fst (env_wait_ms (ex_net_env ex_answer_once) ms w) = 0"
    "c_backends ex_chain = [ex_backend_down] @ ex_backend # []"
    "\<forall>d \<in> set [ex_backend_down]. down (ex_net_env ex_answer_once) ex_chain False d"
    by (simp_all add: down_def ex_refuses)
  from fallback_serves_call [OF ex_able this _ _ _ ex_chain_reply, of 200 None] ex_chain_answers
  show ?thesis by (fastforce simp: cb_of_def opt_bytes_def simp del: lit_simps)
qed

text \<open>
  C3. A streaming call whose backend answers, after refusals of the backends before it, with a
  complete stream within the caps succeeds, whatever pieces the transport cuts the stream into
  and whatever the callbacks do to the world as long as they go on; the result holds the text,
  the reasoning and the finish reason that the reference semantics gives to the bytes of the
  stream.
\<close>

theorem stream_delivers:
  assumes "able rd wr env c req" "all_ok m" "\<forall>ms w. fst (env_wait_ms env ms w) = 0"
    and "c_backends c = ds @ b # rest" "\<forall>d \<in> set ds. down env c True d"
    and "streams env b http body" "200 \<le> http" "http \<le> 299" "good_stream rd c body"
    and "accepts cbs" "\<forall>f r w. cb_of cbs cb_validate = Some f \<longrightarrow> fst (f r w) = 0"
    and "case cbs of None \<Rightarrow> True | Some k \<Rightarrow> cb_struct_size_ok k" "rq_flags req AND SICHA_REQ_NO_ACCUMULATE = 0"
  shows "\<exists>r c' w' m'. sicha_chat_stream rd wr env (Some c) (Some req) cbs True w m = (SICHA_OK, Some r, c', w', m')
    \<and> r_backend r = int (length ds) \<and> holds_stream rd body r"
  using assms by (rule chat_streams)

theorem stream_delivers_witness:
  "\<exists>r c' w' m'. sicha_chat_stream ex_reader ex_writer (ex_net_env ex_stream_once) (Some ex_chain) (Some ex_request)
      (Some ex_deltas) True () [] = (SICHA_OK, Some r, c', w', m') \<and> r_backend r = 1 \<and> buf_bytes (r_text r) = lit ''ok''"
proof -
  have "all_ok []" "\<forall>ms w. fst (env_wait_ms (ex_net_env ex_stream_once) ms w) = 0"
    "c_backends ex_chain = [ex_backend_down] @ ex_backend # []"
    "\<forall>d \<in> set [ex_backend_down]. down (ex_net_env ex_stream_once) ex_chain True d"
    by (simp_all add: down_def ex_refuses)
  from stream_delivers [OF ex_able this ex_streams _ _ ex_good_stream, of "Some ex_deltas"]
  show ?thesis
    by (fastforce simp: accepts_def cb_of_def ex_deltas_def ex_request_def holds_stream_def ex_stream_events
        ex_stream_content simp del: lit_simps)
qed

text \<open>
  C9. Whatever happens in a call, with any transport, callbacks and memory, the result it hands
  out is well typed: both texts are well-formed NUL-terminated buffers within the cap, the
  finish reason is the one of its raw string, the backend index is -1 or one of the client's
  backends, the token counts are at least -1, and every attempt record has all its strings, with
  the message and the excerpt within their bounds.
\<close>

theorem result_well_typed:
  assumes "chat_common rd wr env (Some c) request cbs out_set stream w m = (st, Some r, client', w', m')"
  shows "result_typed c r"
  using assms by (rule chat_result_typed)

theorem result_well_typed_witness:
  "\<exists>st r c' w' m'. chat_common ex_reader ex_writer ex_stream_env (Some ex_client) (Some ex_request)
      (Some ex_callbacks) True True [] [] = (st, Some r, c', w', m') \<and> result_typed ex_client r"
proof -
  obtain st r c' w' m' where run: "chat_common ex_reader ex_writer ex_stream_env (Some ex_client)
      (Some ex_request) (Some ex_callbacks) True True [] [] = (st, Some r, c', w', m')"
    using chat_has_result [OF _ ex_request_valid, of "Some ex_callbacks" ex_writer ex_stream_env ex_client True "[]"]
    by (auto simp: ex_callbacks_def)
  from result_well_typed [OF run] run show ?thesis by blast
qed

section \<open>Handles, threads and timed waits\<close>

text \<open>
  C35. In every interleaving of any number of threads that take and give back libcurl handles,
  two transfers that run at the same time work on disjoint, live handles; and when no transfer
  runs, sicha_curl_destroy leaves no handle behind.
\<close>

theorem curl_handles_exclusive:
  assumes "curl_runs n m (s, ts)"
  shows "(\<forall>i j a b x y. i < length ts \<and> j < length ts \<and> i \<noteq> j \<and> ts ! i = Transfers a x \<and> ts ! j = Transfers b y
        \<longrightarrow> set (slot_handles x) \<inter> set (slot_handles y) = {} \<and> set (slot_handles x) \<subseteq> cs_live s)
    \<and> (set ts \<subseteq> {Outside} \<longrightarrow> map_option cs_live (sicha_curl_destroy (Some s)) = Some {})"
  using transfers_exclusive [OF curl_runs_inv [OF assms]] destroy_after_transfers [OF curl_runs_inv [OF assms]] by blast

theorem curl_handles_exclusive_witness:
  "curl_runs 2 [] (ex_pool_both, [Transfers 0 (ex_slot 0), Transfers 1 (ex_slot 2)])
    \<and> set (slot_handles (ex_slot 0)) \<inter> set (slot_handles (ex_slot 2)) = {}"
proof -
  let ?s1 = "snd (snd (the (slot_acquire_locked ex_pool)))"
  have a: "slot_acquire_locked ex_pool = Some (0, Some (ex_slot 0), ?s1)"
    "slot_acquire_locked ?s1 = Some (1, Some (ex_slot 2), ex_pool_both)" "sicha_curl_create True [] = Some ex_pool"
    by code_simp+
  have "curl_step (ex_pool, [Outside, Outside]) (?s1, [Transfers 0 (ex_slot 0), Outside])"
    using curl_step.locked [OF a(1), of 0 "[Outside, Outside]"] by (simp add: got_def)
  moreover have "curl_step (?s1, [Transfers 0 (ex_slot 0), Outside])
      (ex_pool_both, [Transfers 0 (ex_slot 0), Transfers 1 (ex_slot 2)])"
    using curl_step.locked [OF a(2), of 1 "[Transfers 0 (ex_slot 0), Outside]"] by (simp add: got_def)
  ultimately have run: "curl_runs 2 [] (ex_pool_both, [Transfers 0 (ex_slot 0), Transfers 1 (ex_slot 2)])"
    unfolding curl_runs_def using a(3) by (auto simp: numeral_2_eq_2 intro: converse_rtranclp_into_rtranclp)
  from curl_handles_exclusive [OF run] have
    "set (slot_handles (ex_slot 0)) \<inter> set (slot_handles (ex_slot 2)) = {}" by force
  with run show ?thesis ..
qed

text \<open>
  C34. With a total timeout, a libcurl transfer returns whatever the server does, also when it
  never says a word: given that time passes between polls and that libcurl reports a transfer
  that has stopped. It answers with a timeout (connect, first byte, idle, total) only when that
  time is set and over (the connect timeout with the 50 ms the code allows). The idle time is
  measured from the last line or piece of the response that libcurl handed over, so a stream
  with fresh data does not die as idle; and connect and first-byte timeouts are answered only
  before the sink was told a status.
\<close>

theorem curl_deadlines:
  assumes "paced time left lc ck sink"
  shows "(has_deadline lc ck (hr_timeouts rq) w \<longrightarrow>
      (\<exists>st s' w'. curl_perform lc (Some ck) (Some rq) sink cancel s w = Some (st, s', w')))
    \<and> (\<forall>st s' w'. curl_perform lc (Some ck) (Some rq) sink cancel s w = Some (st, s', w') \<longrightarrow>
      time w \<le> time w' \<and> timeout_due (hr_timeouts rq) (unat (time w') - unat (time w)) st
      \<and> (observed time heard told lc ck sink \<longrightarrow>
           timeout_right (hr_timeouts rq) (unat (time w') - unat (heard w')) (told w' = told w) st))"
  using curl_perform_ends [OF assms] curl_perform_due [OF assms] curl_perform_right [OF assms] by blast

theorem curl_deadlines_witness:
  "\<exists>s' w'. curl_perform ex_stalled (Some ex_line_clock) (Some (chat_http_request ex_backend [] [])) (Some ex_line_sink) None
      ex_pool ex_line_start = Some (SICHA_T_E_TIMEOUT_IDLE, s', w')
    \<and> has_deadline ex_stalled ex_line_clock (hr_timeouts (chat_http_request ex_backend [] [])) ex_line_start
    \<and> unat (idle_ms (b_timeouts ex_backend)) \<le> unat (ln_time w') - unat (ln_heard w')
    \<and> unat (idle_ms (b_timeouts ex_backend)) \<le> unat (ln_time w')"
proof -
  let ?rq = "chat_http_request ex_backend [] []"
  obtain s' where run: "curl_perform ex_stalled (Some ex_line_clock) (Some ?rq) (Some ex_line_sink) None ex_pool ex_line_start
      = Some (SICHA_T_E_TIMEOUT_IDLE, s', ex_line_told\<lparr>ln_time := 300000\<rparr>)" using ex_stalls by blast
  from curl_deadlines [OF ex_stalled_paced, of ?rq ex_line_start None ex_pool ln_heard ln_told] run ex_stalled_deadline
    ex_stalled_observed
  show ?thesis
    by (simp add: timeout_due_def timeout_right_def chat_http_request_def ex_line_start_def)
qed

text \<open>
  C28. The timed wait on a condition variable answers 0 or 1, and 0 only after the full timeout,
  to the nanosecond: the carry of the nanoseconds and the 64-bit sums are right for every
  timeout below the one that means forever.
\<close>

theorem timedwait_waits_fully:
  assumes "\<forall>w. timespec_ok (fst (px_realtime px w)) \<and> unat (tv_sec (fst (px_realtime px w))) < 2 ^ 62
      \<and> time_of w \<le> nanos (fst (px_realtime px w))"
    and "\<forall>ts w w'. timespec_ok ts \<longrightarrow> px_cond_timedwait px ts w = (True, w') \<longrightarrow> nanos ts \<le> time_of w'"
    and "posix_timedwait_ms px ms w = (rc, w')"
  shows "(rc = 0 \<or> rc = 1) \<and> (rc = 0 \<longrightarrow> ms < SICHA_WAIT_FOREVER_MS \<and> time_of w + unat ms * 10 ^ 6 \<le> time_of w')"
  using assms by (rule posix_timedwait_full)

theorem timedwait_waits_fully_witness:
  "posix_timedwait_ms ex_posix 1500 False = (0, True) \<and> unat (1500 :: u64) * 10 ^ 6 \<le> 5 * 10 ^ 9"
proof -
  have run: "posix_timedwait_ms ex_posix 1500 False = (0, True)"
    by (simp add: posix_timedwait_ms_def ex_posix_def timespec_after_def nanos_def SICHA_WAIT_FOREVER_MS_def word_sle_eq)
  have 1: "\<forall>w. timespec_ok (fst (px_realtime ex_posix w)) \<and> unat (tv_sec (fst (px_realtime ex_posix w))) < 2 ^ 62
      \<and> (if w then 5 * 10 ^ 9 else 0) \<le> nanos (fst (px_realtime ex_posix w))"
    by (simp add: ex_posix_def timespec_ok_def nanos_def)
  have 2: "\<forall>ts w w'. timespec_ok ts \<longrightarrow> px_cond_timedwait ex_posix ts w = (True, w') \<longrightarrow>
      nanos ts \<le> (if w' then 5 * 10 ^ 9 else 0)"
    by (simp add: ex_posix_def)
  from timedwait_waits_fully [of ex_posix "\<lambda>w. if w then 5 * 10 ^ 9 else 0", OF 1 2 run] run show ?thesis by simp
qed


section \<open>Telemetry\<close>

text \<open>A client that keeps the attempt records it is told; its world is their list.\<close>

definition ex_recorder :: "sicha_attempt list sicha_callbacks" where
  "ex_recorder = \<lparr>cb_struct_size_ok = True, cb_on_delta = None, cb_on_reasoning = None, cb_on_raw_chunk = None,
     cb_on_attempt = Some (\<lambda>a w. w @ [a]), cb_validate = None\<rparr>"

definition ex_dead_env :: "sicha_attempt list client_env" where
  "ex_dead_env = \<lparr>env_now_ms = (\<lambda>w. (0, w)), env_wait_ms = (\<lambda>ms w. (0, w)), env_cancelled = None,
     env_perform = (\<lambda>rq tok w. T_done SICHA_T_E_CONNECT w), env_log = (\<lambda>text w. w)\<rparr>"

lemma fold_snoc: "fold (\<lambda>a x. x @ [a]) as x = x @ as"
  by (induction as arbitrary: x) simp_all

text \<open>
  C6. The telemetry is complete: what a call tells on_attempt is exactly the attempt records of
  its result, each once and in order, whatever the transport answers and however the call ends.
\<close>

theorem attempts_told:
  assumes "env_quiet obs env"
    and "calm obs (cb_of cbs cb_on_delta)" "calm obs (cb_of cbs cb_on_reasoning)" "calm obs (cb_of cbs cb_on_raw_chunk)"
    and "\<forall>f r w. cb_of cbs cb_validate = Some f \<longrightarrow> obs (snd (f r w)) = obs w"
    and "cb_of cbs cb_on_attempt = Some t" "\<forall>a w. obs (t a w) = obs w @ [a]"
    and "chat_common rd wr env client request cbs out_set stream w m = (st, Some r, client', w', m')"
  shows "obs w' = obs w @ r_attempts r"
proof -
  have "attempt_listener obs (\<lambda>a x. x @ [a]) cbs env"
    using assms(1-7) by unfold_locales auto
  from attempt_listener.chat_told [OF this assms(8)] show ?thesis by (simp add: fold_snoc)
qed

theorem attempts_told_witness:
  "\<exists>st r c' w' m'. chat_common ex_reader ex_writer ex_dead_env (Some ex_client) (Some ex_request)
      (Some ex_recorder) True False [] [] = (st, Some r, c', w', m') \<and> w' = r_attempts r"
proof -
  obtain st r c' w' m' where run: "chat_common ex_reader ex_writer ex_dead_env (Some ex_client) (Some ex_request)
      (Some ex_recorder) True False [] [] = (st, Some r, c', w', m')"
    using chat_has_result [OF _ ex_request_valid, of "Some ex_recorder" ex_writer ex_dead_env ex_client False "[]"]
    by (auto simp: ex_recorder_def)
  have q: "env_quiet (\<lambda>w. w) ex_dead_env" by (simp add: env_quiet_def ex_dead_env_def)
  have t: "cb_of (Some ex_recorder) cb_on_attempt = Some (\<lambda>a w. w @ [a])" by (simp add: cb_of_def ex_recorder_def)
  from attempts_told [OF q _ _ _ _ t _ run] run show ?thesis
    by (simp add: calm_def cb_of_def ex_recorder_def)
qed

section \<open>The fuzz harnesses\<close>

text \<open>
  C13. The fuzz harness of the SSE parser never aborts: for every input, the parse in one piece
  and the parse in the pieces of the schedule give the same status, code and digest of the
  events, and the only errors are the ones that the cap or the memory account for.
\<close>

theorem fuzz_sse_never_aborts:
  "fuzz_sse data []"
  by (rule fuzz_sse_holds)

text \<open>
  C16. The fuzz harness of the response code never aborts: whatever the body or stream, the JSON
  reader, the caps, the choice of callbacks, and whenever an allocation after the first fails,
  the codes are legal, -1 comes with a recorded error, the excerpt of the last event is within
  its cap, and the result is well formed, with token counts of at least -1.
\<close>

theorem fuzz_response_never_aborts:
  assumes "fst (alloc m)"
  shows "fuzz_response rd data m"
  using assms by (rule fuzz_response_holds)

theorem fuzz_response_never_aborts_witness:
  "fuzz_response ex_reader (1 # 0 # lit ''data: C'' @ [10, 10]) [True, False]"
  by (rule fuzz_response_never_aborts) simp

text \<open>
  C19. The fuzz harness of the request code, with memory and a reader that reads back what the
  writer writes, passes on exactly those inputs whose backend is rejected, or whose backend has
  no extra header Authorization that is allowed for want of a key and, for an accepted request,
  no extra body that overrides messages with something else than an array. So bodies are
  deterministic, valid JSON with every message as given, and headers carry no CR or LF; and the
  harness aborts on valid inputs of those two kinds.
\<close>

theorem fuzz_request_exact:
  assumes "all_ok m" "reads_back rd wr" "read_desc data = (desc, r)" "read_request r = (req, r')"
  shows "fuzz_request rd wr data m \<longleftrightarrow>
    (fst (sicha_backend_init rd desc m) = SICHA_OK \<longrightarrow>
       \<not> own_authorization desc
       \<and> (fst (sicha_request_validate rd req m) = SICHA_OK \<longrightarrow> \<not> messages_overridden rd desc))"
  using assms by (rule fuzz_request_holds)

theorem fuzz_request_exact_witness:
  "fuzz_request count_reader count_writer (desc_input [1] @ request_input) []
    \<and> \<not> fuzz_request count_reader count_writer (desc_input stray_input @ request_input) []"
  using fuzz_request_exact [OF all_ok_Nil count_reads_back input_plain input_request]
    fuzz_request_exact [OF all_ok_Nil count_reads_back input_stray input_request]
  by (simp add: input_accepted input_plain_aborts input_stray_aborts)

text \<open>
  C7. The fuzz harness of the engine never aborts: for every input, reader, writer and process
  environment, with memory, a whole call on the scripted transport, with the harness's clock,
  token and callbacks, ends with a legal status and a result of that status; the records are
  numbered through the call and within each backend as the harness expects, backends never go
  back, attempts stay within the budget, both texts are NUL-terminated. No delay on the
  harness's clock runs for ever.
\<close>

theorem fuzz_client_never_aborts:
  assumes "all_ok m" "all_ok ms"
  shows "fuzz_client rd wr pe data m ms
    \<and> (\<exists>st x'. delay_within the_fz_clock tok delay dl_a st_a dl_b st_b x = Some (st, x'))"
  using fuzz_client_holds [OF assms] fz_delay by blast

theorem fuzz_client_never_aborts_witness:
  "fuzz_client ex_reader ex_writer ex_process [2, 0, 0, 0, 0, 0, 0, 0, 0, 0, 0, 0] [] []"
  using fuzz_client_never_aborts [of "[]" "[]"] by simp

end
